(* ===== verification/Prelude.thy ===== *)
theory Prelude
  imports Main "HOL-Library.AList"
begin

section \<open>Shared vocabulary\<close>

text \<open>
  What the component theories share: results of fallible effects as sums (\<open>Inl\<close> the typed
  failure), JavaScript's insertion-ordered \<open>Map\<close> as an association list, the few array and
  string operations the sources use, and the generic lemmas the component proofs rest on.

  A JavaScript \<open>number\<close> that the sources use as a count or a version, and every \<open>bigint\<close>, is an
  \<open>int\<close>. A JavaScript string is a \<open>string\<close>, one \<open>char\<close> for one code unit below 256.
\<close>

named_theorems jsmap_simps \<open>lookup, key and domain equations of insertion-ordered maps\<close>
named_theorems store_simps \<open>field equations of the in-memory event store operations\<close>

subsection \<open>Results of fallible effects\<close>

type_synonym ('e, 'a) result = "'e + 'a"

fun bind_result :: "('e, 'a) result \<Rightarrow> ('a \<Rightarrow> ('e, 'b) result) \<Rightarrow> ('e, 'b) result" where
  "bind_result (Inl e) f = Inl e"
| "bind_result (Inr a) f = f a"

lemma bind_result_Inr_iff [simp]:
  "bind_result r f = Inr b \<longleftrightarrow> (\<exists>a. r = Inr a \<and> f a = Inr b)"
  by (cases r) auto

lemma bind_result_Inl_iff:
  "bind_result r f = Inl e \<longleftrightarrow> r = Inl e \<or> (\<exists>a. r = Inr a \<and> f a = Inl e)"
  by (cases r) auto

lemma bind_result_assoc:
  "bind_result (bind_result r f) g = bind_result r (\<lambda>a. bind_result (f a) g)"
  by (cases r) auto

subsection \<open>Insertion-ordered maps\<close>

text \<open>
  \<open>Map.set\<close> overwrites in place or adds at the end, which is \<^const>\<open>AList.update\<close>;
  \<open>Map.get\<close> is \<^const>\<open>map_of\<close>, \<open>Map.delete\<close> is \<^const>\<open>AList.delete\<close>.
\<close>

type_synonym ('k, 'v) jsmap = "('k \<times> 'v) list"

abbreviation jsget :: "('k, 'v) jsmap \<Rightarrow> 'k \<Rightarrow> 'v option" where
  "jsget \<equiv> map_of"

abbreviation jsset :: "'k \<Rightarrow> 'v \<Rightarrow> ('k, 'v) jsmap \<Rightarrow> ('k, 'v) jsmap" where
  "jsset \<equiv> AList.update"

abbreviation jsdelete :: "'k \<Rightarrow> ('k, 'v) jsmap \<Rightarrow> ('k, 'v) jsmap" where
  "jsdelete \<equiv> AList.delete"

abbreviation jskeys :: "('k, 'v) jsmap \<Rightarrow> 'k list" where
  "jskeys m \<equiv> map fst m"

lemma jsget_jsset [jsmap_simps, simp]:
  "jsget (jsset k v m) k' = (if k' = k then Some v else jsget m k')"
  by (simp add: AList.update_conv')

lemma jsget_jsdelete [jsmap_simps, simp]:
  "jsget (jsdelete k m) k' = (if k' = k then None else jsget m k')"
  by (simp add: AList.delete_conv')

lemma distinct_jskeys_jsset [jsmap_simps, simp]:
  "distinct (jskeys m) \<Longrightarrow> distinct (jskeys (jsset k v m))"
  by (rule AList.distinct_update)

lemma set_jskeys_jsset [jsmap_simps, simp]:
  "set (jskeys (jsset k v m)) = insert k (set (jskeys m))"
  by (simp only: set_map dom_map_of_conv_image_fst [symmetric] AList.update_conv') simp

lemma jskeys_jsset_present [jsmap_simps]:
  "k \<in> set (jskeys m) \<Longrightarrow> jskeys (jsset k v m) = jskeys m"
  by (induction m) auto

lemma jskeys_jsset_absent [jsmap_simps]:
  "k \<notin> set (jskeys m) \<Longrightarrow> jsset k v m = m @ [(k, v)]"
  by (induction m) auto

lemma set_jskeys_jsdelete [jsmap_simps]: "set (jskeys (jsdelete k m)) = set (jskeys m) - {k}"
  by (simp add: AList.delete_keys del: set_map)

lemma distinct_jskeys_jsdelete [jsmap_simps]: "distinct (jskeys m) \<Longrightarrow> distinct (jskeys (jsdelete k m))"
  by (simp add: AList.delete_keys distinct_removeAll)

lemma length_jsdelete [jsmap_simps]: "k \<in> set (jskeys m) \<Longrightarrow> length (jsdelete k m) < length m"
  by (induction m) (auto simp: AList.delete_eq intro!: le_imp_less_Suc length_filter_le)

lemma jsset_not_Nil [simp]: "jsset k v m \<noteq> []"
  by (cases m) auto

lemma jsget_None_iff: "jsget m k = None \<longleftrightarrow> k \<notin> set (jskeys m)"
  by (simp add: map_of_eq_None_iff)

lemma jsget_SomeD: "jsget m k = Some v \<Longrightarrow> k \<in> set (jskeys m)"
  using map_of_eq_None_iff [of m k] by auto

lemma jsget_mem: "distinct (jskeys m) \<Longrightarrow> (k, v) \<in> set m \<longleftrightarrow> jsget m k = Some v"
  by (auto dest: map_of_SomeD)

lemma ball_jsmap:
  "distinct (jskeys m) \<Longrightarrow> (\<forall>(k, v) \<in> set m. P k v) \<longleftrightarrow> (\<forall>k v. jsget m k = Some v \<longrightarrow> P k v)"
  by auto

text \<open>\<open>new Map(entries)\<close>: later entries of a key win.\<close>

definition jsmap_of_entries :: "('k \<times> 'v) list \<Rightarrow> ('k, 'v) jsmap" where
  "jsmap_of_entries kvs = foldl (\<lambda>m kv. jsset (fst kv) (snd kv) m) [] kvs"

lemma jsget_foldl_jsset:
  "jsget (foldl (\<lambda>m kv. jsset (fst kv) (snd kv) m) m kvs) k =
     (case jsget (rev kvs) k of None \<Rightarrow> jsget m k | Some v \<Rightarrow> Some v)"
  by (induction kvs arbitrary: m) (auto simp: map_add_def split: option.splits)

lemma jsget_of_entries [jsmap_simps]: "jsget (jsmap_of_entries kvs) k = jsget (rev kvs) k"
  by (simp add: jsmap_of_entries_def jsget_foldl_jsset split: option.splits)

lemma jsget_of_entries_distinct:
  assumes "distinct (jskeys kvs)" and "(k, v) \<in> set kvs"
  shows "jsget (jsmap_of_entries kvs) k = Some v"
  using assms by (simp add: jsget_of_entries rev_map [symmetric])

text \<open>\<open>map.get(k) ?? d\<close>\<close>

definition getOr :: "'v \<Rightarrow> 'v option \<Rightarrow> 'v" where
  "getOr d r = (case r of None \<Rightarrow> d | Some v \<Rightarrow> v)"

lemma getOr_simps [simp]: "getOr d None = d" "getOr d (Some v) = v"
  by (simp_all add: getOr_def)

subsection \<open>Arrays\<close>

lemma distinct_map_remove1: "distinct (map f xs) \<Longrightarrow> distinct (map f (remove1 x xs))"
  by (induction xs) (auto dest: subsetD [OF set_remove1_subset])

text \<open>\<open>xs.slice(0, n)\<close>: a negative end counts from the back.\<close>

definition slice0 :: "int \<Rightarrow> 'a list \<Rightarrow> 'a list" where
  "slice0 n xs = (if 0 \<le> n then take (nat n) xs else take (nat (int (length xs) + n)) xs)"

lemma slice0_prefix: "\<exists>ys. xs = slice0 n xs @ ys"
  by (metis append_take_drop_id slice0_def)

lemma slice0_nonneg [simp]: "0 \<le> n \<Longrightarrow> slice0 n xs = take (nat n) xs"
  by (simp add: slice0_def)

lemma set_slice0: "x \<in> set (slice0 n xs) \<Longrightarrow> x \<in> set xs"
  by (auto simp: slice0_def split: if_splits dest: in_set_takeD)

text \<open>\<open>xs.map((x, index) => f(index, x))\<close>\<close>

fun mapi_from :: "nat \<Rightarrow> (nat \<Rightarrow> 'a \<Rightarrow> 'b) \<Rightarrow> 'a list \<Rightarrow> 'b list" where
  "mapi_from i f [] = []"
| "mapi_from i f (x # xs) = f i x # mapi_from (Suc i) f xs"

abbreviation mapi :: "(nat \<Rightarrow> 'a \<Rightarrow> 'b) \<Rightarrow> 'a list \<Rightarrow> 'b list" where
  "mapi \<equiv> mapi_from 0"

lemma length_mapi_from [simp]: "length (mapi_from i f xs) = length xs"
  by (induction xs arbitrary: i) auto

lemma nth_mapi_from [simp]: "j < length xs \<Longrightarrow> mapi_from i f xs ! j = f (i + j) (xs ! j)"
  by (induction xs arbitrary: i j) (auto simp: nth_Cons split: nat.splits)

lemma mapi_from_eq_Nil [simp]: "mapi_from i f xs = [] \<longleftrightarrow> xs = []"
  by (cases xs) auto

lemma map_mapi_from: "map g (mapi_from i f xs) = mapi_from i (\<lambda>j x. g (f j x)) xs"
  by (induction xs arbitrary: i) auto

lemma mapi_from_const: "mapi_from i (\<lambda>j. f) xs = map f xs"
  by (induction xs arbitrary: i) auto

lemma in_set_mapi_from:
  "y \<in> set (mapi_from i f xs) \<longleftrightarrow> (\<exists>j < length xs. y = f (i + j) (xs ! j))"
  by (metis in_set_conv_nth length_mapi_from nth_mapi_from)

lemma filter_mapi_from_all:
  "(\<And>j x. P (f j x)) \<Longrightarrow> filter P (mapi_from i f xs) = mapi_from i f xs"
  by (induction xs arbitrary: i) auto

lemma filter_mapi_from_none:
  "(\<And>j x. \<not> P (f j x)) \<Longrightarrow> filter P (mapi_from i f xs) = []"
  by (induction xs arbitrary: i) auto

subsection \<open>Strings\<close>

text \<open>\<open>String.prototype.trim\<close> on code units below 256.\<close>

definition js_space :: "char \<Rightarrow> bool" where
  "js_space c \<longleftrightarrow> (of_char c :: nat) \<in> {9, 10, 11, 12, 13, 32, 160}"

definition trim :: "string \<Rightarrow> string" where
  "trim s = rev (dropWhile js_space (rev (dropWhile js_space s)))"

lemma trim_Nil [simp]: "trim [] = []"
  by (simp add: trim_def)

lemma trim_eq_Nil_iff: "trim s = [] \<longleftrightarrow> (\<forall>c \<in> set s. js_space c)"
proof -
  have "trim s = [] \<longleftrightarrow> (\<forall>c \<in> set (dropWhile js_space s). js_space c)"
    by (simp add: trim_def)
  also have "\<dots> \<longleftrightarrow> (\<forall>c \<in> set s. js_space c)"
    by (metis dropWhile_eq_Nil_conv hd_dropWhile hd_in_set set_dropWhileD)
  finally show ?thesis .
qed

text \<open>Decimal rendering of a number in a template literal.\<close>

definition digit_char :: "nat \<Rightarrow> char" where
  "digit_char n = char_of (48 + n)"

definition digit_val :: "char \<Rightarrow> nat" where
  "digit_val c = of_char c - 48"

fun show_nat :: "nat \<Rightarrow> string" where
  "show_nat n = (if n < 10 then [digit_char n] else show_nat (n div 10) @ [digit_char (n mod 10)])"

declare show_nat.simps [simp del]

definition show_int :: "int \<Rightarrow> string" where
  "show_int i = (if i < 0 then CHR ''-'' # show_nat (nat (- i)) else show_nat (nat i))"

definition read_nat :: "string \<Rightarrow> nat" where
  "read_nat = foldl (\<lambda>acc c. 10 * acc + digit_val c) 0"

definition is_digit :: "char \<Rightarrow> bool" where
  "is_digit c \<longleftrightarrow> 48 \<le> (of_char c :: nat) \<and> (of_char c :: nat) \<le> 57"

lemma digit_val_digit_char [simp]: "n < 10 \<Longrightarrow> digit_val (digit_char n) = n"
  by (simp add: digit_val_def digit_char_def)

lemma is_digit_digit_char [simp]: "n < 10 \<Longrightarrow> is_digit (digit_char n)"
  by (simp add: is_digit_def digit_char_def)

lemma read_nat_show_nat [simp]: "read_nat (show_nat n) = n"
proof (induction n rule: show_nat.induct)
  case (1 n)
  show ?case
  proof (cases "n < 10")
    case True
    then show ?thesis by (simp add: show_nat.simps [of n] read_nat_def)
  next
    case False
    with 1 have "read_nat (show_nat (n div 10)) = n div 10" by simp
    with False show ?thesis by (simp add: show_nat.simps [of n] read_nat_def)
  qed
qed

lemma show_nat_digits: "\<forall>c \<in> set (show_nat n). is_digit c"
proof (induction n rule: show_nat.induct)
  case (1 n)
  then show ?case by (cases "n < 10") (auto simp: show_nat.simps [of n])
qed

lemma show_nat_not_Nil [simp]: "show_nat n \<noteq> []"
  by (subst show_nat.simps) simp

lemma show_nat_inject [simp]: "show_nat m = show_nat n \<longleftrightarrow> m = n"
  by (metis read_nat_show_nat)

lemma not_is_digit [simp]: "\<not> is_digit (CHR '':'')" "\<not> is_digit (CHR ''-'')"
  by (simp_all add: is_digit_def)

lemma show_nat_no_colon [simp]: "CHR '':'' \<notin> set (show_nat n)"
  using show_nat_digits [of n] by force

text \<open>Splitting at the first occurrence of a separator is unique.\<close>

lemma append_sep_inject:
  assumes "xs @ c # ys = xs' @ c # ys'" and "c \<notin> set xs" and "c \<notin> set xs'"
  shows "xs = xs' \<and> ys = ys'"
proof -
  have "takeWhile (\<lambda>x. x \<noteq> c) (xs @ c # ys) = xs"
    using assms(2) by (induction xs) auto
  moreover have "takeWhile (\<lambda>x. x \<noteq> c) (xs' @ c # ys') = xs'"
    using assms(3) by (induction xs') auto
  ultimately have "xs = xs'" using assms(1) by metis
  then show ?thesis using assms(1) by simp
qed

text \<open>Quotation marks around a value, \<open>Array.join\<close>, the lower-case form of an ASCII letter.\<close>

definition quoted :: "string \<Rightarrow> string" where
  "quoted s = CHR 0x22 # s @ [CHR 0x22]"

definition join :: "string \<Rightarrow> string list \<Rightarrow> string" where
  "join sep parts = (case parts of [] \<Rightarrow> [] | p # ps \<Rightarrow> p @ concat (map (\<lambda>q. sep @ q) ps))"

definition lower_char :: "char \<Rightarrow> char" where
  "lower_char c = (let n = of_char c :: nat in if 65 \<le> n \<and> n \<le> 90 then char_of (n + 32) else c)"

text \<open>\<open>s.split(c)\<close> for a separator of one character, and \<open>s.split(/\s+/)\<close>.\<close>

fun split_char :: "char \<Rightarrow> string \<Rightarrow> string list" where
  "split_char c [] = [[]]"
| "split_char c (x # xs) =
     (if x = c then [] # split_char c xs
      else case split_char c xs of [] \<Rightarrow> [[x]] | w # ws \<Rightarrow> (x # w) # ws)"

lemma split_char_not_Nil [simp]: "split_char c s \<noteq> []"
  by (induction s) (auto split: list.splits)

lemma split_char_none: "c \<notin> set s \<Longrightarrow> split_char c s = [s]"
  by (induction s) auto

function split_spaces :: "string \<Rightarrow> string list" where
  "split_spaces s =
     (let word = takeWhile (\<lambda>c. \<not> js_space c) s; rest = dropWhile (\<lambda>c. \<not> js_space c) s in
      if rest = [] then [word] else word # split_spaces (dropWhile js_space rest))"
  by pat_completeness auto

lemma length_dropWhile_hd: "xs \<noteq> [] \<Longrightarrow> P (hd xs) \<Longrightarrow> length (dropWhile P xs) < length xs"
  by (cases xs) (auto simp: le_imp_less_Suc length_dropWhile_le)

lemma split_spaces_decreases:
  assumes "dropWhile (\<lambda>c. \<not> js_space c) s \<noteq> []"
  shows "length (dropWhile js_space (dropWhile (\<lambda>c. \<not> js_space c) s)) < length s"
  using length_dropWhile_hd [OF assms, of js_space] hd_dropWhile [OF assms]
    length_dropWhile_le [of "\<lambda>c. \<not> js_space c" s]
  by linarith

termination split_spaces
  by (relation "measure length") (simp_all add: split_spaces_decreases del: dropWhile_eq_Nil_conv)

declare split_spaces.simps [simp del]

text \<open>\<open>Number(digits)\<close> is an integer unless the literal rounds to infinity.\<close>

definition is_finite_number :: "nat \<Rightarrow> bool" where
  "is_finite_number n \<longleftrightarrow> n < 2 ^ 1024 - 2 ^ 970"

lemma small_finite_number [simp]: "n < 1000000 \<Longrightarrow> is_finite_number n"
  by (simp add: is_finite_number_def)

lemma is_finite_number_code [code]:
  "is_finite_number n = (if int n < 1000000 then True else n < 2 ^ 1024 - 2 ^ 970)"
  by (simp add: is_finite_number_def)

text \<open>\<open>String(n).padStart(w, "0")\<close>\<close>

definition pad_start :: "nat \<Rightarrow> string \<Rightarrow> string" where
  "pad_start w s = replicate (w - length s) (CHR ''0'') @ s"

end
