(* ===== verification/Json.thy ===== *)
theory Json
  imports Prelude "HOL-Library.Multiset" "HOL-Library.List_Lexorder" "HOL-Library.Char_ord"
begin

section \<open>JSON values and their canonical text\<close>

text \<open>
  The values the sources pass around as \<open>unknown\<close>, and the canonical JSON text of
  \<open>packages/eventsourcing/src/HistoryImport.ts\<close> from which batch checksums and resume tokens
  are derived. Numbers are integers; an object is the list of its own members in enumeration
  order. \<open>JSON.stringify\<close> is modelled for these values, with the replacer of \<open>stableJson\<close>.
\<close>

datatype json =
    JUndefined
  | JNull
  | JBool bool
  | JNum int
  | JBigInt int
  | JStr string
  | JArr "json list"
  | JObj "(string \<times> json) list"

subsection \<open>Enumeration order of object members\<close>

text \<open>
  Members whose key is an array index come first, in ascending numeric order, then the others
  in insertion order. Assigning the member \<open>__proto__\<close> sets the prototype and creates no own
  member.
\<close>

definition is_array_index :: "string \<Rightarrow> bool" where
  "is_array_index k \<longleftrightarrow> k = show_nat (read_nat k) \<and> read_nat k < 4294967295"

definition assign_members :: "(string \<times> json) list \<Rightarrow> (string \<times> json) list" where
  "assign_members kvs =
     (let own = filter (\<lambda>kv. fst kv \<noteq> ''__proto__'') kvs
      in sort_key (\<lambda>kv. read_nat (fst kv)) (filter (\<lambda>kv. is_array_index (fst kv)) own)
         @ filter (\<lambda>kv. \<not> is_array_index (fst kv)) own)"

fun canonical :: "json \<Rightarrow> json" where
  "canonical (JArr xs) = JArr (map canonical xs)"
| "canonical (JObj kvs) =
     JObj (assign_members
       (map (\<lambda>kv. (fst kv, canonical (snd kv)))
         (filter (\<lambda>kv. snd kv \<noteq> JUndefined) (sort_key fst kvs))))"
| "canonical v = v"

subsection \<open>JSON text\<close>

definition hex_char :: "nat \<Rightarrow> char" where
  "hex_char n = (if n < 10 then char_of (48 + n) else char_of (87 + n))"

definition escape_char :: "char \<Rightarrow> string" where
  "escape_char c =
     (let n = of_char c :: nat; bs = CHR 0x5C in
      if n = 34 then [bs, c]
      else if n = 92 then [bs, bs]
      else if n = 8 then [bs, CHR ''b'']
      else if n = 12 then [bs, CHR ''f'']
      else if n = 10 then [bs, CHR ''n'']
      else if n = 13 then [bs, CHR ''r'']
      else if n = 9 then [bs, CHR ''t'']
      else if n < 32 then [bs, CHR ''u'', CHR ''0'', CHR ''0'', hex_char (n div 16), hex_char (n mod 16)]
      else [c])"

definition quote_string :: "string \<Rightarrow> string" where
  "quote_string s = CHR 0x22 # concat (map escape_char s) @ [CHR 0x22]"

definition comma_join :: "string list \<Rightarrow> string" where
  "comma_join parts = (case parts of [] \<Rightarrow> [] | p # ps \<Rightarrow> p @ concat (map (\<lambda>q. CHR '','' # q) ps))"

fun stringify :: "json \<Rightarrow> string option" where
  "stringify JUndefined = None"
| "stringify JNull = Some ''null''"
| "stringify (JBool b) = Some (if b then ''true'' else ''false'')"
| "stringify (JNum i) = Some (show_int i)"
| "stringify (JBigInt i) = Some (quote_string (show_int i))"
| "stringify (JStr s) = Some (quote_string s)"
| "stringify (JArr xs) =
     Some (''['' @ comma_join (map (\<lambda>x. getOr ''null'' (stringify x)) xs) @ '']'')"
| "stringify (JObj kvs) =
     Some (''{'' @ comma_join (concat (map
         (\<lambda>kv. case stringify (snd kv) of
            None \<Rightarrow> []
          | Some t \<Rightarrow> [quote_string (fst kv) @ '':'' @ t]) kvs))
       @ ''}'')"

definition stableJson :: "json \<Rightarrow> string" where
  "stableJson v = getOr ''null'' (stringify (canonical v))"

subsection \<open>The text does not depend on the member order\<close>

lemma sort_key_fst_perm:
  assumes "mset kvs = mset kvs'" and "distinct (map fst kvs)"
  shows "sort_key fst kvs = sort_key fst kvs'"
proof (rule sort_key_inj_key_eq)
  show "mset kvs = mset (sort_key fst kvs')" using assms(1) by simp
  show "inj_on fst (set kvs)" using assms(2) by (simp add: distinct_map)
  show "sorted (map fst (sort_key fst kvs'))" by simp
qed

lemma canonical_perm:
  assumes "mset kvs = mset kvs'" and "distinct (map fst kvs)"
  shows "canonical (JObj kvs) = canonical (JObj kvs')"
  by (simp add: sort_key_fst_perm [OF assms])

lemma canonical_eq_JUndefined [simp]: "canonical v = JUndefined \<longleftrightarrow> v = JUndefined"
  by (cases v) auto

lemma insort_key_map:
  "(\<And>x. f (g x) = f x) \<Longrightarrow> insort_key f (g x) (map g xs) = map g (insort_key f x xs)"
  by (induction xs) auto

lemma sort_key_map: "(\<And>x. f (g x) = f x) \<Longrightarrow> sort_key f (map g xs) = map g (sort_key f xs)"
  by (induction xs) (simp_all add: insort_key_map)

text \<open>The canonical form of an object depends on its members' canonical values only.\<close>

lemma canonical_JObj:
  "canonical (JObj kvs) =
     JObj (assign_members (filter (\<lambda>kv. snd kv \<noteq> JUndefined) (sort_key fst (map (\<lambda>kv. (fst kv, canonical (snd kv))) kvs))))"
  by (simp add: sort_key_map filter_map comp_def)

lemma canonical_JObj_cong:
  "map (\<lambda>kv. (fst kv, canonical (snd kv))) kvs = map (\<lambda>kv. (fst kv, canonical (snd kv))) kvs' \<Longrightarrow>
     canonical (JObj kvs) = canonical (JObj kvs')"
  by (simp only: canonical_JObj)

lemma stableJson_perm:
  assumes "mset kvs = mset kvs'" and "distinct (map fst kvs)"
  shows "stableJson (JObj kvs) = stableJson (JObj kvs')"
  by (simp only: stableJson_def canonical_perm [OF assms])

end
