(* ===== verification/Domain.thy ===== *)
theory Domain
  imports Json
begin

section \<open>Domain building blocks\<close>

text \<open>
  \<open>packages/domain/src\<close>: the classified error taxonomy (\<open>errors.ts\<close>), the event envelope
  metadata (\<open>DomainEvent.ts\<close>) in the encoded form adapters persist, branded identifiers
  (\<open>EntityId.ts\<close>) and decider-style aggregates (\<open>Aggregate.ts\<close>).
\<close>

subsection \<open>Errors\<close>

datatype FailureClass = Transient | Permanent | Conflict

datatype DomainError =
    InvariantViolation string "string option"
  | NotFound string string
  | ConcurrencyConflict string string int int
  | ValidationFailed string "string list"

fun classification :: "DomainError \<Rightarrow> FailureClass" where
  "classification (InvariantViolation rl details) = Permanent"
| "classification (NotFound entity ident) = Permanent"
| "classification (ConcurrencyConflict entity ident expected actual) = Conflict"
| "classification (ValidationFailed subject issues) = Permanent"

fun message :: "DomainError \<Rightarrow> string" where
  "message (InvariantViolation rl details) =
     (case details of None \<Rightarrow> rl | Some d \<Rightarrow> rl @ '': '' @ d)"
| "message (NotFound entity ident) = entity @ '' '' @ ident @ '' not found''"
| "message (ConcurrencyConflict entity ident expected actual) =
     entity @ '' '' @ ident @ '': expected version '' @ show_int expected @ '', found '' @ show_int actual"
| "message (ValidationFailed subject issues) =
     subject @ '' is invalid:'' @ concat (map (\<lambda>i. CHR 0x0A # ''  - '' @ i) issues)
       @ (if issues = [] then [CHR 0x0A] else [])"

datatype PersistenceError = PersistenceError (operation: string) (cause: json)

subsection \<open>Event metadata\<close>

record Origin =
  node :: string
  originPosition :: string

record EventMetadata =
  eventId :: string
  occurredAt :: string
  aggregateName :: string
  aggregateId :: string
  aggregateVersion :: int
  correlationId :: "string option"
  causationId :: "string option"
  actor :: "string option"
  partition :: "string option"
  origin :: "Origin option"
  extensions :: "(string \<times> json) list option"

text \<open>A stored metadata object as the JSON value the checksum covers: absent members are absent.\<close>

definition opt_member :: "string \<Rightarrow> ('a \<Rightarrow> json) \<Rightarrow> 'a option \<Rightarrow> (string \<times> json) list" where
  "opt_member k f r = (case r of None \<Rightarrow> [] | Some v \<Rightarrow> [(k, f v)])"

definition metadata_json :: "EventMetadata \<Rightarrow> json" where
  "metadata_json m = JObj (
     [(''eventId'', JStr (eventId m)), (''occurredAt'', JStr (occurredAt m)),
      (''aggregateName'', JStr (aggregateName m)), (''aggregateId'', JStr (aggregateId m)),
      (''aggregateVersion'', JNum (aggregateVersion m))]
     @ opt_member ''correlationId'' JStr (correlationId m)
     @ opt_member ''causationId'' JStr (causationId m)
     @ opt_member ''actor'' JStr (actor m)
     @ opt_member ''partition'' JStr (partition m)
     @ opt_member ''origin''
         (\<lambda>o'. JObj [(''node'', JStr (node o')), (''position'', JStr (originPosition o'))]) (origin m)
     @ opt_member ''extensions'' JObj (extensions m))"

subsection \<open>Entity identifiers\<close>

text \<open>\<open>make\<close> throws on the empty string (\<open>Schema.minLength(1)\<close>), the model's \<open>None\<close>.\<close>

definition make_EntityId :: "string \<Rightarrow> string option" where
  "make_EntityId raw = (if raw = [] then None else Some raw)"

subsection \<open>Aggregates\<close>

record ('s, 'c, 'e, 'err) Aggregate =
  name :: string
  initial :: 's
  decide :: "'s \<Rightarrow> 'c \<Rightarrow> ('err, 'e list) result"
  evolve :: "'s \<Rightarrow> 'e \<Rightarrow> 's"

fun rehydrate :: "('s, 'c, 'e, 'err) Aggregate \<Rightarrow> 'e list \<Rightarrow> 's \<Rightarrow> 's" where
  "rehydrate aggregate [] state = state"
| "rehydrate aggregate (event # events) state = rehydrate aggregate events (evolve aggregate state event)"

definition execute_aggregate ::
  "('s, 'c, 'e, 'err) Aggregate \<Rightarrow> 's \<Rightarrow> 'c \<Rightarrow> ('err, 's \<times> 'e list) result" where
  "execute_aggregate aggregate state command =
     (case decide aggregate state command of
        Inl e \<Rightarrow> Inl e
      | Inr events \<Rightarrow> Inr (rehydrate aggregate events state, events))"

lemma rehydrate_append [simp]:
  "rehydrate a (xs @ ys) s = rehydrate a ys (rehydrate a xs s)"
  by (induction xs arbitrary: s) auto

lemma rehydrate_foldl: "rehydrate a xs s = foldl (evolve a) s xs"
  by (induction xs arbitrary: s) auto

end
