(* ===== verification/EventStore.thy ===== *)
theory EventStore
  imports Domain
begin

section \<open>The event store\<close>

text \<open>
  The event store port of \<open>packages/eventsourcing/src/EventStore.ts\<close> and its in-memory adapter
  in \<open>memory.ts\<close>: events, the append-only state, \<open>append\<close> with optimistic concurrency, \<open>read\<close>
  and \<open>readAll\<close>. The invariant \<open>store_inv\<close> says that the global feed is gap-free, that every
  stream is the feed restricted to its name and is numbered from 1, and that an erased stream is
  pinned at the version it was erased at. The locale \<open>event_store\<close> is the port's contract.
\<close>

subsection \<open>Events\<close>

record SerializedEvent =
  etype :: string
  schemaVersion :: int
  payload :: json

record AppendEvent = SerializedEvent +
  metadata :: EventMetadata

record StoredEvent = AppendEvent +
  position :: int
  streamName :: string
  version :: int

record AppendResult =
  firstVersion :: int
  lastVersion :: int

datatype PartitionFilter = OnePartition string | ManyPartitions "string list"

record ReadAllOptions =
  fromPosition :: "int option"
  batchSize :: "int option"
  partitionFilter :: "PartitionFilter option"

datatype StoreFailure = DomainFailure DomainError | PersistenceFailure PersistenceError

text \<open>\<open>[...new Set(xs)]\<close> keeps the first occurrence of every element.\<close>

definition dedup :: "'a list \<Rightarrow> 'a list" where
  "dedup xs = rev (remdups (rev xs))"

fun readAllPartitions :: "PartitionFilter option \<Rightarrow> string list option" where
  "readAllPartitions None = None"
| "readAllPartitions (Some (OnePartition p)) = Some [p]"
| "readAllPartitions (Some (ManyPartitions ps)) = Some (dedup ps)"

subsection \<open>State of the in-memory store\<close>

record ErasedStreamRecord =
  erasedVersion :: int
  erasedAt :: string
  erasedReason :: string

record HistoryImportSession =
  sessionToken :: string
  sessionPosition :: int
  sessionComplete :: bool

datatype ImportStatus = Imported | Unchanged

record HistoryImportResult =
  status :: ImportStatus
  importedCount :: int
  lastPosition :: int
  resumeToken :: string
  complete :: bool

record HistoryImportBatchRecord =
  recChecksum :: string
  recPreviousToken :: "string option"
  recComplete :: bool
  recResult :: HistoryImportResult

record EventStoreState =
  streams :: "(string, StoredEvent list) jsmap"
  allEvents :: "StoredEvent list"
  importSessions :: "(string, HistoryImportSession) jsmap"
  importBatches :: "(string, HistoryImportBatchRecord) jsmap"
  erased :: "(string, ErasedStreamRecord) jsmap"

definition emptyStore :: EventStoreState where
  "emptyStore = \<lparr>streams = [], allEvents = [], importSessions = [], importBatches = [], erased = []\<rparr>"

definition streamOf :: "EventStoreState \<Rightarrow> string \<Rightarrow> StoredEvent list" where
  "streamOf st sn = getOr [] (jsget (streams st) sn)"

subsection \<open>Operations\<close>

definition conflictIdentity :: "string \<Rightarrow> string \<times> string" where
  "conflictIdentity sn =
     (if CHR ''-'' \<in> set sn
      then (takeWhile (\<lambda>c. c \<noteq> CHR ''-'') sn, tl (dropWhile (\<lambda>c. c \<noteq> CHR ''-'') sn))
      else (sn, sn))"

definition append_conflict :: "string \<Rightarrow> int \<Rightarrow> int \<Rightarrow> StoreFailure" where
  "append_conflict sn expectedVersion actualVersion =
     (case conflictIdentity sn of (entity, ident) \<Rightarrow>
        DomainFailure (ConcurrencyConflict entity ident expectedVersion actualVersion))"

definition storeEvents :: "int \<Rightarrow> string \<Rightarrow> int \<Rightarrow> AppendEvent list \<Rightarrow> StoredEvent list" where
  "storeEvents basePosition sn actualVersion events =
     mapi (\<lambda>index event.
       \<lparr>etype = etype event, schemaVersion = schemaVersion event, payload = payload event,
        metadata = metadata event, position = basePosition + int (index + 1), streamName = sn,
        version = actualVersion + int index + 1\<rparr>) events"

definition append_mem ::
  "string \<Rightarrow> int \<Rightarrow> AppendEvent list \<Rightarrow> EventStoreState
    \<Rightarrow> (StoreFailure, AppendResult) result \<times> EventStoreState" where
  "append_mem sn expectedVersion events st =
     (case jsget (erased st) sn of
        Some rec \<Rightarrow> (Inl (append_conflict sn expectedVersion (erasedVersion rec)), st)
      | None \<Rightarrow>
          (let existing = streamOf st sn; actualVersion = int (length existing) in
           if actualVersion \<noteq> expectedVersion
           then (Inl (append_conflict sn expectedVersion actualVersion), st)
           else if events = []
           then (Inr \<lparr>firstVersion = actualVersion, lastVersion = actualVersion\<rparr>, st)
           else
             (let stored = storeEvents (int (length (allEvents st))) sn actualVersion events in
              (Inr \<lparr>firstVersion = actualVersion + 1,
                    lastVersion = actualVersion + int (length events)\<rparr>,
               st\<lparr>streams := jsset sn (existing @ stored) (streams st),
                  allEvents := allEvents st @ stored\<rparr>))))"

definition read_mem :: "string \<Rightarrow> int option \<Rightarrow> EventStoreState \<Rightarrow> StoredEvent list" where
  "read_mem sn fromVersion st = filter (\<lambda>e. version e \<ge> getOr 1 fromVersion) (streamOf st sn)"

definition in_partitions :: "string list option \<Rightarrow> StoredEvent \<Rightarrow> bool" where
  "in_partitions parts e =
     (case parts of
        None \<Rightarrow> True
      | Some ps \<Rightarrow> (case partition (metadata e) of None \<Rightarrow> False | Some p \<Rightarrow> p \<in> set ps))"

definition readAll_mem :: "ReadAllOptions \<Rightarrow> EventStoreState \<Rightarrow> StoredEvent list" where
  "readAll_mem opts st =
     (let parts = readAllPartitions (partitionFilter opts);
          events = filter (\<lambda>e. position e \<ge> getOr 1 (fromPosition opts) \<and> in_partitions parts e)
                     (allEvents st)
      in case batchSize opts of None \<Rightarrow> events | Some n \<Rightarrow> slice0 n events)"

subsection \<open>Numbering\<close>

text \<open>\<open>numbered f xs\<close>: the elements carry \<open>f = 1, 2, 3, \<dots>\<close> in order.\<close>

definition numbered :: "('a \<Rightarrow> int) \<Rightarrow> 'a list \<Rightarrow> bool" where
  "numbered f xs \<longleftrightarrow> (\<forall>i < length xs. f (xs ! i) = int i + 1)"

lemma numbered_Nil [simp]: "numbered f []"
  by (simp add: numbered_def)

lemma numbered_append:
  "numbered f (xs @ ys) \<longleftrightarrow>
     numbered f xs \<and> (\<forall>i < length ys. f (ys ! i) = int (length xs) + int i + 1)"
proof -
  have "(\<forall>i < length xs + length ys. f ((xs @ ys) ! i) = int i + 1) \<longleftrightarrow>
      (\<forall>i < length xs. f (xs ! i) = int i + 1) \<and>
      (\<forall>i < length ys. f (ys ! i) = int (length xs + i) + 1)" (is "?l \<longleftrightarrow> ?r")
  proof
    assume ?l
    then show ?r
      by (metis (mono_tags, lifting) nat_add_left_cancel_less nth_append nth_append_length_plus
          trans_less_add1)
  next
    assume r: ?r
    show ?l
    proof (intro allI impI)
      fix i assume "i < length xs + length ys"
      with r show "f ((xs @ ys) ! i) = int i + 1"
        by (cases "i < length xs") (auto simp: nth_append)
    qed
  qed
  then show ?thesis by (simp add: numbered_def)
qed

lemma numbered_map: "(\<And>x. x \<in> set xs \<Longrightarrow> g (h x) = f x) \<Longrightarrow> numbered g (map h xs) = numbered f xs"
  by (auto simp: numbered_def)

lemma numbered_distinct: "numbered f xs \<Longrightarrow> distinct (map f xs)"
  by (simp add: numbered_def distinct_conv_nth)

lemma numbered_inj:
  assumes "numbered f xs" and "x \<in> set xs" and "y \<in> set xs" and "f x = f y"
  shows "x = y"
proof -
  have "inj_on f (set xs)"
    using numbered_distinct [OF assms(1)] by (simp add: distinct_map)
  then show ?thesis using assms(2-4) by (auto dest: inj_onD)
qed

lemma numbered_range:
  assumes "numbered f xs" and "x \<in> set xs"
  shows "1 \<le> f x \<and> f x \<le> int (length xs)"
  using assms by (auto simp: numbered_def in_set_conv_nth)

lemma numbered_filter_ge:
  assumes "numbered f xs"
  shows "filter (\<lambda>x. f x \<ge> int k + 1) xs = drop k xs"
  using assms
proof (induction xs rule: rev_induct)
  case Nil
  then show ?case by simp
next
  case (snoc x xs)
  then have "f x = int (length xs) + 1" and "numbered f xs"
    by (auto simp: numbered_append)
  with snoc.IH show ?case by auto
qed

lemma filter_storeEvents [simp]:
  "filter (\<lambda>e. streamName e = n) (storeEvents b sn v es) = (if n = sn then storeEvents b sn v es else [])"
  by (auto simp: storeEvents_def intro!: filter_mapi_from_all filter_mapi_from_none)

lemma length_storeEvents [simp]: "length (storeEvents b sn v es) = length es"
  by (simp add: storeEvents_def)

lemma storeEvents_eq_Nil [simp]: "storeEvents b sn v es = [] \<longleftrightarrow> es = []"
  by (simp add: storeEvents_def)

lemma storeEvents_nth:
  assumes "i < length es"
  shows "position (storeEvents b sn v es ! i) = b + int i + 1"
    and "version (storeEvents b sn v es ! i) = v + int i + 1"
    and "streamName (storeEvents b sn v es ! i) = sn"
    and "AppendEvent.truncate (storeEvents b sn v es ! i) = es ! i"
  using assms by (simp_all add: storeEvents_def AppendEvent.defs)

lemma map_truncate_storeEvents [simp]: "map AppendEvent.truncate (storeEvents b sn v es) = es"
  by (rule nth_equalityI) (simp_all add: storeEvents_nth)

lemma streamName_storeEvents: "e \<in> set (storeEvents b sn v es) \<Longrightarrow> streamName e = sn"
  by (auto simp: storeEvents_def in_set_mapi_from)

lemma numbered_storeEvents_version:
  "numbered version xs \<Longrightarrow> numbered version (xs @ storeEvents b sn (int (length xs)) es)"
  by (simp add: numbered_append storeEvents_nth)

lemma numbered_storeEvents_position:
  "numbered position xs \<Longrightarrow> numbered position (xs @ storeEvents (int (length xs)) sn v es)"
  by (simp add: numbered_append storeEvents_nth)

subsection \<open>Stream names\<close>

lemma conflictIdentity_roundtrip:
  assumes "CHR ''-'' \<notin> set entity"
  shows "conflictIdentity (entity @ ''-'' @ ident) = (entity, ident)"
proof -
  have "takeWhile (\<lambda>c. c \<noteq> CHR ''-'') (entity @ CHR ''-'' # ident) = entity"
    and "dropWhile (\<lambda>c. c \<noteq> CHR ''-'') (entity @ CHR ''-'' # ident) = CHR ''-'' # ident"
    using assms by (induction entity) auto
  then show ?thesis by (simp add: conflictIdentity_def)
qed

subsection \<open>The invariant of the in-memory store\<close>

abbreviation stream_in :: "StoredEvent list \<Rightarrow> string \<Rightarrow> StoredEvent list" where
  "stream_in es sn \<equiv> filter (\<lambda>e. streamName e = sn) es"

definition store_inv :: "EventStoreState \<Rightarrow> bool" where
  "store_inv st \<longleftrightarrow>
     numbered position (allEvents st) \<and>
     (\<forall>sn. streamOf st sn = stream_in (allEvents st) sn) \<and>
     (\<forall>sn. numbered version (streamOf st sn)) \<and>
     (\<forall>sn rec. jsget (erased st) sn = Some rec \<longrightarrow> erasedVersion rec = int (length (streamOf st sn)))"

lemma store_invI:
  assumes "numbered position (allEvents st)"
    and "\<And>sn. streamOf st sn = stream_in (allEvents st) sn"
    and "\<And>sn. numbered version (streamOf st sn)"
    and "\<And>sn rec. jsget (erased st) sn = Some rec \<Longrightarrow> erasedVersion rec = int (length (streamOf st sn))"
  shows "store_inv st"
  using assms by (auto simp: store_inv_def)

lemma store_invD:
  assumes "store_inv st"
  shows "numbered position (allEvents st)"
    and "streamOf st sn = stream_in (allEvents st) sn"
    and "numbered version (streamOf st sn)"
    and "jsget (erased st) sn = Some rec \<Longrightarrow> erasedVersion rec = int (length (streamOf st sn))"
  using assms by (auto simp: store_inv_def)

lemma store_inv_empty [simp]: "store_inv emptyStore"
  by (auto intro!: store_invI simp: emptyStore_def streamOf_def)

text \<open>The three outcomes of \<open>append\<close>.\<close>

definition accepted :: "string \<Rightarrow> int \<Rightarrow> AppendEvent list \<Rightarrow> EventStoreState \<Rightarrow> EventStoreState" where
  "accepted sn v events st =
     (if events = [] then st
      else (let stored = storeEvents (int (length (allEvents st))) sn v events in
            st\<lparr>streams := jsset sn (streamOf st sn @ stored) (streams st),
               allEvents := allEvents st @ stored\<rparr>))"

lemma append_mem_rejects:
  assumes "jsget (erased st) sn \<noteq> None \<or> v \<noteq> int (length (streamOf st sn))"
  shows "\<exists>actual. append_mem sn v events st = (Inl (append_conflict sn v actual), st)"
  using assms by (auto simp: append_mem_def Let_def split: option.splits)

lemma append_mem_accepts:
  assumes "jsget (erased st) sn = None" and "v = int (length (streamOf st sn))"
  shows "append_mem sn v events st =
    (Inr \<lparr>firstVersion = (if events = [] then v else v + 1), lastVersion = v + int (length events)\<rparr>,
     accepted sn v events st)"
  using assms by (simp add: append_mem_def accepted_def Let_def)

lemma append_mem_cases:
  obtains (rejected) actual where "append_mem sn v events st = (Inl (append_conflict sn v actual), st)"
  | (accepted) "jsget (erased st) sn = None" "v = int (length (streamOf st sn))"
      "append_mem sn v events st =
        (Inr \<lparr>firstVersion = (if events = [] then v else v + 1), lastVersion = v + int (length events)\<rparr>,
         accepted sn v events st)"
  by (metis append_mem_accepts append_mem_rejects)

lemma accepted_simps [store_simps]:
  "allEvents (accepted sn v events st) =
     allEvents st @ storeEvents (int (length (allEvents st))) sn v events"
  "erased (accepted sn v events st) = erased st"
  "importSessions (accepted sn v events st) = importSessions st"
  "importBatches (accepted sn v events st) = importBatches st"
  "streamOf (accepted sn v events st) sn' =
     (if sn' = sn
      then streamOf st sn @ storeEvents (int (length (allEvents st))) sn v events
      else streamOf st sn')"
  by (simp_all add: accepted_def streamOf_def Let_def storeEvents_def)

lemma store_inv_accepted:
  assumes inv: "store_inv st" and free: "jsget (erased st) sn = None"
    and v: "v = int (length (streamOf st sn))"
  shows "store_inv (accepted sn v events st)"
proof (rule store_invI)
  show "numbered position (allEvents (accepted sn v events st))"
    using store_invD(1) [OF inv] by (simp add: store_simps numbered_storeEvents_position)
next
  fix n
  show "streamOf (accepted sn v events st) n = stream_in (allEvents (accepted sn v events st)) n"
    using store_invD(2) [OF inv] by (simp add: store_simps)
  show "numbered version (streamOf (accepted sn v events st) n)"
    using store_invD(3) [OF inv] by (simp add: store_simps v numbered_storeEvents_version)
next
  fix n rec
  assume "jsget (erased (accepted sn v events st)) n = Some rec"
  then show "erasedVersion rec = int (length (streamOf (accepted sn v events st) n))"
    using free store_invD(4) [OF inv] by (auto simp: store_simps)
qed

lemma store_inv_append: "store_inv st \<Longrightarrow> store_inv (snd (append_mem sn v events st))"
  by (cases rule: append_mem_cases [of sn v events st]) (auto intro: store_inv_accepted)

subsection \<open>The contract of the port\<close>

text \<open>
  What \<open>EventStoreService\<close> promises, over an arbitrary world \<open>'w\<close>: \<open>feed\<close> is the committed
  history, \<open>pinned\<close> the streams that accept no append any more.
\<close>

record 'w EventStoreService =
  append_op :: "string \<Rightarrow> int \<Rightarrow> AppendEvent list \<Rightarrow> 'w \<Rightarrow> (StoreFailure, AppendResult) result \<times> 'w"
  read_op :: "string \<Rightarrow> int option \<Rightarrow> 'w \<Rightarrow> (PersistenceError, StoredEvent list) result"
  readAll_op :: "ReadAllOptions \<Rightarrow> 'w \<Rightarrow> (PersistenceError, StoredEvent list) result"

definition feed_read :: "string \<Rightarrow> int option \<Rightarrow> StoredEvent list \<Rightarrow> StoredEvent list" where
  "feed_read sn fromVersion es = filter (\<lambda>e. version e \<ge> getOr 1 fromVersion) (stream_in es sn)"

definition feed_readAll :: "ReadAllOptions \<Rightarrow> StoredEvent list \<Rightarrow> StoredEvent list" where
  "feed_readAll opts es =
     (let kept = filter (\<lambda>e. position e \<ge> getOr 1 (fromPosition opts) \<and>
                   in_partitions (readAllPartitions (partitionFilter opts)) e) es
      in case batchSize opts of None \<Rightarrow> kept | Some n \<Rightarrow> slice0 n kept)"

locale event_store =
  fixes svc :: "'w EventStoreService"
    and feed :: "'w \<Rightarrow> StoredEvent list"
    and pinned :: "'w \<Rightarrow> string \<Rightarrow> bool"
    and invar :: "'w \<Rightarrow> bool"
  assumes rejects: "invar w \<Longrightarrow> pinned w sn \<or> v \<noteq> int (length (stream_in (feed w) sn)) \<Longrightarrow>
      \<exists>actual. append_op svc sn v es w = (Inl (append_conflict sn v actual), w)"
    and accepts: "invar w \<Longrightarrow> \<not> pinned w sn \<Longrightarrow> v = int (length (stream_in (feed w) sn)) \<Longrightarrow>
      \<exists>w'. append_op svc sn v es w =
            (Inr \<lparr>firstVersion = (if es = [] then v else v + 1), lastVersion = v + int (length es)\<rparr>, w')
          \<and> invar w' \<and> pinned w' = pinned w
          \<and> feed w' = feed w @ storeEvents (int (length (feed w))) sn v es"
    and feed_numbered: "invar w \<Longrightarrow> numbered position (feed w)"
    and stream_numbered: "invar w \<Longrightarrow> numbered version (stream_in (feed w) sn)"
    and reads: "invar w \<Longrightarrow> read_op svc sn fromV w = Inr (feed_read sn fromV (feed w))"
    and readsAll: "invar w \<Longrightarrow> readAll_op svc opts w = Inr (feed_readAll opts (feed w))"
begin

lemma append_outcome:
  assumes "invar w" and "append_op svc sn v es w = (r, w')"
  shows "(\<exists>actual. r = Inl (append_conflict sn v actual) \<and> w' = w
           \<and> (pinned w sn \<or> v \<noteq> int (length (stream_in (feed w) sn)))) \<or>
    (r = Inr \<lparr>firstVersion = (if es = [] then v else v + 1), lastVersion = v + int (length es)\<rparr>
      \<and> \<not> pinned w sn \<and> v = int (length (stream_in (feed w) sn)) \<and> invar w' \<and> pinned w' = pinned w
      \<and> feed w' = feed w @ storeEvents (int (length (feed w))) sn v es)"
  using rejects [OF assms(1), of sn v es] accepts [OF assms(1), of sn v es] assms(2) by fastforce

lemma append_success:
  assumes "invar w" and "append_op svc sn v es w = (Inr r, w')"
  shows "r = \<lparr>firstVersion = (if es = [] then v else v + 1), lastVersion = v + int (length es)\<rparr>"
    and "v = int (length (stream_in (feed w) sn))" and "\<not> pinned w sn"
    and "invar w'" and "pinned w' = pinned w"
    and "feed w' = feed w @ storeEvents (int (length (feed w))) sn v es"
  using append_outcome [OF assms] by auto

lemma append_failure:
  assumes "invar w" and "append_op svc sn v es w = (Inl e, w')"
  shows "w' = w" and "\<exists>actual. e = append_conflict sn v actual"
    and "pinned w sn \<or> v \<noteq> int (length (stream_in (feed w) sn))"
  using append_outcome [OF assms] by auto

lemma append_invar:
  assumes "invar w" and "append_op svc sn v es w = (r, w')"
  shows "invar w'"
  using append_outcome [OF assms] assms(1) by auto

lemma stream_after_append:
  assumes "invar w" and "append_op svc sn v es w = (Inr r, w')"
  shows "stream_in (feed w') n = stream_in (feed w) n
    @ (if n = sn then storeEvents (int (length (feed w))) sn v es else [])"
  using append_success(6) [OF assms] by simp

text \<open>Of two writers that observed the same version, the second loses.\<close>

lemma loser_of_race:
  assumes "invar w" and "append_op svc sn v es w = (Inr r, w')" and "es \<noteq> []"
  shows "\<exists>actual. append_op svc sn v es2 w' = (Inl (append_conflict sn v actual), w')"
proof (rule rejects)
  show "invar w'" using append_success(4) [OF assms(1,2)] .
  show "pinned w' sn \<or> v \<noteq> int (length (stream_in (feed w') sn))"
    using stream_after_append [OF assms(1,2), of sn] append_success(2) [OF assms(1,2)] assms(3) by simp
qed

lemma append_then_read:
  assumes inv: "invar w" and app: "append_op svc sn v es w = (Inr r, w')"
  shows "\<exists>stored. read_op svc sn (Some (v + 1)) w' = Inr stored \<and> map AppendEvent.truncate stored = es"
proof -
  note inv' = append_success(4) [OF inv app]
  have v: "v = int (length (stream_in (feed w) sn))" using append_success(2) [OF inv app] .
  have "feed_read sn (Some (v + 1)) (feed w') = drop (length (stream_in (feed w) sn)) (stream_in (feed w') sn)"
    using numbered_filter_ge [OF stream_numbered [OF inv', of sn]] by (simp add: feed_read_def v)
  then show ?thesis
    using reads [OF inv'] stream_after_append [OF inv app, of sn] by simp
qed

lemma readAll_from:
  assumes "invar w"
  shows "readAll_op svc \<lparr>fromPosition = Some (int k + 1), batchSize = Some n, partitionFilter = None\<rparr> w =
    Inr (slice0 n (drop k (feed w)))"
  using readsAll [OF assms] numbered_filter_ge [OF feed_numbered [OF assms]]
  by (simp add: feed_readAll_def in_partitions_def Let_def)

end

definition memEventStore :: "EventStoreState EventStoreService" where
  "memEventStore =
     \<lparr>append_op = append_mem, read_op = (\<lambda>sn v st. Inr (read_mem sn v st)),
      readAll_op = (\<lambda>opts st. Inr (readAll_mem opts st))\<rparr>"

interpretation mem: event_store memEventStore allEvents
  "\<lambda>st sn. jsget (erased st) sn \<noteq> None" store_inv
proof (unfold_locales, goal_cases)
  case (1 w sn v es)
  then show ?case using append_mem_rejects store_invD(2) [OF 1(1)] by (simp add: memEventStore_def)
next
  case (2 w sn v es)
  then have "jsget (erased w) sn = None" and "v = int (length (streamOf w sn))"
    using store_invD(2) [OF 2(1)] by auto
  with 2 show ?case
    by (simp add: memEventStore_def append_mem_accepts store_inv_accepted store_simps)
next
  case (3 w)
  then show ?case by (rule store_invD)
next
  case (4 w sn)
  then show ?case using store_invD(2,3) by metis
next
  case (5 w sn fromV)
  then show ?case using store_invD(2) [OF 5] by (simp add: memEventStore_def read_mem_def feed_read_def)
next
  case (6 w opts)
  then show ?case by (simp add: memEventStore_def readAll_mem_def feed_readAll_def)
qed

end
