(* ===== verification/Codec.thy ===== *)
theory Codec
  imports EventStore
begin

section \<open>Versioned event codec\<close>

text \<open>
  \<open>packages/eventsourcing/src/codec.ts\<close>: the registry that serializes events and decodes stored
  ones after upcasting their payload to the registered schema version. What the Effect schemas
  do is the content of the entries: the literal \<open>_tag\<close> of the schema (if it has one) and its
  encoder and decoder; an upcaster, an encoder and a decoder may fail, with the error text.
\<close>

record EventDecodeError =
  failedType :: string
  failedVersion :: int
  failedReason :: string

record 'e EventRegistryEntry =
  tagOf :: "string option"
  entryVersion :: int
  upcasters :: "(int, json \<Rightarrow> (string, json) result) jsmap"
  encodeSync :: "'e \<Rightarrow> (string, json) result"
  decodeUnknown :: "json \<Rightarrow> (string, 'e) result"

type_synonym 'e EventRegistry = "(string, 'e EventRegistryEntry) jsmap"

subsection \<open>Building a registry\<close>

fun add_entries ::
  "'e EventRegistryEntry list \<Rightarrow> 'e EventRegistry \<Rightarrow> (string, 'e EventRegistry) result" where
  "add_entries [] byTag = Inr byTag"
| "add_entries (entry # entries) byTag =
     (case tagOf entry of
        None \<Rightarrow> Inl ''event schema must be a TaggedStruct with a literal string _tag''
      | Some tag \<Rightarrow>
          if jsget byTag tag \<noteq> None
          then Inl (''duplicate event type '' @ [CHR 0x22] @ tag @ [CHR 0x22] @ '' in registry'')
          else add_entries entries (jsset tag entry byTag))"

definition makeRegistry :: "'e EventRegistryEntry list \<Rightarrow> (string, 'e EventRegistry) result" where
  "makeRegistry entries = add_entries entries []"

definition has_type :: "'e EventRegistry \<Rightarrow> string \<Rightarrow> bool" where
  "has_type byTag ty \<longleftrightarrow> jsget byTag ty \<noteq> None"

subsection \<open>Encoding\<close>

text \<open>\<open>tag event\<close> is the event's \<open>_tag\<close>; the left results are thrown defects.\<close>

definition encode ::
  "('e \<Rightarrow> string) \<Rightarrow> 'e EventRegistry \<Rightarrow> 'e \<Rightarrow> (string, SerializedEvent) result" where
  "encode tag byTag event =
     (case jsget byTag (tag event) of
        None \<Rightarrow> Inl (''event type '' @ [CHR 0x22] @ tag event @ [CHR 0x22] @ '' is not registered'')
      | Some compiled \<Rightarrow>
          (case encodeSync compiled event of
             Inl e \<Rightarrow> Inl e
           | Inr p \<Rightarrow>
               Inr \<lparr>etype = tag event, schemaVersion = entryVersion compiled, payload = p\<rparr>))"

subsection \<open>Decoding\<close>

function upcast_loop ::
  "(int, json \<Rightarrow> (string, json) result) jsmap \<Rightarrow> int \<Rightarrow> int \<Rightarrow> json \<Rightarrow> (string, json) result" where
  "upcast_loop ups v current p =
     (if v < current then
        (case jsget ups v of
           None \<Rightarrow> Inl (''no upcaster from schema version '' @ show_int v)
         | Some upcast \<Rightarrow>
             (case upcast p of
                Inl e \<Rightarrow> Inl (''upcaster from version '' @ show_int v @ '' threw: '' @ e)
              | Inr p' \<Rightarrow> upcast_loop ups (v + 1) current p'))
      else Inr p)"
  by pat_completeness auto
termination
  by (relation "measure (\<lambda>(ups, v, current, p). nat (current - v))") auto

declare upcast_loop.simps [simp del]

definition decode_error :: "('a SerializedEvent_scheme) \<Rightarrow> string \<Rightarrow> EventDecodeError" where
  "decode_error stored r =
     \<lparr>failedType = etype stored, failedVersion = schemaVersion stored, failedReason = r\<rparr>"

definition decode ::
  "'e EventRegistry \<Rightarrow> 'a SerializedEvent_scheme \<Rightarrow> (EventDecodeError, 'e) result" where
  "decode byTag stored =
     (case jsget byTag (etype stored) of
        None \<Rightarrow> Inl (decode_error stored ''unknown event type'')
      | Some compiled \<Rightarrow>
          (if schemaVersion stored > entryVersion compiled
           then Inl (decode_error stored
                  (''stored schema version is newer than the registered version ''
                    @ show_int (entryVersion compiled)))
           else
             (case upcast_loop (upcasters compiled) (schemaVersion stored) (entryVersion compiled)
                     (payload stored) of
                Inl e \<Rightarrow> Inl (decode_error stored e)
              | Inr p \<Rightarrow>
                  (case decodeUnknown compiled p of
                     Inl e \<Rightarrow> Inl \<lparr>failedType = etype stored, failedVersion = entryVersion compiled,
                                    failedReason = e\<rparr>
                   | Inr event \<Rightarrow> Inr event))))"

subsection \<open>Lemmas\<close>

lemma upcast_loop_done [simp]: "current \<le> v \<Longrightarrow> upcast_loop ups v current p = Inr p"
  by (simp add: upcast_loop.simps)

text \<open>The payload reaches the current version through exactly the upcasters from the stored one.\<close>

fun upcast_chain :: "(json \<Rightarrow> (string, json) result) list \<Rightarrow> json \<Rightarrow> (string, json) result" where
  "upcast_chain [] p = Inr p"
| "upcast_chain (f # fs) p = bind_result (f p) (upcast_chain fs)"

lemma upcast_loop_chain:
  assumes "\<And>i. i < length fs \<Longrightarrow> jsget ups (v + int i) = Some (fs ! i)"
  shows "upcast_loop ups v (v + int (length fs)) p = Inr q \<longleftrightarrow> upcast_chain fs p = Inr q"
  using assms
proof (induction fs arbitrary: v p)
  case Nil
  then show ?case by simp
next
  case (Cons f fs)
  have f: "jsget ups v = Some f" using Cons.prems [of 0] by simp
  have rest: "jsget ups (v + 1 + int i) = Some (fs ! i)" if "i < length fs" for i
    using Cons.prems [of "Suc i"] that by (simp add: algebra_simps)
  have "upcast_loop ups (v + 1) (v + 1 + int (length fs)) p' = Inr q \<longleftrightarrow> upcast_chain fs p' = Inr q" for p'
    by (rule Cons.IH) (rule rest)
  then show ?case
    by (subst upcast_loop.simps) (auto simp: f algebra_simps split: sum.splits)
qed

lemma upcast_loop_missing:
  assumes "v \<le> w" and "w < current" and "jsget ups w = None"
  shows "\<exists>e. upcast_loop ups v current p = Inl e"
  using assms
proof (induction ups v current p rule: upcast_loop.induct)
  case (1 ups v current p)
  show ?case
  proof (cases "v = w")
    case True
    with "1.prems" show ?thesis by (subst upcast_loop.simps) simp
  next
    case False
    then have "v < current" and "v + 1 \<le> w" using "1.prems" by auto
    with "1.IH" "1.prems" show ?thesis
      by (auto simp: upcast_loop.simps [of ups v] split: option.splits sum.splits)
  qed
qed

lemma add_entries_lookup:
  assumes "add_entries entries byTag = Inr byTag'"
  shows "jsget byTag' t = (case jsget byTag t of
      Some c \<Rightarrow> Some c
    | None \<Rightarrow> find (\<lambda>entry. tagOf entry = Some t) entries)"
  using assms
  by (induction entries arbitrary: byTag) (auto split: option.splits if_splits)

lemma makeRegistry_lookup:
  "makeRegistry entries = Inr reg \<Longrightarrow> jsget reg t = find (\<lambda>entry. tagOf entry = Some t) entries"
  using add_entries_lookup [of entries "[]" reg t] by (simp add: makeRegistry_def)

lemma makeRegistry_tag:
  assumes "makeRegistry entries = Inr reg" and "jsget reg t = Some entry"
  shows "entry \<in> set entries" and "tagOf entry = Some t"
  using assms by (auto simp: makeRegistry_lookup find_Some_iff)

text \<open>What was encoded decodes to itself, when the entry's schema does so on the payload.\<close>

definition schema_roundtrip :: "'e EventRegistryEntry \<Rightarrow> 'e \<Rightarrow> bool" where
  "schema_roundtrip entry event \<longleftrightarrow>
     (\<forall>p. encodeSync entry event = Inr p \<longrightarrow> decodeUnknown entry p = Inr event)"

lemma decode_encode:
  assumes "encode tag reg event = Inr s"
    and "\<And>entry. jsget reg (tag event) = Some entry \<Longrightarrow> schema_roundtrip entry event"
  shows "decode reg s = Inr event"
  using assms by (auto simp: encode_def decode_def schema_roundtrip_def split: option.splits sum.splits)

lemma decode_cong:
  assumes "etype s = etype t" and "schemaVersion s = schemaVersion t" and "payload s = payload t"
  shows "decode reg s = decode reg t"
  using assms by (simp add: decode_def decode_error_def split: option.splits sum.splits)

lemma decode_unknown: "\<not> has_type reg (etype stored) \<Longrightarrow>
    decode reg stored = Inl (decode_error stored ''unknown event type'')"
  by (simp add: decode_def has_type_def)

end
