(* ===== verification/Stores.thy ===== *)
theory Stores
  imports Domain
begin

section \<open>Snapshot and checkpoint stores\<close>

text \<open>
  The keyed stores of \<open>packages/eventsourcing/src/memory.ts\<close>: the latest snapshot per stream
  (\<open>InMemorySnapshotStore\<close>) and the last processed position per consumer
  (\<open>InMemoryCheckpointStore\<close>). Both keep the contract of the locale \<open>keyed_store\<close>.
\<close>

record 's Snapshot =
  snapState :: 's
  snapVersion :: int

type_synonym 's SnapshotState = "(string, 's Snapshot) jsmap"
type_synonym CheckpointState = "(string, int) jsmap"

definition load_snapshot :: "string \<Rightarrow> 's SnapshotState \<Rightarrow> 's Snapshot option" where
  "load_snapshot sn snapshots = jsget snapshots sn"

definition save_snapshot :: "string \<Rightarrow> 's Snapshot \<Rightarrow> 's SnapshotState \<Rightarrow> 's SnapshotState" where
  "save_snapshot sn snapshot snapshots = jsset sn snapshot snapshots"

definition remove_snapshot :: "string \<Rightarrow> 's SnapshotState \<Rightarrow> 's SnapshotState" where
  "remove_snapshot sn snapshots =
     (if jsget snapshots sn = None then snapshots else jsdelete sn snapshots)"

definition load_checkpoint :: "string \<Rightarrow> CheckpointState \<Rightarrow> int" where
  "load_checkpoint consumer checkpoints = getOr 0 (jsget checkpoints consumer)"

definition save_checkpoint :: "string \<Rightarrow> int \<Rightarrow> CheckpointState \<Rightarrow> CheckpointState" where
  "save_checkpoint consumer pos checkpoints = jsset consumer pos checkpoints"

text \<open>A store that returns, for every key, what was saved last under it.\<close>

locale keyed_store =
  fixes load :: "'k \<Rightarrow> 'm \<Rightarrow> 'v"
    and save :: "'k \<Rightarrow> 'a \<Rightarrow> 'm \<Rightarrow> 'm"
    and stored :: "'a \<Rightarrow> 'v"
  assumes load_save: "load k (save k' a m) = (if k = k' then stored a else load k m)"
begin

lemma load_save_same: "load k (save k a m) = stored a"
  by (simp add: load_save)

lemma load_save_other: "k \<noteq> k' \<Longrightarrow> load k (save k' a m) = load k m"
  by (simp add: load_save)

lemma last_save_wins: "load k (save k' a (save k' b m)) = load k (save k' a m)"
  by (simp add: load_save)

end

interpretation snapshots: keyed_store load_snapshot save_snapshot Some
  by unfold_locales (simp add: load_snapshot_def save_snapshot_def)

interpretation checkpoints: keyed_store load_checkpoint save_checkpoint "\<lambda>p. p"
  by unfold_locales (simp add: load_checkpoint_def save_checkpoint_def)

lemma load_remove_snapshot [simp]:
  "load_snapshot k (remove_snapshot k' m) = (if k = k' then None else load_snapshot k m)"
  by (simp add: load_snapshot_def remove_snapshot_def)

end
