(* ===== verification/AggregateStore.thy ===== *)
theory AggregateStore
  imports Codec Stores
begin

section \<open>Event-sourced aggregate runtime\<close>

text \<open>
  \<open>packages/eventsourcing/src/AggregateStore.ts\<close>: loading an aggregate by folding its stream
  (from its latest snapshot, when snapshots are on), executing a command with optimistic
  concurrency, and the bounded retry on conflicts. The services are passed in, as the Effect
  context passes them. A fiber is suspended at every \<open>yield*\<close>; what the other fibers do to the
  world meanwhile is the argument \<open>env\<close>, indexed by the suspension point. The clock and the
  random event ids are the arguments \<open>now\<close> and \<open>uuid\<close>.
\<close>

record ('w, 's) SnapshotStoreService =
  snap_load :: "string \<Rightarrow> 'w \<Rightarrow> (PersistenceError, 's Snapshot option) result"
  snap_save :: "string \<Rightarrow> 's Snapshot \<Rightarrow> 'w \<Rightarrow> (PersistenceError, unit) result \<times> 'w"

record CommandMetadata =
  cmCorrelationId :: "string option"
  cmCausationId :: "string option"
  cmActor :: "string option"
  cmPartition :: "string option"
  cmExtensions :: "(string \<times> json) list option"

text \<open>What \<open>make(aggregate, registry, options)\<close> closes over.\<close>

record ('w, 's, 'c, 'e, 'err) AggregateRuntime =
  store :: "'w EventStoreService"
  snapshotStore :: "('w, 's) SnapshotStoreService option"
  snapshotEvery :: "int option"
  aggregate :: "('s, 'c, 'e, 'err) Aggregate"
  registry :: "'e EventRegistry"
  tag :: "'e \<Rightarrow> string"

datatype 'err ExecuteError =
    DomainErr 'err
  | StoreErr StoreFailure
  | DecodeErr EventDecodeError
  | DefectErr string

datatype yield_point = AfterSnapshotLoad | AfterLoad | AfterAppend

record 's LoadedState =
  loadedState :: 's
  loadedVersion :: int
  snapshotVersion :: int

record ('s, 'e) ExecuteResult =
  resState :: 's
  resVersion :: int
  resEvents :: "'e list"

definition snapshotting :: "('w, 's, 'c, 'e, 'err) AggregateRuntime \<Rightarrow> ('w, 's) SnapshotStoreService option" where
  "snapshotting rt = (if snapshotEvery rt \<noteq> None then snapshotStore rt else None)"

definition stream_name :: "('s, 'c, 'e, 'err) Aggregate \<Rightarrow> string \<Rightarrow> string" where
  "stream_name ag ident = name ag @ ''-'' @ ident"

fun fold_events ::
  "('s, 'c, 'e, 'err) Aggregate \<Rightarrow> 'e EventRegistry \<Rightarrow> StoredEvent list \<Rightarrow> 's \<Rightarrow> int
    \<Rightarrow> (EventDecodeError, 's \<times> int) result" where
  "fold_events ag reg [] state v = Inr (state, v)"
| "fold_events ag reg (stored # events) state v =
     (case decode reg stored of
        Inl e \<Rightarrow> Inl e
      | Inr event \<Rightarrow> fold_events ag reg events (evolve ag state event) (version stored))"

definition loadFrom ::
  "('w, 's, 'c, 'e, 'err) AggregateRuntime \<Rightarrow> (yield_point \<Rightarrow> 'w \<Rightarrow> 'w) \<Rightarrow> string \<Rightarrow> 'w
    \<Rightarrow> ('err ExecuteError, 's LoadedState) result \<times> 'w" where
  "loadFrom rt env ident w =
     (let sn = stream_name (aggregate rt) ident in
      case (case snapshotting rt of None \<Rightarrow> Inr None | Some ss \<Rightarrow> snap_load ss sn w) of
        Inl p \<Rightarrow> (Inl (StoreErr (PersistenceFailure p)), w)
      | Inr snapshot \<Rightarrow>
          (let w1 = (case snapshotting rt of None \<Rightarrow> w | Some ss \<Rightarrow> env AfterSnapshotLoad w);
               state0 = (case snapshot of None \<Rightarrow> initial (aggregate rt) | Some s \<Rightarrow> snapState s);
               version0 = (case snapshot of None \<Rightarrow> 0 | Some s \<Rightarrow> snapVersion s) in
           case read_op (store rt) sn (Some (version0 + 1)) w1 of
             Inl p \<Rightarrow> (Inl (StoreErr (PersistenceFailure p)), w1)
           | Inr events \<Rightarrow>
               (case fold_events (aggregate rt) (registry rt) events state0 version0 of
                  Inl e \<Rightarrow> (Inl (DecodeErr e), w1)
                | Inr (state, v) \<Rightarrow>
                    (Inr \<lparr>loadedState = state, loadedVersion = v, snapshotVersion = version0\<rparr>, w1))))"

definition load_aggregate ::
  "('w, 's, 'c, 'e, 'err) AggregateRuntime \<Rightarrow> (yield_point \<Rightarrow> 'w \<Rightarrow> 'w) \<Rightarrow> string \<Rightarrow> 'w
    \<Rightarrow> ('err ExecuteError, 's \<times> int) result \<times> 'w" where
  "load_aggregate rt env ident w =
     map_prod (map_sum id (\<lambda>l. (loadedState l, loadedVersion l))) id (loadFrom rt env ident w)"

definition stamp ::
  "string \<Rightarrow> (nat \<Rightarrow> string) \<Rightarrow> string \<Rightarrow> string \<Rightarrow> int \<Rightarrow> CommandMetadata option \<Rightarrow> nat
    \<Rightarrow> SerializedEvent \<Rightarrow> AppendEvent" where
  "stamp now uuid agName ident loaded md index serialized =
     SerializedEvent.extend serialized (AppendEvent.fields
       \<lparr>eventId = uuid index, occurredAt = now, aggregateName = agName, aggregateId = ident,
        aggregateVersion = loaded + int index + 1,
        correlationId = Option.bind md cmCorrelationId, causationId = Option.bind md cmCausationId,
        actor = Option.bind md cmActor, partition = Option.bind md cmPartition,
        origin = None, extensions = Option.bind md cmExtensions\<rparr>)"

fun encode_events ::
  "('e \<Rightarrow> (string, SerializedEvent) result) \<Rightarrow> (nat \<Rightarrow> SerializedEvent \<Rightarrow> AppendEvent) \<Rightarrow> nat
    \<Rightarrow> 'e list \<Rightarrow> (string, AppendEvent list) result" where
  "encode_events enc st index [] = Inr []"
| "encode_events enc st index (event # events) =
     (case enc event of
        Inl d \<Rightarrow> Inl d
      | Inr s \<Rightarrow>
          (case encode_events enc st (Suc index) events of
             Inl d \<Rightarrow> Inl d
           | Inr rest \<Rightarrow> Inr (st index s # rest)))"

definition snapshot_if_due ::
  "('w, 's, 'c, 'e, 'err) AggregateRuntime \<Rightarrow> (yield_point \<Rightarrow> 'w \<Rightarrow> 'w) \<Rightarrow> string \<Rightarrow> int \<Rightarrow> int \<Rightarrow> 's \<Rightarrow> 'w
    \<Rightarrow> ('err ExecuteError, unit) result \<times> 'w" where
  "snapshot_if_due rt env sn fromVersion toVersion state w =
     (case (snapshotting rt, snapshotEvery rt) of
        (Some ss, Some every) \<Rightarrow>
          (if toVersion - fromVersion \<ge> every
           then (case snap_save ss sn \<lparr>snapState = state, snapVersion = toVersion\<rparr> (env AfterAppend w) of
                   (Inl p, w') \<Rightarrow> (Inl (StoreErr (PersistenceFailure p)), w')
                 | (Inr _, w') \<Rightarrow> (Inr (), w'))
           else (Inr (), w))
      | _ \<Rightarrow> (Inr (), w))"

definition execute ::
  "('w, 's, 'c, 'e, 'err) AggregateRuntime \<Rightarrow> (yield_point \<Rightarrow> 'w \<Rightarrow> 'w) \<Rightarrow> string \<Rightarrow> (nat \<Rightarrow> string)
    \<Rightarrow> string \<Rightarrow> 'c \<Rightarrow> CommandMetadata option \<Rightarrow> 'w
    \<Rightarrow> ('err ExecuteError, ('s, 'e) ExecuteResult) result \<times> 'w" where
  "execute rt env now uuid ident command md w =
     (let sn = stream_name (aggregate rt) ident in
      case loadFrom rt env ident w of
        (Inl e, w1) \<Rightarrow> (Inl e, w1)
      | (Inr loaded, w1) \<Rightarrow>
          (case decide (aggregate rt) (loadedState loaded) command of
             Inl e \<Rightarrow> (Inl (DomainErr e), w1)
           | Inr events \<Rightarrow>
               (if events = []
                then (Inr \<lparr>resState = loadedState loaded, resVersion = loadedVersion loaded, resEvents = []\<rparr>, w1)
                else
                  (case encode_events (encode (tag rt) (registry rt))
                          (stamp now uuid (name (aggregate rt)) ident (loadedVersion loaded) md) 0 events of
                     Inl d \<Rightarrow> (Inl (DefectErr d), w1)
                   | Inr toAppend \<Rightarrow>
                       (case append_op (store rt) sn (loadedVersion loaded) toAppend (env AfterLoad w1) of
                          (Inl f, w2) \<Rightarrow> (Inl (StoreErr f), w2)
                        | (Inr appended, w2) \<Rightarrow>
                            (let state = rehydrate (aggregate rt) events (loadedState loaded) in
                             case snapshot_if_due rt env sn (snapshotVersion loaded) (lastVersion appended) state w2 of
                               (Inl e, w3) \<Rightarrow> (Inl e, w3)
                             | (Inr _, w3) \<Rightarrow>
                                 (Inr \<lparr>resState = state, resVersion = lastVersion appended, resEvents = events\<rparr>, w3)))))))"

text \<open>
  \<open>Effect.retry\<close> with \<open>times\<close> and \<open>while\<close>: the effect runs once and then again, at most \<open>times\<close>
  more times, as long as it fails with an error the predicate accepts. \<open>attempt k\<close> is run number
  \<open>k\<close>: what the other fibers do may differ from run to run.
\<close>

fun retry :: "nat \<Rightarrow> ('x \<Rightarrow> bool) \<Rightarrow> nat \<Rightarrow> (nat \<Rightarrow> 'w \<Rightarrow> ('x, 'a) result \<times> 'w) \<Rightarrow> 'w \<Rightarrow> ('x, 'a) result \<times> 'w" where
  "retry 0 again k attempt w = attempt k w"
| "retry (Suc n) again k attempt w =
     (case attempt k w of
        (Inr a, w') \<Rightarrow> (Inr a, w')
      | (Inl e, w') \<Rightarrow> if again e then retry n again (Suc k) attempt w' else (Inl e, w'))"

fun is_conflict :: "'err ExecuteError \<Rightarrow> bool" where
  "is_conflict (StoreErr (DomainFailure (ConcurrencyConflict entity ident ex ac))) = True"
| "is_conflict e = False"

definition executeWithRetry ::
  "nat option \<Rightarrow> ('w, 's, 'c, 'e, 'err) AggregateRuntime \<Rightarrow> (nat \<Rightarrow> yield_point \<Rightarrow> 'w \<Rightarrow> 'w)
    \<Rightarrow> (nat \<Rightarrow> string) \<Rightarrow> (nat \<Rightarrow> nat \<Rightarrow> string) \<Rightarrow> string \<Rightarrow> 'c \<Rightarrow> CommandMetadata option \<Rightarrow> 'w
    \<Rightarrow> ('err ExecuteError, ('s, 'e) ExecuteResult) result \<times> 'w" where
  "executeWithRetry retries rt env now uuid ident command md w =
     retry (getOr 3 retries) is_conflict 0
       (\<lambda>k. execute rt (env k) (now k) (uuid k) ident command md) w"

subsection \<open>Folding a stream\<close>

lemma fold_events_append:
  "fold_events ag reg (xs @ ys) s v =
     bind_result (fold_events ag reg xs s v) (\<lambda>(s', v'). fold_events ag reg ys s' v')"
  by (induction xs arbitrary: s v) (auto split: sum.splits)

lemma fold_events_version:
  assumes "fold_events ag reg xs s v = Inr (s', v')"
  shows "v' = (if xs = [] then v else version (last xs))"
  using assms by (induction xs arbitrary: s v) (auto split: sum.splits)

lemma fold_events_rehydrate:
  assumes "length events = length xs"
    and "\<And>i. i < length xs \<Longrightarrow> decode reg (xs ! i) = Inr (events ! i)"
  shows "fold_events ag reg xs s v = Inr (rehydrate ag events s, if xs = [] then v else version (last xs))"
  using assms
proof (induction events xs arbitrary: s v rule: list_induct2)
  case Nil
  then show ?case by simp
next
  case (Cons event events x xs)
  have "decode reg x = Inr event" using Cons.prems [of 0] by simp
  moreover have "decode reg (xs ! i) = Inr (events ! i)" if "i < length xs" for i
    using Cons.prems [of "Suc i"] that by simp
  ultimately show ?case using Cons.IH by auto
qed

lemma encode_events_nth:
  assumes "encode_events enc st k events = Inr es"
  shows "length es = length events"
    and "i < length events \<Longrightarrow> \<exists>s. enc (events ! i) = Inr s \<and> es ! i = st (k + i) s"
  using assms
proof (induction events arbitrary: k es i)
  case Nil
  { case 1 then show ?case by simp }
  { case 2 then show ?case by simp }
next
  case (Cons event events)
  { case 1 then show ?case using Cons.IH(1) by (auto split: sum.splits) }
  { case 2 then show ?case using Cons.IH(2) [where k = "Suc k"] by (cases i) (fastforce split: sum.splits)+ }
qed

lemma stamp_simps:
  "etype (stamp now uuid n ident l md i s) = etype s"
  "schemaVersion (stamp now uuid n ident l md i s) = schemaVersion s"
  "payload (stamp now uuid n ident l md i s) = payload s"
  "aggregateVersion (metadata (stamp now uuid n ident l md i s)) = l + int i + 1"
  "aggregateId (metadata (stamp now uuid n ident l md i s)) = ident"
  by (simp_all add: stamp_def SerializedEvent.defs AppendEvent.defs)

subsection \<open>State of an aggregate in a history\<close>

text \<open>The specification: the whole stream folded from the initial state.\<close>

definition stream_state ::
  "('s, 'c, 'e, 'err) Aggregate \<Rightarrow> 'e EventRegistry \<Rightarrow> string \<Rightarrow> StoredEvent list
    \<Rightarrow> (EventDecodeError, 's \<times> int) result" where
  "stream_state ag reg sn es = fold_events ag reg (stream_in es sn) (initial ag) 0"

definition codec_lawful :: "('e \<Rightarrow> string) \<Rightarrow> 'e EventRegistry \<Rightarrow> bool" where
  "codec_lawful tg reg \<longleftrightarrow> (\<forall>event s. encode tg reg event = Inr s \<longrightarrow> decode reg s = Inr event)"

definition snapshot_valid ::
  "('s, 'c, 'e, 'err) Aggregate \<Rightarrow> 'e EventRegistry \<Rightarrow> StoredEvent list \<Rightarrow> 's Snapshot \<Rightarrow> bool" where
  "snapshot_valid ag reg xs snap \<longleftrightarrow>
     (\<exists>k \<le> length xs. snapVersion snap = int k
        \<and> fold_events ag reg (take k xs) (initial ag) 0 = Inr (snapState snap, int k))"

lemma snapshot_valid_append: "snapshot_valid ag reg xs snap \<Longrightarrow> snapshot_valid ag reg (xs @ ys) snap"
  by (fastforce simp: snapshot_valid_def)

lemma snapshot_valid_full:
  "fold_events ag reg xs (initial ag) 0 = Inr (s, int (length xs)) \<Longrightarrow>
     snapshot_valid ag reg (xs @ ys) \<lparr>snapState = s, snapVersion = int (length xs)\<rparr>"
  by (auto simp: snapshot_valid_def intro!: exI [of _ "length xs"])

lemma stream_state_version:
  assumes "numbered version (stream_in es sn)" and "stream_state ag reg sn es = Inr (s, v)"
  shows "v = int (length (stream_in es sn))"
proof -
  have "v = (if stream_in es sn = [] then 0 else version (last (stream_in es sn)))"
    using assms(2) fold_events_version by (fastforce simp: stream_state_def)
  then show ?thesis
    using assms(1) by (cases "stream_in es sn" rule: rev_cases) (auto simp: numbered_append)
qed

text \<open>Appending the encoded events of a decision moves the state by exactly these events.\<close>

lemma stream_state_append:
  assumes before: "stream_state ag reg sn es = Inr (s, v)" and law: "codec_lawful tg reg"
    and enc: "encode_events (encode tg reg) (stamp now uuid n ident v md) 0 events = Inr toAppend"
    and "events \<noteq> []"
  shows "stream_state ag reg sn (es @ storeEvents b sn v toAppend)
    = Inr (rehydrate ag events s, v + int (length events))"
proof -
  let ?stored = "storeEvents b sn v toAppend"
  note len = encode_events_nth(1) [OF enc]
  have dec: "decode reg (?stored ! i) = Inr (events ! i)" if i: "i < length ?stored" for i
  proof -
    have i': "i < length toAppend" using i by simp
    obtain x where x: "encode tg reg (events ! i) = Inr x" and st: "toAppend ! i = stamp now uuid n ident v md i x"
      using encode_events_nth(2) [OF enc, of i] i' len by auto
    have "decode reg (?stored ! i) = decode reg x"
      using i' st by (intro decode_cong) (simp_all add: storeEvents_def stamp_simps)
    also have "\<dots> = Inr (events ! i)" using x law by (simp add: codec_lawful_def)
    finally show ?thesis .
  qed
  have "fold_events ag reg ?stored s v = Inr (rehydrate ag events s, if ?stored = [] then v else version (last ?stored))"
    by (rule fold_events_rehydrate) (use len dec in auto)
  moreover have ne: "toAppend \<noteq> []" using len \<open>events \<noteq> []\<close> by auto
  moreover have "version (last ?stored) = v + int (length events)"
    using ne len storeEvents_nth(2) [of "length toAppend - 1" toAppend b sn v]
    by (cases "length toAppend") (auto simp: last_conv_nth)
  ultimately show ?thesis using before by (simp add: stream_state_def fold_events_append)
qed

subsection \<open>The runtime over any event store with snapshots\<close>

locale snapshotted_event_store = event_store +
  fixes ss :: "('a, 's) SnapshotStoreService"
    and snap_of :: "'a \<Rightarrow> string \<Rightarrow> 's Snapshot option"
  assumes snap_loads: "invar w \<Longrightarrow> snap_load ss sn w = Inr (snap_of w sn)"
    and snap_saves: "invar w \<Longrightarrow>
      \<exists>w'. snap_save ss sn x w = (Inr (), w') \<and> invar w' \<and> feed w' = feed w \<and> pinned w' = pinned w
        \<and> snap_of w' = (snap_of w)(sn := Some x)"
    and append_snaps: "invar w \<Longrightarrow> append_op svc sn v es w = (r, w') \<Longrightarrow> snap_of w' = snap_of w"
begin

definition grows :: "'a \<Rightarrow> 'a \<Rightarrow> bool" where
  "grows w w' \<longleftrightarrow> invar w' \<and> (\<exists>es. feed w' = feed w @ es)"

definition snapshots_ok :: "('s, 'c, 'e, 'err) Aggregate \<Rightarrow> 'e EventRegistry \<Rightarrow> 'a \<Rightarrow> bool" where
  "snapshots_ok ag reg w \<longleftrightarrow>
     (\<forall>ident snap. snap_of w (stream_name ag ident) = Some snap \<longrightarrow>
        snapshot_valid ag reg (stream_in (feed w) (stream_name ag ident)) snap)"

text \<open>Other fibers keep the invariant, only add to the history and keep the snapshots valid.\<close>

definition env_ok :: "('s, 'c, 'e, 'err) Aggregate \<Rightarrow> 'e EventRegistry \<Rightarrow> (yield_point \<Rightarrow> 'a \<Rightarrow> 'a) \<Rightarrow> bool" where
  "env_ok ag reg env \<longleftrightarrow>
     (\<forall>y w. invar w \<longrightarrow> grows w (env y w) \<and> (snapshots_ok ag reg w \<longrightarrow> snapshots_ok ag reg (env y w)))"

definition runs_on :: "('a, 's, 'c, 'e, 'err) AggregateRuntime \<Rightarrow> bool" where
  "runs_on rt \<longleftrightarrow> store rt = svc \<and> snapshotStore rt \<in> {None, Some ss}"

lemma grows_refl: "invar w \<Longrightarrow> grows w w"
  by (simp add: grows_def)

lemma env_okD:
  assumes "env_ok ag reg env" and "invar w"
  shows "invar (env y w)" and "grows w (env y w)"
    and "snapshots_ok ag reg w \<Longrightarrow> snapshots_ok ag reg (env y w)"
  using assms by (auto simp: env_ok_def grows_def)

lemma read_suffix:
  assumes "invar w"
  shows "read_op svc sn (Some (int k + 1)) w = Inr (drop k (stream_in (feed w) sn))"
  using reads [OF assms] numbered_filter_ge [OF stream_numbered [OF assms]] by (simp add: feed_read_def)

text \<open>Loading gives the state of the stream, with or without a snapshot.\<close>

lemma loadFrom_correct:
  assumes rt: "runs_on rt" and inv: "invar w" and env: "env_ok (aggregate rt) (registry rt) env"
    and snaps: "snapshots_ok (aggregate rt) (registry rt) w"
  obtains w1 r where "loadFrom rt env ident w = (r, w1)" "w1 = w \<or> w1 = env AfterSnapshotLoad w"
    "case stream_state (aggregate rt) (registry rt) (stream_name (aggregate rt) ident) (feed w1) of
       Inl e \<Rightarrow> r = Inl (DecodeErr e)
     | Inr (s, v) \<Rightarrow> \<exists>sv. r = Inr \<lparr>loadedState = s, loadedVersion = v, snapshotVersion = sv\<rparr>"
proof -
  let ?ag = "aggregate rt" and ?reg = "registry rt" and ?sn = "stream_name (aggregate rt) ident"
  have svc: "store rt = svc" using rt by (simp add: runs_on_def)
  define snapshot where "snapshot = (if snapshotting rt = None then None else snap_of w ?sn)"
  define w1 where "w1 = (if snapshotting rt = None then w else env AfterSnapshotLoad w)"
  have ss: "snapshotting rt = None \<or> snapshotting rt = Some ss"
    using rt by (auto simp: snapshotting_def runs_on_def)
  have inv1: "invar w1" and grow: "\<exists>es. feed w1 = feed w @ es"
    using env_okD [OF env inv] inv by (auto simp: w1_def grows_def)
  obtain k s0 where k: "k \<le> length (stream_in (feed w1) ?sn)"
    and v0: "(case snapshot of None \<Rightarrow> 0 | Some s \<Rightarrow> snapVersion s) = int k"
    and s0: "(case snapshot of None \<Rightarrow> initial ?ag | Some s \<Rightarrow> snapState s) = s0"
    and pre: "fold_events ?ag ?reg (take k (stream_in (feed w1) ?sn)) (initial ?ag) 0 = Inr (s0, int k)"
  proof (cases snapshot)
    case None
    then show ?thesis using that [of 0] by simp
  next
    case (Some snap)
    then have "snap_of w ?sn = Some snap" by (simp add: snapshot_def split: if_splits)
    then have "snapshot_valid ?ag ?reg (stream_in (feed w) ?sn) snap"
      using snaps unfolding snapshots_ok_def by blast
    then have "snapshot_valid ?ag ?reg (stream_in (feed w1) ?sn) snap"
      using grow by (auto intro: snapshot_valid_append)
    then show ?thesis using that Some by (auto simp: snapshot_valid_def)
  qed
  have "stream_state ?ag ?reg ?sn (feed w1) =
      fold_events ?ag ?reg (drop k (stream_in (feed w1) ?sn)) s0 (int k)"
    using fold_events_append [of ?ag ?reg "take k (stream_in (feed w1) ?sn)" "drop k (stream_in (feed w1) ?sn)"] pre
    by (simp add: stream_state_def)
  moreover have "(case snapshotting rt of None \<Rightarrow> Inr None | Some ss \<Rightarrow> snap_load ss ?sn w) = Inr snapshot"
    using ss snap_loads [OF inv] by (auto simp: snapshot_def)
  moreover have "(case snapshotting rt of None \<Rightarrow> w | Some ss \<Rightarrow> env AfterSnapshotLoad w) = w1"
    by (simp add: w1_def split: option.splits)
  ultimately have lf: "loadFrom rt env ident w =
      ((case stream_state ?ag ?reg ?sn (feed w1) of
          Inl e \<Rightarrow> Inl (DecodeErr e)
        | Inr (s, v) \<Rightarrow> Inr \<lparr>loadedState = s, loadedVersion = v, snapshotVersion = int k\<rparr>), w1)"
    using read_suffix [OF inv1, of ?sn k]
    by (simp add: loadFrom_def Let_def svc v0 s0 split: sum.splits prod.splits)
  show ?thesis
    by (rule that [OF lf]) (simp add: w1_def, simp split: sum.splits prod.splits)
qed

lemma snapshot_if_due_correct:
  assumes rt: "runs_on rt" and inv: "invar w" and env: "env_ok (aggregate rt) (registry rt) env"
    and snaps: "snapshots_ok (aggregate rt) (registry rt) w"
    and st: "stream_state (aggregate rt) (registry rt) sn (feed w) = Inr (state, v)"
    and sn: "sn = stream_name (aggregate rt) ident"
  obtains w' where "snapshot_if_due rt env sn sv v state w = (Inr (), w')" "grows w w'"
    "snapshots_ok (aggregate rt) (registry rt) w'"
proof (cases "\<exists>every. snapshotting rt = Some ss \<and> snapshotEvery rt = Some every \<and> v - sv \<ge> every")
  case False
  moreover have "snapshotting rt = None \<or> snapshotting rt = Some ss"
    using rt by (auto simp: snapshotting_def runs_on_def)
  ultimately have "snapshot_if_due rt env sn sv v state w = (Inr (), w)"
    by (auto simp: snapshot_if_due_def split: option.splits)
  then show ?thesis using that grows_refl [OF inv] snaps by blast
next
  case True
  let ?we = "env AfterAppend w" and ?snap = "\<lparr>snapState = state, snapVersion = v\<rparr>"
  note inv' = env_okD(1) [OF env inv] and snaps' = env_okD(3) [OF env inv snaps]
  obtain es where es: "feed ?we = feed w @ es"
    using env_okD(2) [OF env inv] by (auto simp: grows_def)
  obtain w' where w': "snap_save ss sn ?snap ?we = (Inr (), w')" "invar w'" "feed w' = feed ?we"
    "snap_of w' = (snap_of ?we)(sn := Some ?snap)"
    using snap_saves [OF inv'] by blast
  have "v = int (length (stream_in (feed w) sn))"
    using stream_state_version [OF stream_numbered [OF inv] st] .
  then have "snapshot_valid (aggregate rt) (registry rt) (stream_in (feed w') sn) ?snap"
    using snapshot_valid_full [of "aggregate rt" "registry rt" "stream_in (feed w) sn" state "stream_in es sn"] st
    by (simp add: w'(3) es stream_state_def)
  then have "snapshots_ok (aggregate rt) (registry rt) w'"
    using snaps' by (simp add: snapshots_ok_def w'(3,4))
  then show ?thesis
    using that [of w'] True w' es by (auto simp: snapshot_if_due_def grows_def)
qed

text \<open>The append of a decision made on the loaded state commits it on top of exactly that state.\<close>

lemma commit_correct:
  assumes inv: "invar w1" and env: "env_ok ag reg env" and snaps: "snapshots_ok ag reg w1"
    and law: "codec_lawful tg reg" and st: "stream_state ag reg sn (feed w1) = Inr (s, v)"
    and enc: "encode_events (encode tg reg) (stamp now uuid n ident v md) 0 events = Inr toAppend"
    and ne: "events \<noteq> []" and app: "append_op svc sn v toAppend (env AfterLoad w1) = (Inr appended, w2)"
  shows "stream_state ag reg sn (feed (env AfterLoad w1)) = Inr (s, v)"
    and "stream_state ag reg sn (feed w2) = Inr (rehydrate ag events s, lastVersion appended)"
    and "feed w2 = feed (env AfterLoad w1) @ storeEvents (int (length (feed (env AfterLoad w1)))) sn v toAppend"
    and "invar w2" and "snapshots_ok ag reg w2"
proof -
  note invc = env_okD(1) [OF env inv] and snapsc = env_okD(3) [OF env inv snaps]
  note succ = append_success [OF invc app]
  obtain es where es: "feed (env AfterLoad w1) = feed w1 @ es"
    using env_okD(2) [OF env inv] by (auto simp: grows_def)
  have "v = int (length (stream_in (feed w1) sn))"
    using stream_state_version [OF stream_numbered [OF inv] st] .
  then show stc: "stream_state ag reg sn (feed (env AfterLoad w1)) = Inr (s, v)"
    using succ(2) st by (simp add: es stream_state_def)
  show "stream_state ag reg sn (feed w2) = Inr (rehydrate ag events s, lastVersion appended)"
    using stream_state_append [OF stc law enc ne] succ(1,6) encode_events_nth(1) [OF enc] by simp
  show "snapshots_ok ag reg w2"
    using snapsc succ(6) append_snaps [OF invc app]
    by (auto simp: snapshots_ok_def intro: snapshot_valid_append)
qed (use append_success [OF env_okD(1) [OF env inv] app] in auto)

text \<open>
  A successful command took effect at one point of the history: it was decided on the state of
  everything committed before, and it added exactly the events of that decision.
\<close>

lemma execute_success:
  assumes rt: "runs_on rt" and inv: "invar w" and env: "env_ok (aggregate rt) (registry rt) env"
    and snaps: "snapshots_ok (aggregate rt) (registry rt) w"
    and law: "codec_lawful (tag rt) (registry rt)"
    and ex: "execute rt env now uuid ident command md w = (Inr res, w')"
    and ne: "resEvents res \<noteq> []"
  shows "\<exists>before s v toAppend post.
    stream_state (aggregate rt) (registry rt) (stream_name (aggregate rt) ident) before = Inr (s, v)
    \<and> decide (aggregate rt) s command = Inr (resEvents res)
    \<and> feed w' = before @ storeEvents (int (length before)) (stream_name (aggregate rt) ident) v toAppend @ post
    \<and> stream_state (aggregate rt) (registry rt) (stream_name (aggregate rt) ident)
        (before @ storeEvents (int (length before)) (stream_name (aggregate rt) ident) v toAppend)
        = Inr (resState res, resVersion res)
    \<and> invar w' \<and> snapshots_ok (aggregate rt) (registry rt) w'"
proof -
  let ?ag = "aggregate rt" and ?reg = "registry rt" and ?sn = "stream_name (aggregate rt) ident"
  have svc: "store rt = svc" using rt by (simp add: runs_on_def)
  obtain w1 r where lf: "loadFrom rt env ident w = (r, w1)" and w1: "w1 = w \<or> w1 = env AfterSnapshotLoad w"
    and r: "case stream_state ?ag ?reg ?sn (feed w1) of Inl e \<Rightarrow> r = Inl (DecodeErr e)
      | Inr (s, v) \<Rightarrow> \<exists>sv. r = Inr \<lparr>loadedState = s, loadedVersion = v, snapshotVersion = sv\<rparr>"
    using loadFrom_correct [OF rt inv env snaps] by blast
  have inv1: "invar w1" and snaps1: "snapshots_ok ?ag ?reg w1"
    using w1 inv snaps env_okD [OF env inv] by auto
  obtain s v sv where st1: "stream_state ?ag ?reg ?sn (feed w1) = Inr (s, v)"
    and r': "r = Inr \<lparr>loadedState = s, loadedVersion = v, snapshotVersion = sv\<rparr>"
    using r ex lf by (auto simp: execute_def split: sum.splits prod.splits)
  obtain toAppend appended w2 where dec: "decide ?ag s command = Inr (resEvents res)"
    and enc: "encode_events (encode (tag rt) ?reg) (stamp now uuid (name ?ag) ident v md) 0 (resEvents res) = Inr toAppend"
    and app: "append_op svc ?sn v toAppend (env AfterLoad w1) = (Inr appended, w2)"
    and snap: "snapshot_if_due rt env ?sn sv (lastVersion appended) (resState res) w2 = (Inr (), w')"
    and res: "resState res = rehydrate ?ag (resEvents res) s" "resVersion res = lastVersion appended"
    using ex ne by (auto simp: execute_def lf r' svc Let_def split: sum.splits if_splits prod.splits)
  note commit = commit_correct [OF inv1 env snaps1 law st1 enc ne app, folded res]
  obtain w3 where "snapshot_if_due rt env ?sn sv (resVersion res) (resState res) w2 = (Inr (), w3)"
    "grows w2 w3" "snapshots_ok ?ag ?reg w3"
    using snapshot_if_due_correct [OF rt commit(4) env commit(5,2) refl] by blast
  with snap res(2) have "grows w2 w'" "snapshots_ok ?ag ?reg w'" by auto
  then show ?thesis
    using commit dec by (fastforce simp: grows_def)
qed

text \<open>A failed command wrote nothing: only the other fibers' steps separate the two worlds.\<close>

lemma execute_failure:
  assumes rt: "runs_on rt" and inv: "invar w" and env: "env_ok (aggregate rt) (registry rt) env"
    and snaps: "snapshots_ok (aggregate rt) (registry rt) w"
    and law: "codec_lawful (tag rt) (registry rt)"
    and ex: "execute rt env now uuid ident command md w = (Inl e, w')"
  shows "w' \<in> {w, env AfterSnapshotLoad w, env AfterLoad w, env AfterLoad (env AfterSnapshotLoad w)}"
proof (rule ccontr)
  assume other: "\<not> ?thesis"
  let ?ag = "aggregate rt" and ?reg = "registry rt" and ?sn = "stream_name (aggregate rt) ident"
  have svc: "store rt = svc" using rt by (simp add: runs_on_def)
  obtain w1 r where lf: "loadFrom rt env ident w = (r, w1)" and w1: "w1 = w \<or> w1 = env AfterSnapshotLoad w"
    and r: "case stream_state ?ag ?reg ?sn (feed w1) of Inl e \<Rightarrow> r = Inl (DecodeErr e)
      | Inr (s, v) \<Rightarrow> \<exists>sv. r = Inr \<lparr>loadedState = s, loadedVersion = v, snapshotVersion = sv\<rparr>"
    using loadFrom_correct [OF rt inv env snaps] by blast
  have inv1: "invar w1" and snaps1: "snapshots_ok ?ag ?reg w1"
    using w1 inv snaps env_okD [OF env inv] by auto
  have "w' \<noteq> w1" using other w1 by auto
  then obtain l events toAppend r2 w2 where l: "r = Inr l" and ne: "events \<noteq> []"
    and enc: "encode_events (encode (tag rt) ?reg) (stamp now uuid (name ?ag) ident (loadedVersion l) md) 0 events = Inr toAppend"
    and app: "append_op svc ?sn (loadedVersion l) toAppend (env AfterLoad w1) = (r2, w2)"
    and out: "(case r2 of Inl f \<Rightarrow> w' = w2 | Inr appended \<Rightarrow>
      \<exists>e. snapshot_if_due rt env ?sn (snapshotVersion l) (lastVersion appended)
        (rehydrate ?ag events (loadedState l)) w2 = (Inl e, w'))"
    using ex by (auto simp: execute_def lf svc Let_def split: sum.splits if_splits prod.splits)
  obtain s v sv where st1: "stream_state ?ag ?reg ?sn (feed w1) = Inr (s, v)"
    and l': "l = \<lparr>loadedState = s, loadedVersion = v, snapshotVersion = sv\<rparr>"
    using r l by (auto split: sum.splits prod.splits)
  show False
  proof (cases r2)
    case (Inl f)
    then show False using append_failure(1) [OF env_okD(1) [OF env inv1]] app out w1 other by auto
  next
    case (Inr appended)
    note commit = commit_correct [OF inv1 env snaps1 law st1 enc [unfolded l', simplified] ne
        app [unfolded l' Inr, simplified]]
    obtain w3 where "snapshot_if_due rt env ?sn sv (lastVersion appended) (rehydrate ?ag events s) w2 = (Inr (), w3)"
      using snapshot_if_due_correct [OF rt commit(4) env commit(5,2) refl] by blast
    then show False using out Inr l' by auto
  qed
qed

text \<open>
  When a command emitted as many events as the snapshot period, its state is saved after the append, whatever happened to the
  stream in between.
\<close>

lemma loaded_not_before_snapshot:
  assumes "runs_on rt" and "loadFrom rt env ident w = (Inr l, w1)" and "invar w1"
  shows "snapshotVersion l \<le> loadedVersion l"
proof -
  have svc: "store rt = svc" using assms(1) by (simp add: runs_on_def)
  obtain xs s0 where fold: "fold_events (aggregate rt) (registry rt) xs s0 (snapshotVersion l) = Inr (loadedState l, loadedVersion l)"
    and xs: "read_op svc (stream_name (aggregate rt) ident) (Some (snapshotVersion l + 1)) w1 = Inr xs"
    using assms(2) by (auto simp: loadFrom_def Let_def svc split: sum.splits prod.splits)
  then have "\<forall>e \<in> set xs. snapshotVersion l < version e"
    using reads [OF assms(3)] by (auto simp: feed_read_def)
  then show ?thesis using fold_events_version [OF fold] by (cases "xs = []") (auto dest!: bspec [OF _ last_in_set])
qed

lemma due_snapshot_saved:
  assumes rt: "runs_on rt" and ss: "snapshotting rt = Some ss" and every: "snapshotEvery rt = Some every"
    and inv: "invar w" and env: "\<And>v. invar v \<Longrightarrow> invar (env AfterSnapshotLoad v) \<and> invar (env AfterLoad v)"
    and ex: "execute rt env now uuid ident command md w = (Inr res, w')"
    and ne: "resEvents res \<noteq> []" and due: "every \<le> int (length (resEvents res))"
  obtains w2 where "invar w2" "\<not> pinned w2 (stream_name (aggregate rt) ident)"
    "resVersion res = int (length (stream_in (feed w2) (stream_name (aggregate rt) ident)))"
    "snap_save ss (stream_name (aggregate rt) ident) \<lparr>snapState = resState res, snapVersion = resVersion res\<rparr> (env AfterAppend w2)
      = (Inr (), w')"
proof -
  let ?ag = "aggregate rt" and ?sn = "stream_name (aggregate rt) ident"
  have svc: "store rt = svc" using rt by (simp add: runs_on_def)
  obtain l w1 where lf: "loadFrom rt env ident w = (Inr l, w1)"
    using ex by (auto simp: execute_def Let_def split: sum.splits prod.splits)
  have inv1: "invar w1"
    using lf inv env by (auto simp: loadFrom_def Let_def ss split: sum.splits prod.splits)
  obtain toAppend appended w2 where
    enc: "encode_events (encode (tag rt) (registry rt)) (stamp now uuid (name ?ag) ident (loadedVersion l) md) 0 (resEvents res)
      = Inr toAppend"
    and app: "append_op svc ?sn (loadedVersion l) toAppend (env AfterLoad w1) = (Inr appended, w2)"
    and snap: "snapshot_if_due rt env ?sn (snapshotVersion l) (lastVersion appended) (resState res) w2 = (Inr (), w')"
    and res: "resVersion res = lastVersion appended"
    using ex ne by (auto simp: execute_def lf svc Let_def split: sum.splits if_splits prod.splits)
  note succ = append_success [OF conjunct2 [OF env [OF inv1]] app]
  have len: "length toAppend = length (resEvents res)" using encode_events_nth(1) [OF enc] by simp
  have version: "resVersion res = int (length (stream_in (feed w2) ?sn))"
    using res succ(1,2,6) by simp
  have "every \<le> lastVersion appended - snapshotVersion l"
    using loaded_not_before_snapshot [OF rt lf inv1] due succ(1) len by simp
  then have "snap_save ss ?sn \<lparr>snapState = resState res, snapVersion = resVersion res\<rparr> (env AfterAppend w2) = (Inr (), w')"
    using snap res by (auto simp: snapshot_if_due_def ss every split: sum.splits prod.splits)
  then show ?thesis using that succ(3,4,5) version by simp
qed

end

subsection \<open>Bounded retry\<close>

text \<open>The world before attempt \<open>k + j\<close>, when every earlier attempt was made.\<close>

primrec attempt_world ::
  "nat \<Rightarrow> (nat \<Rightarrow> 'w \<Rightarrow> ('x, 'a) result \<times> 'w) \<Rightarrow> 'w \<Rightarrow> nat \<Rightarrow> 'w" where
  "attempt_world k attempt w 0 = w"
| "attempt_world k attempt w (Suc j) = snd (attempt (k + j) (attempt_world k attempt w j))"

lemma attempt_world_shift:
  "attempt_world (Suc k) attempt (snd (attempt k w)) j = attempt_world k attempt w (Suc j)"
  by (induction j) auto

definition retryable :: "('x \<Rightarrow> bool) \<Rightarrow> ('x, 'a) result \<Rightarrow> bool" where
  "retryable again r \<longleftrightarrow> (case r of Inl e \<Rightarrow> again e | Inr a \<Rightarrow> False)"

lemma retry_spec:
  "\<exists>j \<le> n. retry n again k attempt w = attempt (k + j) (attempt_world k attempt w j)
    \<and> (\<forall>i < j. retryable again (fst (attempt (k + i) (attempt_world k attempt w i))))
    \<and> (j < n \<longrightarrow> \<not> retryable again (fst (attempt (k + j) (attempt_world k attempt w j))))"
proof (induction n arbitrary: k w)
  case 0
  then show ?case by simp
next
  case (Suc n)
  obtain r w' where rw: "attempt k w = (r, w')" by (cases "attempt k w")
  show ?case
  proof (cases "retryable again r")
    case False
    then have "retry (Suc n) again k attempt w = attempt k w"
      using rw by (auto simp: retryable_def split: sum.splits)
    then show ?thesis using rw False by (intro exI [of _ 0]) simp
  next
    case True
    then have "retry (Suc n) again k attempt w = retry n again (Suc k) attempt w'"
      using rw by (auto simp: retryable_def split: sum.splits)
    moreover obtain j where "j \<le> n"
      and "retry n again (Suc k) attempt w' = attempt (Suc k + j) (attempt_world (Suc k) attempt w' j)"
      and "\<forall>i < j. retryable again (fst (attempt (Suc k + i) (attempt_world (Suc k) attempt w' i)))"
      and "j < n \<longrightarrow> \<not> retryable again (fst (attempt (Suc k + j) (attempt_world (Suc k) attempt w' j)))"
      using Suc.IH by blast
    moreover have "attempt_world (Suc k) attempt w' i = attempt_world k attempt w (Suc i)" for i
      using attempt_world_shift [of k attempt w i] rw by simp
    ultimately show ?thesis
      using rw True by (intro exI [of _ "Suc j"]) (auto simp: less_Suc_eq_0_disj)
  qed
qed

end
