(* ===== verification/Projection.thy ===== *)
theory Projection
  imports Codec Stores
begin

section \<open>Projections\<close>

text \<open>
  \<open>packages/eventsourcing/src/Projection.ts\<close>: folding the global feed into a read model in
  batches, with a checkpoint saved after every batch. The read model is a value \<open>'v\<close> the handlers
  transform; the stores live in the world \<open>'w\<close>. \<open>env i\<close> is what other fibers do to the stores
  before round \<open>i\<close> of the loop. The loop of \<open>catchupWith\<close> has no bound of its own, so it is a
  \<open>partial_function\<close>: not returning is \<open>None\<close>.
\<close>

record 'w CheckpointStoreService =
  cp_load :: "string \<Rightarrow> 'w \<Rightarrow> (PersistenceError, int) result"
  cp_save :: "string \<Rightarrow> int \<Rightarrow> 'w \<Rightarrow> (PersistenceError, unit) result \<times> 'w"

type_synonym ('e, 'v, 'x) ProjectionHandler =
  "'e \<Rightarrow> StoredEvent \<Rightarrow> bool \<Rightarrow> 'v \<Rightarrow> ('x, unit) result \<times> 'v"

record ('e, 'v, 'x) Projection =
  projName :: string
  projRegistry :: "'e EventRegistry"
  projWhen :: "string \<Rightarrow> ('e, 'v, 'x) ProjectionHandler option"

datatype 'x ProjectionError =
    HandlerFailed 'x
  | DecodeFailed EventDecodeError
  | StoreFailed PersistenceError

record CatchupStats =
  processed :: nat
  skipped :: nat

text \<open>The \<open>for\<close> loop over one batch; the \<open>int\<close> is the local \<open>position\<close>.\<close>

fun handle_batch ::
  "('e, 'v, 'x) Projection \<Rightarrow> bool \<Rightarrow> StoredEvent list \<Rightarrow> int \<Rightarrow> CatchupStats \<Rightarrow> 'v
    \<Rightarrow> ('x ProjectionError, int \<times> CatchupStats) result \<times> 'v" where
  "handle_batch proj live [] pos stats v = (Inr (pos, stats), v)"
| "handle_batch proj live (stored # rest) pos stats v =
     (if \<not> has_type (projRegistry proj) (etype stored)
      then handle_batch proj live rest (position stored) (stats\<lparr>skipped := skipped stats + 1\<rparr>) v
      else
        (case projWhen proj (etype stored) of
           None \<Rightarrow> handle_batch proj live rest (position stored) stats v
         | Some handler \<Rightarrow>
             (case decode (projRegistry proj) stored of
                Inl e \<Rightarrow> (Inl (DecodeFailed e), v)
              | Inr event \<Rightarrow>
                  (case handler event stored live v of
                     (Inl x, v') \<Rightarrow> (Inl (HandlerFailed x), v')
                   | (Inr _, v') \<Rightarrow>
                       handle_batch proj live rest (position stored)
                         (stats\<lparr>processed := processed stats + 1\<rparr>) v'))))"

partial_function (option) catchupWith ::
  "'w EventStoreService \<Rightarrow> 'w CheckpointStoreService \<Rightarrow> ('e, 'v, 'x) Projection \<Rightarrow> bool \<Rightarrow> int
    \<Rightarrow> (nat \<Rightarrow> 'w \<Rightarrow> 'w) \<Rightarrow> nat \<Rightarrow> CatchupStats \<Rightarrow> 'w \<Rightarrow> 'v
    \<Rightarrow> (('x ProjectionError, CatchupStats) result \<times> 'w \<times> 'v) option" where
  "catchupWith svc cps proj live bsize env i stats w v =
     (case cp_load cps (projName proj) (env i w) of
        Inl p \<Rightarrow> Some (Inl (StoreFailed p), env i w, v)
      | Inr checkpoint \<Rightarrow>
          (case readAll_op svc
                  \<lparr>fromPosition = Some (checkpoint + 1), batchSize = Some bsize, partitionFilter = None\<rparr>
                  (env i w) of
             Inl p \<Rightarrow> Some (Inl (StoreFailed p), env i w, v)
           | Inr batch \<Rightarrow>
               (if batch = [] then Some (Inr stats, env i w, v)
                else
                  (case handle_batch proj live batch checkpoint stats v of
                     (Inl e, v') \<Rightarrow> Some (Inl e, env i w, v')
                   | (Inr (pos, stats'), v') \<Rightarrow>
                       (case cp_save cps (projName proj) pos (env i w) of
                          (Inl p, w') \<Rightarrow> Some (Inl (StoreFailed p), w', v')
                        | (Inr _, w') \<Rightarrow>
                            catchupWith svc cps proj live bsize env (Suc i) stats' w' v')))))"

definition no_stats :: CatchupStats where
  "no_stats = \<lparr>processed = 0, skipped = 0\<rparr>"

definition catchup ::
  "'w EventStoreService \<Rightarrow> 'w CheckpointStoreService \<Rightarrow> ('e, 'v, 'x) Projection \<Rightarrow> int option
    \<Rightarrow> (nat \<Rightarrow> 'w \<Rightarrow> 'w) \<Rightarrow> 'w \<Rightarrow> 'v \<Rightarrow> (('x ProjectionError, CatchupStats) result \<times> 'w \<times> 'v) option" where
  "catchup svc cps proj bsize env w v = catchupWith svc cps proj True (getOr 100 bsize) env 0 no_stats w v"

text \<open>\<open>reset\<close> is the caller's effect on the read model; its failure ends the rebuild.\<close>

definition rebuild ::
  "'w EventStoreService \<Rightarrow> 'w CheckpointStoreService \<Rightarrow> ('e, 'v, 'x) Projection
    \<Rightarrow> ('v \<Rightarrow> ('x, unit) result \<times> 'v) \<Rightarrow> int option \<Rightarrow> (nat \<Rightarrow> 'w \<Rightarrow> 'w) \<Rightarrow> 'w \<Rightarrow> 'v
    \<Rightarrow> (('x ProjectionError, CatchupStats) result \<times> 'w \<times> 'v) option" where
  "rebuild svc cps proj reset bsize env w v =
     (case reset v of
        (Inl x, v') \<Rightarrow> Some (Inl (HandlerFailed x), w, v')
      | (Inr _, v') \<Rightarrow>
          (case cp_save cps (projName proj) 0 w of
             (Inl p, w') \<Rightarrow> Some (Inl (StoreFailed p), w', v')
           | (Inr _, w') \<Rightarrow> catchupWith svc cps proj False (getOr 100 bsize) env 0 no_stats w' v'))"

text \<open>Where a failed catching up resumes: all before was handled, and the batch that starts there fails.\<close>

definition resumes_at ::
  "('e, 'v, 'x) Projection \<Rightarrow> bool \<Rightarrow> int \<Rightarrow> StoredEvent list \<Rightarrow> nat \<Rightarrow> CatchupStats \<Rightarrow> 'v \<Rightarrow> 'x ProjectionError \<Rightarrow> nat \<Rightarrow> bool" where
  "resumes_at proj live bsize events k stats v e k' \<longleftrightarrow>
     k \<le> k' \<and> (\<exists>pos stats' u. handle_batch proj live (take (k' - k) (drop k events)) (int k) stats v = (Inr (pos, stats'), u) \<and>
       fst (handle_batch proj live (take (nat bsize) (drop k' events)) (int k') stats' u) = Inl e)"

subsection \<open>One batch\<close>

lemma handle_batch_append:
  "handle_batch proj live (xs @ ys) pos stats v =
     (case handle_batch proj live xs pos stats v of
        (Inl e, v') \<Rightarrow> (Inl e, v')
      | (Inr (pos', stats'), v') \<Rightarrow> handle_batch proj live ys pos' stats' v')"
  by (induction xs arbitrary: pos stats v) (auto split: option.splits sum.splits prod.splits)

lemma handle_batch_position:
  assumes "handle_batch proj live xs pos stats v = (Inr (pos', stats'), v')"
  shows "pos' = (if xs = [] then pos else position (last xs))"
  using assms
  by (induction xs arbitrary: pos stats v) (auto split: option.splits sum.splits prod.splits if_splits)

text \<open>The start position only matters for an empty batch.\<close>

lemma handle_batch_cong_position:
  "xs \<noteq> [] \<Longrightarrow> handle_batch proj live xs pos stats v = handle_batch proj live xs pos2 stats v"
  by (cases xs) auto

text \<open>Types the registry does not know are skipped and counted, whatever they carry.\<close>

lemma handle_batch_unknown:
  assumes "\<forall>e \<in> set xs. \<not> has_type (projRegistry proj) (etype e)"
  shows "handle_batch proj live xs pos stats v =
    (Inr (if xs = [] then pos else position (last xs), stats\<lparr>skipped := skipped stats + length xs\<rparr>), v)"
  using assms by (induction xs arbitrary: pos stats) auto

subsection \<open>Catching up over any event store with checkpoints\<close>

locale checkpointed_event_store = event_store +
  fixes cps :: "'a CheckpointStoreService"
    and checkpoint_of :: "'a \<Rightarrow> string \<Rightarrow> int"
  assumes cp_loads: "invar w \<Longrightarrow> cp_load cps n w = Inr (checkpoint_of w n)"
    and cp_saves: "invar w \<Longrightarrow>
      \<exists>w'. cp_save cps n pos w = (Inr (), w') \<and> invar w' \<and> feed w' = feed w \<and> pinned w' = pinned w
        \<and> checkpoint_of w' = (checkpoint_of w)(n := pos)"
begin

text \<open>A checkpoint of a consumer that has seen the first \<open>k\<close> events.\<close>

definition at :: "string \<Rightarrow> nat \<Rightarrow> 'a \<Rightarrow> bool" where
  "at n k w \<longleftrightarrow> invar w \<and> k \<le> length (feed w) \<and> checkpoint_of w n = int k"

lemma catchup_round:
  assumes "at (projName proj) k (env i w)" and "0 < bsize"
  shows "catchupWith svc cps proj live bsize env i stats w v =
    (let batch = take (nat bsize) (drop k (feed (env i w))) in
     if batch = [] then Some (Inr stats, env i w, v)
     else case handle_batch proj live batch (int k) stats v of
       (Inl e, v') \<Rightarrow> Some (Inl e, env i w, v')
     | (Inr (pos, stats'), v') \<Rightarrow>
         (case cp_save cps (projName proj) pos (env i w) of
            (Inl p, w') \<Rightarrow> Some (Inl (StoreFailed p), w', v')
          | (Inr _, w') \<Rightarrow> catchupWith svc cps proj live bsize env (Suc i) stats' w' v'))"
  using assms readAll_from [of "env i w" k bsize]
  by (subst catchupWith.simps) (simp add: at_def cp_loads)

lemma at_advance:
  assumes "at n k w" and "k + m \<le> length (feed w)"
  obtains w' where "cp_save cps n (int (k + m)) w = (Inr (), w')" "at n (k + m) w'" "feed w' = feed w"
  using cp_saves [of w n "int (k + m)"] assms by (fastforce simp: at_def)

lemma batch_end_position:
  assumes "invar w" and "batch = take m (drop k (feed w))" and "batch \<noteq> []"
  shows "position (last batch) = int (k + length batch)"
proof -
  obtain n where n: "length batch = Suc n" using assms(3) by (cases batch) auto
  then have "last batch = feed w ! (k + n)" and "k + n < length (feed w)"
    using assms(2,3) by (auto simp: last_conv_nth)
  then show ?thesis using feed_numbered [OF assms(1)] n by (simp add: numbered_def)
qed

text \<open>What other fibers may do between the rounds: append, and only before round \<open>n\<close>.\<close>

definition only_appends :: "(nat \<Rightarrow> 'a \<Rightarrow> 'a) \<Rightarrow> nat \<Rightarrow> bool" where
  "only_appends env n \<longleftrightarrow>
     (\<forall>i w. invar w \<longrightarrow> invar (env i w) \<and> checkpoint_of (env i w) = checkpoint_of w \<and> (\<exists>xs. feed (env i w) = feed w @ xs)) \<and>
     (\<forall>i w. n \<le> i \<longrightarrow> env i w = w)"

lemma only_appends_at: "only_appends env n \<Longrightarrow> at c k w \<Longrightarrow> at c k (env i w) \<and> (\<exists>xs. feed (env i w) = feed w @ xs)"
  unfolding only_appends_def at_def by (metis length_append trans_le_add1)

text \<open>A round whose batch is handled moves the checkpoint to the end of the batch.\<close>

lemma catchup_advance:
  assumes at: "at (projName proj) k (env i w)" and bsize: "0 < bsize"
    and batch: "batch = take (nat bsize) (drop k (feed (env i w)))" and ne: "batch \<noteq> []"
    and hb: "handle_batch proj live batch (int k) stats v = (Inr (pos, stats'), v')"
  obtains w' where "at (projName proj) (k + length batch) w'" "feed w' = feed (env i w)" "pos = int (k + length batch)"
    "catchupWith svc cps proj live bsize env i stats w v = catchupWith svc cps proj live bsize env (Suc i) stats' w' v'"
proof -
  have inv: "invar (env i w)" and kle: "k \<le> length (feed (env i w))" using at by (auto simp: at_def)
  have pos: "pos = int (k + length batch)"
    using handle_batch_position [OF hb] batch_end_position [OF inv batch ne] ne by simp
  have "k + length batch \<le> length (feed (env i w))" using kle by (auto simp: batch min_def)
  then obtain w' where w': "cp_save cps (projName proj) (int (k + length batch)) (env i w) = (Inr (), w')"
    "at (projName proj) (k + length batch) w'" "feed w' = feed (env i w)"
    using at_advance [OF at] by blast
  from catchup_round [of proj k env i w bsize live stats v, OF at bsize] have
    "catchupWith svc cps proj live bsize env i stats w v = catchupWith svc cps proj live bsize env (Suc i) stats' w' v'"
    using ne hb w'(1) by (simp add: Let_def pos batch)
  then show ?thesis using that w'(2,3) pos by blast
qed

text \<open>
  The outcome of handling the rest of the final feed in one go: the read model and counts it gives, and the checkpoint at the head
  on success, and on failure at the point to resume.
\<close>

definition outcome ::
  "('e, 'v, 'x) Projection \<Rightarrow> bool \<Rightarrow> int \<Rightarrow> nat \<Rightarrow> CatchupStats \<Rightarrow> 'v
    \<Rightarrow> ('x ProjectionError, CatchupStats) result \<Rightarrow> 'a \<Rightarrow> 'v \<Rightarrow> bool" where
  "outcome proj live bsize k stats v r w' v' \<longleftrightarrow>
     (case handle_batch proj live (drop k (feed w')) (int k) stats v of
        (Inl e, u) \<Rightarrow> r = Inl e \<and> v' = u \<and>
          (\<exists>k'. at (projName proj) k' w' \<and> resumes_at proj live bsize (feed w') k stats v e k')
      | (Inr (pos, stats'), u) \<Rightarrow> r = Inr stats' \<and> v' = u \<and> at (projName proj) (length (feed w')) w')"

lemma outcome_step:
  assumes hb: "handle_batch proj live batch (int k) stats v = (Inr (int l, stats'), u)"
    and l: "l = k + length batch" and batch: "batch = take m (drop k (feed w1))" and more: "feed w' = feed w1 @ xs"
    and out: "outcome proj live bsize l stats' u r w' v'"
  shows "outcome proj live bsize k stats v r w' v'"
proof -
  have front: "take (length batch) (drop k (feed w')) = batch"
    by (simp add: batch more take_all min_def)
  have split: "drop k (feed w') = batch @ drop l (feed w')"
    using append_take_drop_id [of "length batch" "drop k (feed w')"] front l by (simp add: add.commute)
  then have whole: "handle_batch proj live (drop k (feed w')) (int k) stats v =
      handle_batch proj live (drop l (feed w')) (int l) stats' u"
    using handle_batch_append [of proj live batch "drop l (feed w')"] hb by simp
  have resume: "resumes_at proj live bsize (feed w') k stats v e k'" if "resumes_at proj live bsize (feed w') l stats' u e k'" for e k'
  proof -
    have k': "l \<le> k'" using that by (simp add: resumes_at_def)
    then have "take (k' - k) (drop k (feed w')) = batch @ take (k' - l) (drop l (feed w'))"
      using split l by simp
    then show ?thesis
      using that k' l handle_batch_append [of proj live batch "take (k' - l) (drop l (feed w'))"] hb
      by (auto simp: resumes_at_def)
  qed
  show ?thesis
    using out resume unfolding outcome_def whole by (auto split: prod.splits sum.splits)
qed

text \<open>While other fibers only append and stop doing so, the loop returns after finitely many rounds, with that outcome.\<close>

lemma catchup_settles:
  assumes "at (projName proj) k w" and "0 < bsize" and "only_appends env n"
  shows "\<exists>r w' v' xs. catchupWith svc cps proj live bsize env i stats w v = Some (r, w', v')
    \<and> feed w' = feed w @ xs \<and> (n \<le> i \<longrightarrow> xs = []) \<and> outcome proj live bsize k stats v r w' v'"
  using assms(1)
proof (induction "(n - i, length (feed w) - k)" arbitrary: k w i stats v rule: wf_induct_rule [OF wf_lex_prod [OF wf_less_than wf_less_than]])
  case (1 k w i stats v)
  let ?w1 = "env i w" and ?batch = "take (nat bsize) (drop k (feed (env i w)))"
  obtain ys where at: "at (projName proj) k ?w1" and ys0: "feed ?w1 = feed w @ ys"
    using only_appends_at [OF assms(3) "1.prems"] by blast
  have "n \<le> i \<Longrightarrow> ?w1 = w" using assms(3) by (simp add: only_appends_def)
  then have ys: "feed ?w1 = feed w @ ys" "n \<le> i \<longrightarrow> ys = []" using ys0 by auto
  note round = catchup_round [of proj k env i w bsize live stats v, OF at assms(2)]
  show ?case
  proof (cases "drop k (feed ?w1) = []")
    case True
    then have "k = length (feed ?w1)" using at by (simp add: at_def)
    then show ?thesis using at round ys True by (simp add: outcome_def)
  next
    case False
    then have ne: "?batch \<noteq> []" using assms(2) by simp
    obtain rb vb where hb: "handle_batch proj live ?batch (int k) stats v = (rb, vb)" by fastforce
    show ?thesis
    proof (cases rb)
      case (Inl e)
      have "handle_batch proj live (drop k (feed ?w1)) (int k) stats v = (Inl e, vb)"
        using handle_batch_append [of proj live ?batch "drop (nat bsize) (drop k (feed ?w1))"] hb Inl
        by (simp del: drop_drop)
      moreover have "resumes_at proj live bsize (feed ?w1) k stats v e k"
        using hb Inl by (simp add: resumes_at_def)
      ultimately show ?thesis using at round hb ne ys Inl by (auto simp: outcome_def Let_def)
    next
      case (Inr ps)
      then obtain pos stats' where hb': "handle_batch proj live ?batch (int k) stats v = (Inr (pos, stats'), vb)"
        using hb by (cases ps) auto
      obtain w' where w': "at (projName proj) (k + length ?batch) w'" "feed w' = feed ?w1" "pos = int (k + length ?batch)"
        "catchupWith svc cps proj live bsize env i stats w v = catchupWith svc cps proj live bsize env (Suc i) stats' w' vb"
        using catchup_advance [where env = env and w = w and i = i, OF at assms(2) refl ne hb'] by blast
      have "((n - Suc i, length (feed w') - (k + length ?batch)), (n - i, length (feed w) - k)) \<in> less_than <*lex*> less_than"
      proof (cases "i < n")
        case False
        then have "?w1 = w" using assms(3) by (simp add: only_appends_def)
        then show ?thesis using w'(2) ne False by auto
      qed auto
      from "1.hyps" [OF this w'(1), of stats' vb] obtain r w2 v' xs where
        ih: "catchupWith svc cps proj live bsize env (Suc i) stats' w' vb = Some (r, w2, v')"
        "feed w2 = feed w' @ xs" "n \<le> Suc i \<longrightarrow> xs = []" "outcome proj live bsize (k + length ?batch) stats' vb r w2 v'" by blast
      show ?thesis
        using ih w'(2,4) ys outcome_step [OF hb' [unfolded w'(3)] refl refl, of w2 xs] by auto
    qed
  qed
qed

end

end
