(* ===== verification/StreamErasure.thy ===== *)
theory StreamErasure
  imports EventStore Stores
begin

section \<open>Destructive retention of one stream\<close>

text \<open>
  \<open>packages/eventsourcing/src/StreamErasure.ts\<close> and the \<open>StreamEraser\<close> of \<open>memory.ts\<close>: a stream's
  events are rewritten to tombstones in place, the stream is pinned in the erasure ledger and
  its snapshot is dropped. The wall clock (\<open>new Date().toISOString()\<close>) is the argument \<open>now\<close>.
\<close>

definition ERASED_EVENT_TYPE :: string where
  "ERASED_EVENT_TYPE = ''Erased''"

record StreamErasureRequest =
  reqStream :: string
  reqVersion :: int
  reqReason :: string

record StreamErasureResult =
  erasedEvents :: int
  pinnedVersion :: int
  resultErasedAt :: string
  resultReason :: string

datatype StreamErasureError =
    InvalidErasure (detail: string)
  | StreamModified (detail: string) (expected: int) (actual: int)

fun erasure_classification :: "StreamErasureError \<Rightarrow> FailureClass" where
  "erasure_classification (InvalidErasure d) = Permanent"
| "erasure_classification (StreamModified d e a) = Conflict"

definition is_safe_integer :: "int \<Rightarrow> bool" where
  "is_safe_integer n \<longleftrightarrow> \<bar>n\<bar> \<le> 9007199254740991"

definition erasureIdentity :: "string \<Rightarrow> string \<times> string" where
  "erasureIdentity sn =
     (if CHR ''-'' \<in> set sn
      then (takeWhile (\<lambda>c. c \<noteq> CHR ''-'') sn, tl (dropWhile (\<lambda>c. c \<noteq> CHR ''-'') sn))
      else (sn, sn))"

definition prepareStreamErasure ::
  "StreamErasureRequest \<Rightarrow> (StreamErasureError, StreamErasureRequest) result" where
  "prepareStreamErasure request =
     (if trim (reqStream request) = [] then Inl (InvalidErasure ''streamName must not be empty'')
      else if \<not> is_safe_integer (reqVersion request) \<or> reqVersion request < 0
      then Inl (InvalidErasure
        (''expectedVersion must be a non-negative safe integer, got '' @ show_int (reqVersion request)))
      else if trim (reqReason request) = [] then Inl (InvalidErasure ''reason must not be empty'')
      else Inr request)"

definition erasedTombstone :: "string \<Rightarrow> int \<Rightarrow> string \<Rightarrow> AppendEvent" where
  "erasedTombstone sn v at =
     (case erasureIdentity sn of (entity, ident) \<Rightarrow>
       \<lparr>etype = ERASED_EVENT_TYPE, schemaVersion = 1,
        payload = JObj [(''_tag'', JStr ERASED_EVENT_TYPE)],
        metadata =
          \<lparr>eventId = ''erased:'' @ sn @ '':'' @ show_int v, occurredAt = at,
           aggregateName = entity, aggregateId = ident, aggregateVersion = v,
           correlationId = None, causationId = None, actor = None, partition = None,
           origin = None, extensions = None\<rparr>\<rparr>)"

definition streamErasureConflict :: "string \<Rightarrow> int \<Rightarrow> int \<Rightarrow> StreamErasureError" where
  "streamErasureConflict sn expectedVersion actualVersion =
     StreamModified
       (''stream '' @ sn @ '' was modified: expected version '' @ show_int expectedVersion
         @ '', found '' @ show_int actualVersion)
       expectedVersion actualVersion"

text \<open>The tombstone that replaces one stored event.\<close>

definition entomb :: "string \<Rightarrow> string \<Rightarrow> StoredEvent \<Rightarrow> StoredEvent" where
  "entomb sn at event =
     AppendEvent.extend (erasedTombstone sn (version event) at)
       (StoredEvent.fields (position event) (streamName event) (version event))"

text \<open>The critical section of \<open>eraseStream\<close>.\<close>

definition erase_state ::
  "StreamErasureRequest \<Rightarrow> string \<Rightarrow> EventStoreState
    \<Rightarrow> (StreamErasureError, StreamErasureResult) result \<times> EventStoreState" where
  "erase_state request now st =
     (case jsget (erased st) (reqStream request) of
        Some recorded \<Rightarrow>
          if reqVersion request \<noteq> erasedVersion recorded
          then (Inl (streamErasureConflict (reqStream request) (reqVersion request) (erasedVersion recorded)), st)
          else (Inr \<lparr>erasedEvents = 0, pinnedVersion = erasedVersion recorded,
                     resultErasedAt = erasedAt recorded, resultReason = erasedReason recorded\<rparr>, st)
      | None \<Rightarrow>
          (let existing = streamOf st (reqStream request); actualVersion = int (length existing) in
           if actualVersion \<noteq> reqVersion request
           then (Inl (streamErasureConflict (reqStream request) (reqVersion request) actualVersion), st)
           else
             (let tombstones = map (entomb (reqStream request) now) existing;
                  byVersion = jsmap_of_entries (map (\<lambda>e. (version e, e)) tombstones)
              in (Inr \<lparr>erasedEvents = int (length existing), pinnedVersion = actualVersion,
                       resultErasedAt = now, resultReason = reqReason request\<rparr>,
                  st\<lparr>streams := jsset (reqStream request) tombstones (streams st),
                     allEvents := map (\<lambda>event.
                       if streamName event \<noteq> reqStream request then event
                       else getOr event (jsget byVersion (version event))) (allEvents st),
                     erased := jsset (reqStream request)
                       \<lparr>erasedVersion = actualVersion, erasedAt = now, erasedReason = reqReason request\<rparr>
                       (erased st)\<rparr>))))"

text \<open>The whole handler; \<open>snapshots\<close> is the snapshot store in context, if any.\<close>

definition eraseStream ::
  "StreamErasureRequest \<Rightarrow> string \<Rightarrow> EventStoreState \<times> 's SnapshotState option
    \<Rightarrow> (StreamErasureError, StreamErasureResult) result \<times> EventStoreState \<times> 's SnapshotState option" where
  "eraseStream request now w =
     (case prepareStreamErasure request of
        Inl e \<Rightarrow> (Inl e, w)
      | Inr _ \<Rightarrow>
          (case erase_state request now (fst w) of
             (Inl e, st) \<Rightarrow> (Inl e, st, snd w)
           | (Inr r, st) \<Rightarrow> (Inr r, st, map_option (remove_snapshot (reqStream request)) (snd w))))"

lemma entomb_simps [store_simps]:
  "position (entomb sn at e) = position e"
  "version (entomb sn at e) = version e"
  "streamName (entomb sn at e) = streamName e"
  "etype (entomb sn at e) = ERASED_EVENT_TYPE"
  "payload (entomb sn at e) = JObj [(''_tag'', JStr ERASED_EVENT_TYPE)]"
  by (simp_all add: entomb_def erasedTombstone_def AppendEvent.defs StoredEvent.defs split: prod.splits)

lemma entomb_erases:
  assumes "position e = position e'" and "version e = version e'" and "streamName e = streamName e'"
  shows "entomb sn at e = entomb sn at e'"
  using assms by (simp add: entomb_def)

subsection \<open>Effect of an erasure on the history\<close>

definition entomb_stream :: "string \<Rightarrow> string \<Rightarrow> StoredEvent list \<Rightarrow> StoredEvent list" where
  "entomb_stream sn now es = map (\<lambda>e. if streamName e = sn then entomb sn now e else e) es"

lemma stream_in_entomb_stream:
  "stream_in (entomb_stream sn now es) n =
     (if n = sn then map (entomb sn now) (stream_in es sn) else stream_in es n)"
  by (induction es) (auto simp: entomb_stream_def store_simps)

lemma map_position_entomb_stream [simp]: "map position (entomb_stream sn now es) = map position es"
  and map_version_entomb_stream [simp]: "map version (entomb_stream sn now es) = map version es"
  and map_streamName_entomb_stream [simp]: "map streamName (entomb_stream sn now es) = map streamName es"
  by (auto simp: entomb_stream_def store_simps)

text \<open>The state after a first, accepted erasure.\<close>

definition entombed :: "StreamErasureRequest \<Rightarrow> string \<Rightarrow> EventStoreState \<Rightarrow> EventStoreState" where
  "entombed request now st =
     (let sn = reqStream request in
      st\<lparr>streams := jsset sn (map (entomb sn now) (streamOf st sn)) (streams st),
         allEvents := entomb_stream sn now (allEvents st),
         erased := jsset sn \<lparr>erasedVersion = int (length (streamOf st sn)), erasedAt = now,
                             erasedReason = reqReason request\<rparr> (erased st)\<rparr>)"

lemma entombed_simps [store_simps]:
  "allEvents (entombed request now st) = entomb_stream (reqStream request) now (allEvents st)"
  "importSessions (entombed request now st) = importSessions st"
  "importBatches (entombed request now st) = importBatches st"
  "streamOf (entombed request now st) n =
     (if n = reqStream request then map (entomb n now) (streamOf st n) else streamOf st n)"
  "erased (entombed request now st) =
     jsset (reqStream request)
       \<lparr>erasedVersion = int (length (streamOf st (reqStream request))), erasedAt = now,
        erasedReason = reqReason request\<rparr> (erased st)"
  by (simp_all add: entombed_def streamOf_def Let_def)

lemma byVersion_lookup:
  assumes inv: "store_inv st" and "e \<in> set (allEvents st)" and "streamName e = sn"
  shows "jsget (jsmap_of_entries (map (\<lambda>e. (version e, e)) (map (entomb sn now) (streamOf st sn))))
    (version e) = Some (entomb sn now e)"
proof (rule jsget_of_entries_distinct)
  show "distinct (jskeys (map (\<lambda>e. (version e, e)) (map (entomb sn now) (streamOf st sn))))"
    using numbered_distinct [OF store_invD(3) [OF inv]] by (simp add: comp_def store_simps)
  have "e \<in> set (streamOf st sn)" using assms store_invD(2) [OF inv] by auto
  then show "(version e, entomb sn now e)
      \<in> set (map (\<lambda>e. (version e, e)) (map (entomb sn now) (streamOf st sn)))"
    by (auto simp: image_iff store_simps intro!: bexI [of _ e])
qed

lemma erase_state_first:
  assumes inv: "store_inv st" and "jsget (erased st) (reqStream request) = None"
    and "reqVersion request = int (length (streamOf st (reqStream request)))"
  shows "erase_state request now st =
    (Inr \<lparr>erasedEvents = reqVersion request, pinnedVersion = reqVersion request,
          resultErasedAt = now, resultReason = reqReason request\<rparr>, entombed request now st)"
proof -
  have "map (\<lambda>event. if streamName event \<noteq> reqStream request then event
      else getOr event (jsget (jsmap_of_entries (map (\<lambda>e. (version e, e))
        (map (entomb (reqStream request) now) (streamOf st (reqStream request))))) (version event)))
      (allEvents st) = entomb_stream (reqStream request) now (allEvents st)"
    by (auto simp: entomb_stream_def byVersion_lookup [OF inv] simp del: map_map)
  then show ?thesis
    using assms(2,3) by (simp add: erase_state_def entombed_def Let_def)
qed

lemma erase_state_again:
  assumes "jsget (erased st) (reqStream request) = Some rec"
  shows "erase_state request now st =
    (if reqVersion request = erasedVersion rec
     then Inr \<lparr>erasedEvents = 0, pinnedVersion = erasedVersion rec, resultErasedAt = erasedAt rec,
               resultReason = erasedReason rec\<rparr>
     else Inl (streamErasureConflict (reqStream request) (reqVersion request) (erasedVersion rec)), st)"
  using assms by (simp add: erase_state_def)

lemma erase_state_conflict:
  assumes "jsget (erased st) (reqStream request) = None"
    and "reqVersion request \<noteq> int (length (streamOf st (reqStream request)))"
  shows "erase_state request now st =
    (Inl (streamErasureConflict (reqStream request) (reqVersion request)
       (int (length (streamOf st (reqStream request))))), st)"
  using assms by (simp add: erase_state_def Let_def)

lemma erase_state_cases [consumes 1, case_names unchanged first]:
  assumes "store_inv st"
  obtains (unchanged) "snd (erase_state request now st) = st"
  | (first) "jsget (erased st) (reqStream request) = None"
      "reqVersion request = int (length (streamOf st (reqStream request)))"
      "snd (erase_state request now st) = entombed request now st"
  using assms
  by (metis erase_state_again erase_state_conflict erase_state_first not_None_eq snd_conv)

lemma store_inv_entombed:
  assumes inv: "store_inv st"
  shows "store_inv (entombed request now st)"
proof (rule store_invI)
  have "map position (allEvents (entombed request now st)) = map position (allEvents st)"
    by (simp add: store_simps)
  then show "numbered position (allEvents (entombed request now st))"
    using store_invD(1) [OF inv] unfolding numbered_def by (metis length_map nth_map)
next
  fix n
  show "streamOf (entombed request now st) n = stream_in (allEvents (entombed request now st)) n"
    using store_invD(2) [OF inv] by (simp add: store_simps stream_in_entomb_stream)
  show "numbered version (streamOf (entombed request now st) n)"
    using store_invD(3) [OF inv, of n] by (auto simp: store_simps numbered_def)
next
  fix n rec
  assume "jsget (erased (entombed request now st)) n = Some rec"
  then show "erasedVersion rec = int (length (streamOf (entombed request now st) n))"
    using store_invD(4) [OF inv] by (auto simp: store_simps split: if_splits)
qed

lemma store_inv_erase: "store_inv st \<Longrightarrow> store_inv (snd (erase_state request now st))"
  by (cases rule: erase_state_cases [of st request now]) (auto intro: store_inv_entombed)

end
