(* ===== verification/HistoryImport.thy ===== *)
theory HistoryImport
  imports EventStore StreamErasure
begin

section \<open>Resumable import of a frozen history\<close>

text \<open>
  \<open>packages/eventsourcing/src/HistoryImport.ts\<close> and the \<open>HistoryImporter\<close> of \<open>memory.ts\<close>. Code
  outside the repository is a parameter: \<open>sha256Hex\<close> (Web Crypto), \<open>decodeMetadata\<close> (the Effect
  schema decoder of \<open>EventMetadata\<close>) and the caller's payload \<open>decoder\<close>.
\<close>

record HistoryImportBatch =
  importId :: string
  batchId :: string
  batchEvents :: "StoredEvent list"
  batchChecksum :: string
  batchToken :: "string option"
  batchComplete :: "bool option"

datatype HistoryImportFailureReason =
    InvalidImportId | InvalidBatchId | ChecksumMismatch | InvalidPosition | GlobalPositionGap
  | StreamVersionGap | DuplicateEventId | InvalidMetadata | TargetNotEmpty | ResumeTokenMismatch
  | DivergentBatch | ImportComplete

datatype HistoryImportError = HistoryImportError (reason: HistoryImportFailureReason) (details: string)

datatype 'd ImportFailure =
    HistoryFailure HistoryImportError
  | DecodeFailure 'd
  | Defect string

fun import_classification :: "HistoryImportError \<Rightarrow> FailureClass" where
  "import_classification (HistoryImportError r d) =
     (if r = TargetNotEmpty \<or> r = ResumeTokenMismatch \<or> r = DivergentBatch \<or> r = ImportComplete
      then Conflict else Permanent)"

definition maxPgInteger :: int where
  "maxPgInteger = 2147483647"

definition maxPgBigInt :: int where
  "maxPgBigInt = 9223372036854775807"

definition event_json :: "StoredEvent \<Rightarrow> json" where
  "event_json e = JObj
     [(''position'', JBigInt (position e)), (''streamName'', JStr (streamName e)),
      (''version'', JNum (version e)), (''type'', JStr (etype e)),
      (''schemaVersion'', JNum (schemaVersion e)), (''payload'', payload e),
      (''metadata'', metadata_json (metadata e))]"

definition checksum :: "(string \<Rightarrow> string) \<Rightarrow> StoredEvent list \<Rightarrow> string" where
  "checksum sha256Hex events = sha256Hex (stableJson (JArr (map event_json events)))"

definition stored_eventId :: "StoredEvent \<Rightarrow> string" where
  "stored_eventId e = eventId (metadata e)"

definition importFailure :: "HistoryImportFailureReason \<Rightarrow> string \<Rightarrow> 'd ImportFailure" where
  "importFailure r d = HistoryFailure (HistoryImportError r d)"

subsection \<open>Validation of a batch\<close>

text \<open>One iteration of the loop of \<open>prepareHistoryImportBatch\<close>, up to the updates of its locals.\<close>

definition prepare_event ::
  "(EventMetadata \<Rightarrow> EventMetadata option) \<Rightarrow> (StoredEvent \<Rightarrow> ('d, unit) result)
    \<Rightarrow> string list \<Rightarrow> (string, int) jsmap \<Rightarrow> int option \<Rightarrow> StoredEvent \<Rightarrow> ('d ImportFailure, unit) result" where
  "prepare_event decodeMetadata decoder ids versions previousPosition event =
     (let pos = show_int (position event); ident = stored_eventId event in
      if trim (streamName event) = []
      then Inl (importFailure StreamVersionGap ''stream names must not be empty'')
      else if position event < 1 \<or> position event > maxPgBigInt
      then Inl (importFailure InvalidPosition
             (''global positions must be between 1 and '' @ show_int maxPgBigInt))
      else if (case previousPosition of None \<Rightarrow> False | Some p \<Rightarrow> position event \<noteq> p + 1)
      then Inl (importFailure GlobalPositionGap
             (''position '' @ pos @ '' does not follow '' @ show_int (getOr 0 previousPosition)))
      else if \<not> is_safe_integer (version event) \<or> version event < 1 \<or> version event > maxPgInteger
      then Inl (importFailure StreamVersionGap
             (''stream '' @ streamName event @ '' has invalid version '' @ show_int (version event)))
      else if \<not> is_safe_integer (schemaVersion event) \<or> schemaVersion event < 1
              \<or> schemaVersion event > maxPgInteger
      then Inl (importFailure InvalidMetadata
             (''event at position '' @ pos @ '' has invalid schema version '' @ show_int (schemaVersion event)))
      else if (case jsget versions (streamName event) of None \<Rightarrow> False | Some v \<Rightarrow> version event \<noteq> v + 1)
      then Inl (importFailure StreamVersionGap
             (''stream '' @ streamName event @ '' version '' @ show_int (version event)
               @ '' does not follow '' @ show_int (getOr 0 (jsget versions (streamName event)))))
      else case decodeMetadata (metadata event) of
        None \<Rightarrow> Inl (importFailure InvalidMetadata (''event at position '' @ pos @ '' has invalid metadata''))
      | Some decoded \<Rightarrow>
          if aggregateVersion decoded \<noteq> version event
          then Inl (importFailure InvalidMetadata
                 (''event at position '' @ pos @ '' metadata version does not match stream version''))
          else if trim ident = [] \<or> ident \<in> set ids
          then Inl (importFailure DuplicateEventId
                 (''event id '' @ (if ident = [] then ''<empty>'' else ident) @ '' is duplicated or empty''))
          else (case decoder event of Inl d \<Rightarrow> Inl (DecodeFailure d) | Inr _ \<Rightarrow> Inr ()))"

fun prepare_loop ::
  "(EventMetadata \<Rightarrow> EventMetadata option) \<Rightarrow> (StoredEvent \<Rightarrow> ('d, unit) result)
    \<Rightarrow> string list \<Rightarrow> (string, int) jsmap \<Rightarrow> int option \<Rightarrow> StoredEvent list
    \<Rightarrow> ('d ImportFailure, string list) result" where
  "prepare_loop decodeMetadata decoder ids versions previousPosition [] = Inr ids"
| "prepare_loop decodeMetadata decoder ids versions previousPosition (event # events) =
     (case prepare_event decodeMetadata decoder ids versions previousPosition event of
        Inl e \<Rightarrow> Inl e
      | Inr _ \<Rightarrow>
          prepare_loop decodeMetadata decoder (ids @ [stored_eventId event])
            (jsset (streamName event) (version event) versions) (Some (position event)) events)"

definition prepareHistoryImportBatch ::
  "(string \<Rightarrow> string) \<Rightarrow> (EventMetadata \<Rightarrow> EventMetadata option) \<Rightarrow> (StoredEvent \<Rightarrow> ('d, unit) result)
    \<Rightarrow> HistoryImportBatch \<Rightarrow> ('d ImportFailure, string list) result" where
  "prepareHistoryImportBatch sha256Hex decodeMetadata decoder batch =
     (if trim (importId batch) = [] then Inl (importFailure InvalidImportId ''importId must not be empty'')
      else if trim (batchId batch) = [] then Inl (importFailure InvalidBatchId ''batchId must not be empty'')
      else if batchEvents batch = []
      then Inl (importFailure InvalidPosition ''a history import batch must contain events'')
      else if checksum sha256Hex (batchEvents batch) \<noteq> batchChecksum batch
      then Inl (importFailure ChecksumMismatch
             (''batch '' @ batchId batch @ '' checksum does not match its events''))
      else prepare_loop decodeMetadata decoder [] [] None (batchEvents batch))"

subsection \<open>Validation against the target\<close>

record HistoryImportTarget =
  targetPosition :: int
  streamVersions :: "(string, int) jsmap"
  eventIds :: "string list"

definition historyImportTarget :: "StoredEvent list \<Rightarrow> HistoryImportTarget" where
  "historyImportTarget existing =
     \<lparr>targetPosition = (if existing = [] then 0 else position (last existing)),
      streamVersions = foldl (\<lambda>m e. jsset (streamName e) (version e) m) [] existing,
      eventIds = map stored_eventId existing\<rparr>"

fun continuation_loop ::
  "string list \<Rightarrow> (string, int) jsmap \<Rightarrow> int \<Rightarrow> StoredEvent list \<Rightarrow> (HistoryImportError, unit) result" where
  "continuation_loop existingIds versions pos [] = Inr ()"
| "continuation_loop existingIds versions pos (event # events) =
     (let currentVersion = getOr 0 (jsget versions (streamName event)) in
      if position event \<noteq> pos + 1
      then Inl (HistoryImportError GlobalPositionGap
             (''position '' @ show_int (position event) @ '' does not follow target position '' @ show_int pos))
      else if version event \<noteq> currentVersion + 1
      then Inl (HistoryImportError StreamVersionGap
             (''stream '' @ streamName event @ '' version '' @ show_int (version event)
               @ '' does not follow target version '' @ show_int currentVersion))
      else if stored_eventId event \<in> set existingIds
      then Inl (HistoryImportError DuplicateEventId
             (''event id '' @ stored_eventId event @ '' already exists in the target''))
      else continuation_loop (existingIds @ [stored_eventId event])
             (jsset (streamName event) (version event) versions) (position event) events)"

definition validateHistoryImportContinuation ::
  "StoredEvent list \<Rightarrow> HistoryImportTarget \<Rightarrow> (HistoryImportError, unit) result" where
  "validateHistoryImportContinuation events target =
     continuation_loop (eventIds target) (streamVersions target) (targetPosition target) events"

definition historyImportResumeToken :: "(string \<Rightarrow> string) \<Rightarrow> HistoryImportBatch \<Rightarrow> int \<Rightarrow> string" where
  "historyImportResumeToken sha256Hex batch lastPos =
     sha256Hex (stableJson (JObj
       [(''importId'', JStr (importId batch)), (''batchId'', JStr (batchId batch)),
        (''checksum'', JStr (batchChecksum batch)),
        (''previous'', case batchToken batch of None \<Rightarrow> JNull | Some t \<Rightarrow> JStr t),
        (''lastPosition'', JBigInt lastPos), (''complete'', JBool (getOr False (batchComplete batch)))]))"

subsection \<open>The in-memory importer\<close>

definition importBatchKey :: "HistoryImportBatch \<Rightarrow> string" where
  "importBatchKey batch = show_nat (length (importId batch)) @ '':'' @ importId batch @ batchId batch"

text \<open>The guards of the critical section on the import session, for a batch not yet recorded.\<close>

definition session_check :: "HistoryImportBatch \<Rightarrow> EventStoreState \<Rightarrow> (HistoryImportError, unit) result" where
  "session_check batch st =
     (case jsget (importSessions st) (importId batch) of
        None \<Rightarrow>
          if allEvents st \<noteq> []
          then Inl (HistoryImportError TargetNotEmpty ''a new import requires an empty event store'')
          else if batchToken batch \<noteq> None
          then Inl (HistoryImportError ResumeTokenMismatch ''the first batch must not include a resume token'')
          else Inr ()
      | Some session \<Rightarrow>
          if sessionComplete session
          then Inl (HistoryImportError ImportComplete (''import '' @ importId batch @ '' is already complete''))
          else if batchToken batch \<noteq> Some (sessionToken session)
          then Inl (HistoryImportError ResumeTokenMismatch
                 (''batch '' @ batchId batch @ '' does not resume the latest committed batch''))
          else if allEvents st = [] \<or> position (last (allEvents st)) \<noteq> sessionPosition session
          then Inl (HistoryImportError TargetNotEmpty ''the target changed after the latest import batch'')
          else Inr ())"

definition commit_batch ::
  "HistoryImportBatch \<Rightarrow> string \<Rightarrow> StoredEvent \<Rightarrow> EventStoreState \<Rightarrow> HistoryImportResult \<times> EventStoreState" where
  "commit_batch batch token lastEvent st =
     (let isComplete = getOr False (batchComplete batch);
          res = \<lparr>status = Imported, importedCount = int (length (batchEvents batch)),
                 lastPosition = position lastEvent, resumeToken = token, complete = isComplete\<rparr>
      in (res,
          st\<lparr>streams := foldl (\<lambda>m e. jsset (streamName e) (getOr [] (jsget m (streamName e)) @ [e]) m)
                          (streams st) (batchEvents batch),
             allEvents := allEvents st @ batchEvents batch,
             importSessions := jsset (importId batch)
               \<lparr>sessionToken = token, sessionPosition = position lastEvent, sessionComplete = isComplete\<rparr>
               (importSessions st),
             importBatches := jsset (importBatchKey batch)
               \<lparr>recChecksum = batchChecksum batch, recPreviousToken = batchToken batch,
                recComplete = isComplete, recResult = res\<rparr> (importBatches st)\<rparr>))"

definition import_state ::
  "HistoryImportBatch \<Rightarrow> string \<Rightarrow> StoredEvent \<Rightarrow> EventStoreState
    \<Rightarrow> (HistoryImportError, HistoryImportResult) result \<times> EventStoreState" where
  "import_state batch token lastEvent st =
     (if erased st \<noteq> []
      then (Inl (HistoryImportError TargetNotEmpty ''a target with erased streams cannot be imported into''), st)
      else case jsget (importBatches st) (importBatchKey batch) of
        Some recorded \<Rightarrow>
          if recChecksum recorded \<noteq> batchChecksum batch \<or> recPreviousToken recorded \<noteq> batchToken batch
             \<or> recComplete recorded \<noteq> getOr False (batchComplete batch)
          then (Inl (HistoryImportError DivergentBatch
                  (''batch '' @ batchId batch @ '' was already committed with different content or state'')), st)
          else (Inr (recResult recorded\<lparr>status := Unchanged\<rparr>), st)
      | None \<Rightarrow>
          (case session_check batch st of
             Inl e \<Rightarrow> (Inl e, st)
           | Inr _ \<Rightarrow>
               (case validateHistoryImportContinuation (batchEvents batch) (historyImportTarget (allEvents st)) of
                  Inl e \<Rightarrow> (Inl e, st)
                | Inr _ \<Rightarrow>
                    (case commit_batch batch token lastEvent st of (res, st') \<Rightarrow> (Inr res, st')))))"

definition importBatch ::
  "(string \<Rightarrow> string) \<Rightarrow> (EventMetadata \<Rightarrow> EventMetadata option) \<Rightarrow> (StoredEvent \<Rightarrow> ('d, unit) result)
    \<Rightarrow> HistoryImportBatch \<Rightarrow> EventStoreState
    \<Rightarrow> ('d ImportFailure, HistoryImportResult) result \<times> EventStoreState" where
  "importBatch sha256Hex decodeMetadata decoder batch st =
     (case prepareHistoryImportBatch sha256Hex decodeMetadata decoder batch of
        Inl e \<Rightarrow> (Inl e, st)
      | Inr _ \<Rightarrow>
          (if batchEvents batch = [] then (Inl (Defect ''validated batch has no events''), st)
           else (let lastEvent = last (batchEvents batch) in
                 (case import_state batch (historyImportResumeToken sha256Hex batch (position lastEvent)) lastEvent st of
                    (r, st') \<Rightarrow> (map_sum HistoryFailure id r, st')))))"

subsection \<open>Keys of recorded batches\<close>

lemma importBatchKey_inject:
  "importBatchKey a = importBatchKey b \<longleftrightarrow> importId a = importId b \<and> batchId a = batchId b"
proof
  assume eq: "importBatchKey a = importBatchKey b"
  have "show_nat (length (importId a)) = show_nat (length (importId b))
      \<and> importId a @ batchId a = importId b @ batchId b"
    using eq by (intro append_sep_inject [of _ "CHR '':''"]) (simp_all add: importBatchKey_def)
  then show "importId a = importId b \<and> batchId a = batchId b" by (auto simp: append_eq_append_conv)
qed (simp add: importBatchKey_def)

subsection \<open>A validated continuation keeps the numbering\<close>

lemma continuation_numbered:
  assumes "continuation_loop ids vs (int (length es)) events = Inr ()"
    and "numbered position es" and "\<And>sn. numbered version (stream_in es sn)"
    and "\<And>sn. getOr 0 (jsget vs sn) = int (length (stream_in es sn))"
  shows "numbered position (es @ events) \<and> (\<forall>sn. numbered version (stream_in (es @ events) sn))"
  using assms
proof (induction events arbitrary: es ids vs)
  case Nil
  then show ?case by simp
next
  case (Cons event events)
  let ?es = "es @ [event]"
  from Cons.prems(1,4) have pos: "position event = int (length es) + 1"
    and ver: "version event = int (length (stream_in es (streamName event))) + 1"
    and rest: "continuation_loop (ids @ [stored_eventId event])
      (jsset (streamName event) (version event) vs) (int (length ?es)) events = Inr ()"
    by (auto simp: Let_def add.commute split: if_splits)
  have "numbered position ?es" using Cons.prems(2) pos by (simp add: numbered_append)
  moreover have "numbered version (stream_in ?es sn)" for sn
    using Cons.prems(3) [of sn] ver by (auto simp: numbered_append)
  moreover have "getOr 0 (jsget (jsset (streamName event) (version event) vs) sn) = int (length (stream_in ?es sn))" for sn
    using Cons.prems(4) [of sn] ver by auto
  ultimately show ?case using Cons.IH [OF rest] by simp
qed

lemma target_streamVersions:
  assumes "\<And>sn. numbered version (stream_in es sn)"
  shows "getOr 0 (jsget (streamVersions (historyImportTarget es)) sn) = int (length (stream_in es sn))"
  using assms
proof (induction es rule: rev_induct)
  case Nil
  then show ?case by (simp add: historyImportTarget_def)
next
  case (snoc e es)
  have "numbered version (stream_in es n)" for n
    using snoc.prems [of n] by (auto simp: numbered_append split: if_splits)
  then have IH: "getOr 0 (jsget (streamVersions (historyImportTarget es)) sn) = int (length (stream_in es sn))"
    by (rule snoc.IH)
  have "streamName e = sn \<Longrightarrow> version e = int (length (stream_in es sn)) + 1"
    using snoc.prems [of sn] by (auto simp: numbered_append)
  then show ?case using IH by (auto simp: historyImportTarget_def)
qed

lemma target_position:
  assumes "numbered position es"
  shows "targetPosition (historyImportTarget es) = int (length es)"
  using assms by (cases es rule: rev_cases) (auto simp: historyImportTarget_def numbered_append)

lemma foldl_streams_lookup:
  "getOr [] (jsget (foldl (\<lambda>m e. jsset (streamName e) (getOr [] (jsget m (streamName e)) @ [e]) m) m events) sn)
     = getOr [] (jsget m sn) @ stream_in events sn"
  by (induction events arbitrary: m) auto

lemma commit_batch_simps [store_simps]:
  "allEvents (snd (commit_batch batch token le st)) = allEvents st @ batchEvents batch"
  "erased (snd (commit_batch batch token le st)) = erased st"
  "streamOf (snd (commit_batch batch token le st)) sn = streamOf st sn @ stream_in (batchEvents batch) sn"
  "jsget (importBatches (snd (commit_batch batch token le st))) (importBatchKey batch) =
     Some \<lparr>recChecksum = batchChecksum batch, recPreviousToken = batchToken batch,
           recComplete = getOr False (batchComplete batch), recResult = fst (commit_batch batch token le st)\<rparr>"
  "jsget (importSessions (snd (commit_batch batch token le st))) (importId batch) =
     Some \<lparr>sessionToken = token, sessionPosition = position le,
           sessionComplete = getOr False (batchComplete batch)\<rparr>"
  by (simp_all add: commit_batch_def Let_def streamOf_def foldl_streams_lookup)

lemma commit_batch_result [store_simps]:
  "status (fst (commit_batch batch token le st)) = Imported"
  "importedCount (fst (commit_batch batch token le st)) = int (length (batchEvents batch))"
  by (simp_all add: commit_batch_def Let_def)

lemma import_state_cases:
  obtains (failed) e where "import_state batch token le st = (Inl e, st)"
  | (repeated) rec where "erased st = []" "jsget (importBatches st) (importBatchKey batch) = Some rec"
      "recChecksum rec = batchChecksum batch" "recPreviousToken rec = batchToken batch"
      "recComplete rec = getOr False (batchComplete batch)"
      "import_state batch token le st = (Inr (recResult rec\<lparr>status := Unchanged\<rparr>), st)"
  | (committed) "erased st = []" "jsget (importBatches st) (importBatchKey batch) = None"
      "session_check batch st = Inr ()"
      "validateHistoryImportContinuation (batchEvents batch) (historyImportTarget (allEvents st))
         = Inr ()"
      "import_state batch token le st =
         (Inr (fst (commit_batch batch token le st)), snd (commit_batch batch token le st))"
proof (cases "erased st = []")
  case False
  then show ?thesis using that(1) by (simp add: import_state_def)
next
  case nil: True
  show ?thesis
  proof (cases "jsget (importBatches st) (importBatchKey batch)")
    case (Some rec)
    then show ?thesis using that(1,2) nil by (simp add: import_state_def split: if_splits) metis
  next
    case None
    show ?thesis
    proof (cases "session_check batch st")
      case (Inl e)
      then show ?thesis using that(1) nil None by (simp add: import_state_def)
    next
      case (Inr u)
      show ?thesis
      proof (cases "validateHistoryImportContinuation (batchEvents batch)
          (historyImportTarget (allEvents st))")
        case (Inl e)
        then show ?thesis using that(1) nil None Inr by (simp add: import_state_def)
      next
        case v: (Inr u)
        show ?thesis by (rule that(3)) (simp_all add: nil None Inr v import_state_def split: prod.splits)
      qed
    qed
  qed
qed

lemma store_inv_commit_batch:
  assumes inv: "store_inv st" and "erased st = []"
    and "validateHistoryImportContinuation (batchEvents batch) (historyImportTarget (allEvents st))
         = Inr ()"
  shows "store_inv (snd (commit_batch batch token le st))"
proof -
  note streams = store_invD(2) [OF inv]
  have numbered: "numbered position (allEvents st)" "\<And>sn. numbered version (stream_in (allEvents st) sn)"
    using store_invD(1,3) [OF inv] streams by auto
  have "numbered position (allEvents st @ batchEvents batch)
      \<and> (\<forall>sn. numbered version (stream_in (allEvents st @ batchEvents batch) sn))"
  proof (rule continuation_numbered [OF _ numbered])
    show "continuation_loop (eventIds (historyImportTarget (allEvents st)))
        (streamVersions (historyImportTarget (allEvents st))) (int (length (allEvents st)))
        (batchEvents batch) = Inr ()"
      using assms(3) target_position [OF numbered(1)] by (simp add: validateHistoryImportContinuation_def)
  qed (rule target_streamVersions [OF numbered(2)])
  then show ?thesis using streams assms(2) by (auto intro!: store_invI simp: store_simps)
qed

lemma store_inv_import_state:
  assumes "store_inv st"
  shows "store_inv (snd (import_state batch token le st))"
  by (cases rule: import_state_cases [of batch token le st])
    (auto simp: assms intro: store_inv_commit_batch)

lemma importBatch_cases:
  fixes decoder :: "StoredEvent \<Rightarrow> ('d, unit) result"
  obtains (failed) e where "importBatch sha dm decoder batch st = (Inl e, st)"
  | (critical) ids where "prepareHistoryImportBatch sha dm decoder batch = Inr ids" "batchEvents batch \<noteq> []"
      "importBatch sha dm decoder batch st =
         map_prod (map_sum HistoryFailure id) id
           (import_state batch (historyImportResumeToken sha batch (position (last (batchEvents batch))))
             (last (batchEvents batch)) st)"
proof (cases "prepareHistoryImportBatch sha dm decoder batch")
  case (Inl e)
  then show ?thesis using that(1) by (simp add: importBatch_def)
next
  case (Inr ids)
  then show ?thesis
    using that(1,2) by (cases "batchEvents batch = []") (auto simp: importBatch_def Let_def map_prod_def)
qed

lemma store_inv_importBatch: "store_inv st \<Longrightarrow> store_inv (snd (importBatch sha dm decoder batch st))"
  by (cases rule: importBatch_cases [of sha dm decoder batch st])
    (auto intro: store_inv_import_state)

end
