(* ===== verification/Memory.thy ===== *)
theory Memory
  imports AggregateStore Projection StreamErasure HistoryImport
begin

section \<open>The in-memory environment\<close>

text \<open>
  The world of \<open>InMemoryAll\<close> (\<open>packages/eventsourcing/src/memory.ts\<close>) as far as the event-sourcing
  runtime uses it: the event store, the snapshot and checkpoint stores, and the number of commit
  signals published on the \<open>EventBus\<close>. The services are interpreted as instances of the port
  contracts, and the steps of the world are a relation whose invariant holds in every reachable
  world. The delivery of a published signal to subscribers is Effect's \<open>PubSub\<close>.
\<close>

record 's memory_world =
  es :: EventStoreState
  snaps :: "'s SnapshotState"
  checks :: CheckpointState
  signals :: nat

definition emptyWorld :: "'s memory_world" where
  "emptyWorld = \<lparr>es = emptyStore, snaps = [], checks = [], signals = 0\<rparr>"

definition notify :: "'s memory_world \<Rightarrow> 's memory_world" where
  "notify w = w\<lparr>signals := signals w + 1\<rparr>"

definition append_world ::
  "string \<Rightarrow> int \<Rightarrow> AppendEvent list \<Rightarrow> 's memory_world \<Rightarrow> (StoreFailure, AppendResult) result \<times> 's memory_world" where
  "append_world sn v events w =
     (case append_mem sn v events (es w) of
        (Inl e, st) \<Rightarrow> (Inl e, w\<lparr>es := st\<rparr>)
      | (Inr r, st) \<Rightarrow> (Inr r, if events \<noteq> [] then notify (w\<lparr>es := st\<rparr>) else w\<lparr>es := st\<rparr>))"

definition importBatch_world ::
  "(string \<Rightarrow> string) \<Rightarrow> (EventMetadata \<Rightarrow> EventMetadata option) \<Rightarrow> (StoredEvent \<Rightarrow> ('d, unit) result)
    \<Rightarrow> HistoryImportBatch \<Rightarrow> 's memory_world \<Rightarrow> ('d ImportFailure, HistoryImportResult) result \<times> 's memory_world" where
  "importBatch_world sha256Hex decodeMetadata decoder batch w =
     (case importBatch sha256Hex decodeMetadata decoder batch (es w) of
        (Inl e, st) \<Rightarrow> (Inl e, w\<lparr>es := st\<rparr>)
      | (Inr r, st) \<Rightarrow> (Inr r, if status r = Imported then notify (w\<lparr>es := st\<rparr>) else w\<lparr>es := st\<rparr>))"

definition eraseStream_world ::
  "StreamErasureRequest \<Rightarrow> string \<Rightarrow> 's memory_world
    \<Rightarrow> (StreamErasureError, StreamErasureResult) result \<times> 's memory_world" where
  "eraseStream_world request now w =
     (case eraseStream request now (es w, Some (snaps w)) of
        (r, st, sn) \<Rightarrow> (r, w\<lparr>es := st, snaps := getOr (snaps w) sn\<rparr>))"

definition worldEventStore :: "'s memory_world EventStoreService" where
  "worldEventStore =
     \<lparr>append_op = append_world,
      read_op = (\<lambda>sn v w. Inr (read_mem sn v (es w))),
      readAll_op = (\<lambda>opts w. Inr (readAll_mem opts (es w)))\<rparr>"

definition worldSnapshotStore :: "('s memory_world, 's) SnapshotStoreService" where
  "worldSnapshotStore =
     \<lparr>snap_load = (\<lambda>sn w. Inr (load_snapshot sn (snaps w))),
      snap_save = (\<lambda>sn x w. (Inr (), w\<lparr>snaps := save_snapshot sn x (snaps w)\<rparr>))\<rparr>"

definition worldCheckpointStore :: "'s memory_world CheckpointStoreService" where
  "worldCheckpointStore =
     \<lparr>cp_load = (\<lambda>n w. Inr (load_checkpoint n (checks w))),
      cp_save = (\<lambda>n p w. (Inr (), w\<lparr>checks := save_checkpoint n p (checks w)\<rparr>))\<rparr>"

abbreviation world_feed :: "'s memory_world \<Rightarrow> StoredEvent list" where
  "world_feed w \<equiv> allEvents (es w)"

abbreviation world_pinned :: "'s memory_world \<Rightarrow> string \<Rightarrow> bool" where
  "world_pinned w sn \<equiv> jsget (erased (es w)) sn \<noteq> None"

abbreviation world_inv :: "'s memory_world \<Rightarrow> bool" where
  "world_inv w \<equiv> store_inv (es w)"

subsection \<open>The services keep their contracts\<close>

lemma append_world_frame:
  assumes "append_world sn v events w = (r, w')"
  shows "append_mem sn v events (es w) = (r, es w')" and "snaps w' = snaps w" and "checks w' = checks w"
    and "signals w' = (if (\<exists>a. r = Inr a) \<and> events \<noteq> [] then signals w + 1 else signals w)"
  using assms by (auto simp: append_world_def notify_def split: prod.splits sum.splits if_splits)

lemma append_world_of_mem:
  assumes "append_mem sn v events (es w) = (r, st)"
  obtains w' where "append_world sn v events w = (r, w')" "es w' = st" "snaps w' = snaps w" "checks w' = checks w"
  using assms that by (cases r) (auto simp: append_world_def notify_def)

interpretation world: event_store worldEventStore world_feed world_pinned world_inv
proof (unfold_locales, goal_cases)
  case (1 w sn v es)
  then obtain actual where "append_mem sn v es (memory_world.es w) = (Inl (append_conflict sn v actual), memory_world.es w)"
    using mem.rejects [of "memory_world.es w" sn v es] by (auto simp: memEventStore_def)
  then show ?case by (auto simp: worldEventStore_def append_world_def)
next
  case (2 w sn v es)
  then obtain st where st: "append_mem sn v es (memory_world.es w) =
      (Inr \<lparr>firstVersion = (if es = [] then v else v + 1), lastVersion = v + int (length es)\<rparr>, st)"
    "store_inv st" "(\<lambda>sn. jsget (erased st) sn \<noteq> None) = (\<lambda>sn. world_pinned w sn)"
    "allEvents st = world_feed w @ storeEvents (int (length (world_feed w))) sn v es"
    using mem.accepts [of "memory_world.es w" sn v es] by (auto simp: memEventStore_def)
  obtain w' where "append_world sn v es w =
      (Inr \<lparr>firstVersion = (if es = [] then v else v + 1), lastVersion = v + int (length es)\<rparr>, w')"
    "memory_world.es w' = st"
    using append_world_of_mem [OF st(1)] by blast
  then show ?case using st(2-4) by (intro exI [of _ w']) (simp add: worldEventStore_def)
next
  case (3 w)
  then show ?case by (rule mem.feed_numbered)
next
  case (4 w sn)
  then show ?case by (rule mem.stream_numbered)
next
  case (5 w sn fromV)
  then show ?case using mem.reads [OF 5] by (simp add: worldEventStore_def memEventStore_def)
next
  case (6 w opts)
  then show ?case using mem.readsAll [OF 6] by (simp add: worldEventStore_def memEventStore_def)
qed

interpretation aggregates: snapshotted_event_store worldEventStore world_feed world_pinned world_inv
  worldSnapshotStore "\<lambda>w sn. load_snapshot sn (snaps w)"
proof (unfold_locales, goal_cases)
  case (1 w sn)
  then show ?case by (simp add: worldSnapshotStore_def)
next
  case (2 w sn x)
  then show ?case by (simp add: worldSnapshotStore_def snapshots.load_save fun_eq_iff)
next
  case (3 w sn v es r w')
  then show ?case by (simp add: worldEventStore_def append_world_frame(2))
qed

interpretation readmodels: checkpointed_event_store worldEventStore world_feed world_pinned world_inv
  worldCheckpointStore "\<lambda>w n. load_checkpoint n (checks w)"
proof (unfold_locales, goal_cases)
  case (1 w n)
  then show ?case by (simp add: worldCheckpointStore_def)
next
  case (2 w n pos)
  then show ?case by (simp add: worldCheckpointStore_def checkpoints.load_save fun_eq_iff)
qed

text \<open>Other fibers only append, and before round \<open>n\<close> of a loop.\<close>

definition only_appending :: "(nat \<Rightarrow> 's memory_world \<Rightarrow> 's memory_world) \<Rightarrow> nat \<Rightarrow> bool" where
  "only_appending env n \<longleftrightarrow>
     (\<forall>i w. world_inv w \<longrightarrow> world_inv (env i w) \<and> checks (env i w) = checks w \<and> (\<exists>added. world_feed (env i w) = world_feed w @ added)) \<and>
     (\<forall>i w. n \<le> i \<longrightarrow> env i w = w)"

lemma only_appending_appends: "only_appending env n \<Longrightarrow> readmodels.only_appends env n"
  by (simp add: only_appending_def readmodels.only_appends_def)

subsection \<open>Steps of the world\<close>

inductive world_step :: "'s memory_world \<Rightarrow> 's memory_world \<Rightarrow> bool" where
  append: "world_step w (snd (append_world sn v events w))"
| import_batch: "world_step w (snd (importBatch_world sha dm
    (decoder :: StoredEvent \<Rightarrow> (EventDecodeError, unit) result) batch w))"
| erase: "world_step w (snd (eraseStream_world request now w))"
| save_snap: "world_step w (w\<lparr>snaps := save_snapshot sn x (snaps w)\<rparr>)"
| save_cp: "world_step w (w\<lparr>checks := save_checkpoint n p (checks w)\<rparr>)"

inductive_cases world_stepE: "world_step w w'"

inductive reachable :: "'s memory_world \<Rightarrow> bool" where
  start: "reachable emptyWorld"
| step: "reachable w \<Longrightarrow> world_step w w' \<Longrightarrow> reachable w'"

text \<open>The event of an erased stream is a tombstone, in the feed and in its stream.\<close>

definition only_tombstones :: "EventStoreState \<Rightarrow> bool" where
  "only_tombstones st \<longleftrightarrow>
     (\<forall>sn rec e. jsget (erased st) sn = Some rec \<longrightarrow> e \<in> set (stream_in (allEvents st) sn) \<longrightarrow>
        e = entomb sn (erasedAt rec) e)"

definition store_ok :: "EventStoreState \<Rightarrow> bool" where
  "store_ok st \<longleftrightarrow> store_inv st \<and> only_tombstones st"

lemma store_ok_empty [simp]: "store_ok emptyStore"
  by (simp add: store_ok_def only_tombstones_def emptyStore_def [of] store_inv_empty [unfolded emptyStore_def])

lemma store_ok_append: "store_ok st \<Longrightarrow> store_ok (snd (append_mem sn v events st))"
  by (cases rule: append_mem_cases [of sn v events st])
    (auto simp: store_ok_def only_tombstones_def store_simps intro: store_inv_accepted
      dest: streamName_storeEvents)

lemma entomb_idem: "entomb sn at (entomb sn at e) = entomb sn at e"
  by (rule entomb_erases) (simp_all add: store_simps)

lemma store_ok_erase:
  assumes "store_ok st"
  shows "store_ok (snd (erase_state request now st))"
proof -
  have inv: "store_inv st" and tomb: "only_tombstones st" using assms by (auto simp: store_ok_def)
  from inv show ?thesis
  proof (cases rule: erase_state_cases [of st request now])
    case unchanged
    then show ?thesis using assms by simp
  next
    case first
    have "only_tombstones (entombed request now st)"
      using tomb
      by (auto simp: only_tombstones_def store_simps entomb_stream_def entomb_idem split: if_splits)
    then show ?thesis using first(3) store_inv_entombed [OF inv] by (simp add: store_ok_def)
  qed
qed

lemma store_ok_import:
  assumes "store_ok st"
  shows "store_ok (snd (importBatch sha dm decoder batch st))"
proof (cases rule: importBatch_cases [of sha dm decoder batch st])
  case (failed e)
  then show ?thesis using assms by simp
next
  case (critical ids)
  have "only_tombstones (snd (import_state batch token le st))" for token le
    using assms
    by (cases rule: import_state_cases [of batch token le st])
      (auto simp: store_ok_def only_tombstones_def store_simps)
  then show ?thesis
    using critical assms store_inv_import_state by (auto simp: store_ok_def)
qed

lemma es_append_world: "es (snd (append_world sn v events w)) = snd (append_mem sn v events (es w))"
  by (metis append_world_frame(1) prod.collapse snd_conv)

lemma es_importBatch_world:
  "es (snd (importBatch_world sha dm decoder batch w)) = snd (importBatch sha dm decoder batch (es w))"
  by (auto simp: importBatch_world_def notify_def split: prod.splits sum.splits)

lemma es_eraseStream_world:
  "es (snd (eraseStream_world request now w)) =
     (if \<exists>r. prepareStreamErasure request = Inr r then snd (erase_state request now (es w)) else es w)"
  by (auto simp: eraseStream_world_def eraseStream_def split: prod.splits sum.splits)

lemmas es_world = es_append_world es_importBatch_world es_eraseStream_world

lemma world_step_ok: "world_step w w' \<Longrightarrow> store_ok (es w) \<Longrightarrow> store_ok (es w')"
  by (erule world_stepE) (simp_all add: es_world store_ok_append store_ok_import store_ok_erase)

lemma reachable_ok: "reachable w \<Longrightarrow> store_ok (es w)"
  by (induction rule: reachable.induct) (auto simp: emptyWorld_def intro: world_step_ok)

lemma erase_state_first_inv:
  assumes "store_inv st" and "jsget (erased st) (reqStream request) = None"
    and "erase_state request now st = (Inr r, st')"
  shows "reqVersion request = int (length (streamOf st (reqStream request)))"
    and "st' = entombed request now st"
    and "r = \<lparr>erasedEvents = reqVersion request, pinnedVersion = reqVersion request,
              resultErasedAt = now, resultReason = reqReason request\<rparr>"
proof -
  show ver: "reqVersion request = int (length (streamOf st (reqStream request)))"
    using erase_state_conflict [OF assms(2), of now] assms(3) by fastforce
  show "st' = entombed request now st"
    and "r = \<lparr>erasedEvents = reqVersion request, pinnedVersion = reqVersion request,
              resultErasedAt = now, resultReason = reqReason request\<rparr>"
    using erase_state_first [OF assms(1,2) ver, of now] assms(3) by simp_all
qed

lemma eraseStream_world_Inr:
  assumes "eraseStream_world request now w = (Inr r, w')"
  shows "prepareStreamErasure request = Inr request" and "erase_state request now (es w) = (Inr r, es w')"
    and "snaps w' = remove_snapshot (reqStream request) (snaps w)" and "checks w' = checks w"
proof -
  have "prepareStreamErasure request = Inr request \<or> (\<exists>e. prepareStreamErasure request = Inl e)"
    by (simp add: prepareStreamErasure_def)
  with assms show prep: "prepareStreamErasure request = Inr request"
    by (auto simp: eraseStream_world_def eraseStream_def)
  obtain x st where "erase_state request now (es w) = (x, st)" by force
  with assms prep show "erase_state request now (es w) = (Inr r, es w')"
    and "snaps w' = remove_snapshot (reqStream request) (snaps w)" and "checks w' = checks w"
    by (cases x; auto simp: eraseStream_world_def eraseStream_def)+
qed

lemma entomb_stream_shape:
  "map (\<lambda>e. (position e, streamName e, version e)) (entomb_stream sn now xs) =
     map (\<lambda>e. (position e, streamName e, version e)) xs"
  by (simp add: entomb_stream_def store_simps)

subsection \<open>An erased stream is pinned\<close>

lemma step_pinned:
  assumes "world_step w w'" and inv: "store_inv (es w)" and rec: "jsget (erased (es w)) sn = Some rec"
  shows "jsget (erased (es w')) sn = Some rec \<and> stream_in (world_feed w') sn = stream_in (world_feed w) sn"
  using assms(1)
proof (cases rule: world_step.cases)
  case (append sn' v events)
  then show ?thesis
    using rec by (cases rule: append_mem_cases [of sn' v events "es w"]) (auto simp: es_world store_simps)
next
  case (import_batch sha dm decoder batch)
  have "erased (es w) \<noteq> []" using rec by auto
  then have "snd (import_state batch token le (es w)) = es w" for token le
    by (simp add: import_state_def)
  then show ?thesis
    using import_batch rec
    by (cases rule: importBatch_cases [of sha dm decoder batch "es w"]) (auto simp: es_world)
next
  case (erase request now)
  from inv show ?thesis
    by (cases rule: erase_state_cases [of "es w" request now])
      (use erase rec in \<open>auto simp: es_world store_simps stream_in_entomb_stream\<close>)
qed (use rec in auto)

inductive world_steps :: "'s memory_world \<Rightarrow> 's memory_world \<Rightarrow> bool" where
  stay: "world_steps w w"
| move: "world_steps w w' \<Longrightarrow> world_step w' w'' \<Longrightarrow> world_steps w w''"

lemma steps_reachable: "world_steps w w' \<Longrightarrow> reachable w \<Longrightarrow> reachable w'"
  by (induction rule: world_steps.induct) (auto intro: reachable.step)

lemma steps_pinned:
  assumes "world_steps w w'" and "reachable w" and "jsget (erased (es w)) sn = Some rec"
  shows "jsget (erased (es w')) sn = Some rec \<and> stream_in (world_feed w') sn = stream_in (world_feed w) sn"
  using assms
proof (induction rule: world_steps.induct)
  case (stay w)
  then show ?case by simp
next
  case (move w w' w'')
  have "store_inv (es w')"
    using steps_reachable [OF move.hyps(1) move.prems(1)] reachable_ok by (auto simp: store_ok_def)
  then show ?case using move step_pinned by metis
qed

text \<open>Steps other than an erasure only add to the feed; an erasure keeps its shape.\<close>

lemma step_feed_shape:
  assumes "world_step w w'" and inv: "store_inv (es w)"
  shows "\<exists>ys. map (\<lambda>e. (position e, streamName e, version e)) (world_feed w') =
    map (\<lambda>e. (position e, streamName e, version e)) (world_feed w) @ ys"
  using assms(1)
proof (cases rule: world_step.cases)
  case (append sn' v events)
  then show ?thesis
    by (cases rule: append_mem_cases [of sn' v events "es w"]) (auto simp: es_world store_simps)
next
  case (import_batch sha dm decoder batch)
  then show ?thesis
  proof (cases rule: importBatch_cases [of sha dm decoder batch "es w"])
    case (critical ids)
    let ?le = "last (batchEvents batch)"
    show ?thesis
      by (cases rule: import_state_cases [of batch "historyImportResumeToken sha batch (position ?le)" ?le "es w"])
        (use import_batch critical in \<open>auto simp: es_world store_simps\<close>)
  qed (auto simp: es_world)
next
  case (erase request now)
  from inv show ?thesis
    by (cases rule: erase_state_cases [of "es w" request now])
      (use erase in \<open>auto simp: es_world store_simps entomb_stream_shape\<close>)
qed auto

subsection \<open>What the runtime needs of the world around it\<close>

text \<open>Every snapshot of the aggregate is the fold of a prefix of its stream.\<close>

definition snapshots_consistent ::
  "('s, 'c, 'e, 'err) Aggregate \<Rightarrow> 'e EventRegistry \<Rightarrow> 's memory_world \<Rightarrow> bool" where
  "snapshots_consistent ag reg w \<longleftrightarrow>
     (\<forall>ident snap. load_snapshot (stream_name ag ident) (snaps w) = Some snap \<longrightarrow>
        snapshot_valid ag reg (stream_in (world_feed w) (stream_name ag ident)) snap)"

text \<open>What the other fibers may do at a suspension point: they only add to the history.\<close>

definition appending_env ::
  "('s, 'c, 'e, 'err) Aggregate \<Rightarrow> 'e EventRegistry \<Rightarrow> (yield_point \<Rightarrow> 's memory_world \<Rightarrow> 's memory_world) \<Rightarrow> bool" where
  "appending_env ag reg env \<longleftrightarrow>
     (\<forall>y w. world_inv w \<longrightarrow>
        world_inv (env y w) \<and> (\<exists>added. world_feed (env y w) = world_feed w @ added)
        \<and> (snapshots_consistent ag reg w \<longrightarrow> snapshots_consistent ag reg (env y w)))"

definition world_runtime ::
  "('s, 'c, 'e, 'err) Aggregate \<Rightarrow> 'e EventRegistry \<Rightarrow> ('e \<Rightarrow> string) \<Rightarrow> int option
    \<Rightarrow> ('s memory_world, 's, 'c, 'e, 'err) AggregateRuntime" where
  "world_runtime ag reg tg every =
     \<lparr>store = worldEventStore, snapshotStore = Some worldSnapshotStore, snapshotEvery = every,
      aggregate = ag, registry = reg, tag = tg\<rparr>"

lemma runs_on_world_runtime: "aggregates.runs_on (world_runtime ag reg tg every)"
  by (simp add: aggregates.runs_on_def world_runtime_def)

lemma snapshots_consistent_iff: "aggregates.snapshots_ok ag reg w = snapshots_consistent ag reg w"
  by (simp add: aggregates.snapshots_ok_def snapshots_consistent_def)

lemma appending_env_iff: "aggregates.env_ok ag reg env = appending_env ag reg env"
  by (auto simp: aggregates.env_ok_def aggregates.grows_def appending_env_def snapshots_consistent_iff)

lemma world_runtime_simps [simp]:
  "aggregate (world_runtime ag reg tg every) = ag"
  "registry (world_runtime ag reg tg every) = reg"
  "tag (world_runtime ag reg tg every) = tg"
  "store (world_runtime ag reg tg every) = worldEventStore"
  "snapshotEvery (world_runtime ag reg tg every) = every"
  "snapshotStore (world_runtime ag reg tg every) = Some worldSnapshotStore"
  by (simp_all add: world_runtime_def)

text \<open>Appends by other fibers are such steps.\<close>

lemma appending_env_append:
  fixes ag :: "('s, 'c, 'e, 'err) Aggregate"
  shows "appending_env ag reg (\<lambda>y w. snd (append_world sn v events w))"
proof -
  have "store_inv (snd (append_mem sn v events st))
      \<and> (\<exists>added. allEvents (snd (append_mem sn v events st)) = allEvents st @ added)" if "store_inv st" for st
    using that
    by (cases rule: append_mem_cases [of sn v events st]) (auto simp: store_simps intro: store_inv_accepted)
  moreover have "snaps (snd (append_world sn v events w)) = snaps w" for w :: "'s memory_world"
    by (metis append_world_frame(2) prod.collapse)
  ultimately show ?thesis
    by (fastforce simp: appending_env_def es_append_world snapshots_consistent_def
        intro: snapshot_valid_append)
qed

lemma appending_env_id: "appending_env ag reg (\<lambda>y w. w)"
  by (simp add: appending_env_def)

text \<open>Loading in a quiet world.\<close>

lemma load_world:
  assumes "store_inv (es w)" and "snapshots_consistent ag reg w"
  shows "load_aggregate (world_runtime ag reg tg every) (\<lambda>y w. w) ident w =
    (case stream_state ag reg (stream_name ag ident) (world_feed w) of
       Inl e \<Rightarrow> Inl (DecodeErr e)
     | Inr sv \<Rightarrow> Inr sv, w)"
proof -
  let ?rt = "world_runtime ag reg tg every"
  have env: "aggregates.env_ok (aggregate ?rt) (registry ?rt) (\<lambda>y w. w)"
    and snaps: "aggregates.snapshots_ok (aggregate ?rt) (registry ?rt) w"
    using assms(2) by (simp_all add: appending_env_iff snapshots_consistent_iff appending_env_id)
  from aggregates.loadFrom_correct [OF runs_on_world_runtime assms(1) env snaps, of ident]
  obtain r where "loadFrom ?rt (\<lambda>y w. w) ident w = (r, w)"
    and "case stream_state ag reg (stream_name ag ident) (world_feed w) of
       Inl e \<Rightarrow> r = Inl (DecodeErr e)
     | Inr (s, v) \<Rightarrow> \<exists>sv. r = Inr \<lparr>loadedState = s, loadedVersion = v, snapshotVersion = sv\<rparr>"
    by auto
  then show ?thesis by (auto simp: load_aggregate_def split: sum.splits)
qed

end
