(* ===== verification/Outbox.thy ===== *)
theory Outbox
  imports Json Complex_Main
begin

declare map_of_eq_Some_iff [simp del]

section \<open>Transactional outbox, relay and inbox\<close>

text \<open>
  The \<open>InMemoryOutbox\<close> and \<open>InMemoryInbox\<close> of \<open>packages/eventsourcing/src/memory.ts\<close> and the relay
  of \<open>Outbox.ts\<close>. Times and durations are rational milliseconds. Every operation of the outbox
  is one atomic update of its state; the clock is an argument.
\<close>

subsection \<open>State\<close>

record OutboxMessage =
  msgId :: string
  msgTopic :: string
  msgPayload :: json
  msgMetadata :: "(string \<times> json) list"
  msgAvailableAt :: "rat option"

datatype OutboxStatus = Pending | Published | Dead

record OutboxEntry =
  entryMessage :: OutboxMessage
  entryStatus :: OutboxStatus
  entryAttempts :: nat
  entryError :: "string option"
  entryAvailableAt :: "rat option"

record ClaimState =
  claimToken :: string
  claimLeaseUntil :: rat

record OutboxState =
  entries :: "(string, OutboxEntry) jsmap"
  claims :: "(string, ClaimState) jsmap"
  nextToken :: nat

record OutboxClaim =
  claimedEntries :: "OutboxEntry list"
  token :: string
  leaseUntil :: rat

definition emptyOutbox :: OutboxState where
  "emptyOutbox = \<lparr>entries = [], claims = [], nextToken = 0\<rparr>"

definition withoutClaim :: "(string, ClaimState) jsmap \<Rightarrow> string \<Rightarrow> (string, ClaimState) jsmap" where
  "withoutClaim cs ident = (if jsget cs ident = None then cs else jsdelete ident cs)"

definition update_entry :: "string \<Rightarrow> (OutboxEntry \<Rightarrow> OutboxEntry) \<Rightarrow> OutboxState \<Rightarrow> OutboxState" where
  "update_entry ident patch st =
     (case jsget (entries st) ident of
        None \<Rightarrow> st
      | Some entry \<Rightarrow>
          st\<lparr>entries := jsset ident (patch entry) (entries st),
             claims := withoutClaim (claims st) ident\<rparr>)"

definition due :: "OutboxEntry \<Rightarrow> rat \<Rightarrow> bool" where
  "due entry now \<longleftrightarrow> (case entryAvailableAt entry of None \<Rightarrow> True | Some t \<Rightarrow> t \<le> now)"

definition leaseLapsed :: "OutboxState \<Rightarrow> string \<Rightarrow> rat \<Rightarrow> bool" where
  "leaseLapsed st ident now \<longleftrightarrow>
     (case jsget (claims st) ident of None \<Rightarrow> True | Some c \<Rightarrow> claimLeaseUntil c \<le> now)"

definition owns :: "OutboxState \<Rightarrow> string \<Rightarrow> string option \<Rightarrow> bool" where
  "owns st ident claim =
     (case claim of
        None \<Rightarrow> True
      | Some t \<Rightarrow> (case jsget (claims st) ident of None \<Rightarrow> False | Some held \<Rightarrow> claimToken held = t))"

subsection \<open>Operations\<close>

fun enqueue_entries :: "OutboxMessage list \<Rightarrow> (string, OutboxEntry) jsmap \<Rightarrow> (string, OutboxEntry) jsmap" where
  "enqueue_entries [] next = next"
| "enqueue_entries (m # ms) next =
     enqueue_entries ms
       (if jsget next (msgId m) \<noteq> None then next
        else jsset (msgId m)
          \<lparr>entryMessage = m, entryStatus = Pending, entryAttempts = 0, entryError = None,
           entryAvailableAt = msgAvailableAt m\<rparr> next)"

definition enqueue :: "OutboxMessage list \<Rightarrow> OutboxState \<Rightarrow> OutboxState" where
  "enqueue messages st = st\<lparr>entries := enqueue_entries messages (entries st)\<rparr>"

definition deliverable :: "OutboxState \<Rightarrow> rat \<Rightarrow> OutboxEntry \<Rightarrow> bool" where
  "deliverable st now entry \<longleftrightarrow>
     entryStatus entry = Pending \<and> due entry now \<and> leaseLapsed st (msgId (entryMessage entry)) now"

definition pending :: "int \<Rightarrow> rat \<Rightarrow> OutboxState \<Rightarrow> OutboxEntry list" where
  "pending limit now st = slice0 limit (filter (deliverable st now) (map snd (entries st)))"

text \<open>The loop of \<open>claim\<close>: it stops once \<open>limit\<close> entries are claimed.\<close>

fun claim_loop ::
  "int \<Rightarrow> OutboxState \<Rightarrow> rat \<Rightarrow> ClaimState \<Rightarrow> OutboxEntry list \<Rightarrow> OutboxEntry list
    \<Rightarrow> (string, ClaimState) jsmap \<Rightarrow> OutboxEntry list \<times> (string, ClaimState) jsmap" where
  "claim_loop limit st now c [] claimed cs = (claimed, cs)"
| "claim_loop limit st now c (entry # rest) claimed cs =
     (if int (length claimed) \<ge> limit then (claimed, cs)
      else if entryStatus entry \<noteq> Pending then claim_loop limit st now c rest claimed cs
      else if \<not> due entry now then claim_loop limit st now c rest claimed cs
      else if \<not> leaseLapsed st (msgId (entryMessage entry)) now then claim_loop limit st now c rest claimed cs
      else claim_loop limit st now c rest (claimed @ [entry]) (jsset (msgId (entryMessage entry)) c cs))"

definition claim_token :: "nat \<Rightarrow> string" where
  "claim_token n = ''mem-'' @ show_nat n"

definition claim :: "int \<Rightarrow> rat \<Rightarrow> rat \<Rightarrow> OutboxState \<Rightarrow> OutboxClaim \<times> OutboxState" where
  "claim limit lease now st =
     (let until = now + lease; tok = claim_token (nextToken st) in
      case claim_loop limit st now \<lparr>claimToken = tok, claimLeaseUntil = until\<rparr> (map snd (entries st)) [] (claims st) of
        (claimed, cs) \<Rightarrow>
          (\<lparr>claimedEntries = claimed, token = tok, leaseUntil = until\<rparr>,
           if claimed \<noteq> [] then st\<lparr>claims := cs, nextToken := nextToken st + 1\<rparr> else st))"

fun mark_published_loop ::
  "string list \<Rightarrow> string option \<Rightarrow> OutboxState \<Rightarrow> bool \<Rightarrow> OutboxState \<Rightarrow> bool \<times> OutboxState" where
  "mark_published_loop [] cl st applied next = (applied, next)"
| "mark_published_loop (ident # ids) cl st applied next =
     (case jsget (entries st) ident of
        None \<Rightarrow> mark_published_loop ids cl st applied next
      | Some entry \<Rightarrow>
          if \<not> owns st ident cl then mark_published_loop ids cl st applied next
          else mark_published_loop ids cl st True
                 (next\<lparr>entries := jsset ident (entry\<lparr>entryStatus := Published\<rparr>) (entries next),
                       claims := withoutClaim (claims next) ident\<rparr>))"

definition markPublished :: "string list \<Rightarrow> string option \<Rightarrow> OutboxState \<Rightarrow> bool \<times> OutboxState" where
  "markPublished ids cl st = mark_published_loop ids cl st False st"

definition markFailed ::
  "string \<Rightarrow> string \<Rightarrow> nat \<Rightarrow> rat option \<Rightarrow> string option \<Rightarrow> OutboxState \<Rightarrow> bool \<times> OutboxState" where
  "markFailed ident error attempts retryAt cl st =
     (case jsget (entries st) ident of
        None \<Rightarrow> (False, st)
      | Some entry \<Rightarrow>
          if \<not> owns st ident cl then (False, st)
          else (True, st\<lparr>entries := jsset ident
                 (entry\<lparr>entryAttempts := attempts, entryError := Some error, entryAvailableAt := retryAt\<rparr>)
                 (entries st)\<rparr>))"

definition markDead :: "string \<Rightarrow> string \<Rightarrow> string option \<Rightarrow> OutboxState \<Rightarrow> bool \<times> OutboxState" where
  "markDead ident error cl st =
     (case jsget (entries st) ident of
        None \<Rightarrow> (False, st)
      | Some entry \<Rightarrow>
          if \<not> owns st ident cl then (False, st)
          else (True, st\<lparr>entries := jsset ident (entry\<lparr>entryStatus := Dead, entryError := Some error\<rparr>) (entries st),
                         claims := withoutClaim (claims st) ident\<rparr>))"

definition revive :: "OutboxEntry \<Rightarrow> OutboxEntry" where
  "revive entry =
     (if entryStatus entry \<noteq> Dead then entry
      else entry\<lparr>entryStatus := Pending, entryAttempts := 0, entryError := None, entryAvailableAt := None\<rparr>)"

fun replay :: "string list \<Rightarrow> OutboxState \<Rightarrow> OutboxState" where
  "replay [] st = st"
| "replay (ident # ids) st = replay ids (update_entry ident revive st)"

definition deadLetters :: "OutboxState \<Rightarrow> OutboxEntry list" where
  "deadLetters st = filter (\<lambda>e. entryStatus e = Dead) (map snd (entries st))"

subsection \<open>Inbox operations\<close>

type_synonym InboxState = "string list"

definition inbox_key :: "string \<Rightarrow> string \<Rightarrow> string" where
  "inbox_key consumerId messageId = consumerId @ CHR 0x00 # messageId"

definition seen :: "string \<Rightarrow> string \<Rightarrow> InboxState \<Rightarrow> bool" where
  "seen consumerId messageId keys \<longleftrightarrow> inbox_key consumerId messageId \<in> set keys"

definition markProcessed :: "string \<Rightarrow> string \<Rightarrow> InboxState \<Rightarrow> InboxState" where
  "markProcessed consumerId messageId keys =
     (if inbox_key consumerId messageId \<in> set keys then keys else keys @ [inbox_key consumerId messageId])"

definition dedupe ::
  "string \<Rightarrow> string \<Rightarrow> ('w \<Rightarrow> ('x, 'a) result \<times> 'w) \<Rightarrow> InboxState \<times> 'w
    \<Rightarrow> ('x, 'a option) result \<times> InboxState \<times> 'w" where
  "dedupe consumerId messageId effect s =
     (if seen consumerId messageId (fst s) then (Inr None, s)
      else (case effect (snd s) of
              (Inl e, w) \<Rightarrow> (Inl e, fst s, w)
            | (Inr a, w) \<Rightarrow> (Inr (Some a), markProcessed consumerId messageId (fst s), w)))"

subsection \<open>Invariant\<close>

text \<open>
  Entries are keyed by their message's id, a claim is held only on a pending entry, and every
  token in use was handed out before.
\<close>

definition outbox_ok :: "OutboxState \<Rightarrow> bool" where
  "outbox_ok st \<longleftrightarrow>
     distinct (jskeys (entries st)) \<and> distinct (jskeys (claims st)) \<and>
     (\<forall>(k, e) \<in> set (entries st). msgId (entryMessage e) = k) \<and>
     (\<forall>(k, c) \<in> set (claims st).
        (case jsget (entries st) k of None \<Rightarrow> False | Some e \<Rightarrow> entryStatus e = Pending) \<and>
        (\<exists>n < nextToken st. claimToken c = claim_token n))"

lemma outbox_ok_iff:
  "outbox_ok st \<longleftrightarrow>
     distinct (jskeys (entries st)) \<and> distinct (jskeys (claims st)) \<and>
     (\<forall>k e. jsget (entries st) k = Some e \<longrightarrow> msgId (entryMessage e) = k) \<and>
     (\<forall>k c. jsget (claims st) k = Some c \<longrightarrow>
        (\<exists>e. jsget (entries st) k = Some e \<and> entryStatus e = Pending) \<and>
        (\<exists>n < nextToken st. claimToken c = claim_token n))"
proof (cases "distinct (jskeys (entries st)) \<and> distinct (jskeys (claims st))")
  case True
  have pend: "(case r of None \<Rightarrow> False | Some e \<Rightarrow> entryStatus e = Pending)
      \<longleftrightarrow> (\<exists>e. r = Some e \<and> entryStatus e = Pending)" for r
    by (cases r) auto
  show ?thesis
    unfolding outbox_ok_def pend
    using True by (simp only: ball_jsmap [of "entries st"] ball_jsmap [of "claims st"])
next
  case False
  then show ?thesis by (auto simp: outbox_ok_def)
qed

lemma claim_token_inject [simp]: "claim_token m = claim_token n \<longleftrightarrow> m = n"
  by (simp add: claim_token_def)

lemma jsget_withoutClaim [simp]:
  "jsget (withoutClaim cs i) k = (if k = i then None else jsget cs k)"
  by (simp add: withoutClaim_def)

lemma distinct_withoutClaim [simp]:
  "distinct (jskeys cs) \<Longrightarrow> distinct (jskeys (withoutClaim cs i))"
  by (simp add: withoutClaim_def AList.distinct_delete)

lemma outbox_ok_empty: "outbox_ok emptyOutbox"
  by (simp add: outbox_ok_def emptyOutbox_def)

lemma outbox_ok_keyD:
  "outbox_ok st \<Longrightarrow> jsget (entries st) k = Some e \<Longrightarrow> msgId (entryMessage e) = k"
  by (simp add: outbox_ok_iff)

lemma outbox_ok_claimD:
  assumes "outbox_ok st" and "jsget (claims st) k = Some c"
  obtains e where "jsget (entries st) k = Some e" and "entryStatus e = Pending"
  using assms unfolding outbox_ok_iff by blast

subsection \<open>Enqueueing\<close>

lemma jsget_enqueue_entries_known:
  "jsget m k = Some e \<Longrightarrow> jsget (enqueue_entries ms m) k = Some e"
proof (induction ms m rule: enqueue_entries.induct)
  case (2 msg ms m)
  then show ?case by (cases "k = msgId msg") auto
qed simp

lemma jsget_enqueue_entries_new:
  assumes "jsget (enqueue_entries ms m) k = Some e" and "jsget m k = None"
  shows "entryStatus e = Pending \<and> entryAttempts e = 0 \<and> msgId (entryMessage e) = k
    \<and> entryMessage e \<in> set ms \<and> entryAvailableAt e = msgAvailableAt (entryMessage e)"
  using assms
proof (induction ms m rule: enqueue_entries.induct)
  case (2 msg ms m)
  show ?case
  proof (cases "jsget m (msgId msg) = None \<and> k = msgId msg")
    case True
    then have "jsget (enqueue_entries (msg # ms) m) k = Some
      \<lparr>entryMessage = msg, entryStatus = Pending, entryAttempts = 0, entryError = None,
       entryAvailableAt = msgAvailableAt msg\<rparr>"
      by (simp add: jsget_enqueue_entries_known)
    with 2 True show ?thesis by auto
  next
    case False
    then have "jsget (if jsget m (msgId msg) \<noteq> None then m
       else jsset (msgId msg)
          \<lparr>entryMessage = msg, entryStatus = Pending, entryAttempts = 0, entryError = None,
           entryAvailableAt = msgAvailableAt msg\<rparr> m) k = None"
      using 2(3) by auto
    from 2(1) [OF _ this] 2(2) show ?thesis by (simp split: if_splits)
  qed
qed simp

lemma jsget_enqueue_entries_staged:
  "m \<in> set ms \<Longrightarrow> \<exists>e. jsget (enqueue_entries ms next) (msgId m) = Some e"
proof (induction ms "next" rule: enqueue_entries.induct)
  case (2 msg ms "next")
  then show ?case
    by (cases "m = msg") (auto simp: jsget_enqueue_entries_known)
qed simp

lemma enqueue_entries_all_known:
  "(\<forall>m \<in> set ms. jsget next (msgId m) \<noteq> None) \<Longrightarrow> enqueue_entries ms next = next"
  by (induction ms "next" rule: enqueue_entries.induct) auto

lemma distinct_enqueue_entries:
  "distinct (jskeys m) \<Longrightarrow> distinct (jskeys (enqueue_entries ms m))"
  by (induction ms m rule: enqueue_entries.induct) auto

lemma enqueue_idem: "enqueue ms (enqueue ms st) = enqueue ms st"
  unfolding enqueue_def by (simp add: enqueue_entries_all_known jsget_enqueue_entries_staged)

lemma outbox_ok_enqueue:
  assumes "outbox_ok st"
  shows "outbox_ok (enqueue ms st)"
proof -
  have "msgId (entryMessage e) = k" if "jsget (enqueue_entries ms (entries st)) k = Some e" for k e
    using that assms jsget_enqueue_entries_new [OF that] jsget_enqueue_entries_known [of "entries st" k _ ms]
    by (cases "jsget (entries st) k") (auto simp: outbox_ok_iff)
  moreover have "\<exists>e. jsget (enqueue_entries ms (entries st)) k = Some e \<and> entryStatus e = Pending"
    if "jsget (claims st) k = Some c" for k c
    using that assms jsget_enqueue_entries_known by (fastforce simp: outbox_ok_iff)
  ultimately show ?thesis
    using assms by (simp add: outbox_ok_iff enqueue_def distinct_enqueue_entries)
qed

subsection \<open>Claiming\<close>

text \<open>A claim takes the first \<open>limit\<close> deliverable entries and leases exactly those.\<close>

lemma claim_loop_spec:
  "claim_loop limit st now c es claimed cs =
     (let sel = take (nat (limit - int (length claimed))) (filter (deliverable st now) es) in
      (claimed @ sel, foldl (\<lambda>m e. jsset (msgId (entryMessage e)) c m) cs sel))"
proof (induction limit st now c es claimed cs rule: claim_loop.induct)
  case (2 limit st now c entry rest claimed cs)
  show ?case
  proof (cases "int (length claimed) \<ge> limit")
    case False
    then have "nat (limit - int (length claimed)) = Suc (nat (limit - int (length claimed) - 1))"
      by simp
    with 2 False show ?thesis
      by (auto simp: deliverable_def Let_def algebra_simps)
  qed simp
qed simp

definition selected :: "int \<Rightarrow> rat \<Rightarrow> OutboxState \<Rightarrow> OutboxEntry list" where
  "selected limit now st = take (nat limit) (filter (deliverable st now) (map snd (entries st)))"

lemma selected_pending: "0 \<le> limit \<Longrightarrow> selected limit now st = pending limit now st"
  by (simp add: selected_def pending_def)

lemma jsget_foldl_claims:
  "jsget (foldl (\<lambda>m e. jsset (msgId (entryMessage e)) c m) cs sel) k =
     (if k \<in> (\<lambda>e. msgId (entryMessage e)) ` set sel then Some c else jsget cs k)"
  by (induction sel arbitrary: cs) auto

lemma distinct_foldl_claims:
  "distinct (jskeys cs) \<Longrightarrow> distinct (jskeys (foldl (\<lambda>m e. jsset (msgId (entryMessage e)) c m) cs sel))"
  by (induction sel arbitrary: cs) auto

lemma claim_fields:
  assumes "claim limit lease now st = (c, st')"
  shows "claimedEntries c = selected limit now st"
    and "token c = claim_token (nextToken st)"
    and "leaseUntil c = now + lease"
    and "entries st' = entries st"
    and "jsget (claims st') k =
      (if k \<in> (\<lambda>e. msgId (entryMessage e)) ` set (selected limit now st)
       then Some \<lparr>claimToken = claim_token (nextToken st), claimLeaseUntil = now + lease\<rparr>
       else jsget (claims st) k)"
    and "nextToken st' = nextToken st + (if selected limit now st = [] then 0 else 1)"
    and "distinct (jskeys (claims st)) \<Longrightarrow> distinct (jskeys (claims st'))"
  using assms
  by (auto simp: claim_def claim_loop_spec Let_def selected_def jsget_foldl_claims distinct_foldl_claims
      split: if_splits)

lemma selected_deliverable: "e \<in> set (selected limit now st) \<Longrightarrow> deliverable st now e"
  by (auto simp: selected_def dest: in_set_takeD)

lemma selected_entry:
  assumes "outbox_ok st" and "e \<in> set (selected limit now st)"
  shows "jsget (entries st) (msgId (entryMessage e)) = Some e"
proof -
  from assms(2) obtain k where "(k, e) \<in> set (entries st)"
    by (auto simp: selected_def dest!: in_set_takeD)
  with assms(1) show ?thesis by (auto simp: outbox_ok_def)
qed

lemma distinct_map_filter_snd:
  assumes "distinct (jskeys m)" and "\<forall>(k, e) \<in> set m. f e = k"
  shows "distinct (map f (filter P (map snd m)))"
  using assms
proof (induction m)
  case (Cons a m)
  moreover have "f (snd a) \<notin> f ` set (filter P (map snd m))"
    using Cons.prems by (force simp: image_iff)
  ultimately show ?case by (auto split: prod.splits)
qed simp

lemma selected_distinct:
  assumes "outbox_ok st"
  shows "distinct (map (\<lambda>e. msgId (entryMessage e)) (selected limit now st))"
  using distinct_map_filter_snd [of "entries st" "\<lambda>e. msgId (entryMessage e)" "deliverable st now"] assms
  by (auto simp: selected_def outbox_ok_def take_map [symmetric])

lemma outbox_ok_claim:
  assumes "outbox_ok st" and "claim limit lease now st = (c, st')"
  shows "outbox_ok st'"
  using assms(1) selected_entry [OF assms(1)] selected_deliverable
  by (auto simp: outbox_ok_iff claim_fields [OF assms(2)] deliverable_def split: if_splits)
     (metis less_Suc_eq less_antisym)+

lemma selected_complete:
  assumes "selected limit now st = []" and "0 < limit" and "jsget (entries st) k = Some e"
  shows "\<not> deliverable st now e"
proof -
  from assms(1,2) have "filter (deliverable st now) (map snd (entries st)) = []"
    by (simp add: selected_def)
  moreover from assms(3) have "e \<in> set (map snd (entries st))"
    by (force dest: map_of_SomeD)
  ultimately show ?thesis by (auto simp: filter_empty_conv)
qed

subsection \<open>Settlement\<close>

definition holder :: "OutboxState \<Rightarrow> string \<Rightarrow> string option" where
  "holder st ident = map_option claimToken (jsget (claims st) ident)"

lemma owns_iff: "owns st ident cl \<longleftrightarrow> cl = None \<or> holder st ident = cl"
  by (auto simp: owns_def holder_def split: option.splits)

lemma owns_None [simp]: "owns st ident None"
  by (simp add: owns_def)

lemma owns_Some [simp]: "owns st ident (Some t) \<longleftrightarrow> holder st ident = Some t"
  by (simp add: owns_iff)

abbreviation settles :: "string option \<Rightarrow> OutboxState \<Rightarrow> string \<Rightarrow> bool" where
  "settles cl st ident \<equiv> jsget (entries st) ident \<noteq> None \<and> owns st ident cl"

lemma mark_published_loop_spec:
  assumes "mark_published_loop ids cl st applied next = (b, st')"
  shows "b \<longleftrightarrow> applied \<or> (\<exists>i \<in> set ids. settles cl st i)"
    and "jsget (entries st') k =
      (if k \<in> set ids \<and> settles cl st k
       then map_option (\<lambda>e. e\<lparr>entryStatus := Published\<rparr>) (jsget (entries st) k)
       else jsget (entries next) k)"
    and "jsget (claims st') k =
      (if k \<in> set ids \<and> settles cl st k then None else jsget (claims next) k)"
    and "nextToken st' = nextToken next"
    and "distinct (jskeys (entries next)) \<Longrightarrow> distinct (jskeys (entries st'))"
    and "distinct (jskeys (claims next)) \<Longrightarrow> distinct (jskeys (claims st'))"
  using assms
  by (induction ids cl st applied "next" rule: mark_published_loop.induct)
     (auto split: option.splits if_splits)

lemmas markPublished_spec =
  mark_published_loop_spec [of ids cl st False st for ids cl st, folded markPublished_def]

lemma mark_published_loop_fenced:
  "(\<forall>i \<in> set ids. holder st i \<noteq> Some t) \<Longrightarrow> mark_published_loop ids (Some t) st b next = (b, next)"
  by (induction ids) (auto split: option.splits)

lemma markPublished_fenced:
  "(\<forall>i \<in> set ids. holder st i \<noteq> Some t) \<Longrightarrow> markPublished ids (Some t) st = (False, st)"
  by (simp add: markPublished_def mark_published_loop_fenced)

lemma markFailed_fenced:
  "holder st i \<noteq> Some t \<Longrightarrow> markFailed i err n retryAt (Some t) st = (False, st)"
  by (simp add: markFailed_def split: option.splits)

lemma markDead_fenced: "holder st i \<noteq> Some t \<Longrightarrow> markDead i err (Some t) st = (False, st)"
  by (simp add: markDead_def split: option.splits)

lemmas fenced = markPublished_fenced markFailed_fenced markDead_fenced

lemma outbox_ok_markPublished:
  assumes "outbox_ok st"
  shows "outbox_ok (snd (markPublished ids cl st))"
proof -
  obtain b st' where r: "markPublished ids cl st = (b, st')" by force
  show ?thesis
    using assms by (auto simp: outbox_ok_iff r markPublished_spec [OF r] split: if_splits)
qed

lemma outbox_ok_markFailed: "outbox_ok st \<Longrightarrow> outbox_ok (snd (markFailed i err n retryAt cl st))"
  by (auto simp: outbox_ok_iff markFailed_def split: option.splits) (metis option.inject)

lemma outbox_ok_markDead: "outbox_ok st \<Longrightarrow> outbox_ok (snd (markDead i err cl st))"
  by (auto simp: outbox_ok_iff markDead_def split: option.splits)

subsection \<open>Replay\<close>

lemma revive_simps [simp]:
  "entryMessage (revive e) = entryMessage e"
  "entryStatus e \<noteq> Dead \<Longrightarrow> revive e = e"
  "revive (revive e) = revive e"
  by (simp_all add: revive_def)

lemma outbox_ok_update_entry: "outbox_ok st \<Longrightarrow> outbox_ok (update_entry i revive st)"
  by (auto simp: outbox_ok_iff update_entry_def split: option.splits)

lemma outbox_ok_replay: "outbox_ok st \<Longrightarrow> outbox_ok (replay ids st)"
  by (induction ids st rule: replay.induct) (auto simp: outbox_ok_update_entry)

lemma jsget_update_entry:
  "jsget (entries (update_entry i f st)) k = (if k = i then map_option f (jsget (entries st) k) else jsget (entries st) k)"
  "jsget (claims (update_entry i f st)) k =
     (if k = i \<and> jsget (entries st) i \<noteq> None then None else jsget (claims st) k)"
  by (auto simp: update_entry_def split: option.splits)

lemma jsget_replay:
  "jsget (entries (replay ids st)) k =
     (if k \<in> set ids then map_option revive (jsget (entries st) k) else jsget (entries st) k)"
  "jsget (claims (replay ids st)) k =
     (if k \<in> set ids \<and> jsget (entries st) k \<noteq> None then None else jsget (claims st) k)"
  by (induction ids st rule: replay.induct)
     (auto simp: jsget_update_entry option.map_comp comp_def)

subsection \<open>Sequences of operations\<close>

text \<open>The calls that concurrent writers and relays make, in the order they take effect.\<close>

datatype outbox_op =
    Enqueue "OutboxMessage list"
  | Claim int rat rat
  | MarkPublished "string list" "string option"
  | MarkFailed string string nat "rat option" "string option"
  | MarkDead string string "string option"
  | Replay "string list"

fun apply_op :: "outbox_op \<Rightarrow> OutboxState \<Rightarrow> OutboxState" where
  "apply_op (Enqueue ms) st = enqueue ms st"
| "apply_op (Claim limit lease now) st = snd (claim limit lease now st)"
| "apply_op (MarkPublished ids cl) st = snd (markPublished ids cl st)"
| "apply_op (MarkFailed ident err n retryAt cl) st = snd (markFailed ident err n retryAt cl st)"
| "apply_op (MarkDead ident err cl) st = snd (markDead ident err cl st)"
| "apply_op (Replay ids) st = replay ids st"

definition run_ops :: "outbox_op list \<Rightarrow> OutboxState \<Rightarrow> OutboxState" where
  "run_ops ops st = foldl (\<lambda>st op. apply_op op st) st ops"

lemma outbox_ok_apply_op: "outbox_ok st \<Longrightarrow> outbox_ok (apply_op op st)"
  by (cases op)
     (auto simp: outbox_ok_enqueue outbox_ok_markPublished outbox_ok_markFailed outbox_ok_markDead
       outbox_ok_replay intro: outbox_ok_claim prod.collapse [symmetric])

lemma outbox_ok_run_ops: "outbox_ok st \<Longrightarrow> outbox_ok (run_ops ops st)"
  unfolding run_ops_def by (induction ops arbitrary: st) (auto simp: outbox_ok_apply_op)

text \<open>
  What the others may do while a relay holds the claim \<open>c\<close> on \<open>ident\<close>: claim before its lease
  lapses, settle under their own tokens, enqueue, and replay other entries.
\<close>

fun honours :: "ClaimState \<Rightarrow> string \<Rightarrow> outbox_op \<Rightarrow> bool" where
  "honours c ident (Enqueue ms) = True"
| "honours c ident (Claim limit lease now) = (now < claimLeaseUntil c)"
| "honours c ident (MarkPublished ids cl) = (ident \<in> set ids \<longrightarrow> cl \<noteq> None \<and> cl \<noteq> Some (claimToken c))"
| "honours c ident (MarkFailed i err n retryAt cl) = (i = ident \<longrightarrow> cl \<noteq> None \<and> cl \<noteq> Some (claimToken c))"
| "honours c ident (MarkDead i err cl) = (i = ident \<longrightarrow> cl \<noteq> None \<and> cl \<noteq> Some (claimToken c))"
| "honours c ident (Replay ids) = (ident \<notin> set ids)"

lemma claim_excludes:
  assumes "jsget (claims st) ident = Some c" and "now < claimLeaseUntil c"
    and "e \<in> set (selected limit now st)"
  shows "msgId (entryMessage e) \<noteq> ident"
  using selected_deliverable [OF assms(3)] assms(1,2) by (auto simp: deliverable_def leaseLapsed_def)

lemma honours_step:
  assumes "outbox_ok st" and "jsget (claims st) ident = Some c" and "honours c ident op"
  shows "jsget (claims (apply_op op st)) ident = Some c
    \<and> jsget (entries (apply_op op st)) ident = jsget (entries st) ident"
proof (cases op)
  case (Enqueue ms)
  from assms(1,2) obtain e where "jsget (entries st) ident = Some e"
    by (rule outbox_ok_claimD)
  with assms(2) Enqueue show ?thesis
    by (simp add: enqueue_def jsget_enqueue_entries_known)
next
  case (Claim limit lease now)
  obtain c' st' where r: "claim limit lease now st = (c', st')" by force
  have "ident \<notin> (\<lambda>e. msgId (entryMessage e)) ` set (selected limit now st)"
    using claim_excludes [OF assms(2)] assms(3) Claim by auto
  with assms(2) show ?thesis by (simp add: Claim r claim_fields [OF r])
next
  case (MarkPublished ids cl)
  obtain b st' where r: "markPublished ids cl st = (b, st')" by force
  from assms(2,3) MarkPublished have "ident \<in> set ids \<Longrightarrow> \<not> owns st ident cl"
    by (auto simp: owns_iff holder_def)
  with assms(2) show ?thesis by (auto simp: MarkPublished r markPublished_spec [OF r])
next
  case (MarkFailed i err n retryAt cl)
  with assms(2,3) show ?thesis
    by (auto simp: markFailed_def owns_iff holder_def split: option.splits)
next
  case (MarkDead i err cl)
  with assms(2,3) show ?thesis
    by (auto simp: markDead_def owns_iff holder_def split: option.splits)
next
  case (Replay ids)
  with assms(2,3) show ?thesis by (simp add: jsget_replay)
qed

lemma honours_run:
  assumes "outbox_ok st" and "jsget (claims st) ident = Some c" and "\<forall>op \<in> set ops. honours c ident op"
  shows "jsget (claims (run_ops ops st)) ident = Some c
    \<and> jsget (entries (run_ops ops st)) ident = jsget (entries st) ident"
  using assms
proof (induction ops arbitrary: st)
  case (Cons op ops)
  then have step: "jsget (claims (apply_op op st)) ident = Some c
      \<and> jsget (entries (apply_op op st)) ident = jsget (entries st) ident"
    using honours_step by simp
  from Cons.IH [of "apply_op op st"] Cons.prems step outbox_ok_apply_op [OF Cons.prems(1)]
  show ?case by (simp add: run_ops_def)
qed (simp add: run_ops_def)

text \<open>Tokens are never handed out twice.\<close>

lemma nextToken_replay [simp]: "nextToken (replay ids st) = nextToken st"
  by (induction ids st rule: replay.induct) (auto simp: update_entry_def split: option.splits)

lemma nextToken_apply_op: "nextToken st \<le> nextToken (apply_op op st)"
proof (cases op)
  case (Claim limit lease now)
  obtain c st' where r: "claim limit lease now st = (c, st')" by force
  show ?thesis by (simp add: Claim r claim_fields(6) [OF r])
next
  case (MarkPublished ids cl)
  obtain b st' where r: "markPublished ids cl st = (b, st')" by force
  show ?thesis by (simp add: MarkPublished r markPublished_spec(4) [OF r])
qed (auto simp: enqueue_def markFailed_def markDead_def split: option.splits)

lemma nextToken_run_ops: "nextToken st \<le> nextToken (run_ops ops st)"
  unfolding run_ops_def
proof (induction ops arbitrary: st)
  case (Cons op ops)
  from nextToken_apply_op [of st op] Cons.IH [of "apply_op op st"] show ?case by simp
qed simp

subsection \<open>Inbox\<close>

lemma inbox_key_inject:
  assumes "CHR 0x00 \<notin> set c" and "CHR 0x00 \<notin> set c'"
  shows "inbox_key c m = inbox_key c' m' \<longleftrightarrow> c = c' \<and> m = m'"
  using append_sep_inject [of c "CHR 0x00" m c' m'] assms by (auto simp: inbox_key_def)

lemma seen_markProcessed:
  assumes "CHR 0x00 \<notin> set c" and "CHR 0x00 \<notin> set c'"
  shows "seen c m (markProcessed c' m' keys) \<longleftrightarrow> (c = c' \<and> m = m') \<or> seen c m keys"
  using inbox_key_inject [OF assms] by (auto simp: seen_def markProcessed_def)

text \<open>Deliveries of messages to consumers, each under \<open>dedupe\<close>, in any order and any number of times.\<close>

fun deliver_all ::
  "(string \<Rightarrow> string \<Rightarrow> 'w \<Rightarrow> ('x, 'a) result \<times> 'w) \<Rightarrow> (string \<times> string) list \<Rightarrow> InboxState \<times> 'w
    \<Rightarrow> InboxState \<times> 'w" where
  "deliver_all effect [] s = s"
| "deliver_all effect ((c, m) # ds) s = deliver_all effect ds (snd (dedupe c m (effect c m) s))"

text \<open>The messages not processed before, each once, in the order of their first delivery.\<close>

fun fresh :: "(string \<times> string \<Rightarrow> bool) \<Rightarrow> (string \<times> string) list \<Rightarrow> (string \<times> string) list" where
  "fresh known [] = []"
| "fresh known (d # ds) = (if known d then fresh known ds else d # fresh (\<lambda>x. x = d \<or> known x) ds)"

lemma fresh_cong: "(\<And>d. d \<in> set ds \<Longrightarrow> P d = Q d) \<Longrightarrow> fresh P ds = fresh Q ds"
proof (induction ds arbitrary: P Q)
  case (Cons d ds)
  from Cons.IH [of P Q] Cons.IH [of "\<lambda>x. x = d \<or> P x" "\<lambda>x. x = d \<or> Q x"] Cons.prems show ?case by auto
qed simp

lemma fresh_set: "set (fresh known ds) = {d \<in> set ds. \<not> known d}"
  by (induction known ds rule: fresh.induct) auto

lemma fresh_distinct: "distinct (fresh known ds)"
  by (induction known ds rule: fresh.induct) (auto simp: fresh_set)

lemma deliver_all_fresh:
  assumes "\<forall>(c, m) \<in> set ds. CHR 0x00 \<notin> set c" and "\<And>c m w. \<exists>a w'. effect c m w = (Inr a, w')"
  shows "snd (deliver_all effect ds (keys, w)) =
    foldl (\<lambda>w (c, m). snd (effect c m w)) w (fresh (\<lambda>(c, m). seen c m keys) ds)"
  using assms(1)
proof (induction ds arbitrary: keys w)
  case (Cons d ds)
  obtain c m where d: "d = (c, m)" by (cases d)
  obtain a w' where eff: "effect c m w = (Inr a, w')" using assms(2) by blast
  show ?case
  proof (cases "seen c m keys")
    case True
    with Cons show ?thesis by (simp add: d dedupe_def)
  next
    case False
    have "fresh (\<lambda>(c', m'). seen c' m' (markProcessed c m keys)) ds =
        fresh (\<lambda>x. x = (c, m) \<or> (case x of (c', m') \<Rightarrow> seen c' m' keys)) ds"
      by (rule fresh_cong) (use Cons.prems d in \<open>auto simp: seen_markProcessed\<close>)
    with Cons False eff show ?thesis by (simp add: d dedupe_def)
  qed
qed simp

end
