(* ===== verification/Relay.thy ===== *)
theory Relay
  imports Outbox
begin

section \<open>The outbox relay\<close>

text \<open>
  \<open>publishEntry\<close> and \<open>drain\<close> of \<open>packages/eventsourcing/src/Outbox.ts\<close>, over any outbox that keeps
  the contract of the locale \<open>outbox_service\<close>, which the in-memory outbox is shown to keep.
\<close>

subsection \<open>The port and the relay\<close>

text \<open>
  The relay calls the outbox through its port, here a record of the operations it uses, over any
  carrier \<open>'w\<close> of the outbox state.
\<close>

record 'w OutboxService =
  svcClaim :: "int \<Rightarrow> rat \<Rightarrow> rat \<Rightarrow> 'w \<Rightarrow> OutboxClaim \<times> 'w"
  svcMarkPublished :: "string list \<Rightarrow> string option \<Rightarrow> 'w \<Rightarrow> bool \<times> 'w"
  svcMarkFailed :: "string \<Rightarrow> string \<Rightarrow> nat \<Rightarrow> rat option \<Rightarrow> string option \<Rightarrow> 'w \<Rightarrow> bool \<times> 'w"
  svcMarkDead :: "string \<Rightarrow> string \<Rightarrow> string option \<Rightarrow> 'w \<Rightarrow> bool \<times> 'w"

definition memOutbox :: "OutboxState OutboxService" where
  "memOutbox = \<lparr>svcClaim = claim, svcMarkPublished = markPublished, svcMarkFailed = markFailed,
     svcMarkDead = markDead\<rparr>"

datatype publish_outcome = PublishOk | PublishFailed string | PublishDefect

text \<open>
  \<open>backoffBase\<close>, \<open>backoffJitter\<close> and \<open>maxAttempts\<close> carry the defaults; \<open>factor\<close> is the draw of
  \<open>Random.nextRange(1 - spread, 1 + spread)\<close>.
\<close>

definition backoffDelay :: "nat \<Rightarrow> rat option \<Rightarrow> rat option \<Rightarrow> rat \<Rightarrow> rat" where
  "backoffDelay attempt backoffBase backoffJitter factor =
     (let base = getOr 100 backoffBase;
          spread = (case backoffJitter of None \<Rightarrow> 1 / 5 | Some j \<Rightarrow> max 0 j);
          bounded = min (base * 2 ^ (attempt - 1)) 86400000
      in if spread = 0 then bounded else bounded * factor)"

text \<open>
  What surrounds one relay: the transport's answer to publish attempt \<open>k\<close>, the clock and the
  backoff delay drawn after it, and what other fibers did to the outbox while it published
  (\<open>publishing\<close>) and between recording the last failure and dead-lettering (\<open>settling\<close>).
\<close>

record 'w relay_env =
  answer :: "OutboxEntry \<Rightarrow> nat \<Rightarrow> publish_outcome"
  clock :: "nat \<Rightarrow> rat"
  delay :: "nat \<Rightarrow> rat"
  publishing :: "nat \<Rightarrow> 'w \<Rightarrow> 'w"
  settling :: "nat \<Rightarrow> 'w \<Rightarrow> 'w"

text \<open>
  The \<open>while (true)\<close> of \<open>publishEntry\<close>. The result is \<open>None\<close> when the transport died with a defect,
  which the relay re-raises.
\<close>

function publish_loop ::
  "'w OutboxService \<Rightarrow> 'w relay_env \<Rightarrow> nat \<Rightarrow> OutboxEntry \<Rightarrow> string \<Rightarrow> nat \<Rightarrow> 'w \<Rightarrow> bool option \<times> 'w" where
  "publish_loop svc env maxAttempts entry tok attempts st =
     (let ident = msgId (entryMessage entry); st1 = publishing env attempts st in
      case answer env entry attempts of
        PublishOk \<Rightarrow> (case svcMarkPublished svc [ident] (Some tok) st1 of (b, st2) \<Rightarrow> (Some b, st2))
      | PublishDefect \<Rightarrow> (None, st1)
      | PublishFailed text \<Rightarrow>
          (if attempts + 1 \<ge> maxAttempts
           then (case svcMarkFailed svc ident text (attempts + 1) None (Some tok) st1 of
                   (_, st2) \<Rightarrow>
                     (case svcMarkDead svc ident text (Some tok) (settling env attempts st2) of
                        (b, st3) \<Rightarrow> (Some b, st3)))
           else (case svcMarkFailed svc ident text (attempts + 1)
                        (Some (clock env attempts + delay env (attempts + 1))) (Some tok) st1 of
                   (held, st2) \<Rightarrow>
                     if \<not> held then (Some False, st2)
                     else publish_loop svc env maxAttempts entry tok (attempts + 1) st2)))"
  by pat_completeness auto
termination
  by (relation "measure (\<lambda>(svc, env, maxAttempts, entry, tok, attempts, st). maxAttempts - attempts)") auto

declare publish_loop.simps [simp del]

definition publishEntry ::
  "'w OutboxService \<Rightarrow> 'w relay_env \<Rightarrow> nat option \<Rightarrow> OutboxEntry \<Rightarrow> string \<Rightarrow> 'w \<Rightarrow> bool option \<times> 'w" where
  "publishEntry svc env limit entry tok st =
     (let maxAttempts = getOr 5 limit in
      if entryAttempts entry \<ge> maxAttempts
      then (case svcMarkDead svc (msgId (entryMessage entry))
                   (getOr ''exhausted attempts before this pass'' (entryError entry)) (Some tok) st of
              (b, st') \<Rightarrow> (Some b, st'))
      else publish_loop svc env maxAttempts entry tok (entryAttempts entry) st)"

fun publish_all ::
  "'w OutboxService \<Rightarrow> 'w relay_env \<Rightarrow> nat option \<Rightarrow> string \<Rightarrow> OutboxEntry list \<Rightarrow> 'w \<Rightarrow> unit option \<times> 'w" where
  "publish_all svc env limit tok [] st = (Some (), st)"
| "publish_all svc env limit tok (entry # rest) st =
     (case publishEntry svc env limit entry tok st of
        (None, st') \<Rightarrow> (None, st')
      | (Some _, st') \<Rightarrow> publish_all svc env limit tok rest st')"

text \<open>
  \<open>drain\<close>: round \<open>i\<close> claims at time \<open>now i\<close> in the surroundings \<open>env i\<close>. The outer \<open>None\<close> is a loop
  that never ends, the inner one a transport defect.
\<close>

partial_function (option) drain_loop ::
  "'w OutboxService \<Rightarrow> (nat \<Rightarrow> 'w relay_env) \<Rightarrow> (nat \<Rightarrow> rat) \<Rightarrow> nat option \<Rightarrow> int \<Rightarrow> rat \<Rightarrow> nat \<Rightarrow> 'w
    \<Rightarrow> (unit option \<times> 'w) option" where
  "drain_loop svc env now limit batch lease i st =
     (case svcClaim svc batch lease (now i) st of
        (c, st1) \<Rightarrow>
          if claimedEntries c = [] then Some (Some (), st1)
          else (case publish_all svc (env i) limit (token c) (claimedEntries c) st1 of
                  (None, st2) \<Rightarrow> Some (None, st2)
                | (Some _, st2) \<Rightarrow> drain_loop svc env now limit batch lease (Suc i) st2))"

definition drain ::
  "'w OutboxService \<Rightarrow> (nat \<Rightarrow> 'w relay_env) \<Rightarrow> (nat \<Rightarrow> rat) \<Rightarrow> nat option \<Rightarrow> int option \<Rightarrow> rat option \<Rightarrow> 'w
    \<Rightarrow> (unit option \<times> 'w) option" where
  "drain svc env now limit batch lease st =
     drain_loop svc env now limit (getOr 32 batch) (getOr 30000 lease) 0 st"

text \<open>What one entry ends as: published when some attempt within the budget succeeds, else dead.\<close>

definition settled_as :: "'w relay_env \<Rightarrow> nat \<Rightarrow> OutboxEntry \<Rightarrow> OutboxEntry \<Rightarrow> bool" where
  "settled_as env n e e' \<longleftrightarrow>
     (if \<exists>k. entryAttempts e \<le> k \<and> k < n \<and> answer env e k = PublishOk
      then entryStatus e' = Published
      else entryStatus e' = Dead \<and> (entryAttempts e < n \<longrightarrow> entryAttempts e' = n))"

text \<open>Surroundings without interference in which the transport fails only with typed errors.\<close>

definition quiet :: "'w relay_env \<Rightarrow> bool" where
  "quiet env \<longleftrightarrow> (\<forall>k. publishing env k = (\<lambda>w. w)) \<and> (\<forall>k. settling env k = (\<lambda>w. w)) \<and>
     (\<forall>e k. answer env e k \<noteq> PublishDefect)"

subsection \<open>The contract of the port\<close>

text \<open>
  \<open>entryOf\<close> is the entry under an id, \<open>holderOf\<close> the token of its live claim, \<open>claimable\<close> says that
  a claim at a time could take it. The settlements of a holder write one entry and release it (or
  keep the claim, after a failure); under any other token they write nothing.
\<close>

lemma ex_from_Suc:
  assumes "\<not> P k"
  shows "(\<exists>j\<ge>k. j < n \<and> P j) \<longleftrightarrow> (\<exists>j\<ge>k + 1. j < (n :: nat) \<and> P j)"
proof -
  have "k \<le> j \<and> P j \<longleftrightarrow> k + 1 \<le> j \<and> P j" for j
    using assms by (cases "j = k") auto
  then show ?thesis by blast
qed

lemma quiet_simps:
  assumes "quiet env"
  shows "publishing env k = (\<lambda>w. w)" and "settling env k = (\<lambda>w. w)" and "answer env e k \<noteq> PublishDefect"
  using assms by (simp_all add: quiet_def)

locale outbox_service =
  fixes svc :: "'w OutboxService"
    and ok :: "'w \<Rightarrow> bool"
    and entryOf :: "'w \<Rightarrow> string \<Rightarrow> OutboxEntry option"
    and holderOf :: "'w \<Rightarrow> string \<Rightarrow> string option"
    and claimable :: "'w \<Rightarrow> rat \<Rightarrow> string \<Rightarrow> bool"
  assumes finite_entries: "ok w \<Longrightarrow> finite (dom (entryOf w))"
    and claimable_pending:
      "claimable w t i \<Longrightarrow> \<exists>e. entryOf w i = Some e \<and> entryStatus e = Pending"
    and claimable_later: "claimable w t i \<Longrightarrow> t \<le> t' \<Longrightarrow> claimable w t' i"
    and claim_law:
      "ok w \<Longrightarrow> svcClaim svc m lease t w = (c, w') \<Longrightarrow>
         ok w' \<and> entryOf w' = entryOf w \<and>
         distinct (map (\<lambda>e. msgId (entryMessage e)) (claimedEntries c)) \<and>
         (\<forall>e \<in> set (claimedEntries c).
            entryOf w (msgId (entryMessage e)) = Some e \<and> claimable w t (msgId (entryMessage e)) \<and>
            holderOf w' (msgId (entryMessage e)) = Some (token c)) \<and>
         (\<forall>i t'. i \<notin> (\<lambda>e. msgId (entryMessage e)) ` set (claimedEntries c) \<longrightarrow>
            claimable w' t' i = claimable w t' i)"
    and claim_empty:
      "ok w \<Longrightarrow> svcClaim svc m lease t w = (c, w') \<Longrightarrow> 0 < m \<Longrightarrow> claimedEntries c = [] \<Longrightarrow> \<not> claimable w t i"
    and published_law:
      "ok w \<Longrightarrow> holderOf w i = Some tok \<Longrightarrow> \<exists>w'. svcMarkPublished svc [i] (Some tok) w = (True, w') \<and> ok w' \<and>
         entryOf w' = (entryOf w)(i := map_option (\<lambda>e. e\<lparr>entryStatus := Published\<rparr>) (entryOf w i)) \<and>
         holderOf w' = (holderOf w)(i := None) \<and> (\<forall>j t. j \<noteq> i \<longrightarrow> claimable w' t j = claimable w t j)"
    and failed_law:
      "ok w \<Longrightarrow> holderOf w i = Some tok \<Longrightarrow> \<exists>w'. svcMarkFailed svc i err n ra (Some tok) w = (True, w') \<and> ok w' \<and>
         entryOf w' = (entryOf w)(i := map_option
           (\<lambda>e. e\<lparr>entryAttempts := n, entryError := Some err, entryAvailableAt := ra\<rparr>) (entryOf w i)) \<and>
         holderOf w' = holderOf w \<and> (\<forall>j t. j \<noteq> i \<longrightarrow> claimable w' t j = claimable w t j)"
    and dead_law:
      "ok w \<Longrightarrow> holderOf w i = Some tok \<Longrightarrow> \<exists>w'. svcMarkDead svc i err (Some tok) w = (True, w') \<and> ok w' \<and>
         entryOf w' = (entryOf w)(i := map_option (\<lambda>e. e\<lparr>entryStatus := Dead, entryError := Some err\<rparr>) (entryOf w i)) \<and>
         holderOf w' = (holderOf w)(i := None) \<and> (\<forall>j t. j \<noteq> i \<longrightarrow> claimable w' t j = claimable w t j)"
    and fenced_law:
      "ok w \<Longrightarrow> holderOf w i \<noteq> Some tok \<Longrightarrow> svcMarkPublished svc [i] (Some tok) w = (False, w)"
      "ok w \<Longrightarrow> holderOf w i \<noteq> Some tok \<Longrightarrow> svcMarkFailed svc i err n ra (Some tok) w = (False, w)"
      "ok w \<Longrightarrow> holderOf w i \<noteq> Some tok \<Longrightarrow> svcMarkDead svc i err (Some tok) w = (False, w)"
    and held_entry: "ok w \<Longrightarrow> holderOf w i = Some tok \<Longrightarrow> \<exists>e. entryOf w i = Some e"
begin

text \<open>The frame of one settlement: only entry \<open>i\<close> changes and its claim is released.\<close>

definition settles_only :: "string \<Rightarrow> 'w \<Rightarrow> 'w \<Rightarrow> bool" where
  "settles_only i w w' \<longleftrightarrow> ok w' \<and> holderOf w' = (holderOf w)(i := None) \<and>
     (\<forall>j. j \<noteq> i \<longrightarrow> entryOf w' j = entryOf w j \<and> (\<forall>t. claimable w' t j = claimable w t j))"

lemma settles_only_trans_failed:
  assumes "settles_only i w' w''" and "holderOf w' = holderOf w"
    and "\<forall>j. j \<noteq> i \<longrightarrow> entryOf w' j = entryOf w j \<and> (\<forall>t. claimable w' t j = claimable w t j)"
  shows "settles_only i w w''"
  using assms by (auto simp: settles_only_def)

lemma publish_loop_quiet:
  assumes "ok w" and "holderOf w (msgId (entryMessage e)) = Some tok" and "k < n"
    and "quiet env"
  shows "\<exists>w' e'. publish_loop svc env n e tok k w = (Some True, w') \<and>
    settles_only (msgId (entryMessage e)) w w' \<and> entryOf w' (msgId (entryMessage e)) = Some e' \<and>
    (if \<exists>j. k \<le> j \<and> j < n \<and> answer env e j = PublishOk then entryStatus e' = Published
     else entryStatus e' = Dead \<and> entryAttempts e' = n)"
  using assms(1-3)
proof (induction "n - k" arbitrary: k w)
  case (Suc m)
  let ?i = "msgId (entryMessage e)"
  from held_entry [OF Suc.prems(1,2)] obtain e0 where e0: "entryOf w ?i = Some e0" ..
  show ?case
  proof (cases "answer env e k")
    case PublishOk
    with Suc.prems(3) have "\<exists>j\<ge>k. j < n \<and> answer env e j = PublishOk" by blast
    with PublishOk published_law [OF Suc.prems(1,2)] e0 show ?thesis
      by (subst publish_loop.simps) (auto simp: quiet_simps [OF assms(4)] settles_only_def)
  next
    case (PublishFailed err)
    show ?thesis
    proof (cases "n \<le> k + 1")
      case True
      from failed_law [OF Suc.prems(1,2), of err "k + 1" None] obtain w1 where w1:
        "svcMarkFailed svc ?i err (k + 1) None (Some tok) w = (True, w1)" "ok w1"
        "entryOf w1 = (entryOf w)(?i := map_option
           (\<lambda>e. e\<lparr>entryAttempts := k + 1, entryError := Some err, entryAvailableAt := None\<rparr>) (entryOf w ?i))"
        "holderOf w1 = holderOf w" "\<forall>j t. j \<noteq> ?i \<longrightarrow> claimable w1 t j = claimable w t j"
        by auto
      with Suc.prems(2) have "holderOf w1 ?i = Some tok" by simp
      from dead_law [OF w1(2) this, of err] obtain w2 where w2:
        "svcMarkDead svc ?i err (Some tok) w1 = (True, w2)" "ok w2"
        "entryOf w2 = (entryOf w1)(?i := map_option (\<lambda>e. e\<lparr>entryStatus := Dead, entryError := Some err\<rparr>) (entryOf w1 ?i))"
        "holderOf w2 = (holderOf w1)(?i := None)" "\<forall>j t. j \<noteq> ?i \<longrightarrow> claimable w2 t j = claimable w1 t j"
        by auto
      from True Suc.prems(3) have "\<not> (\<exists>j\<ge>k. j < n \<and> answer env e j = PublishOk)"
        using PublishFailed by (subst ex_from_Suc) auto
      moreover from True Suc.prems(3) have "n = k + 1" by simp
      ultimately show ?thesis
        using PublishFailed True w1 w2 e0
        by (subst publish_loop.simps) (auto simp: quiet_simps [OF assms(4)] settles_only_def)
    next
      case False
      let ?at = "Some (clock env k + delay env (k + 1))"
      from failed_law [OF Suc.prems(1,2), of err "k + 1" ?at] obtain w1 where w1:
        "svcMarkFailed svc ?i err (k + 1) ?at (Some tok) w = (True, w1)" "ok w1"
        "holderOf w1 = holderOf w"
        "\<forall>j. j \<noteq> ?i \<longrightarrow> entryOf w1 j = entryOf w j \<and> (\<forall>t. claimable w1 t j = claimable w t j)"
        by auto
      have "m = n - (k + 1)" and "k + 1 < n" using Suc.hyps(2) False by auto
      from Suc.hyps(1) [OF this(1) w1(2) _ this(2)] w1(3) Suc.prems(2)
      obtain w' e' where w': "publish_loop svc env n e tok (k + 1) w1 = (Some True, w')"
        "settles_only ?i w1 w'" "entryOf w' ?i = Some e'"
        "if \<exists>j\<ge>k + 1. j < n \<and> answer env e j = PublishOk then entryStatus e' = Published
         else entryStatus e' = Dead \<and> entryAttempts e' = n" by auto
      have later: "(\<exists>j\<ge>k. j < n \<and> answer env e j = PublishOk) \<longleftrightarrow> (\<exists>j\<ge>k + 1. j < n \<and> answer env e j = PublishOk)"
        using PublishFailed by (intro ex_from_Suc) simp
      from settles_only_trans_failed [OF w'(2) w1(3,4)] w' show ?thesis
        unfolding later using PublishFailed False w1(1)
        by (subst publish_loop.simps) (auto simp: quiet_simps [OF assms(4)])
    qed
  next
    case PublishDefect
    with quiet_simps(3) [OF assms(4)] show ?thesis by simp
  qed
qed simp

lemma publishEntry_quiet:
  assumes "ok w" and "holderOf w (msgId (entryMessage e)) = Some tok"
    and "entryOf w (msgId (entryMessage e)) = Some e" and "quiet env"
  shows "\<exists>w' e'. publishEntry svc env limit e tok w = (Some True, w') \<and>
    settles_only (msgId (entryMessage e)) w w' \<and> entryOf w' (msgId (entryMessage e)) = Some e' \<and>
    settled_as env (getOr 5 limit) e e'"
proof (cases "getOr 5 limit \<le> entryAttempts e")
  case True
  let ?i = "msgId (entryMessage e)"
    and ?err = "getOr ''exhausted attempts before this pass'' (entryError e)"
  from dead_law [OF assms(1,2), of ?err] obtain w' where
    w': "svcMarkDead svc ?i ?err (Some tok) w = (True, w')" "settles_only ?i w w'"
    "entryOf w' ?i = Some (e\<lparr>entryStatus := Dead, entryError := Some ?err\<rparr>)"
    using assms(3) by (auto simp: settles_only_def)
  moreover from True have "settled_as env (getOr 5 limit) e (e\<lparr>entryStatus := Dead, entryError := Some ?err\<rparr>)"
    by (auto simp: settled_as_def)
  ultimately show ?thesis using True by (simp add: publishEntry_def Let_def)
next
  case False
  then have "entryAttempts e < getOr 5 limit" by simp
  from publish_loop_quiet [OF assms(1,2) this assms(4)] obtain w' e' where
    "publish_loop svc env (getOr 5 limit) e tok (entryAttempts e) w = (Some True, w')"
    "settles_only (msgId (entryMessage e)) w w'" "entryOf w' (msgId (entryMessage e)) = Some e'"
    "settled_as env (getOr 5 limit) e e'"
    unfolding settled_as_def by (force split: if_splits)
  with False show ?thesis by (simp add: publishEntry_def Let_def)
qed

abbreviation idents :: "OutboxEntry list \<Rightarrow> string set" where
  "idents es \<equiv> (\<lambda>e. msgId (entryMessage e)) ` set es"

lemma publish_all_quiet:
  assumes "ok w" and "distinct (map (\<lambda>e. msgId (entryMessage e)) es)" and "quiet env"
    and "\<forall>e \<in> set es. holderOf w (msgId (entryMessage e)) = Some tok \<and> entryOf w (msgId (entryMessage e)) = Some e"
  shows "\<exists>w'. publish_all svc env limit tok es w = (Some (), w') \<and> ok w' \<and>
    (\<forall>e \<in> set es. \<exists>e'. entryOf w' (msgId (entryMessage e)) = Some e' \<and> settled_as env (getOr 5 limit) e e') \<and>
    (\<forall>j. j \<notin> idents es \<longrightarrow> entryOf w' j = entryOf w j \<and> (\<forall>t. claimable w' t j = claimable w t j))"
  using assms
proof (induction es arbitrary: w)
  case (Cons e es)
  let ?i = "msgId (entryMessage e)"
  from publishEntry_quiet [OF Cons.prems(1) _ _ Cons.prems(3), of e tok limit] Cons.prems(4)
  obtain w1 e' where w1: "publishEntry svc env limit e tok w = (Some True, w1)" "settles_only ?i w w1"
    "entryOf w1 ?i = Some e'" "settled_as env (getOr 5 limit) e e'" by auto
  have notin: "?i \<notin> idents es" using Cons.prems(2) by auto
  then have "\<forall>e \<in> set es. holderOf w1 (msgId (entryMessage e)) = Some tok \<and> entryOf w1 (msgId (entryMessage e)) = Some e"
    using w1(2) Cons.prems(4) by (auto simp: settles_only_def image_iff)
  with Cons.IH [of w1] Cons.prems w1(2) obtain w' where w':
    "publish_all svc env limit tok es w1 = (Some (), w')" "ok w'"
    "\<forall>e \<in> set es. \<exists>e'. entryOf w' (msgId (entryMessage e)) = Some e' \<and> settled_as env (getOr 5 limit) e e'"
    "\<forall>j. j \<notin> idents es \<longrightarrow> entryOf w' j = entryOf w1 j \<and> (\<forall>t. claimable w' t j = claimable w1 t j)"
    by (auto simp: settles_only_def)
  have "entryOf w' ?i = Some e'" using w'(4) notin w1(3) by simp
  with w' w1 show ?case by (auto simp: settles_only_def)
qed simp

text \<open>The ids whose entry is still pending; every round of \<open>drain\<close> settles some of them.\<close>

definition pendings :: "'w \<Rightarrow> string set" where
  "pendings w = {i. \<exists>e. entryOf w i = Some e \<and> entryStatus e = Pending}"

lemma finite_pendings: "ok w \<Longrightarrow> finite (pendings w)"
  by (rule finite_subset [OF _ finite_entries [of w]]) (auto simp: pendings_def dom_def)

lemma settled_not_pending: "settled_as env n e e' \<Longrightarrow> entryStatus e' \<noteq> Pending"
  by (auto simp: settled_as_def split: if_splits)

text \<open>
  What a drain did: every entry is untouched, or was pending and ended as the transport's answers in
  one of the rounds determine.
\<close>

definition drained :: "(nat \<Rightarrow> 'w relay_env) \<Rightarrow> nat \<Rightarrow> 'w \<Rightarrow> 'w \<Rightarrow> bool" where
  "drained env n w w' \<longleftrightarrow>
     (\<forall>i. entryOf w' i = entryOf w i \<or>
       (\<exists>e e' r. entryOf w i = Some e \<and> entryStatus e = Pending \<and> entryOf w' i = Some e' \<and> settled_as (env r) n e e'))"

lemma drain_round:
  assumes "ok w" and "quiet (env i)" and "svcClaim svc batch lease t w = (c, w1)"
    and "claimedEntries c \<noteq> []"
  shows "\<exists>w2. publish_all svc (env i) limit (token c) (claimedEntries c) w1 = (Some (), w2) \<and> ok w2 \<and>
    card (pendings w2) < card (pendings w) \<and> drained env (getOr 5 limit) w w2 \<and>
    (\<forall>j t'. entryOf w2 j = entryOf w j \<longrightarrow> claimable w2 t' j = claimable w t' j)"
proof -
  note law = claim_law [OF assms(1,3)]
  from law have "\<forall>e \<in> set (claimedEntries c). holderOf w1 (msgId (entryMessage e)) = Some (token c) \<and>
      entryOf w1 (msgId (entryMessage e)) = Some e" by auto
  from publish_all_quiet [OF _ _ assms(2) this, of limit] law obtain w2 where
    run: "publish_all svc (env i) limit (token c) (claimedEntries c) w1 = (Some (), w2)" and "ok w2" and
    fin: "\<forall>e \<in> set (claimedEntries c). \<exists>e'. entryOf w2 (msgId (entryMessage e)) = Some e' \<and> settled_as (env i) (getOr 5 limit) e e'" and
    frame: "\<forall>j. j \<notin> idents (claimedEntries c) \<longrightarrow> entryOf w2 j = entryOf w1 j \<and> (\<forall>t. claimable w2 t j = claimable w1 t j)"
    by auto
  have pend: "\<forall>e \<in> set (claimedEntries c). entryStatus e = Pending"
    using law claimable_pending by (metis option.inject)
  have same: "entryOf w1 = entryOf w" using law by simp
  have ended: "\<forall>e \<in> set (claimedEntries c). \<exists>e'. entryOf w2 (msgId (entryMessage e)) = Some e' \<and> entryStatus e' \<noteq> Pending"
    using fin settled_not_pending by blast
  have "j \<notin> idents (claimedEntries c) \<and> j \<in> pendings w" if "j \<in> pendings w2" for j
  proof (cases "j \<in> idents (claimedEntries c)")
    case True
    then obtain e where "e \<in> set (claimedEntries c)" and "j = msgId (entryMessage e)" by blast
    with that ended show ?thesis by (fastforce simp: pendings_def)
  next
    case False
    with that frame show ?thesis by (simp add: pendings_def same)
  qed
  then have "pendings w2 \<subseteq> pendings w - idents (claimedEntries c)" by blast
  moreover have "msgId (entryMessage (hd (claimedEntries c))) \<in> pendings w \<inter> idents (claimedEntries c)"
    using law pend hd_in_set [OF assms(4)] by (auto simp: pendings_def)
  ultimately have "card (pendings w2) < card (pendings w)"
    using finite_pendings [OF assms(1)] by (intro psubset_card_mono) auto
  moreover have "drained env (getOr 5 limit) w w2"
    unfolding drained_def
  proof
    fix j
    show "entryOf w2 j = entryOf w j \<or> (\<exists>e e' r. entryOf w j = Some e \<and> entryStatus e = Pending \<and>
      entryOf w2 j = Some e' \<and> settled_as (env r) (getOr 5 limit) e e')"
    proof (cases "j \<in> idents (claimedEntries c)")
      case True
      then obtain e where "e \<in> set (claimedEntries c)" and "j = msgId (entryMessage e)" by blast
      with fin law pend show ?thesis by blast
    next
      case False
      with frame same show ?thesis by simp
    qed
  qed
  moreover have "claimable w2 t' j = claimable w t' j" if "entryOf w2 j = entryOf w j" for j t'
  proof (cases "j \<in> idents (claimedEntries c)")
    case True
    with that fin law pend settled_not_pending show ?thesis by fastforce
  next
    case False
    with frame law show ?thesis by auto
  qed
  ultimately show ?thesis using run \<open>ok w2\<close> by blast
qed

lemma drained_trans:
  assumes "drained env n w w1" and "drained env n w1 w2"
  shows "drained env n w w2"
  unfolding drained_def
proof
  fix i
  show "entryOf w2 i = entryOf w i \<or>
       (\<exists>e e' r. entryOf w i = Some e \<and> entryStatus e = Pending \<and> entryOf w2 i = Some e' \<and> settled_as (env r) n e e')"
  proof (cases "entryOf w1 i = entryOf w i")
    case True
    with assms(2) show ?thesis unfolding drained_def by metis
  next
    case False
    with assms(1) obtain e e' r where e: "entryOf w i = Some e" "entryStatus e = Pending"
      "entryOf w1 i = Some e'" "settled_as (env r) n e e'" unfolding drained_def by blast
    with assms(2) settled_not_pending [OF e(4)] have "entryOf w2 i = Some e'"
      unfolding drained_def by (metis option.inject)
    with e show ?thesis by blast
  qed
qed

lemma drained_settled:
  assumes "drained env n w w'" and "entryOf w i = Some e" and "entryStatus e = Pending"
    and "entryOf w' i \<noteq> entryOf w i"
  obtains e' r where "entryOf w' i = Some e'" and "settled_as (env r) n e e'"
  using assms unfolding drained_def by force

lemma drain_loop_quiet:
  assumes "ok w" and "\<And>i. quiet (env i)" and "0 < batch" and "\<And>i j. i \<le> j \<Longrightarrow> now i \<le> now j"
  shows "\<exists>w'. drain_loop svc env now limit batch lease i w = Some (Some (), w') \<and> ok w' \<and>
    drained env (getOr 5 limit) w w' \<and>
    (\<forall>j. claimable w (now i) j \<longrightarrow> entryOf w' j \<noteq> entryOf w j)"
  using assms(1)
proof (induction "card (pendings w)" arbitrary: w i rule: less_induct)
  case less
  obtain c w1 where c: "svcClaim svc batch lease (now i) w = (c, w1)" by force
  show ?case
  proof (cases "claimedEntries c = []")
    case True
    with c claim_law [OF less.prems c] claim_empty [OF less.prems c assms(3)] show ?thesis
      by (subst drain_loop.simps) (auto simp: drained_def)
  next
    case False
    from drain_round [where env = env and i = i and limit = limit, OF less.prems assms(2) c False] obtain w2 where w2:
      "publish_all svc (env i) limit (token c) (claimedEntries c) w1 = (Some (), w2)" "ok w2"
      "card (pendings w2) < card (pendings w)" "drained env (getOr 5 limit) w w2"
      "\<forall>j t'. entryOf w2 j = entryOf w j \<longrightarrow> claimable w2 t' j = claimable w t' j" by blast
    from less.hyps [OF w2(3,2), of "Suc i"] obtain w' where w':
      "drain_loop svc env now limit batch lease (Suc i) w2 = Some (Some (), w')" "ok w'"
      "drained env (getOr 5 limit) w2 w'"
      "\<forall>j. claimable w2 (now (Suc i)) j \<longrightarrow> entryOf w' j \<noteq> entryOf w2 j" by blast
    have "entryOf w' j \<noteq> entryOf w j" if j: "claimable w (now i) j" for j
    proof (cases "entryOf w2 j = entryOf w j")
      case True
      with w2(5) j claimable_later [OF j] assms(4) have "claimable w2 (now (Suc i)) j" by simp
      with w'(4) True show ?thesis by metis
    next
      case False
      from claimable_pending [OF j] obtain e where e: "entryOf w j = Some e" "entryStatus e = Pending"
        by blast
      from drained_settled [OF w2(4) e False] obtain e' r where
        e': "entryOf w2 j = Some e'" "settled_as (env r) (getOr 5 limit) e e'" by blast
      with w'(3) settled_not_pending [OF e'(2)] have "entryOf w' j = Some e'"
        unfolding drained_def by (metis option.inject)
      with e e' settled_not_pending [OF e'(2)] show ?thesis by auto
    qed
    with w2 w' c False drained_trans [OF w2(4) w'(3)] show ?thesis
      by (subst drain_loop.simps) auto
  qed
qed

text \<open>A settlement the relay reports as applied did settle the entry, whatever the others did.\<close>

lemma settle_reports:
  assumes "ok w"
  shows "svcMarkPublished svc [i] (Some tok) w = (True, w') \<Longrightarrow>
      holderOf w' i = None \<and> (\<exists>e'. entryOf w' i = Some e' \<and> entryStatus e' \<noteq> Pending)"
    and "svcMarkDead svc i err (Some tok) w = (True, w') \<Longrightarrow>
      holderOf w' i = None \<and> (\<exists>e'. entryOf w' i = Some e' \<and> entryStatus e' \<noteq> Pending)"
    and "svcMarkFailed svc i err n ra (Some tok) w = (b, w'') \<Longrightarrow> ok w''"
proof -
  show "holderOf w' i = None \<and> (\<exists>e'. entryOf w' i = Some e' \<and> entryStatus e' \<noteq> Pending)"
    if "svcMarkPublished svc [i] (Some tok) w = (True, w')"
    using that fenced_law(1) [OF assms, of i tok] published_law [OF assms, of i tok] held_entry [OF assms, of i tok]
    by (cases "holderOf w i = Some tok") auto
  show "holderOf w' i = None \<and> (\<exists>e'. entryOf w' i = Some e' \<and> entryStatus e' \<noteq> Pending)"
    if "svcMarkDead svc i err (Some tok) w = (True, w')"
    using that fenced_law(3) [OF assms, of i tok err] dead_law [OF assms, of i tok err] held_entry [OF assms, of i tok]
    by (cases "holderOf w i = Some tok") auto
  show "ok w''" if "svcMarkFailed svc i err n ra (Some tok) w = (b, w'')"
    using that fenced_law(2) [OF assms, of i tok err n ra] failed_law [OF assms, of i tok err n ra] assms
    by (cases "holderOf w i = Some tok") auto
qed

lemma publish_loop_reports:
  assumes "publish_loop svc env n e tok k w = (Some True, w')" and "ok w"
    and "\<And>k w. ok w \<Longrightarrow> ok (publishing env k w) \<and> ok (settling env k w)"
  shows "holderOf w' (msgId (entryMessage e)) = None \<and>
    (\<exists>e'. entryOf w' (msgId (entryMessage e)) = Some e' \<and> entryStatus e' \<noteq> Pending)"
  using assms(1,2)
proof (induction "n - k" arbitrary: k w rule: less_induct)
  case less
  let ?i = "msgId (entryMessage e)" and ?w = "publishing env k w"
  have okw: "ok ?w" using assms(3) less.prems(2) by blast
  show ?case
  proof (cases "answer env e k")
    case PublishOk
    with less.prems(1) settle_reports(1) [OF okw] show ?thesis
      by (subst (asm) publish_loop.simps) (auto split: prod.splits)
  next
    case (PublishFailed err)
    show ?thesis
    proof (cases "n \<le> k + 1")
      case True
      obtain b w1 where w1: "svcMarkFailed svc ?i err (k + 1) None (Some tok) ?w = (b, w1)" by force
      have "ok (settling env k w1)" using settle_reports(3) [OF okw w1] assms(3) by blast
      from settle_reports(2) [OF this, of ?i err tok] less.prems(1) PublishFailed True w1 show ?thesis
        by (subst (asm) publish_loop.simps) (auto split: prod.splits)
    next
      case False
      obtain b w1 where w1: "svcMarkFailed svc ?i err (k + 1)
          (Some (clock env k + delay env (k + 1))) (Some tok) ?w = (b, w1)" by force
      from less.prems(1) PublishFailed False w1 have "b" and "publish_loop svc env n e tok (k + 1) w1 = (Some True, w')"
        by (subst (asm) publish_loop.simps; auto split: if_splits)+
      from less.hyps [OF _ this(2)] settle_reports(3) [OF okw w1] False show ?thesis by simp
    qed
  next
    case PublishDefect
    with less.prems(1) show ?thesis by (subst (asm) publish_loop.simps) simp
  qed
qed

end

subsection \<open>The in-memory outbox keeps the contract\<close>

definition mem_claimable :: "OutboxState \<Rightarrow> rat \<Rightarrow> string \<Rightarrow> bool" where
  "mem_claimable st t i = (case jsget (entries st) i of None \<Rightarrow> False | Some e \<Rightarrow> deliverable st t e)"

lemma mem_claimable_cong:
  assumes "jsget (entries st') i = jsget (entries st) i" and "jsget (claims st') i = jsget (claims st) i"
    and "outbox_ok st"
  shows "mem_claimable st' t i = mem_claimable st t i"
  using assms outbox_ok_keyD [OF assms(3), of i]
  by (auto simp: mem_claimable_def deliverable_def leaseLapsed_def split: option.splits)

lemma mem_claim_law:
  assumes "outbox_ok w" and "claim n lease t w = (c, w')"
  shows "outbox_ok w' \<and> jsget (entries w') = jsget (entries w) \<and>
     distinct (map (\<lambda>e. msgId (entryMessage e)) (claimedEntries c)) \<and>
     (\<forall>e \<in> set (claimedEntries c).
        jsget (entries w) (msgId (entryMessage e)) = Some e \<and> mem_claimable w t (msgId (entryMessage e)) \<and>
        holder w' (msgId (entryMessage e)) = Some (token c)) \<and>
     (\<forall>i t'. i \<notin> (\<lambda>e. msgId (entryMessage e)) ` set (claimedEntries c) \<longrightarrow>
        mem_claimable w' t' i = mem_claimable w t' i)"
proof -
  note f = claim_fields [OF assms(2)]
  have "mem_claimable w' t' i = mem_claimable w t' i"
    if "i \<notin> (\<lambda>e. msgId (entryMessage e)) ` set (selected n t w)" for i t'
    using that by (intro mem_claimable_cong assms(1)) (simp_all add: f)
  moreover have "mem_claimable w t (msgId (entryMessage e))" if "e \<in> set (selected n t w)" for e
    using selected_entry [OF assms(1) that] selected_deliverable [OF that] by (simp add: mem_claimable_def)
  ultimately show ?thesis
    using outbox_ok_claim [OF assms] selected_distinct [OF assms(1)] selected_entry [OF assms(1)]
    by (simp add: f holder_def)
qed

lemma mem_settle:
  assumes "outbox_ok w" and "holder w i = Some tok"
  obtains e c where "jsget (entries w) i = Some e" and "jsget (claims w) i = Some c" and "claimToken c = tok"
proof -
  from assms(2) obtain c where "jsget (claims w) i = Some c" and "claimToken c = tok"
    by (auto simp: holder_def)
  with outbox_ok_claimD [OF assms(1) this(1)] that show thesis by metis
qed

lemma mem_published_law:
  assumes "outbox_ok w" and "holder w i = Some tok"
  shows "\<exists>w'. markPublished [i] (Some tok) w = (True, w') \<and> outbox_ok w' \<and>
     jsget (entries w') = (jsget (entries w))(i := map_option (\<lambda>e. e\<lparr>entryStatus := Published\<rparr>) (jsget (entries w) i)) \<and>
     holder w' = (holder w)(i := None) \<and> (\<forall>j t. j \<noteq> i \<longrightarrow> mem_claimable w' t j = mem_claimable w t j)"
proof -
  obtain b w' where r: "markPublished [i] (Some tok) w = (b, w')" by force
  note spec = markPublished_spec [OF r]
  obtain e where e: "jsget (entries w) i = Some e" using assms by (rule mem_settle)
  have "mem_claimable w' t j = mem_claimable w t j" if "j \<noteq> i" for j t
    using that by (intro mem_claimable_cong assms(1)) (simp_all add: spec)
  then show ?thesis
    using outbox_ok_markPublished [OF assms(1), of "[i]" "Some tok"] assms(2) e
    by (auto simp: r spec holder_def fun_eq_iff)
qed

lemma mem_failed_law:
  assumes "outbox_ok w" and "holder w i = Some tok"
  shows "\<exists>w'. markFailed i err n ra (Some tok) w = (True, w') \<and> outbox_ok w' \<and>
     jsget (entries w') = (jsget (entries w))(i := map_option
       (\<lambda>e. e\<lparr>entryAttempts := n, entryError := Some err, entryAvailableAt := ra\<rparr>) (jsget (entries w) i)) \<and>
     holder w' = holder w \<and> (\<forall>j t. j \<noteq> i \<longrightarrow> mem_claimable w' t j = mem_claimable w t j)"
proof -
  obtain e where e: "jsget (entries w) i = Some e" using assms by (rule mem_settle)
  let ?w' = "snd (markFailed i err n ra (Some tok) w)"
  have "mem_claimable ?w' t j = mem_claimable w t j" if "j \<noteq> i" for j t
    using that by (intro mem_claimable_cong assms(1)) (simp_all add: markFailed_def e assms(2))
  then show ?thesis
    using outbox_ok_markFailed [OF assms(1), of i err n ra "Some tok"] assms(2) e
    by (auto simp: markFailed_def holder_def fun_eq_iff)
qed

lemma mem_dead_law:
  assumes "outbox_ok w" and "holder w i = Some tok"
  shows "\<exists>w'. markDead i err (Some tok) w = (True, w') \<and> outbox_ok w' \<and>
     jsget (entries w') = (jsget (entries w))(i := map_option
       (\<lambda>e. e\<lparr>entryStatus := Dead, entryError := Some err\<rparr>) (jsget (entries w) i)) \<and>
     holder w' = (holder w)(i := None) \<and> (\<forall>j t. j \<noteq> i \<longrightarrow> mem_claimable w' t j = mem_claimable w t j)"
proof -
  obtain e where e: "jsget (entries w) i = Some e" using assms by (rule mem_settle)
  let ?w' = "snd (markDead i err (Some tok) w)"
  have "mem_claimable ?w' t j = mem_claimable w t j" if "j \<noteq> i" for j t
    using that by (intro mem_claimable_cong assms(1)) (simp_all add: markDead_def e assms(2))
  then show ?thesis
    using outbox_ok_markDead [OF assms(1), of i err "Some tok"] assms(2) e
    by (auto simp: markDead_def holder_def fun_eq_iff)
qed

interpretation outbox: outbox_service memOutbox outbox_ok "\<lambda>w. jsget (entries w)" holder mem_claimable
proof (unfold_locales, goal_cases)
  case (2 w t i)
  then show ?case by (auto simp: mem_claimable_def deliverable_def split: option.splits)
next
  case (3 w t i t')
  then show ?case
    by (auto simp: mem_claimable_def deliverable_def due_def leaseLapsed_def split: option.splits)
next
  case (5 w n lease t c w' i)
  then show ?case
    using selected_complete [of n t w i]
    by (auto simp: memOutbox_def mem_claimable_def claim_fields(1) split: option.splits)
next
  case (6 w i tok)
  then show ?case unfolding memOutbox_def OutboxService.simps by (rule mem_published_law)
next
  case (7 w i tok err n ra)
  then show ?case unfolding memOutbox_def OutboxService.simps by (rule mem_failed_law)
next
  case (8 w i tok err)
  then show ?case unfolding memOutbox_def OutboxService.simps by (rule mem_dead_law)
next
  case (12 w i tok)
  then show ?case by (metis mem_settle)
qed (auto simp: memOutbox_def finite_dom_map_of mem_claim_law fenced)

end
