(* ===== verification/Authorization.thy ===== *)
theory Authorization
  imports Prelude
begin

section \<open>Principals and conditions\<close>

text \<open>
  \<open>principal.ts\<close>, \<open>condition.ts\<close> and \<open>errors.ts\<close> of \<open>packages/authorization/src\<close>: who is acting,
  the roles effective in a scope, and the predicates attached to conditional grants. The principal
  attached to the current fiber is an argument (\<open>current\<close>) of the definitions that read it.
\<close>

subsection \<open>Plain JavaScript objects\<close>

text \<open>
  A plain object is the list of its own properties in the order of \<open>Object.entries\<close>. Reading a key
  that is not an own property, and the operator \<open>in\<close>, also see the properties every object inherits
  from \<open>Object.prototype\<close>.
\<close>

type_synonym 'v jsobject = "(string \<times> 'v) list"

definition prototype_keys :: "string list" where
  "prototype_keys =
     [''constructor'', ''__defineGetter__'', ''__defineSetter__'', ''hasOwnProperty'', ''__lookupGetter__'',
      ''__lookupSetter__'', ''isPrototypeOf'', ''propertyIsEnumerable'', ''toString'', ''valueOf'', ''__proto__'',
      ''toLocaleString'']"

definition js_in :: "string \<Rightarrow> 'v jsobject \<Rightarrow> bool" where
  "js_in k obj \<longleftrightarrow> jsget obj k \<noteq> None \<or> k \<in> set prototype_keys"

text \<open>
  Attribute values up to \<open>===\<close>: an object is its identity, and so is a function inherited from
  \<open>Object.prototype\<close>.
\<close>

datatype attribute =
    AUndefined | ANull | ABool bool | ANum int | AStr string | ARef nat | ABuiltin string

definition attribute_at :: "attribute jsobject \<Rightarrow> string \<Rightarrow> attribute" where
  "attribute_at obj key =
     (case jsget obj key of
        Some v \<Rightarrow> v
      | None \<Rightarrow> if key \<in> set prototype_keys then ABuiltin key else AUndefined)"

subsection \<open>Principals\<close>

text \<open>A role held everywhere, or only inside one scope (\<open>RoleAssignment\<close>).\<close>

datatype RoleHeld = Everywhere string | InScope (heldRole: string) (heldScope: string)

datatype PrincipalKind = UserKind | ServiceKind | AnonymousKind

record Principal =
  principalId :: string
  principalRoles :: "RoleHeld list"
  principalKind :: "PrincipalKind option"
  tenantId :: "string option"
  principalAttributes :: "attribute jsobject option"

definition anonymous :: Principal where
  "anonymous = \<lparr>principalId = ''anonymous'', principalRoles = [], principalKind = Some AnonymousKind,
     tenantId = None, principalAttributes = None\<rparr>"

definition isAnonymous :: "Principal \<Rightarrow> bool" where
  "isAnonymous p \<longleftrightarrow> principalKind p = Some AnonymousKind"

fun roles_loop :: "string option \<Rightarrow> RoleHeld list \<Rightarrow> string list \<Rightarrow> string list" where
  "roles_loop scope [] out = out"
| "roles_loop scope (Everywhere r # rest) out =
     roles_loop scope rest (if r \<in> set out then out else out @ [r])"
| "roles_loop scope (InScope r s # rest) out =
     roles_loop scope rest (if scope \<noteq> None \<and> scope = Some s \<and> r \<notin> set out then out @ [r] else out)"

definition rolesIn :: "Principal \<Rightarrow> string option \<Rightarrow> string list" where
  "rolesIn p scope = roles_loop scope (principalRoles p) []"

definition hasRole :: "Principal \<Rightarrow> string \<Rightarrow> string option \<Rightarrow> bool" where
  "hasRole p role scope \<longleftrightarrow> role \<in> set (rolesIn p scope)"

datatype AuthorizationError =
    Unauthenticated (deniedPermission: "string option") (deniedReason: "string option")
  | PermissionDenied (lackedPermission: string) (deniedPrincipal: string) (deniedScope: "string option")
      (lackedReason: "string option")
  | InvalidPolicy "string list"

definition required :: "Principal option \<Rightarrow> (AuthorizationError, Principal) result" where
  "required current =
     (case current of
        Some p \<Rightarrow> if \<not> isAnonymous p then Inr p
                   else Inl (Unauthenticated None (Some ''no principal attached''))
      | None \<Rightarrow> Inl (Unauthenticated None (Some ''no principal attached'')))"

text \<open>\<open>within\<close> and \<open>without\<close>: what the wrapped effect sees as the current principal.\<close>

definition within_principal :: "Principal \<Rightarrow> (Principal option \<Rightarrow> 'a) \<Rightarrow> Principal option \<Rightarrow> 'a" where
  "within_principal p effect current = effect (Some p)"

definition withoutPrincipal :: "(Principal option \<Rightarrow> 'a) \<Rightarrow> Principal option \<Rightarrow> 'a" where
  "withoutPrincipal effect current = effect None"

subsection \<open>Conditions\<close>

record ConditionContext =
  ctxPrincipal :: Principal
  ctxAttributes :: "attribute jsobject"
  ctxScope :: "string option"

type_synonym Condition = "ConditionContext \<Rightarrow> bool"

definition attributeOf :: "ConditionContext \<Rightarrow> string \<Rightarrow> attribute" where
  "attributeOf ctx key = attribute_at (ctxAttributes ctx) key"

definition owner :: "string option \<Rightarrow> Condition" where
  "owner key ctx \<longleftrightarrow> attributeOf ctx (getOr ''ownerId'' key) = AStr (principalId (ctxPrincipal ctx))"

definition sameTenant :: "string option \<Rightarrow> Condition" where
  "sameTenant key ctx \<longleftrightarrow>
     (case tenantId (ctxPrincipal ctx) of
        None \<Rightarrow> False
      | Some t \<Rightarrow> attributeOf ctx (getOr ''tenantId'' key) = AStr t)"

definition attributeEquals :: "string \<Rightarrow> attribute \<Rightarrow> Condition" where
  "attributeEquals key v ctx \<longleftrightarrow> attributeOf ctx key = v"

definition attributeIn :: "string \<Rightarrow> attribute list \<Rightarrow> Condition" where
  "attributeIn key vs ctx \<longleftrightarrow> attributeOf ctx key \<in> set vs"

definition principalAttributeEquals :: "string \<Rightarrow> attribute \<Rightarrow> Condition" where
  "principalAttributeEquals key v ctx \<longleftrightarrow>
     (case principalAttributes (ctxPrincipal ctx) of
        None \<Rightarrow> AUndefined
      | Some obj \<Rightarrow> attribute_at obj key) = v"

definition all_conditions :: "Condition list \<Rightarrow> Condition" where
  "all_conditions cs ctx \<longleftrightarrow> list_all (\<lambda>c. c ctx) cs"

definition any_condition :: "Condition list \<Rightarrow> Condition" where
  "any_condition cs ctx \<longleftrightarrow> list_ex (\<lambda>c. c ctx) cs"

definition not_condition :: "Condition \<Rightarrow> Condition" where
  "not_condition c ctx \<longleftrightarrow> \<not> c ctx"

subsection \<open>Roles in a scope\<close>

lemma set_roles_loop:
  "set (roles_loop scope rs out) =
     set out \<union> {r. Everywhere r \<in> set rs} \<union> {r. \<exists>s. scope = Some s \<and> InScope r s \<in> set rs}"
  by (induction scope rs out rule: roles_loop.induct) auto

lemma set_rolesIn:
  "r \<in> set (rolesIn p scope) \<longleftrightarrow>
     Everywhere r \<in> set (principalRoles p) \<or> (\<exists>s. scope = Some s \<and> InScope r s \<in> set (principalRoles p))"
  by (auto simp: rolesIn_def set_roles_loop)

lemma distinct_roles_loop: "distinct out \<Longrightarrow> distinct (roles_loop scope rs out)"
  by (induction scope rs out rule: roles_loop.induct) auto

lemma distinct_rolesIn: "distinct (rolesIn p scope)"
  by (simp add: rolesIn_def distinct_roles_loop)

lemma rolesIn_anonymous [simp]: "rolesIn anonymous scope = []"
  by (simp add: rolesIn_def anonymous_def)

text \<open>Conditions on resource attributes fail closed when the caller passes none.\<close>

lemma owner_without_attributes: "\<not> owner key \<lparr>ctxPrincipal = p, ctxAttributes = [], ctxScope = s\<rparr>"
  and sameTenant_without_attributes: "\<not> sameTenant key \<lparr>ctxPrincipal = p, ctxAttributes = [], ctxScope = s\<rparr>"
  by (auto simp: owner_def sameTenant_def attributeOf_def attribute_at_def split: option.splits)

end
