(* ===== verification/PolicyProofs.thy ===== *)
theory PolicyProofs
  imports Policy
begin

section \<open>Correctness of policies\<close>

text \<open>
  The depth bound of the cycle search suffices; a policy without issues has its roles in an order in which
  every role follows the roles it inherits from; along this order resolution terminates within its bound and
  computes, for every role, the grants that the declarative relation \<open>holds\<close> gives it; decisions
  follow \<open>holds\<close>.
\<close>

subsection \<open>The search stays within its bound\<close>

definition role_names :: "PolicyDefinition \<Rightarrow> string set" where
  "role_names def = set (jskeys (roles def)) \<union> set prototype_keys"

lemma finite_role_names [simp]: "finite (role_names def)"
  by (simp add: role_names_def)

lemma card_role_names: "card (role_names def) < depth_bound def"
proof -
  have "card (role_names def) \<le> length (jskeys (roles def)) + length prototype_keys"
    unfolding role_names_def
    by (intro order_trans [OF card_Un_le] add_mono card_length)
  then show ?thesis by (simp add: depth_bound_def)
qed

lemma js_in_names: "js_in p (roles def) \<longleftrightarrow> p \<in> role_names def"
  by (auto simp: js_in_def role_names_def map_of_eq_None_iff)

lemma visit_keeps:
  "visit n def role path state = Some (issues, state') \<Longrightarrow> jsget state r = Some s \<Longrightarrow> jsget state' r = Some s"
  "visit_parents n def ps path state = Some (issues, state') \<Longrightarrow> jsget state r = Some s \<Longrightarrow> jsget state' r = Some s"
proof (induction n def role path state and n def ps path state arbitrary: issues state' and issues state'
    rule: visit_visit_parents.induct)
  case (2 n def role path state)
  then show ?case by (auto split: option.splits visit_status.splits if_splits)
next
  case (4 n def p ps path state)
  then show ?case by (fastforce split: option.splits if_splits)
qed auto

lemma visit_total:
  "set path \<subseteq> role_names def \<Longrightarrow> distinct path \<Longrightarrow> \<forall>r \<in> set path. jsget state r = Some Visiting \<Longrightarrow>
     role \<in> role_names def \<Longrightarrow> card (role_names def) < n + length path \<Longrightarrow> visit n def role path state \<noteq> None"
  "set path \<subseteq> role_names def \<Longrightarrow> distinct path \<Longrightarrow> \<forall>r \<in> set path. jsget state r = Some Visiting \<Longrightarrow>
     card (role_names def) < n + length path \<Longrightarrow> visit_parents n def ps path state \<noteq> None"
proof (induction n def role path state and n def ps path state rule: visit_visit_parents.induct)
  case (1 def role path state)
  have "card (set path) \<le> card (role_names def)" using 1(1) by (intro card_mono) simp_all
  with 1(2,5) show ?case by (simp add: distinct_card)
next
  case (2 n def role path state)
  show ?case
  proof (cases "jsget state role")
    case None
    then have "role \<notin> set path" using 2(4) by auto
    with 2 None have "visit_parents n def (parents def role) (path @ [role]) (jsset role Visiting state) \<noteq> None"
      by (intro 2(1)) auto
    with None show ?thesis by auto
  next
    case (Some s)
    then show ?thesis by (cases s) auto
  qed
next
  case (4 n def p ps path state)
  show ?case
  proof (cases "js_in p (roles def)")
    case True
    then have "visit n def p path state \<noteq> None" using 4 by (simp add: js_in_names)
    then obtain is1 st1 where v: "visit n def p path state = Some (is1, st1)" by auto
    have "\<forall>r \<in> set path. jsget st1 r = Some Visiting" using visit_keeps(1) [OF v] "4.prems"(3) by blast
    then have "visit_parents n def ps path st1 \<noteq> None" using 4(2) [OF True v refl] 4 by blast
    with v True show ?thesis by auto
  next
    case False
    with 4 show ?thesis by simp
  qed
qed simp_all

lemma visit_all_total: "set rs \<subseteq> role_names def \<Longrightarrow> visit_all (depth_bound def) def rs state \<noteq> None"
proof (induction rs arbitrary: state)
  case (Cons r rs)
  have "visit (depth_bound def) def r [] state \<noteq> None"
    using Cons.prems card_role_names by (intro visit_total(1)) auto
  then obtain is1 st1 where "visit (depth_bound def) def r [] state = Some (is1, st1)" by auto
  with Cons show ?case by (auto split: option.splits)
qed simp

lemma validate_total: "validate def conditions \<noteq> None"
proof -
  have "visit_all (depth_bound def) def (jskeys (roles def)) [] \<noteq> None"
    by (rule visit_all_total) (simp add: role_names_def)
  then show ?thesis by (auto simp: validate_def)
qed

subsection \<open>No issue means an order of inheritance\<close>

text \<open>Every role follows the roles it inherits from.\<close>

definition inheritance_order :: "PolicyDefinition \<Rightarrow> string list \<Rightarrow> bool" where
  "inheritance_order def ds \<longleftrightarrow> distinct ds \<and> set ds \<subseteq> role_names def \<and>
     (\<forall>xs r ys. ds = xs @ r # ys \<longrightarrow> {p \<in> set (parents def r). js_in p (roles def)} \<subseteq> set xs)"

lemma inheritance_order_Nil [simp]: "inheritance_order def []"
  by (simp add: inheritance_order_def)

lemma inheritance_order_snoc:
  assumes "inheritance_order def ds" and "r \<notin> set ds" and "{p \<in> set (parents def r). js_in p (roles def)} \<subseteq> set ds"
    and "r \<in> role_names def"
  shows "inheritance_order def (ds @ [r])"
  unfolding inheritance_order_def
proof (intro conjI allI impI)
  show "distinct (ds @ [r])" and "set (ds @ [r]) \<subseteq> role_names def" using assms(1,2,4) by (simp_all add: inheritance_order_def)
  fix xs r' ys assume "ds @ [r] = xs @ r' # ys"
  then consider "ys = []" "xs = ds" "r' = r" | ys' where "ds = xs @ r' # ys'"
    by (cases ys rule: rev_cases) auto
  then show "{p \<in> set (parents def r'). js_in p (roles def)} \<subseteq> set xs"
    using assms(1,3) by cases (auto simp: inheritance_order_def)
qed

definition done_roles :: "(string, visit_status) jsmap \<Rightarrow> string set" where
  "done_roles state = {r. jsget state r = Some Done}"

lemma done_roles_jsset [simp]:
  "done_roles (jsset r Done state) = insert r (done_roles state)"
  "jsget state r = None \<Longrightarrow> done_roles (jsset r Visiting state) = done_roles state"
  by (auto simp: done_roles_def)

lemma visit_order:
  "visit n def role path state = Some ([], state') \<Longrightarrow> inheritance_order def ds \<Longrightarrow> done_roles state = set ds \<Longrightarrow>
     role \<in> role_names def \<Longrightarrow>
     \<exists>ds'. inheritance_order def ds' \<and> set ds \<subseteq> set ds' \<and> done_roles state' = set ds' \<and> role \<in> set ds'"
  "visit_parents n def ps path state = Some ([], state') \<Longrightarrow> inheritance_order def ds \<Longrightarrow> done_roles state = set ds \<Longrightarrow>
     \<exists>ds'. inheritance_order def ds' \<and> set ds \<subseteq> set ds' \<and> done_roles state' = set ds' \<and>
       {p \<in> set ps. js_in p (roles def)} \<subseteq> set ds'"
proof (induction n def role path state and n def ps path state arbitrary: state' ds and state' ds
    rule: visit_visit_parents.induct)
  case (2 n def role path state)
  show ?case
  proof (cases "jsget state role")
    case None
    with 2(2) obtain st1 where st1:
      "visit_parents n def (parents def role) (path @ [role]) (jsset role Visiting state) = Some ([], st1)"
      "state' = jsset role Done st1" by (auto split: option.splits)
    from 2(1) [OF None st1(1) 2(3)] None 2(4) obtain ds1 where ds1: "inheritance_order def ds1" "set ds \<subseteq> set ds1"
      "done_roles st1 = set ds1" "{p \<in> set (parents def role). js_in p (roles def)} \<subseteq> set ds1" by auto
    have "jsget st1 role = Some Visiting" using visit_keeps(2) [OF st1(1)] by simp
    then have "role \<notin> done_roles st1" by (simp add: done_roles_def)
    then have "role \<notin> set ds1" by (simp add: ds1(3))
    with inheritance_order_snoc [OF ds1(1) _ ds1(4) 2(5)] ds1 st1(2) show ?thesis
      by (intro exI [of _ "ds1 @ [role]"]) auto
  next
    case (Some s)
    with 2(2-5) show ?thesis by (cases s) (auto simp: done_roles_def)
  qed
next
  case (4 n def p ps path state)
  show ?case
  proof (cases "js_in p (roles def)")
    case True
    with 4(4) obtain st1 where st1: "visit n def p path state = Some ([], st1)"
      "visit_parents n def ps path st1 = Some ([], state')" by (auto split: option.splits)
    from 4(1) [OF True st1(1) 4(5,6)] True obtain ds1 where ds1: "inheritance_order def ds1" "set ds \<subseteq> set ds1"
      "done_roles st1 = set ds1" "p \<in> set ds1" by (auto simp: js_in_names)
    from 4(2) [OF True st1(1) refl st1(2) ds1(1,3)] obtain ds2 where "inheritance_order def ds2" "set ds1 \<subseteq> set ds2"
      "done_roles state' = set ds2" "{p \<in> set ps. js_in p (roles def)} \<subseteq> set ds2" by auto
    with ds1 show ?thesis by (intro exI [of _ ds2]) auto
  next
    case False
    with 4(3) [OF False _ 4(5,6)] 4(4) show ?thesis by auto
  qed
qed auto

lemma visit_all_order:
  assumes "visit_all n def rs state = Some ([], state')" and "inheritance_order def ds" and "done_roles state = set ds"
    and "set rs \<subseteq> role_names def"
  shows "\<exists>ds'. inheritance_order def ds' \<and> set ds \<union> set rs \<subseteq> set ds' \<and> done_roles state' = set ds'"
  using assms
proof (induction rs arbitrary: state ds)
  case (Cons r rs)
  from Cons.prems(1) obtain st1 where st1: "visit n def r [] state = Some ([], st1)" "visit_all n def rs st1 = Some ([], state')"
    by (auto split: option.splits)
  from visit_order(1) [OF st1(1) Cons.prems(2,3)] Cons.prems(4) obtain ds1 where "inheritance_order def ds1" "set ds \<subseteq> set ds1"
    "done_roles st1 = set ds1" "r \<in> set ds1" by auto
  moreover from this Cons.IH [OF st1(2), of ds1] Cons.prems(4) obtain ds' where "inheritance_order def ds'"
    "set ds1 \<union> set rs \<subseteq> set ds'" "done_roles state' = set ds'" by auto
  ultimately show ?case by (intro exI [of _ ds']) auto
qed auto

lemma valid_order:
  assumes "validate def conditions = Some []"
  obtains ds where "inheritance_order def ds" and "set (jskeys (roles def)) \<subseteq> set ds"
proof -
  from assms obtain st where "visit_all (depth_bound def) def (jskeys (roles def)) [] = Some ([], st)"
    by (auto simp: validate_def)
  from visit_all_order [OF this, of "[]"] that show thesis by (auto simp: done_roles_def role_names_def)
qed

text \<open>Hence no role inherits from itself.\<close>

definition inherits_from :: "PolicyDefinition \<Rightarrow> (string \<times> string) set" where
  "inherits_from def = {(r, p). p \<in> set (parents def r) \<and> js_in p (roles def)}"

lemma order_acyclic:
  assumes "inheritance_order def ds" and "(r, p) \<in> (inherits_from def)\<^sup>+" and "ds = xs @ r # ys"
  shows "p \<in> set xs"
  using assms(2,3)
proof (induction arbitrary: xs ys rule: trancl_induct)
  case (base p)
  with assms(1) show ?case unfolding inheritance_order_def inherits_from_def by blast
next
  case (step p q)
  then have "p \<in> set xs" by blast
  then obtain us vs where "xs = us @ p # vs" by (meson split_list)
  with step.prems have "ds = us @ p # (vs @ r # ys)" by simp
  with assms(1) step.hyps(2) have "q \<in> set us"
    unfolding inheritance_order_def inherits_from_def by blast
  with \<open>xs = us @ p # vs\<close> show ?case by simp
qed

lemma valid_acyclic:
  assumes "validate def conditions = Some []" and "r \<in> set (jskeys (roles def))"
  shows "(r, r) \<notin> (inherits_from def)\<^sup>+"
proof
  assume cyc: "(r, r) \<in> (inherits_from def)\<^sup>+"
  obtain ds where ds: "inheritance_order def ds" "set (jskeys (roles def)) \<subseteq> set ds"
    by (rule valid_order [OF assms(1)])
  with assms(2) obtain xs ys where sp: "ds = xs @ r # ys" by (meson split_list subsetD)
  from order_acyclic [OF ds(1) cyc sp] sp ds(1) show False by (auto simp: inheritance_order_def)
qed

lemma valid_acyclic_rel:
  assumes "validate def conditions = Some []"
  shows "acyclic (inherits_from def)"
proof (rule acyclicI, intro allI notI)
  fix r assume cyc: "(r, r) \<in> (inherits_from def)\<^sup>+"
  then obtain q where "(r, q) \<in> inherits_from def" by (meson tranclD)
  then have "r \<in> set (jskeys (roles def))"
    by (cases "jsget (roles def) r") (auto simp: inherits_from_def parents_def dest: jsget_SomeD)
  with valid_acyclic [OF assms] cyc show False by blast
qed

subsection \<open>What a role holds\<close>

text \<open>The permissions a grant stands for.\<close>

definition covers :: "PolicyDefinition \<Rightarrow> string \<Rightarrow> string \<Rightarrow> bool" where
  "covers def g p \<longleftrightarrow>
     (if g = ''*'' then p \<in> set (all_permissions def)
      else if is_wildcard g
      then (\<exists>actions a. jsget (resources def) (wildcard_resource g) = Some actions \<and> a \<in> set actions
              \<and> p = permission_name (wildcard_resource g) a)
      else p = g)"

text \<open>The declarative meaning of a policy: own grants and the grants of inherited roles.\<close>

inductive holds :: "PolicyDefinition \<Rightarrow> string \<Rightarrow> string \<Rightarrow> string option \<Rightarrow> bool" for def where
  own: "grant \<in> set (grants_of_spec def role) \<Longrightarrow> covers def (permissionOf grant) p \<Longrightarrow>
     holds def role p (conditionOf grant)"
| inherited: "parent \<in> set (parents def role) \<Longrightarrow> holds def parent p c \<Longrightarrow> holds def role p c"

definition held_by :: "PolicyDefinition \<Rightarrow> string \<Rightarrow> (string \<times> string option) set" where
  "held_by def role = {(p, c). holds def role p c}"

lemma held_by_unfold:
  "held_by def role =
     (\<Union>parent \<in> set (parents def role). held_by def parent) \<union>
     {(p, c). \<exists>grant \<in> set (grants_of_spec def role). covers def (permissionOf grant) p \<and> c = conditionOf grant}"
  by (auto simp: held_by_def intro: holds.intros elim: holds.cases)

text \<open>
  The meaning of a set of grants for one permission: nothing, an unconditional grant, which wins over conditional
  ones, or a set of alternative conditions. A resolved role represents a set of grants by this.
\<close>

definition meaning :: "(string \<times> string option) set \<Rightarrow> string \<Rightarrow> string set option option" where
  "meaning G p =
     (if (p, None) \<in> G then Some None
      else if {c. (p, Some c) \<in> G} = {} then None
      else Some (Some {c. (p, Some c) \<in> G}))"

definition represents :: "ResolvedRole \<Rightarrow> (string \<times> string option) set \<Rightarrow> bool" where
  "represents m G \<longleftrightarrow> distinct (jskeys m) \<and> (\<forall>p. map_option (map_option set) (jsget m p) = meaning G p)"

lemma represents_empty: "represents [] {}"
  by (simp add: represents_def meaning_def)

lemma represents_merge:
  assumes "represents m G"
  shows "represents (merge m p c) (insert (p, c) G)"
proof -
  have d: "distinct (jskeys m)" and e: "map_option (map_option set) (jsget m q) = meaning G q" for q
    using assms by (auto simp: represents_def)
  have same: "meaning (insert (p, c) G) q = meaning G q" if "q \<noteq> p" for q
    using that by (simp add: meaning_def)
  show ?thesis
    unfolding represents_def
  proof (intro conjI allI)
    show "distinct (jskeys (merge m p c))"
      using d by (simp add: merge_def split: option.splits)
    fix q
    show "map_option (map_option set) (jsget (merge m p c) q) = meaning (insert (p, c) G) q"
    proof (cases "q = p")
      case False
      then have "jsget (merge m p c) q = jsget m q" by (simp add: merge_def split: option.splits)
      with e same [OF False] show ?thesis by simp
    next
      case True
      with e [of p] show ?thesis
        by (cases "jsget m p"; cases c)
           (auto simp: merge_def meaning_def add_condition_def split: option.splits if_splits)
    qed
  qed
qed

lemma represents_foldl_merge:
  assumes "represents m G"
  shows "represents (foldl (\<lambda>m x. merge m (f x) (g x)) m xs) (G \<union> (\<lambda>x. (f x, g x)) ` set xs)"
  using assms
proof (induction xs arbitrary: m G)
  case (Cons x xs)
  from Cons.IH [OF represents_merge [OF Cons.prems, of "f x" "g x"]] show ?case by (simp add: insert_commute Un_commute)
qed simp

text \<open>The grants that a resolved role lists.\<close>

definition listed :: "ResolvedRole \<Rightarrow> (string \<times> string option) set" where
  "listed m = {(p, None) | p. (p, None) \<in> set m} \<union> {(p, Some c) | p c. \<exists>cs. (p, Some cs) \<in> set m \<and> c \<in> set cs}"

lemma listed_Cons:
  "listed ((p, e) # m) = (case e of None \<Rightarrow> {(p, None)} | Some cs \<Rightarrow> (\<lambda>c. (p, Some c)) ` set cs) \<union> listed m"
  by (auto simp: listed_def split: option.splits)

lemma represents_foldl_entries:
  assumes "represents own G"
  shows "represents (foldl merge_entry own m) (G \<union> listed m)"
  using assms
proof (induction m arbitrary: own G)
  case Nil
  then show ?case by (simp add: listed_def)
next
  case (Cons x m)
  obtain p e where x: "x = (p, e)" by (cases x)
  have "represents (merge_entry own x) (G \<union> (case e of None \<Rightarrow> {(p, None)} | Some cs \<Rightarrow> (\<lambda>c. (p, Some c)) ` set cs))"
    using represents_merge [OF Cons.prems, of p None] represents_foldl_merge [OF Cons.prems, of "\<lambda>_. p" Some]
    by (auto simp: x merge_entry_def split: option.splits)
  from Cons.IH [OF this] show ?case by (simp add: x listed_Cons Un_assoc)
qed

lemma meaning_listed:
  assumes "represents m H"
  shows "meaning (G \<union> listed m) = meaning (G \<union> H)"
proof
  fix p
  have d: "distinct (jskeys m)" and e: "map_option (map_option set) (jsget m p) = meaning H p"
    using assms by (auto simp: represents_def)
  have "(p, None) \<in> listed m \<longleftrightarrow> jsget m p = Some None"
    and "(p, Some c) \<in> listed m \<longleftrightarrow> (\<exists>cs. jsget m p = Some (Some cs) \<and> c \<in> set cs)" for c
    using jsget_mem [OF d] by (auto simp: listed_def)
  with e show "meaning (G \<union> listed m) p = meaning (G \<union> H) p"
    by (cases "jsget m p") (auto simp: meaning_def split: if_splits option.splits)
qed

lemma represents_cong: "meaning G = meaning H \<Longrightarrow> represents m G \<longleftrightarrow> represents m H"
  by (simp add: represents_def)

lemma represents_inherit:
  assumes "represents own G" and "represents m H"
  shows "represents (foldl merge_entry own m) (G \<union> H)"
  using represents_foldl_entries [OF assms(1), of m] represents_cong [OF meaning_listed [OF assms(2), of G]] by simp

lemma expandGrant_covers:
  "expandGrant g def (all_permissions def) = Inr ps \<Longrightarrow> set ps = {p. covers def g p}"
  by (auto simp: expandGrant_def covers_def Let_def split: if_splits option.splits)

lemma add_grants_represents:
  assumes "add_grants def (all_permissions def) gs own = Inr own'" and "represents own G"
  shows "represents own' (G \<union> {(p, c). \<exists>grant \<in> set gs. covers def (permissionOf grant) p \<and> c = conditionOf grant})"
  using assms
proof (induction gs arbitrary: own G)
  case (Cons g gs)
  from Cons.prems(1) obtain ps where ps: "expandGrant (permissionOf g) def (all_permissions def) = Inr ps"
    and rest: "add_grants def (all_permissions def) gs (foldl (\<lambda>o' p. merge o' p (conditionOf g)) own ps) = Inr own'"
    by (auto split: sum.splits)
  have "represents (foldl (\<lambda>o' p. merge o' p (conditionOf g)) own ps) (G \<union> (\<lambda>p. (p, conditionOf g)) ` set ps)"
    using represents_foldl_merge [OF Cons.prems(2), of "\<lambda>p. p" "\<lambda>_. conditionOf g"] by simp
  from Cons.IH [OF rest this] have "represents own' (G \<union> (\<lambda>p. (p, conditionOf g)) ` set ps \<union>
      {(p, c). \<exists>grant \<in> set gs. covers def (permissionOf grant) p \<and> c = conditionOf grant})" .
  moreover have "G \<union> (\<lambda>p. (p, conditionOf g)) ` set ps \<union>
      {(p, c). \<exists>grant \<in> set gs. covers def (permissionOf grant) p \<and> c = conditionOf grant} =
    G \<union> {(p, c). \<exists>grant \<in> set (g # gs). covers def (permissionOf grant) p \<and> c = conditionOf grant}"
    using expandGrant_covers [OF ps] by auto
  ultimately show ?case by simp
qed simp

subsection \<open>Resolution computes it\<close>

definition resolved_ok :: "PolicyDefinition \<Rightarrow> (string, ResolvedRole) jsmap \<Rightarrow> bool" where
  "resolved_ok def resolved \<longleftrightarrow> (\<forall>r m. jsget resolved r = Some m \<longrightarrow> represents m (held_by def r))"

lemma resolve_correct:
  "resolve n def (all_permissions def) role resolved = Some (Inr (m, resolved')) \<Longrightarrow> resolved_ok def resolved \<Longrightarrow>
     represents m (held_by def role) \<and> resolved_ok def resolved' \<and> jsget resolved' role = Some m
     \<and> set (jskeys resolved) \<subseteq> set (jskeys resolved')"
  "resolve_parents n def (all_permissions def) ps own resolved = Some (Inr (own', resolved')) \<Longrightarrow> resolved_ok def resolved \<Longrightarrow>
     represents own G \<Longrightarrow>
     represents own' (G \<union> (\<Union>p \<in> set ps. held_by def p)) \<and> resolved_ok def resolved'
     \<and> set (jskeys resolved) \<subseteq> set (jskeys resolved')"
proof (induction n def "all_permissions def" role resolved and n def "all_permissions def" ps own resolved
    arbitrary: m resolved' and own' resolved' G rule: resolve_resolve_parents.induct)
  case (2 n def role resolved)
  show ?case
  proof (cases "jsget resolved role")
    case (Some cached)
    with 2 show ?thesis by (auto simp: resolved_ok_def)
  next
    case None
    with 2(2) obtain inh res1 where r1: "resolve_parents n def (all_permissions def) (parents def role) [] resolved = Some (Inr (inh, res1))"
      and g: "add_grants def (all_permissions def) (grants_of_spec def role) inh = Inr m" and res': "resolved' = jsset role m res1"
      by (auto split: option.splits sum.splits)
    from 2(1) [OF None r1 2(3) represents_empty] have inh: "represents inh (\<Union>p \<in> set (parents def role). held_by def p)"
      "resolved_ok def res1" "set (jskeys resolved) \<subseteq> set (jskeys res1)" by auto
    from add_grants_represents [OF g inh(1)] have "represents m (held_by def role)"
      by (simp only: held_by_unfold [of def role])
    moreover have "set (jskeys resolved') = insert role (set (jskeys res1))"
      unfolding res' by (rule set_jskeys_jsset)
    ultimately show ?thesis using inh res' by (auto simp: resolved_ok_def)
  qed
next
  case (4 n def p ps own resolved)
  from 4(3) obtain par res1 where r1: "resolve n def (all_permissions def) p resolved = Some (Inr (par, res1))"
    and r2: "resolve_parents n def (all_permissions def) ps (foldl merge_entry own par) res1 = Some (Inr (own', resolved'))"
    by (auto split: option.splits sum.splits)
  from 4(1) [OF r1 4(4)] have par: "represents par (held_by def p)" "resolved_ok def res1"
    "set (jskeys resolved) \<subseteq> set (jskeys res1)" by auto
  from 4(2) [OF r1 refl refl r2 par(2) represents_inherit [OF 4(5) par(1)]] par(3) show ?case
    by (auto simp: Un_assoc)
qed auto

text \<open>On a policy without issues resolution terminates within its bound and throws nothing.\<close>

definition names_own :: "PolicyDefinition \<Rightarrow> ConditionMap \<Rightarrow> bool" where
  "names_own def conditions \<longleftrightarrow>
     (\<forall>(r, spec) \<in> set (roles def). \<forall>g \<in> set (getOr [] (roleGrants spec)).
        (permissionOf g \<noteq> ''*'' \<and> is_wildcard (permissionOf g) \<longrightarrow> wildcard_resource (permissionOf g) \<notin> set prototype_keys)
        \<and> (\<forall>w. conditionOf g = Some w \<longrightarrow> w \<notin> set prototype_keys))"

lemma grants_of_specD:
  "g \<in> set (grants_of_spec def role) \<Longrightarrow> \<exists>spec. (role, spec) \<in> set (roles def) \<and> g \<in> set (getOr [] (roleGrants spec))"
  by (cases "jsget (roles def) role") (auto simp: grants_of_spec_def dest: map_of_SomeD)

lemma add_grants_total:
  assumes "\<forall>g \<in> set gs. \<exists>ps. expandGrant (permissionOf g) def al = Inr ps"
  shows "\<exists>own'. add_grants def al gs own = Inr own'"
  using assms by (induction gs arbitrary: own) (auto split: sum.splits)

lemma resolve_parents_total:
  assumes "\<forall>p \<in> set ps. \<forall>resolved. \<exists>m res'. resolve n def al p resolved = Some (Inr (m, res'))"
  shows "\<exists>own' res'. resolve_parents n def al ps own resolved = Some (Inr (own', res'))"
  using assms
proof (induction ps arbitrary: own resolved)
  case (Cons p ps)
  then obtain m res' where "resolve n def al p resolved = Some (Inr (m, res'))" by force
  with Cons show ?case by simp
qed simp

lemma resolve_total:
  assumes order: "inheritance_order def ds" and own: "\<forall>r. set (parents def r) \<subseteq> set (jskeys (roles def))"
    and expand: "\<forall>r. \<forall>g \<in> set (grants_of_spec def r). \<exists>ps. expandGrant (permissionOf g) def al = Inr ps"
  shows "ds = xs @ role # ys \<Longrightarrow> length xs < n \<Longrightarrow> \<exists>m res'. resolve n def al role resolved = Some (Inr (m, res'))"
proof (induction n arbitrary: xs role ys resolved)
  case (Suc n)
  have "\<forall>p \<in> set (parents def role). js_in p (roles def)"
    using own by (auto simp: js_in_names role_names_def)
  then have par: "set (parents def role) \<subseteq> set xs"
    using order Suc.prems(1) unfolding inheritance_order_def by blast
  have "\<forall>p \<in> set (parents def role). \<forall>resolved. \<exists>m res'. resolve n def al p resolved = Some (Inr (m, res'))"
  proof (intro ballI allI)
    fix p resolved assume "p \<in> set (parents def role)"
    with par obtain us vs where "xs = us @ p # vs" by (meson split_list subsetD)
    with Suc.prems show "\<exists>m res'. resolve n def al p resolved = Some (Inr (m, res'))"
      by (intro Suc.IH [of us p "vs @ role # ys"]) simp_all
  qed
  from resolve_parents_total [OF this] obtain inh res1 where
    r1: "resolve_parents n def al (parents def role) [] resolved = Some (Inr (inh, res1))" by blast
  from add_grants_total [of "grants_of_spec def role" def al inh] expand obtain m where
    "add_grants def al (grants_of_spec def role) inh = Inr m" by blast
  with r1 show ?case by (cases "jsget resolved role") auto
qed simp

lemma order_length: "inheritance_order def ds \<Longrightarrow> length ds < depth_bound def"
  using card_mono [OF finite_role_names, of "set ds" def] card_role_names [of def]
  by (simp add: inheritance_order_def distinct_card)

lemma resolve_all_total:
  assumes "\<forall>r \<in> set rs. \<forall>resolved. \<exists>m res'. resolve n def al r resolved = Some (Inr (m, res'))"
  shows "\<exists>res'. resolve_all n def al rs resolved = Some (Inr res')"
  using assms
proof (induction rs arbitrary: resolved)
  case (Cons r rs)
  then obtain m res' where "resolve n def al r resolved = Some (Inr (m, res'))" by force
  with Cons show ?case by simp
qed simp

lemma resolve_all_correct:
  assumes "resolve_all n def (all_permissions def) rs resolved = Some (Inr res')" and "resolved_ok def resolved"
  shows "resolved_ok def res' \<and> set (jskeys resolved) \<union> set rs \<subseteq> set (jskeys res')"
  using assms
proof (induction rs arbitrary: resolved)
  case (Cons r rs)
  then obtain m res1 where r1: "resolve n def (all_permissions def) r resolved = Some (Inr (m, res1))"
    and r2: "resolve_all n def (all_permissions def) rs res1 = Some (Inr res')"
    by (auto split: option.splits sum.splits)
  note c = resolve_correct(1) [OF r1 Cons.prems(2)]
  have c1: "resolved_ok def res1" "r \<in> set (jskeys res1)" "set (jskeys resolved) \<subseteq> set (jskeys res1)"
    using c jsget_SomeD [of res1 r m] by (blast, blast, blast)
  from Cons.IH [OF r2 c1(1)] c1 show ?case by auto
qed simp

lemma valid_names:
  assumes "validate def conditions = Some []"
  shows "set (parents def r) \<subseteq> set (jskeys (roles def))"
    and "(r, spec) \<in> set (roles def) \<Longrightarrow> g \<in> set (getOr [] (roleGrants spec)) \<Longrightarrow> grant_issues def conditions r g = []"
proof -
  have issues: "role_issues def conditions entry = []" if "entry \<in> set (roles def)" for entry
    using assms that by (auto simp: validate_def)
  show "set (parents def r) \<subseteq> set (jskeys (roles def))"
  proof (cases "jsget (roles def) r")
    case (Some spec)
    from issues [OF map_of_SomeD [OF Some]] have "\<forall>p \<in> set (getOr [] (roleInherits spec)). p \<in> set (jskeys (roles def))"
      by (auto simp: role_issues_def split: if_splits)
    with Some show ?thesis by (auto simp: parents_def)
  qed (simp add: parents_def)
  show "grant_issues def conditions r g = []" if "(r, spec) \<in> set (roles def)" and "g \<in> set (getOr [] (roleGrants spec))"
    using issues [OF that(1)] that(2) by (simp add: role_issues_def)
qed

lemma valid_expand:
  assumes "validate def conditions = Some []" and "names_own def conditions" and "g \<in> set (grants_of_spec def r)"
  shows "\<exists>ps. expandGrant (permissionOf g) def al = Inr ps"
  using assms(2) grants_of_specD [OF assms(3)] by (force simp: expandGrant_def names_own_def Let_def split: option.splits)

lemma build_correct:
  assumes "validate def conditions = Some []" and "names_own def conditions"
  obtains policy where "build def conditions = Some (Inr policy)" and "policyDefinition policy = def"
    and "policyConditions policy = conditions" and "permissions policy = all_permissions def"
    and "resolved_ok def (resolvedRoles policy)" and "set (jskeys (roles def)) \<subseteq> set (jskeys (resolvedRoles policy))"
proof -
  obtain ds where ds: "inheritance_order def ds" "set (jskeys (roles def)) \<subseteq> set ds"
    by (rule valid_order [OF assms(1)])
  have own: "\<forall>r. set (parents def r) \<subseteq> set (jskeys (roles def))" using valid_names(1) [OF assms(1)] by blast
  have expand: "\<forall>r. \<forall>g \<in> set (grants_of_spec def r). \<exists>ps. expandGrant (permissionOf g) def (all_permissions def) = Inr ps"
    using valid_expand [OF assms] by blast
  have "\<exists>m res'. resolve (depth_bound def) def (all_permissions def) r resolved = Some (Inr (m, res'))"
    if "r \<in> set (jskeys (roles def))" for r resolved
  proof -
    from that ds(2) obtain xs ys where sp: "ds = xs @ r # ys" by (meson split_list subsetD)
    with order_length [OF ds(1)] have "length xs < depth_bound def" by simp
    from resolve_total [OF ds(1) own expand sp this] show ?thesis .
  qed
  with resolve_all_total [of "jskeys (roles def)" "depth_bound def" def "all_permissions def" "[]"]
  obtain res where res: "resolve_all (depth_bound def) def (all_permissions def) (jskeys (roles def)) [] = Some (Inr res)" by blast
  from resolve_all_correct [OF res] have "resolved_ok def res" "set (jskeys (roles def)) \<subseteq> set (jskeys res)"
    by (auto simp: resolved_ok_def)
  with res that show thesis by (simp add: build_def resolveRoles_def)
qed

subsection \<open>Decisions follow the policy\<close>

lemma map_sum_Inr_iff: "map_sum id Inr x = Inr (Inr y) \<longleftrightarrow> x = Inr y"
  by (cases x) auto

lemma holds_role: "holds def r p c \<Longrightarrow> jsget (roles def) r \<noteq> None"
proof (induction rule: holds.induct)
  case (own grant role p)
  then show ?case by (cases "jsget (roles def) role") (simp_all add: grants_of_spec_def)
next
  case (inherited parent role p c)
  then show ?case by (cases "jsget (roles def) role") (simp_all add: parents_def)
qed

lemma holds_condition:
  assumes "holds def r p (Some w)" and "names_own def conditions"
  shows "w \<notin> set prototype_keys"
proof -
  have "c = Some w \<longrightarrow> w \<notin> set prototype_keys" if "holds def r p c" for c
    using that
  proof (induction rule: holds.induct)
    case (own grant role p)
    from grants_of_specD [OF own(1)] assms(2) show ?case by (fastforce simp: names_own_def)
  qed simp
  with assms(1) show ?thesis by blast
qed

lemma resolved_entry_meaning:
  assumes "resolved_ok def (resolvedRoles policy)" and "set (jskeys (roles def)) \<subseteq> set (jskeys (resolvedRoles policy))"
  shows "map_option (map_option set) (resolved_entry policy r p) = meaning (held_by def r) p"
proof (cases "jsget (resolvedRoles policy) r")
  case None
  then have "r \<notin> set (jskeys (roles def))" using assms(2) by (auto simp: map_of_eq_None_iff)
  then have "held_by def r = {}" using holds_role [of def r] by (auto simp: held_by_def map_of_eq_None_iff)
  with None show ?thesis by (simp add: resolved_entry_def meaning_def)
next
  case (Some m)
  with assms(1) show ?thesis by (simp add: resolved_entry_def resolved_ok_def represents_def)
qed

definition condition_true :: "ConditionMap \<Rightarrow> string \<Rightarrow> ConditionContext \<Rightarrow> bool" where
  "condition_true conditions n ctx = (case jsget conditions n of None \<Rightarrow> False | Some c \<Rightarrow> c ctx)"

lemma first_condition_find:
  assumes "\<forall>n \<in> set ns. n \<notin> set prototype_keys"
  shows "first_condition conditions ctx ns = Inr (find (\<lambda>n. condition_true conditions n ctx) ns)"
  using assms
proof (induction ns)
  case (Cons n ns)
  then have "call_condition conditions n ctx = Inr (condition_true conditions n ctx)"
    by (auto simp: call_condition_def condition_true_def prototype_keys_def split: option.splits)
  with Cons show ?case by (cases "condition_true conditions n ctx") auto
qed simp

definition grants_now :: "Policy \<Rightarrow> string \<Rightarrow> ConditionContext \<Rightarrow> string \<Rightarrow> bool" where
  "grants_now policy p ctx r =
     (case resolved_entry policy r p of
        None \<Rightarrow> False
      | Some None \<Rightarrow> True
      | Some (Some cs) \<Rightarrow> \<exists>c \<in> set cs. condition_true (policyConditions policy) c ctx)"

lemma decide_loop_spec:
  assumes "\<forall>r cs. resolved_entry policy r p = Some (Some cs) \<longrightarrow> (\<forall>c \<in> set cs. c \<notin> set prototype_keys)"
  shows "\<exists>x. decide_loop policy p ctx rs unmet = Inr x \<and> ((\<exists>r c. x = Inr (r, c)) \<longleftrightarrow> (\<exists>r \<in> set rs. grants_now policy p ctx r))"
proof (induction rs arbitrary: unmet)
  case (Cons r rs)
  show ?case
  proof (cases "resolved_entry policy r p")
    case None
    with Cons.IH [of unmet] show ?thesis by (simp add: grants_now_def)
  next
    case (Some e)
    show ?thesis
    proof (cases e)
      case None
      with Some show ?thesis by (simp add: grants_now_def)
    next
      case (Some cs)
      with \<open>resolved_entry policy r p = Some e\<close> assms
      have f: "first_condition (policyConditions policy) ctx cs =
          Inr (find (\<lambda>n. condition_true (policyConditions policy) n ctx) cs)"
        by (intro first_condition_find) blast
      show ?thesis
      proof (cases "find (\<lambda>n. condition_true (policyConditions policy) n ctx) cs")
        case None
        then have "\<not> grants_now policy p ctx r"
          using Some \<open>resolved_entry policy r p = Some e\<close> by (simp add: grants_now_def find_None_iff)
        with Cons.IH None Some f \<open>resolved_entry policy r p = Some e\<close> show ?thesis by simp
      next
        case (Some n)
        then have "\<exists>c \<in> set cs. condition_true (policyConditions policy) c ctx" by (auto simp: find_Some_iff)
        with Some \<open>e = Some cs\<close> f \<open>resolved_entry policy r p = Some e\<close> show ?thesis by (simp add: grants_now_def)
      qed
    qed
  qed
qed simp

text \<open>What a principal may do, declaratively.\<close>

definition may :: "PolicyDefinition \<Rightarrow> ConditionMap \<Rightarrow> Principal \<Rightarrow> string \<Rightarrow> CheckOptions \<Rightarrow> bool" where
  "may def conditions who p opts \<longleftrightarrow>
     p \<in> set (all_permissions def) \<and>
     (\<exists>r \<in> set (rolesIn who (optScope opts)).
        holds def r p None \<or>
        (\<exists>c. holds def r p (Some c) \<and> condition_true conditions c
           \<lparr>ctxPrincipal = who, ctxAttributes = getOr [] (optAttributes opts), ctxScope = optScope opts\<rparr>))"

lemma grants_now_holds:
  assumes "map_option (map_option set) (resolved_entry policy r p) = meaning (held_by def r) p"
  shows "grants_now policy p ctx r \<longleftrightarrow>
    holds def r p None \<or> (\<exists>c. holds def r p (Some c) \<and> condition_true (policyConditions policy) c ctx)"
  using assms
  by (cases "resolved_entry policy r p")
     (auto simp: grants_now_def meaning_def held_by_def split: if_splits option.splits)

lemma decide_policy_may:
  assumes "resolved_ok def (resolvedRoles policy)" and "set (jskeys (roles def)) \<subseteq> set (jskeys (resolvedRoles policy))"
    and "policyDefinition policy = def" and "permissions policy = all_permissions def" and "names_own def (policyConditions policy)"
  shows "\<exists>d. decide_policy policy who p opts = Inr d \<and> (allowed d \<longleftrightarrow> may def (policyConditions policy) who p opts)"
proof -
  note entry = resolved_entry_meaning [OF assms(1,2)]
  let ?ctx = "\<lparr>ctxPrincipal = who, ctxAttributes = getOr [] (optAttributes opts), ctxScope = optScope opts\<rparr>"
  let ?known = "filter (isRole policy) (rolesIn who (optScope opts))"
  have "\<forall>r cs. resolved_entry policy r p = Some (Some cs) \<longrightarrow> (\<forall>c \<in> set cs. c \<notin> set prototype_keys)"
  proof (intro allI impI ballI)
    fix r cs c assume "resolved_entry policy r p = Some (Some cs)" and "c \<in> set cs"
    with entry [of r p] have "holds def r p (Some c)" by (auto simp: meaning_def held_by_def split: if_splits)
    from holds_condition [OF this assms(5)] show "c \<notin> set prototype_keys" .
  qed
  from decide_loop_spec [OF this, of ?ctx ?known "[]"] obtain x where
    x: "decide_loop policy p ?ctx ?known [] = Inr x" "(\<exists>r c. x = Inr (r, c)) \<longleftrightarrow> (\<exists>r \<in> set ?known. grants_now policy p ?ctx r)"
    by blast
  have role: "grants_now policy p ?ctx r \<Longrightarrow> isRole policy r" for r
    using grants_now_holds [OF entry [of r p], of ?ctx] holds_role [of def r p] by (auto simp: isRole_def assms(3) js_in_def)
  have "may def (policyConditions policy) who p opts \<longleftrightarrow> p \<in> set (permissions policy) \<and> (\<exists>r \<in> set ?known. grants_now policy p ?ctx r)"
    using role grants_now_holds [OF entry] by (auto simp: may_def assms(4))
  with x show ?thesis
    by (cases x) (auto simp: decide_policy_def Let_def split: prod.splits)
qed

lemma make_policy_correct:
  assumes "names_own def conditions" and "make_policy def conditions = Some (Inr (Inr policy))"
  shows "\<exists>d. decide_policy policy who p opts = Inr d \<and> (allowed d \<longleftrightarrow> may def conditions who p opts)"
proof -
  from assms(2) have v: "validate def conditions = Some []" and b: "build def conditions = Some (Inr policy)"
    by (auto simp: make_policy_def map_sum_Inr_iff split: option.splits if_splits)
  from build_correct [OF v assms(1)] b have "resolved_ok def (resolvedRoles policy)"
    "set (jskeys (roles def)) \<subseteq> set (jskeys (resolvedRoles policy))" "policyDefinition policy = def"
    "permissions policy = all_permissions def" "policyConditions policy = conditions"
    by (metis option.inject sum.inject(2))+
  with decide_policy_may [of def policy who p opts] assms(1) show ?thesis by simp
qed

subsection \<open>The contract of a decision\<close>

text \<open>
  What the guards, the service and the message rules rely on: every check of an accepted policy
  returns, and it allows exactly what the policy permits.
\<close>

locale decision_contract =
  fixes accepted :: "Policy \<Rightarrow> bool"
    and permits :: "Policy \<Rightarrow> Principal \<Rightarrow> string \<Rightarrow> CheckOptions \<Rightarrow> bool"
  assumes decides: "accepted policy \<Longrightarrow>
    \<exists>d. decide_policy policy who p opts = Inr d \<and> (allowed d \<longleftrightarrow> permits policy who p opts)"
begin

lemma can_permits: "accepted policy \<Longrightarrow> can policy who p opts = Inr (permits policy who p opts)"
  using decides [of policy who p opts] by (auto simp: can_def)

lemma allowed_permits:
  "accepted policy \<Longrightarrow> allowedPermissions policy who opts = Inr (filter (\<lambda>p. permits policy who p opts) (permissions policy))"
proof -
  assume a: "accepted policy"
  have "filter_can policy who opts ps = Inr (filter (\<lambda>p. permits policy who p opts) ps)" for ps
    by (induction ps) (auto simp: can_permits [OF a])
  then show ?thesis by (simp add: allowedPermissions_def)
qed

lemma require_permits:
  assumes "accepted policy"
  shows "require_permission policy p opts effect (Some who) = Ran x \<longleftrightarrow> permits policy who p opts \<and> x = effect (Some who)"
    and "\<not> permits policy who p opts \<Longrightarrow> \<exists>why. require_permission policy p opts effect (Some who) =
      Refused (if isAnonymous who then Unauthenticated (Some p) (Some why)
               else PermissionDenied p (principalId who) (optScope opts) (Some why))"
  using decides [OF assms, of who p opts] by (auto simp: require_permission_def check_permission_def split: if_splits)

end

definition accepted_policy :: "Policy \<Rightarrow> bool" where
  "accepted_policy policy \<longleftrightarrow>
     names_own (policyDefinition policy) (policyConditions policy) \<and>
     make_policy (policyDefinition policy) (policyConditions policy) = Some (Inr (Inr policy))"

definition policy_permits :: "Policy \<Rightarrow> Principal \<Rightarrow> string \<Rightarrow> CheckOptions \<Rightarrow> bool" where
  "policy_permits policy = may (policyDefinition policy) (policyConditions policy)"

interpretation policy: decision_contract accepted_policy policy_permits
  by unfold_locales (simp add: accepted_policy_def policy_permits_def make_policy_correct)

lemma map_sum_Inr_ex: "map_sum id f x = Inr y \<longleftrightarrow> (\<exists>z. x = Inr z \<and> y = f z)"
  by (cases x) auto

lemma make_policy_definition:
  assumes "make_policy def conditions = Some (Inr (Inr policy))"
  shows "policyDefinition policy = def" "policyConditions policy = conditions"
  using assms
  by (auto simp: make_policy_def build_def map_sum_Inr_iff map_sum_Inr_ex split: option.splits if_splits)

lemma make_policy_permissions:
  assumes "make_policy def conditions = Some (Inr (Inr policy))"
  shows "permissions policy = all_permissions def"
  using assms
  by (auto simp: make_policy_def build_def map_sum_Inr_iff map_sum_Inr_ex split: option.splits if_splits)

lemma accepted_policyI:
  assumes "names_own def conditions" and "make_policy def conditions = Some (Inr (Inr policy))"
  shows "accepted_policy policy"
  using make_policy_definition [OF assms(2)] assms by (simp add: accepted_policy_def)

end
