(* ===== verification/AuthorizationService.thy ===== *)
theory AuthorizationService
  imports PolicyProofs
begin

section \<open>Authorization at the edges\<close>

text \<open>
  \<open>service.ts\<close>, \<open>cqrs.ts\<close> and \<open>http.ts\<close> of \<open>packages/authorization/src\<close>: the policy as a service,
  the \<open>Authorizer\<close> of the CQRS buses built from per-message rules, and the bearer-token and
  middleware part of HTTP. The HTTP server is \<open>@effect/platform\<close>; a request is its \<open>authorization\<close>
  header, if any.
\<close>

subsection \<open>The service\<close>

definition assertKnown :: "Policy \<Rightarrow> string \<Rightarrow> (string, unit) result" where
  "assertKnown policy permission =
     (if isPermission policy permission then Inr ()
      else Inl (''permission '' @ quoted permission @ '' is not declared by the policy''))"

definition service_decide ::
  "Policy \<Rightarrow> string \<Rightarrow> CheckOptions \<Rightarrow> Principal option \<Rightarrow> (string, Decision) result" where
  "service_decide policy permission opts current =
     bind_result (assertKnown policy permission) (\<lambda>_.
       decide_policy policy (getOr anonymous current) permission opts)"

definition service_can ::
  "Policy \<Rightarrow> string \<Rightarrow> CheckOptions \<Rightarrow> Principal option \<Rightarrow> (string, bool) result" where
  "service_can policy permission opts current = map_sum id allowed (service_decide policy permission opts current)"

definition service_check ::
  "Policy \<Rightarrow> string \<Rightarrow> CheckOptions \<Rightarrow> Principal option \<Rightarrow> unit guarded" where
  "service_check policy permission opts current =
     (case assertKnown policy permission of
        Inl e \<Rightarrow> Died e
      | Inr _ \<Rightarrow> check_permission policy current permission opts)"

definition service_require ::
  "Policy \<Rightarrow> string \<Rightarrow> CheckOptions \<Rightarrow> (Principal option \<Rightarrow> 'a) \<Rightarrow> Principal option \<Rightarrow> 'a guarded" where
  "service_require policy permission opts effect current =
     (case assertKnown policy permission of
        Inl e \<Rightarrow> Died e
      | Inr _ \<Rightarrow> require_permission policy permission opts effect current)"

subsection \<open>Messages on the CQRS buses\<close>

datatype Requirement =
    PublicAccess
  | NeedsPermission string "string option" "attribute jsobject option"

datatype 'p MessageRule =
    PermissionRule string
  | PublicRule
  | PayloadRule "'p \<Rightarrow> Requirement"

datatype Unmapped = DenyUnmapped | AllowUnmapped

record 'p CqrsAuthorizationRules =
  rulesPolicy :: Policy
  messageRules :: "(string, 'p MessageRule) jsmap"
  unmapped :: "Unmapped option"
  resolvePrincipal :: "(string \<Rightarrow> Principal option) option"

datatype MessageKind = CommandKind | QueryKind

record 'p AuthorizationRequest =
  requestTag :: string
  requestKind :: MessageKind
  requestPayload :: 'p
  requestActor :: "string option"

datatype Unauthorized = Unauthorized (unauthorizedTag: string) (unauthorizedReason: string) (unauthorizedActor: "string option")

definition make_rules ::
  "Policy \<Rightarrow> Unmapped option \<Rightarrow> (string \<Rightarrow> Principal option) option \<Rightarrow> 'p CqrsAuthorizationRules" where
  "make_rules policy um rp =
     \<lparr>rulesPolicy = policy, messageRules = [], unmapped = um, resolvePrincipal = rp\<rparr>"

definition add_rule :: "string \<Rightarrow> 'p MessageRule \<Rightarrow> 'p CqrsAuthorizationRules \<Rightarrow> 'p CqrsAuthorizationRules" where
  "add_rule tg rule rs = rs\<lparr>messageRules := jsset tg rule (messageRules rs)\<rparr>"

definition add_rules :: "string list \<Rightarrow> 'p MessageRule \<Rightarrow> 'p CqrsAuthorizationRules \<Rightarrow> 'p CqrsAuthorizationRules" where
  "add_rules tags rule rs = foldl (\<lambda>current tg. add_rule tg rule current) rs tags"

definition add_public :: "string list \<Rightarrow> 'p CqrsAuthorizationRules \<Rightarrow> 'p CqrsAuthorizationRules" where
  "add_public tags rs = add_rules tags PublicRule rs"

definition rule_tags :: "'p CqrsAuthorizationRules \<Rightarrow> string list" where
  "rule_tags rs = jskeys (messageRules rs)"

fun resolveRequirement :: "'p MessageRule \<Rightarrow> 'p \<Rightarrow> Requirement" where
  "resolveRequirement (PayloadRule f) payload = f payload"
| "resolveRequirement PublicRule payload = PublicAccess"
| "resolveRequirement (PermissionRule p) payload = NeedsPermission p None None"

definition principalFor :: "'p CqrsAuthorizationRules \<Rightarrow> 'p AuthorizationRequest \<Rightarrow> Principal option \<Rightarrow> Principal option" where
  "principalFor rs request current =
     (case current of
        Some p \<Rightarrow> Some p
      | None \<Rightarrow>
          (case (requestActor request, resolvePrincipal rs) of
             (Some a, Some lookup) \<Rightarrow> lookup a
           | _ \<Rightarrow> None))"

definition deny_request :: "'p AuthorizationRequest \<Rightarrow> string \<Rightarrow> Unauthorized" where
  "deny_request request reason = Unauthorized (requestTag request) reason (requestActor request)"

text \<open>\<open>authorize\<close>: \<open>Inl\<close> outside is a defect of the check, \<open>Inl\<close> inside a refusal.\<close>

definition authorize ::
  "'p CqrsAuthorizationRules \<Rightarrow> Principal option \<Rightarrow> 'p AuthorizationRequest \<Rightarrow> (string, (Unauthorized, unit) result) result" where
  "authorize rs current request =
     (case jsget (messageRules rs) (requestTag request) of
        None \<Rightarrow>
          if getOr DenyUnmapped (unmapped rs) = AllowUnmapped then Inr (Inr ())
          else Inr (Inl (deny_request request (''no authorization rule for '' @ quoted (requestTag request))))
      | Some rule \<Rightarrow>
          (case resolveRequirement rule (requestPayload request) of
             PublicAccess \<Rightarrow> Inr (Inr ())
           | NeedsPermission permission scope attributes \<Rightarrow>
               (case principalFor rs request current of
                  None \<Rightarrow> Inr (Inl (deny_request request ''unauthenticated: no principal attached''))
                | Some who \<Rightarrow>
                    (case decide_policy (rulesPolicy rs) who permission
                            \<lparr>optScope = scope, optAttributes = attributes\<rparr> of
                       Inl e \<Rightarrow> Inl e
                     | Inr decision \<Rightarrow>
                         if allowed decision then Inr (Inr ())
                         else Inr (Inl (deny_request request
                                (if isAnonymous who then ''unauthenticated: '' @ decisionReason decision
                                 else decisionReason decision)))))))"

subsection \<open>Requests over HTTP\<close>

text \<open>\<open>/^Bearer\s+(\S+)$/i\<close> on the trimmed header.\<close>

definition bearerToken :: "string option \<Rightarrow> string option" where
  "bearerToken header =
     (case header of
        None \<Rightarrow> None
      | Some h \<Rightarrow>
          (let t = trim h; rest = drop 6 t; tok = dropWhile js_space rest in
           if map lower_char (take 6 t) = ''bearer'' \<and> rest \<noteq> [] \<and> js_space (hd rest) \<and> tok \<noteq> []
              \<and> list_all (\<lambda>c. \<not> js_space c) tok
           then Some tok else None))"

definition fromBearer :: "(string \<Rightarrow> Principal option) \<Rightarrow> string option \<Rightarrow> Principal option" where
  "fromBearer lookup header = (case bearerToken header of None \<Rightarrow> None | Some t \<Rightarrow> lookup t)"

definition principal_middleware ::
  "('r \<Rightarrow> Principal option) \<Rightarrow> ('r \<Rightarrow> Principal option \<Rightarrow> 'a) \<Rightarrow> 'r \<Rightarrow> Principal option \<Rightarrow> 'a" where
  "principal_middleware resolver app request current =
     (case resolver request of
        Some p \<Rightarrow> within_principal p (app request) current
      | None \<Rightarrow> app request current)"

definition requireAuthenticated :: "(Principal option \<Rightarrow> 'a) \<Rightarrow> Principal option \<Rightarrow> 'a guarded" where
  "requireAuthenticated app current =
     (case required current of Inl e \<Rightarrow> Refused e | Inr _ \<Rightarrow> Ran (app current))"

subsection \<open>The edges keep the contract\<close>

text \<open>When a message gets through the authorizer of a bus.\<close>

definition message_admitted ::
  "'p CqrsAuthorizationRules \<Rightarrow> Principal option \<Rightarrow> 'p AuthorizationRequest \<Rightarrow> bool" where
  "message_admitted rs current request \<longleftrightarrow>
     (case jsget (messageRules rs) (requestTag request) of
        None \<Rightarrow> unmapped rs = Some AllowUnmapped
      | Some rule \<Rightarrow>
          (case resolveRequirement rule (requestPayload request) of
             PublicAccess \<Rightarrow> True
           | NeedsPermission p scope attributes \<Rightarrow>
               (\<exists>who. principalFor rs request current = Some who \<and>
                  policy_permits (rulesPolicy rs) who p \<lparr>optScope = scope, optAttributes = attributes\<rparr>)))"

context decision_contract
begin

lemma service_require_permits:
  assumes "accepted policy" and "isPermission policy p"
  shows "service_require policy p opts effect current = require_permission policy p opts effect current"
  using assms by (simp add: service_require_def assertKnown_def)

lemma service_can_permits:
  assumes "accepted policy" and "isPermission policy p"
  shows "service_can policy p opts current = Inr (permits policy (getOr anonymous current) p opts)"
  using assms can_permits [of policy "getOr anonymous current" p opts]
  by (simp add: service_can_def service_decide_def assertKnown_def can_def)

end

lemma authorize_admits:
  assumes "accepted_policy (rulesPolicy rs)"
  shows "\<exists>x. authorize rs current request = Inr x \<and>
    (case x of Inr _ \<Rightarrow> message_admitted rs current request
     | Inl u \<Rightarrow> \<not> message_admitted rs current request \<and> unauthorizedTag u = requestTag request
         \<and> unauthorizedActor u = requestActor request)"
proof (cases "jsget (messageRules rs) (requestTag request)")
  case None
  then show ?thesis
    by (cases "unmapped rs") (auto simp: authorize_def message_admitted_def deny_request_def split: Unmapped.splits)
next
  case (Some rule)
  show ?thesis
  proof (cases "resolveRequirement rule (requestPayload request)")
    case PublicAccess
    with Some show ?thesis by (simp add: authorize_def message_admitted_def)
  next
    case (NeedsPermission p scope attributes)
    let ?opts = "\<lparr>optScope = scope, optAttributes = attributes\<rparr>"
    show ?thesis
    proof (cases "principalFor rs request current")
      case None
      with Some NeedsPermission show ?thesis by (simp add: authorize_def message_admitted_def deny_request_def)
    next
      case who: (Some who)
      obtain d where "decide_policy (rulesPolicy rs) who p ?opts = Inr d"
        "allowed d \<longleftrightarrow> policy_permits (rulesPolicy rs) who p ?opts"
        using policy.decides [OF assms] by blast
      with Some NeedsPermission who show ?thesis by (auto simp: authorize_def message_admitted_def deny_request_def)
    qed
  qed
qed

subsection \<open>Bearer tokens\<close>

text \<open>What the pattern matches: a scheme, a gap of white space and a token without any.\<close>

definition bearer_form :: "string \<Rightarrow> string \<Rightarrow> string \<Rightarrow> string \<Rightarrow> bool" where
  "bearer_form h scheme gap tok \<longleftrightarrow>
     trim h = scheme @ gap @ tok \<and> map lower_char scheme = ''bearer'' \<and> gap \<noteq> [] \<and> list_all js_space gap
     \<and> tok \<noteq> [] \<and> list_all (\<lambda>c. \<not> js_space c) tok"

lemma bearerToken_sound:
  assumes "bearerToken (Some h) = Some tok"
  shows "\<exists>scheme gap. bearer_form h scheme gap tok"
proof -
  let ?t = "trim h"
  have t: "tok = dropWhile js_space (drop 6 ?t)" "map lower_char (take 6 ?t) = ''bearer''" "drop 6 ?t \<noteq> []"
    "js_space (hd (drop 6 ?t))" "tok \<noteq> []" "list_all (\<lambda>c. \<not> js_space c) tok"
    using assms by (auto simp: bearerToken_def Let_def split: if_splits)
  let ?gap = "takeWhile js_space (drop 6 ?t)"
  have "?t = take 6 ?t @ ?gap @ tok" by (simp add: t(1))
  moreover have "?gap \<noteq> []" using t(3,4) by (cases "drop 6 ?t") auto
  moreover have "list_all js_space ?gap" by (auto simp: list_all_iff dest: set_takeWhileD)
  ultimately have "bearer_form h (take 6 ?t) ?gap tok" using t(2,5,6) by (simp only: bearer_form_def) simp
  then show ?thesis by (intro exI)
qed

lemma dropWhile_gap:
  "list_all P gap \<Longrightarrow> list_all (\<lambda>c. \<not> P c) tok \<Longrightarrow> dropWhile P (gap @ tok) = tok"
  by (induction gap) (cases tok, auto)

lemma bearerToken_complete:
  assumes "bearer_form h scheme gap tok"
  shows "bearerToken (Some h) = Some tok"
proof -
  note f = assms [unfolded bearer_form_def]
  from f have "length scheme = 6" using length_map [of lower_char scheme] by simp
  with f have "drop 6 (trim h) = gap @ tok" "take 6 (trim h) = scheme" by simp_all
  moreover have "js_space (hd (gap @ tok))" using f by (cases gap) auto
  ultimately show ?thesis
    using f dropWhile_gap [of js_space gap tok]
    by (simp add: bearerToken_def Let_def del: dropWhile_eq_Nil_conv drop_eq_Nil drop_eq_Nil2)
qed

end
