(* ===== verification/Bus.thy ===== *)
theory Bus
  imports AuthorizationService Json Domain
begin

section \<open>Command and query buses\<close>

text \<open>
  \<open>packages/cqrs/src\<close>: the handler registry (\<open>handler.ts\<close>), the dispatch pipeline and the idempotency protocol with
  its in-memory store (\<open>bus.ts\<close>). The schemas of a message are its decoding and encoding functions; SHA-256 is a
  parameter. The world \<open>'w\<close> is everything handlers, stores and other fibers change; running a handler changes it in
  any way. Traces and metrics are left out.
\<close>

subsection \<open>Messages and outcomes\<close>

record ('p, 's) MessageDefinition =
  msgKind :: MessageKind
  msgTag :: string
  decodePayload :: "json \<Rightarrow> (string list, 'p) result"
  encodePayload :: "'p \<Rightarrow> json option"
  decodeSuccess :: "json \<Rightarrow> (json, 's) result"
  encodeSuccess :: "'s \<Rightarrow> json option"

record Dispatch =
  messageId :: string
  dispatchCorrelation :: string
  dispatchCausation :: "string option"
  dispatchActor :: "string option"
  dispatchKey :: "string option"

record CorrelationContext =
  correlationId :: "string option"
  causationId :: "string option"
  ctxActor :: "string option"

record DispatchOptions =
  idempotencyKey :: "string option"
  optActor :: "string option"
  timeoutMillis :: "int option"

datatype 'f DispatchError =
    PersistenceFail PersistenceError
  | ValidationFail string "string list"
  | HandlerNotFound string MessageKind
  | UnauthorizedFail Unauthorized
  | DispatchTimeout string int
  | IdempotencyMismatch string string
  | IdempotencyInFlight string string
  | HandlerFailure 'f

fun dispatch_classification :: "'f DispatchError \<Rightarrow> FailureClass option" where
  "dispatch_classification (PersistenceFail _) = Some Permanent"
| "dispatch_classification (ValidationFail _ _) = Some Permanent"
| "dispatch_classification (HandlerNotFound _ _) = Some Permanent"
| "dispatch_classification (UnauthorizedFail _) = Some Permanent"
| "dispatch_classification (DispatchTimeout _ _) = Some Transient"
| "dispatch_classification (IdempotencyMismatch _ _) = Some Conflict"
| "dispatch_classification (IdempotencyInFlight _ _) = Some Transient"
| "dispatch_classification (HandlerFailure _) = None"

text \<open>How an effect ends: with a value, or with a cause.\<close>

datatype 'e cause = Fails 'e | Dies string | Interrupts | Sequential "'e cause" "'e cause"

datatype ('e, 'a) exit = Success 'a | Failure "'e cause"

text \<open>
  How the handler of a message ends under its deadline; only a deadline makes it overrun. A dispatch that is
  interrupted from outside returns to nobody and is not modelled.
\<close>

datatype ('f, 's) handled = Returned 's | Rejected 'f | Overran | Crashed string

type_synonym ('p, 's, 'f, 'w) handler =
  "'p \<Rightarrow> Dispatch \<Rightarrow> CorrelationContext \<Rightarrow> int option \<Rightarrow> 'w \<Rightarrow> ('f, 's) handled \<times> 'w"

record ('p, 's, 'f, 'w) Registration =
  regDefinition :: "('p, 's) MessageDefinition"
  regHandler :: "('p, 's, 'f, 'w) handler"

fun build_registry ::
  "('p, 's, 'f, 'w) Registration list \<Rightarrow> (string, ('p, 's, 'f, 'w) Registration) jsmap
    \<Rightarrow> (string, (string, ('p, 's, 'f, 'w) Registration) jsmap) result" where
  "build_registry [] m = Inr m"
| "build_registry (r # rs) m =
     (if msgTag (regDefinition r) \<in> set (jskeys m)
      then Inl (''duplicate handler registration for message tag '' @ quoted (msgTag (regDefinition r)))
      else build_registry rs (jsset (msgTag (regDefinition r)) r m))"

subsection \<open>Idempotency\<close>

record IdempotencyContext =
  idemKey :: string
  idemTag :: string
  idemActor :: "string option"
  payloadHash :: string

datatype BeginOutcome = Completed json | Claimed | InFlight | Mismatch

record 'w IdempotencyStoreService =
  begin_op :: "IdempotencyContext \<Rightarrow> 'w \<Rightarrow> (PersistenceError, BeginOutcome) result \<times> 'w"
  complete_op :: "IdempotencyContext \<Rightarrow> json \<Rightarrow> 'w \<Rightarrow> (PersistenceError, unit) result \<times> 'w"
  release_op :: "IdempotencyContext \<Rightarrow> 'w \<Rightarrow> (PersistenceError, unit) result \<times> 'w"

datatype IdempotencyRecord = ClaimedRecord (recordHash: string) | CompletedRecord (recordHash: string) (recordResult: json)

type_synonym IdempotencyRecords = "(string, IdempotencyRecord) jsmap"

definition compositeKey :: "IdempotencyContext \<Rightarrow> string" where
  "compositeKey ctx = idemTag ctx @ [CHR 0x00] @ getOr [] (idemActor ctx) @ [CHR 0x00] @ idemKey ctx"

definition begin_mem :: "IdempotencyContext \<Rightarrow> IdempotencyRecords \<Rightarrow> BeginOutcome \<times> IdempotencyRecords" where
  "begin_mem ctx rs =
     (case jsget rs (compositeKey ctx) of
        None \<Rightarrow> (Claimed, jsset (compositeKey ctx) (ClaimedRecord (payloadHash ctx)) rs)
      | Some existing \<Rightarrow>
          if recordHash existing \<noteq> payloadHash ctx then (Mismatch, rs)
          else (case existing of ClaimedRecord _ \<Rightarrow> InFlight | CompletedRecord _ r \<Rightarrow> Completed r, rs))"

definition complete_mem :: "IdempotencyContext \<Rightarrow> json \<Rightarrow> IdempotencyRecords \<Rightarrow> IdempotencyRecords" where
  "complete_mem ctx r rs = jsset (compositeKey ctx) (CompletedRecord (payloadHash ctx) r) rs"

definition release_mem :: "IdempotencyContext \<Rightarrow> IdempotencyRecords \<Rightarrow> IdempotencyRecords" where
  "release_mem ctx rs =
     (case jsget rs (compositeKey ctx) of
        Some (ClaimedRecord _) \<Rightarrow> jsdelete (compositeKey ctx) rs
      | _ \<Rightarrow> rs)"

definition memIdempotencyStore :: "(IdempotencyRecords \<times> 'v) IdempotencyStoreService" where
  "memIdempotencyStore =
     \<lparr>begin_op = (\<lambda>ctx (rs, v). let (out, rs') = begin_mem ctx rs in (Inr out, (rs', v))),
      complete_op = (\<lambda>ctx r (rs, v). (Inr (), (complete_mem ctx r rs, v))),
      release_op = (\<lambda>ctx (rs, v). (Inr (), (release_mem ctx rs, v)))\<rparr>"

text \<open>The canonical text of the payload: \<open>bus.ts\<close> repeats \<open>canonical\<close> and \<open>stableJson\<close> of the history import.\<close>

definition payload_text :: "json \<Rightarrow> string" where
  "payload_text v = stableJson v"

definition idempotency_context ::
  "(string \<Rightarrow> string) \<Rightarrow> ('p, 's) MessageDefinition \<Rightarrow> string \<Rightarrow> string option \<Rightarrow> json \<Rightarrow> IdempotencyContext" where
  "idempotency_context sha256Hex def key who encodedPayload =
     \<lparr>idemKey = key, idemTag = msgTag def, idemActor = who, payloadHash = sha256Hex (payload_text encodedPayload)\<rparr>"

text \<open>Releasing the claim after a run that ended with a cause.\<close>

definition release_after ::
  "'w IdempotencyStoreService \<Rightarrow> IdempotencyContext \<Rightarrow> 'f DispatchError cause \<Rightarrow> 'w \<Rightarrow> ('f DispatchError, 's) exit \<times> 'w" where
  "release_after store ctx c w =
     (case release_op store ctx w of
        (Inl e, w') \<Rightarrow> (Failure (Sequential c (Fails (PersistenceFail e))), w')
      | (Inr _, w') \<Rightarrow> (Failure c, w'))"

definition idempotent ::
  "(string \<Rightarrow> string) \<Rightarrow> 'w IdempotencyStoreService \<Rightarrow> ('p, 's) MessageDefinition \<Rightarrow> string \<Rightarrow> string option \<Rightarrow> 'p
    \<Rightarrow> ('w \<Rightarrow> ('f DispatchError, 's) exit \<times> 'w) \<Rightarrow> 'w \<Rightarrow> ('f DispatchError, 's) exit \<times> 'w" where
  "idempotent sha256Hex store def key who p run w =
     (case encodePayload def p of
        None \<Rightarrow> (Failure (Dies ''ParseError''), w)
      | Some encodedPayload \<Rightarrow>
          (let ctx = idempotency_context sha256Hex def key who encodedPayload in
           case begin_op store ctx w of
             (Inl e, w1) \<Rightarrow> (Failure (Fails (PersistenceFail e)), w1)
           | (Inr (Completed r), w1) \<Rightarrow>
               (case decodeSuccess def r of
                  Inl why \<Rightarrow> Failure (Fails (PersistenceFail (PersistenceError ''idempotency.decode'' why)))
                | Inr s \<Rightarrow> Success s, w1)
           | (Inr InFlight, w1) \<Rightarrow> (Failure (Fails (IdempotencyInFlight (msgTag def) key)), w1)
           | (Inr Mismatch, w1) \<Rightarrow> (Failure (Fails (IdempotencyMismatch (msgTag def) key)), w1)
           | (Inr Claimed, w1) \<Rightarrow>
               (case run w1 of
                  (Failure c, w2) \<Rightarrow> release_after store ctx c w2
                | (Success s, w2) \<Rightarrow>
                    (case encodeSuccess def s of
                       None \<Rightarrow> release_after store ctx (Dies ''ParseError'') w2
                     | Some encoded \<Rightarrow>
                         (case complete_op store ctx encoded w2 of
                            (Inl e, w3) \<Rightarrow> (Failure (Fails (PersistenceFail e)), w3)
                          | (Inr _, w3) \<Rightarrow> (Success s, w3))))))"

subsection \<open>Dispatch\<close>

text \<open>The exit of the handler under the deadline of the dispatch.\<close>

definition limited :: "string \<Rightarrow> int option \<Rightarrow> ('f, 's) handled \<Rightarrow> ('f DispatchError, 's) exit" where
  "limited tg deadline h =
     (case h of
        Returned s \<Rightarrow> Success s
      | Rejected f \<Rightarrow> Failure (Fails (HandlerFailure f))
      | Overran \<Rightarrow> Failure (case deadline of Some ms \<Rightarrow> Fails (DispatchTimeout tg ms) | None \<Rightarrow> Interrupts)
      | Crashed e \<Rightarrow> Failure (Dies e))"

text \<open>
  \<open>makeDispatch\<close>: the bus is its kind, the registry, the authorizer (\<open>Inl\<close> outside is a defect of it) and, for
  commands, the idempotency store. \<open>fresh_id\<close> and \<open>fresh_correlation\<close> are the random ids of this dispatch.
\<close>

record ('p, 's, 'f, 'w) bus =
  busKind :: MessageKind
  busRegistry :: "(string, ('p, 's, 'f, 'w) Registration) jsmap"
  busAuthorize :: "'p AuthorizationRequest \<Rightarrow> (string, (Unauthorized, unit) result) result"
  busStore :: "'w IdempotencyStoreService option"

definition envelope_of :: "string \<Rightarrow> string \<Rightarrow> CorrelationContext \<Rightarrow> DispatchOptions \<Rightarrow> Dispatch" where
  "envelope_of fresh_id fresh_correlation parent opts =
     \<lparr>messageId = fresh_id, dispatchCorrelation = getOr fresh_correlation (correlationId parent),
      dispatchCausation = causationId parent,
      dispatchActor = (case optActor opts of None \<Rightarrow> ctxActor parent | Some a \<Rightarrow> Some a),
      dispatchKey = idempotencyKey opts\<rparr>"

definition within_dispatch :: "Dispatch \<Rightarrow> CorrelationContext \<Rightarrow> CorrelationContext" where
  "within_dispatch env parent =
     \<lparr>correlationId = Some (dispatchCorrelation env), causationId = Some (messageId env),
      ctxActor = (case dispatchActor env of None \<Rightarrow> ctxActor parent | Some a \<Rightarrow> Some a)\<rparr>"

definition run_handler ::
  "('p, 's, 'f, 'w) Registration \<Rightarrow> ('p, 's) MessageDefinition \<Rightarrow> DispatchOptions \<Rightarrow> CorrelationContext \<Rightarrow> Dispatch \<Rightarrow> 'p
    \<Rightarrow> 'w \<Rightarrow> ('f DispatchError, 's) exit \<times> 'w" where
  "run_handler reg def opts parent env p w =
     (let (h, w') = regHandler reg p env (within_dispatch env parent) (timeoutMillis opts) w in
      (limited (msgTag def) (timeoutMillis opts) h, w'))"

definition dispatch ::
  "(string \<Rightarrow> string) \<Rightarrow> ('p, 's, 'f, 'w) bus \<Rightarrow> ('p, 's) MessageDefinition \<Rightarrow> json \<Rightarrow> DispatchOptions
    \<Rightarrow> CorrelationContext \<Rightarrow> string \<Rightarrow> string \<Rightarrow> 'w \<Rightarrow> ('f DispatchError, 's) exit \<times> 'w" where
  "dispatch sha256Hex b def input opts parent fresh_id fresh_correlation w =
     (case jsget (busRegistry b) (msgTag def) of
        None \<Rightarrow> (Failure (Fails (HandlerNotFound (msgTag def) (msgKind def))), w)
      | Some reg \<Rightarrow>
          if msgKind (regDefinition reg) \<noteq> msgKind def
          then (Failure (Fails (HandlerNotFound (msgTag def) (msgKind def))), w)
          else
            (case decodePayload def input of
               Inl issues \<Rightarrow> (Failure (Fails (ValidationFail (msgTag def) issues)), w)
             | Inr p \<Rightarrow>
                 (let env = envelope_of fresh_id fresh_correlation parent opts;
                      who = dispatchActor env in
                  case busAuthorize b \<lparr>requestTag = msgTag def, requestKind = msgKind def, requestPayload = p, requestActor = who\<rparr> of
                    Inl e \<Rightarrow> (Failure (Dies e), w)
                  | Inr (Inl u) \<Rightarrow> (Failure (Fails (UnauthorizedFail u)), w)
                  | Inr (Inr _) \<Rightarrow>
                      (let run = run_handler reg def opts parent env p in
                       case (idempotencyKey opts, busStore b) of
                         (Some key, Some store) \<Rightarrow>
                           if busKind b = CommandKind then idempotent sha256Hex store def key who p run w else run w
                       | _ \<Rightarrow> run w))))"

definition makeCommandBus ::
  "(string, ('p, 's, 'f, 'w) Registration) jsmap \<Rightarrow> ('p AuthorizationRequest \<Rightarrow> (string, (Unauthorized, unit) result) result)
    \<Rightarrow> 'w IdempotencyStoreService \<Rightarrow> ('p, 's, 'f, 'w) bus" where
  "makeCommandBus reg authorizer store =
     \<lparr>busKind = CommandKind, busRegistry = reg, busAuthorize = authorizer, busStore = Some store\<rparr>"

definition makeQueryBus ::
  "(string, ('p, 's, 'f, 'w) Registration) jsmap \<Rightarrow> ('p AuthorizationRequest \<Rightarrow> (string, (Unauthorized, unit) result) result)
    \<Rightarrow> ('p, 's, 'f, 'w) bus" where
  "makeQueryBus reg authorizer =
     \<lparr>busKind = QueryKind, busRegistry = reg, busAuthorize = authorizer, busStore = None\<rparr>"

definition allowAll :: "'p AuthorizationRequest \<Rightarrow> (string, (Unauthorized, unit) result) result" where
  "allowAll request = Inr (Inr ())"

subsection \<open>Keyed dispatches interleaved\<close>

text \<open>
  \<open>idempotent\<close> cut at its awaits: what it does up to the answer of \<open>begin\<close>, what it makes of the exit of the handler, and the
  last call on the store. \<open>idempotent_cut\<close> puts the parts together again. Between them any number of other dispatches run.
\<close>

record ('p, 's) KeyedDispatch =
  kdDefinition :: "('p, 's) MessageDefinition"
  kdKey :: string
  kdActor :: "string option"
  kdPayload :: 'p

definition idem_begin ::
  "(string \<Rightarrow> string) \<Rightarrow> ('p, 's) KeyedDispatch \<Rightarrow> IdempotencyRecords
    \<Rightarrow> (('f DispatchError, 's) exit, IdempotencyContext) result \<times> IdempotencyRecords" where
  "idem_begin sha256Hex d rs =
     (case encodePayload (kdDefinition d) (kdPayload d) of
        None \<Rightarrow> (Inl (Failure (Dies ''ParseError'')), rs)
      | Some encodedPayload \<Rightarrow>
          (let ctx = idempotency_context sha256Hex (kdDefinition d) (kdKey d) (kdActor d) encodedPayload;
               tg = msgTag (kdDefinition d) in
           case begin_mem ctx rs of
             (Completed r, rs') \<Rightarrow>
               (Inl (case decodeSuccess (kdDefinition d) r of
                  Inl why \<Rightarrow> Failure (Fails (PersistenceFail (PersistenceError ''idempotency.decode'' why)))
                | Inr s \<Rightarrow> Success s), rs')
           | (InFlight, rs') \<Rightarrow> (Inl (Failure (Fails (IdempotencyInFlight tg (kdKey d)))), rs')
           | (Mismatch, rs') \<Rightarrow> (Inl (Failure (Fails (IdempotencyMismatch tg (kdKey d)))), rs')
           | (Claimed, rs') \<Rightarrow> (Inr ctx, rs')))"

definition idem_outcome ::
  "('p, 's) KeyedDispatch \<Rightarrow> ('f DispatchError, 's) exit \<Rightarrow> ('f DispatchError cause, 's \<times> json) result" where
  "idem_outcome d x =
     (case x of
        Failure c \<Rightarrow> Inl c
      | Success s \<Rightarrow>
          (case encodeSuccess (kdDefinition d) s of None \<Rightarrow> Inl (Dies ''ParseError'') | Some encoded \<Rightarrow> Inr (s, encoded)))"

definition idem_settle ::
  "IdempotencyContext \<Rightarrow> ('f DispatchError cause, 's \<times> json) result \<Rightarrow> IdempotencyRecords
    \<Rightarrow> ('f DispatchError, 's) exit \<times> IdempotencyRecords" where
  "idem_settle ctx outcome rs =
     (case outcome of
        Inl c \<Rightarrow> (Failure c, release_mem ctx rs)
      | Inr (s, encoded) \<Rightarrow> (Success s, complete_mem ctx encoded rs))"

lemma idempotent_cut:
  "idempotent sha256Hex memIdempotencyStore (kdDefinition d) (kdKey d) (kdActor d) (kdPayload d) run (rs, v) =
     (case idem_begin sha256Hex d rs of
        (Inl e, rs1) \<Rightarrow> (e, (rs1, v))
      | (Inr ctx, rs1) \<Rightarrow>
          (case run (rs1, v) of
             (x, (rs2, v2)) \<Rightarrow> (case idem_settle ctx (idem_outcome d x) rs2 of (e, rs3) \<Rightarrow> (e, (rs3, v2)))))"
proof (cases "encodePayload (kdDefinition d) (kdPayload d)")
  case None
  then show ?thesis by (simp add: idempotent_def idem_begin_def)
next
  case (Some ep)
  let ?ctx = "idempotency_context sha256Hex (kdDefinition d) (kdKey d) (kdActor d) ep"
  obtain out rs1 where out: "begin_mem ?ctx rs = (out, rs1)" by fastforce
  obtain x rs2 v2 where run: "run (rs1, v) = (x, (rs2, v2))" by (metis prod.collapse)
  show ?thesis
  proof (cases out)
    case Claimed
    then show ?thesis
      using Some out run
      by (cases x; cases "encodeSuccess (kdDefinition d) (case x of Success s \<Rightarrow> s)")
        (simp_all add: idempotent_def idem_begin_def idem_outcome_def idem_settle_def memIdempotencyStore_def release_after_def)
  qed (use Some out in \<open>simp_all add: idempotent_def idem_begin_def memIdempotencyStore_def\<close>)
qed

datatype ('f, 's) idem_phase =
    Starting
  | Executing IdempotencyContext
  | Settling IdempotencyContext "('f DispatchError cause, 's \<times> json) result"
  | Settled "('f DispatchError, 's) exit"

record ('p, 's, 'f) idem_state =
  idemRecords :: IdempotencyRecords
  dispatches :: "(('p, 's) KeyedDispatch \<times> ('f, 's) idem_phase) list"

definition no_dispatches :: "('p, 's, 'f) idem_state" where
  "no_dispatches = \<lparr>idemRecords = [], dispatches = []\<rparr>"

text \<open>A handler ends in any way, or never.\<close>

inductive idem_step :: "(string \<Rightarrow> string) \<Rightarrow> ('p, 's, 'f) idem_state \<Rightarrow> ('p, 's, 'f) idem_state \<Rightarrow> bool" for sha256Hex where
  arrives: "idem_step sha256Hex st (st\<lparr>dispatches := dispatches st @ [(d, Starting)]\<rparr>)"
| begins: "i < length (dispatches st) \<Longrightarrow> dispatches st ! i = (d, Starting) \<Longrightarrow>
    idem_begin sha256Hex d (idemRecords st) = (r, rs) \<Longrightarrow>
    idem_step sha256Hex st \<lparr>idemRecords = rs,
      dispatches = (dispatches st)[i := (d, case r of Inl e \<Rightarrow> Settled e | Inr ctx \<Rightarrow> Executing ctx)]\<rparr>"
| handled: "i < length (dispatches st) \<Longrightarrow> dispatches st ! i = (d, Executing ctx) \<Longrightarrow>
    idem_step sha256Hex st (st\<lparr>dispatches := (dispatches st)[i := (d, Settling ctx (idem_outcome d x))]\<rparr>)"
| settles: "i < length (dispatches st) \<Longrightarrow> dispatches st ! i = (d, Settling ctx out) \<Longrightarrow>
    idem_settle ctx out (idemRecords st) = (e, rs) \<Longrightarrow>
    idem_step sha256Hex st \<lparr>idemRecords = rs, dispatches = (dispatches st)[i := (d, Settled e)]\<rparr>"

inductive_cases idem_stepE: "idem_step sha256Hex s s'"

inductive idem_steps :: "(string \<Rightarrow> string) \<Rightarrow> ('p, 's, 'f) idem_state \<Rightarrow> ('p, 's, 'f) idem_state \<Rightarrow> bool" for sha256Hex where
  idem_stay: "idem_steps sha256Hex s s"
| idem_move: "idem_steps sha256Hex s s' \<Longrightarrow> idem_step sha256Hex s' s'' \<Longrightarrow> idem_steps sha256Hex s s''"

fun claim_of :: "('f, 's) idem_phase \<Rightarrow> IdempotencyContext option" where
  "claim_of (Executing ctx) = Some ctx"
| "claim_of (Settling ctx out) = Some ctx"
| "claim_of phase = None"

text \<open>Dispatch \<open>i\<close> claimed \<open>ctx\<close> and has not settled yet.\<close>

definition holds_claim :: "('p, 's, 'f) idem_state \<Rightarrow> nat \<Rightarrow> IdempotencyContext \<Rightarrow> bool" where
  "holds_claim s i ctx \<longleftrightarrow> i < length (dispatches s) \<and> claim_of (snd (dispatches s ! i)) = Some ctx"

definition idem_inv :: "('p, 's, 'f) idem_state \<Rightarrow> bool" where
  "idem_inv s \<longleftrightarrow>
     (\<forall>i j a b. holds_claim s i a \<and> holds_claim s j b \<and> compositeKey a = compositeKey b \<longrightarrow> i = j) \<and>
     (\<forall>i a. holds_claim s i a \<longrightarrow> jsget (idemRecords s) (compositeKey a) = Some (ClaimedRecord (payloadHash a))) \<and>
     (\<forall>k h. jsget (idemRecords s) k = Some (ClaimedRecord h) \<longrightarrow> (\<exists>i a. holds_claim s i a \<and> compositeKey a = k))"

text \<open>A step changes the records only at the key it claims or gives up, and no completed record.\<close>

lemma begin_mem_cases:
  "begin_mem ctx rs = (out, rs') \<Longrightarrow>
     (if out = Claimed
      then jsget rs (compositeKey ctx) = None \<and> rs' = jsset (compositeKey ctx) (ClaimedRecord (payloadHash ctx)) rs
      else rs' = rs)"
  by (auto simp: begin_mem_def split: option.splits if_splits IdempotencyRecord.splits)

lemma idem_begin_cases:
  assumes "idem_begin sha256Hex d rs = (r, rs')"
  obtains (refused) e where "r = Inl e" "rs' = rs"
  | (claimed) ctx where "r = Inr ctx" "jsget rs (compositeKey ctx) = None"
      "rs' = jsset (compositeKey ctx) (ClaimedRecord (payloadHash ctx)) rs"
proof (cases "encodePayload (kdDefinition d) (kdPayload d)")
  case None
  then show ?thesis using assms refused by (auto simp: idem_begin_def)
next
  case (Some ep)
  obtain ctx where ctx: "ctx = idempotency_context sha256Hex (kdDefinition d) (kdKey d) (kdActor d) ep" by blast
  obtain out rs1 where out: "begin_mem ctx rs = (out, rs1)" by fastforce
  have "rs' = rs1 \<and> (if out = Claimed then r = Inr ctx else \<exists>e. r = Inl e)"
    using assms Some out ctx by (cases out) (auto simp: idem_begin_def)
  then show ?thesis
    using begin_mem_cases [OF out] refused claimed by (cases "out = Claimed") auto
qed

lemma holds_claim_update:
  "i < length (dispatches s) \<Longrightarrow> holds_claim (s\<lparr>dispatches := (dispatches s)[i := (d, ph)], idemRecords := rs\<rparr>) j a \<longleftrightarrow>
     (if j = i then claim_of ph = Some a else holds_claim s j a)"
  by (auto simp: holds_claim_def)

lemma holds_claim_unique: "holds_claim s i a \<Longrightarrow> holds_claim s i b \<Longrightarrow> a = b"
  by (simp add: holds_claim_def)

lemma idem_step_kinds:
  assumes "idem_step sha256Hex s s'"
  obtains (same) "\<And>i a. holds_claim s' i a \<longleftrightarrow> holds_claim s i a" "idemRecords s' = idemRecords s"
  | (claim) i ctx where "\<And>a. \<not> holds_claim s i a" "\<And>j a. holds_claim s' j a \<longleftrightarrow> (if j = i then a = ctx else holds_claim s j a)"
      "jsget (idemRecords s) (compositeKey ctx) = None"
      "idemRecords s' = jsset (compositeKey ctx) (ClaimedRecord (payloadHash ctx)) (idemRecords s)"
  | (settle) i ctx where "holds_claim s i ctx" "\<And>j a. holds_claim s' j a \<longleftrightarrow> j \<noteq> i \<and> holds_claim s j a"
      "idemRecords s' = release_mem ctx (idemRecords s) \<or> (\<exists>r. idemRecords s' = complete_mem ctx r (idemRecords s))"
  using assms
proof (cases rule: idem_step.cases)
  case (arrives d)
  then have "holds_claim s' i a \<longleftrightarrow> holds_claim s i a" for i a
    by (auto simp: holds_claim_def nth_append less_Suc_eq)
  then show ?thesis using arrives same by simp
next
  case (begins i d r rs)
  show ?thesis
    using begins(4)
  proof (cases rule: idem_begin_cases)
    case (refused e)
    then have "holds_claim s' j a \<longleftrightarrow> holds_claim s j a" for j a
      using begins by (cases "j = i") (auto simp: holds_claim_def)
    then show ?thesis using refused begins same by simp
  next
    case (claimed ctx)
    show ?thesis
      by (rule claim [of i ctx]) (use claimed begins in \<open>auto simp: holds_claim_def nth_list_update\<close>)
  qed
next
  case (handled i d ctx x)
  then have "holds_claim s' j a \<longleftrightarrow> holds_claim s j a" for j a
    by (cases "j = i") (auto simp: holds_claim_def)
  then show ?thesis using handled same by simp
next
  case (settles i d ctx out e rs)
  show ?thesis
    by (rule settle [of i ctx]) (use settles in \<open>auto simp: holds_claim_def nth_list_update idem_settle_def split: sum.splits prod.splits\<close>)
qed

lemma idem_inv_step:
  assumes "idem_step sha256Hex s s'" and inv: "idem_inv s"
  shows "idem_inv s'"
  using assms(1)
proof (cases rule: idem_step_kinds)
  case same
  then show ?thesis using inv by (simp add: idem_inv_def)
next
  case (claim i ctx)
  then have "\<And>j a. holds_claim s j a \<Longrightarrow> compositeKey a \<noteq> compositeKey ctx" using inv by (force simp: idem_inv_def)
  moreover have "\<exists>j a. holds_claim s' j a \<and> compositeKey a = k" if "jsget (idemRecords s') k = Some (ClaimedRecord h)" for k h
  proof (cases "k = compositeKey ctx")
    case True then show ?thesis using claim(2) by auto
  next
    case False
    then have "jsget (idemRecords s) k = Some (ClaimedRecord h)" using that claim(4) by simp
    then obtain j a where "holds_claim s j a" "compositeKey a = k" using inv unfolding idem_inv_def by blast
    then show ?thesis using claim(1,2) by metis
  qed
  ultimately show ?thesis using inv claim unfolding idem_inv_def by (simp split: if_splits) metis
next
  case (settle i ctx)
  have only: "\<And>j a. holds_claim s j a \<Longrightarrow> j \<noteq> i \<Longrightarrow> compositeKey a \<noteq> compositeKey ctx"
    using inv settle(1) unfolding idem_inv_def by metis
  have mine: "jsget (idemRecords s) (compositeKey ctx) = Some (ClaimedRecord (payloadHash ctx))"
    using inv settle(1) by (simp add: idem_inv_def)
  have other: "k \<noteq> compositeKey ctx \<Longrightarrow> jsget (idemRecords s') k = jsget (idemRecords s) k" for k
    using settle(3) mine by (auto simp: release_mem_def complete_mem_def)
  have gone: "jsget (idemRecords s') (compositeKey ctx) \<noteq> Some (ClaimedRecord h)" for h
    using settle(3) mine by (auto simp: release_mem_def complete_mem_def)
  show ?thesis
    unfolding idem_inv_def
  proof (intro conjI allI impI)
    fix k h assume k: "jsget (idemRecords s') k = Some (ClaimedRecord h)"
    then have "k \<noteq> compositeKey ctx" using gone by auto
    then obtain j a where "holds_claim s j a" "compositeKey a = k" using k other inv by (auto simp: idem_inv_def)
    then show "\<exists>j a. holds_claim s' j a \<and> compositeKey a = k"
      using settle(1,2) holds_claim_unique \<open>k \<noteq> compositeKey ctx\<close> by metis
  next
    fix i' j a b assume "holds_claim s' i' a \<and> holds_claim s' j b \<and> compositeKey a = compositeKey b"
    then show "i' = j" using inv settle(2) unfolding idem_inv_def by metis
  next
    fix j a assume "holds_claim s' j a"
    then have "holds_claim s j a" "compositeKey a \<noteq> compositeKey ctx" using settle(2) only by auto
    then show "jsget (idemRecords s') (compositeKey a) = Some (ClaimedRecord (payloadHash a))"
      using inv other by (simp add: idem_inv_def)
  qed
qed

lemma idem_inv_steps: "idem_steps sha256Hex s s' \<Longrightarrow> idem_inv s \<Longrightarrow> idem_inv s'"
  by (induction rule: idem_steps.induct) (auto intro: idem_inv_step)

lemma idem_inv_start [simp]: "idem_inv no_dispatches"
  by (simp add: idem_inv_def no_dispatches_def holds_claim_def)

lemma completed_step:
  assumes "idem_step sha256Hex s s'" and "idem_inv s" and "jsget (idemRecords s) k = Some (CompletedRecord h r)"
  shows "jsget (idemRecords s') k = Some (CompletedRecord h r)"
  using assms(1)
proof (cases rule: idem_step_kinds)
  case (settle i ctx)
  then have "compositeKey ctx \<noteq> k" using assms(2,3) by (force simp: idem_inv_def)
  with settle(3) assms(3) show ?thesis
    by (auto simp: release_mem_def complete_mem_def split: option.splits IdempotencyRecord.splits)
qed (use assms(3) in auto)

lemma completed_steps:
  "idem_steps sha256Hex s s' \<Longrightarrow> idem_inv s \<Longrightarrow> jsget (idemRecords s) k = Some (CompletedRecord h r) \<Longrightarrow>
    jsget (idemRecords s') k = Some (CompletedRecord h r)"
proof (induction rule: idem_steps.induct)
  case (idem_move s s' s'')
  then show ?case using completed_step idem_inv_steps by blast
qed simp

subsection \<open>Replays\<close>

text \<open>What the bus relies on of an idempotency store: which record a context has, and how the operations change it.\<close>

locale idempotency_store =
  fixes store :: "'w IdempotencyStoreService"
    and record_at :: "'w \<Rightarrow> IdempotencyContext \<Rightarrow> IdempotencyRecord option"
  assumes record_scope: "record_at w (ctx\<lparr>payloadHash := h\<rparr>) = record_at w ctx"
    and begin_new: "record_at w ctx = None \<Longrightarrow>
      \<exists>w'. begin_op store ctx w = (Inr Claimed, w') \<and> record_at w' ctx = Some (ClaimedRecord (payloadHash ctx))"
    and begin_old: "record_at w ctx = Some e \<Longrightarrow> begin_op store ctx w =
      (Inr (if recordHash e \<noteq> payloadHash ctx then Mismatch
            else case e of ClaimedRecord _ \<Rightarrow> InFlight | CompletedRecord _ r \<Rightarrow> Completed r), w)"
    and complete_records: "\<exists>w'. complete_op store ctx r w = (Inr (), w') \<and>
      record_at w' ctx = Some (CompletedRecord (payloadHash ctx) r)"
    and release_frees: "record_at w ctx = Some (ClaimedRecord h) \<Longrightarrow>
      \<exists>w'. release_op store ctx w = (Inr (), w') \<and> record_at w' ctx = None"
begin

lemma success_recorded:
  assumes "encodePayload def p = Some ep" and "\<forall>s e. encodeSuccess def s = Some e \<longrightarrow> decodeSuccess def e = Inr s"
    and "idempotent sha256Hex store def key who p run w = (Success s, w')"
  shows "\<exists>r. record_at w' (idempotency_context sha256Hex def key who ep) = Some (CompletedRecord (sha256Hex (payload_text ep)) r)
    \<and> decodeSuccess def r = Inr s"
proof -
  let ?ctx = "idempotency_context sha256Hex def key who ep"
  have hash: "payloadHash ?ctx = sha256Hex (payload_text ep)" by (simp add: idempotency_context_def)
  show ?thesis
  proof (cases "record_at w ?ctx")
    case (Some e)
    from begin_old [OF this] assms(1,3) hash Some show ?thesis
      by (cases e) (auto simp: idempotent_def Let_def split: if_splits sum.splits)
  next
    case None
    from begin_new [OF this] obtain w1 where w1: "begin_op store ?ctx w = (Inr Claimed, w1)" by blast
    obtain x w2 where run: "run w1 = (x, w2)" by force
    show ?thesis
    proof (cases x)
      case (Success s')
      show ?thesis
      proof (cases "encodeSuccess def s'")
        case None
        with assms(1,3) w1 run Success show ?thesis
          by (auto simp: idempotent_def Let_def release_after_def split: prod.splits sum.splits)
      next
        case (Some e)
        obtain w3 where "complete_op store ?ctx e w2 = (Inr (), w3)" "record_at w3 ?ctx = Some (CompletedRecord (payloadHash ?ctx) e)"
          using complete_records by blast
        with assms w1 run Success Some hash show ?thesis by (auto simp: idempotent_def Let_def)
      qed
    next
      case (Failure c)
      with assms(1,3) w1 run show ?thesis
        by (auto simp: idempotent_def Let_def release_after_def split: prod.splits sum.splits)
    qed
  qed
qed

lemma replayed:
  assumes "encodePayload def p = Some ep"
    and "record_at w (idempotency_context sha256Hex def key who ep) = Some (CompletedRecord h r)" and "decodeSuccess def r = Inr s"
  shows "idempotent sha256Hex store def key who p run w =
    (if h = sha256Hex (payload_text ep) then Success s else Failure (Fails (IdempotencyMismatch (msgTag def) key)), w)"
  using assms begin_old [OF assms(2)] by (simp add: idempotent_def Let_def idempotency_context_def)

lemma failure_released:
  assumes "encodePayload def p = Some ep" and "record_at w (idempotency_context sha256Hex def key who ep) = None"
    and "\<And>w1 w2. run w1 = (Failure c, w2) \<Longrightarrow> record_at w2 = record_at w1"
    and "\<And>w1. fst (run w1) = Failure c"
  shows "\<exists>w'. idempotent sha256Hex store def key who p run w = (Failure c, w') \<and>
    record_at w' (idempotency_context sha256Hex def key who ep) = None"
proof -
  let ?ctx = "idempotency_context sha256Hex def key who ep"
  obtain w1 where w1: "begin_op store ?ctx w = (Inr Claimed, w1)" "record_at w1 ?ctx = Some (ClaimedRecord (payloadHash ?ctx))"
    using begin_new [OF assms(2)] by blast
  obtain w2 where run: "run w1 = (Failure c, w2)" using assms(4) [of w1] by (cases "run w1") auto
  with assms(3) w1(2) have "record_at w2 ?ctx = Some (ClaimedRecord (payloadHash ?ctx))" by metis
  from release_frees [OF this] assms(1) w1 run show ?thesis
    by (auto simp: idempotent_def Let_def release_after_def)
qed

lemma other_payload_scope:
  "record_at w (idempotency_context sha256Hex def key who ep) = record_at w (idempotency_context sha256Hex def key who ep')"
  using record_scope [where ctx = "idempotency_context sha256Hex def key who ep" and h = "sha256Hex (payload_text ep')"]
  by (simp add: idempotency_context_def)

end

definition mem_record_at :: "IdempotencyRecords \<times> 'v \<Rightarrow> IdempotencyContext \<Rightarrow> IdempotencyRecord option" where
  "mem_record_at w ctx = jsget (fst w) (compositeKey ctx)"

interpretation mem_idempotency: idempotency_store memIdempotencyStore mem_record_at
proof
  fix w :: "IdempotencyRecords \<times> 'v" and ctx h e r
  show "mem_record_at w (ctx\<lparr>payloadHash := h\<rparr>) = mem_record_at w ctx"
    by (simp add: mem_record_at_def compositeKey_def)
  show "\<exists>w'. begin_op memIdempotencyStore ctx w = (Inr Claimed, w') \<and> mem_record_at w' ctx = Some (ClaimedRecord (payloadHash ctx))"
    if "mem_record_at w ctx = None"
    using that by (cases w) (simp add: mem_record_at_def memIdempotencyStore_def begin_mem_def)
  show "begin_op memIdempotencyStore ctx w = (Inr (if recordHash e \<noteq> payloadHash ctx then Mismatch
            else case e of ClaimedRecord _ \<Rightarrow> InFlight | CompletedRecord _ r \<Rightarrow> Completed r), w)"
    if "mem_record_at w ctx = Some e"
    using that by (cases w) (simp add: mem_record_at_def memIdempotencyStore_def begin_mem_def)
  show "\<exists>w'. complete_op memIdempotencyStore ctx r w = (Inr (), w') \<and> mem_record_at w' ctx = Some (CompletedRecord (payloadHash ctx) r)"
    by (cases w) (simp add: mem_record_at_def memIdempotencyStore_def complete_mem_def)
  show "\<exists>w'. release_op memIdempotencyStore ctx w = (Inr (), w') \<and> mem_record_at w' ctx = None"
    if "mem_record_at w ctx = Some (ClaimedRecord h)"
    using that by (cases w) (simp add: mem_record_at_def memIdempotencyStore_def release_mem_def)
qed

subsection \<open>Mediation\<close>

text \<open>What has to hold before a dispatch can have any effect.\<close>

definition dispatchable ::
  "('p, 's, 'f, 'w) bus \<Rightarrow> ('p, 's) MessageDefinition \<Rightarrow> json \<Rightarrow> DispatchOptions \<Rightarrow> CorrelationContext \<Rightarrow> bool" where
  "dispatchable b def input opts parent \<longleftrightarrow>
     (\<exists>reg p. jsget (busRegistry b) (msgTag def) = Some reg \<and> msgKind (regDefinition reg) = msgKind def
        \<and> decodePayload def input = Inr p
        \<and> busAuthorize b \<lparr>requestTag = msgTag def, requestKind = msgKind def, requestPayload = p,
              requestActor = (case optActor opts of None \<Rightarrow> ctxActor parent | Some a \<Rightarrow> Some a)\<rparr> = Inr (Inr ()))"

lemma dispatch_needs:
  assumes "dispatch sha256Hex b def input opts parent i c w = (x, w')" and "\<not> dispatchable b def input opts parent"
  shows "w' = w \<and> (\<exists>cause. x = Failure cause)"
  using assms
  by (auto simp: dispatch_def dispatchable_def envelope_of_def Let_def split: option.splits if_splits sum.splits)

lemma causation_chain:
  fixes env parent
  defines "ctx \<equiv> within_dispatch env parent"
  shows "dispatchCorrelation (envelope_of i c ctx opts) = dispatchCorrelation env"
    and "dispatchCausation (envelope_of i c ctx opts) = Some (messageId env)"
    and "optActor opts = None \<Longrightarrow> dispatchActor env = Some a \<Longrightarrow> dispatchActor (envelope_of i c ctx opts) = Some a"
  by (simp_all add: ctx_def within_dispatch_def envelope_of_def)

lemma build_registry_keys:
  "build_registry rs m = Inr m' \<Longrightarrow>
     distinct (map (\<lambda>r. msgTag (regDefinition r)) rs) \<and> set (map (\<lambda>r. msgTag (regDefinition r)) rs) \<inter> set (jskeys m) = {}
     \<and> (\<forall>r \<in> set rs. jsget m' (msgTag (regDefinition r)) = Some r)
     \<and> (\<forall>k \<in> set (jskeys m). jsget m' k = jsget m k)"
proof (induction rs arbitrary: m)
  case (Cons r rs)
  let ?t = "msgTag (regDefinition r)"
  from Cons.prems have new: "?t \<notin> set (jskeys m)" and rest: "build_registry rs (jsset ?t r m) = Inr m'"
    by (simp_all split: if_splits del: set_map)
  note IH = Cons.IH [OF rest, unfolded set_jskeys_jsset]
  have "jsget m' ?t = Some r" using IH by simp
  moreover have "jsget m' k = jsget m k" if "k \<in> set (jskeys m)" for k
    using that new IH by (auto simp del: set_map)
  ultimately show ?case using IH new by (auto simp del: set_map simp: set_map [of "\<lambda>r. msgTag (regDefinition r)"])
qed simp

text \<open>Two contexts share a record exactly when tag and key agree and the actors do, an absent actor being the empty one.\<close>

lemma compositeKey_iff:
  assumes "CHR 0x00 \<notin> set (idemTag a)" and "CHR 0x00 \<notin> set (idemTag b)"
    and "CHR 0x00 \<notin> set (getOr [] (idemActor a))" and "CHR 0x00 \<notin> set (getOr [] (idemActor b))"
  shows "compositeKey a = compositeKey b \<longleftrightarrow>
    idemTag a = idemTag b \<and> getOr [] (idemActor a) = getOr [] (idemActor b) \<and> idemKey a = idemKey b"
  using append_sep_inject [of "idemTag a" "CHR 0x00" _ "idemTag b"]
    append_sep_inject [of "getOr [] (idemActor a)" "CHR 0x00" "idemKey a" "getOr [] (idemActor b)" "idemKey b"] assms
  by (auto simp: compositeKey_def)

end
