(* ===== verification/RateLimit.thy ===== *)
theory RateLimit
  imports Json
begin

section \<open>Rate limiting\<close>

text \<open>
  \<open>packages/http/src/rateLimit.ts\<close>: the in-memory sliding-window store and the middleware that charges requests to
  budgets. Numbers are integers (milliseconds, points). The clock is an argument of the store operations; requests
  and responses are the parts of the platform's that the middleware reads and writes. Metrics and logs are left out.
\<close>

subsection \<open>Rules and decisions\<close>

record RateLimitRule =
  points :: int
  windowMillis :: int
  blockMillis :: int

datatype DenyReason = Exceeded | StoreUnavailable

record RateLimitDecision =
  isAllowed :: bool
  retryAfterMillis :: int
  denyReason :: "DenyReason option"
  decisionLimit :: int
  remaining :: int
  resetMillis :: int

datatype RateLimitStoreError = RateLimitStoreError (failedStore: string)

record 'w RateLimitStore =
  storeConsume :: "string \<Rightarrow> RateLimitRule \<Rightarrow> 'w \<Rightarrow> (RateLimitStoreError, RateLimitDecision) result \<times> 'w"
  storePeek :: "string \<Rightarrow> RateLimitRule \<Rightarrow> 'w \<Rightarrow> (RateLimitStoreError, RateLimitDecision) result \<times> 'w"

subsection \<open>The in-memory store\<close>

record MemoryEntry =
  hits :: "int list"
  blockedUntil :: int

record RateState =
  rateEntries :: "(string, MemoryEntry) jsmap"
  longestWindow :: int
  lastSweep :: "int option"

definition emptyRates :: RateState where
  "emptyRates = \<lparr>rateEntries = [], longestWindow = 0, lastSweep = None\<rparr>"

record StoreOptions =
  optMaxKeys :: "int option"
  optSweepInterval :: "int option"

definition maxKeys :: "StoreOptions \<Rightarrow> int" where
  "maxKeys opts = max 1 (getOr 100000 (optMaxKeys opts))"

definition sweepInterval :: "StoreOptions \<Rightarrow> int" where
  "sweepInterval opts = max 1 (getOr 60000 (optSweepInterval opts))"

definition denied :: "RateLimitRule \<Rightarrow> int \<Rightarrow> int \<Rightarrow> RateLimitDecision" where
  "denied rule retryAfter reset_ms =
     \<lparr>isAllowed = False, retryAfterMillis = retryAfter, denyReason = None, decisionLimit = points rule, remaining = 0,
      resetMillis = reset_ms\<rparr>"

definition resetOf :: "int list \<Rightarrow> int \<Rightarrow> RateLimitRule \<Rightarrow> int \<Rightarrow> int" where
  "resetOf hs blocked rule timestamp =
     (let windowReset = (if hs = [] then 0 else last hs + windowMillis rule - timestamp) in
      max 0 (max windowReset (blocked - timestamp)))"

definition sweep :: "int \<Rightarrow> RateState \<Rightarrow> RateState" where
  "sweep timestamp st =
     st\<lparr>lastSweep := Some timestamp,
        rateEntries := filter (\<lambda>(k, e). \<not> (blockedUntil e \<le> timestamp
          \<and> list_all (\<lambda>h. h \<le> timestamp - longestWindow st) (hits e))) (rateEntries st)\<rparr>"

definition remember :: "StoreOptions \<Rightarrow> string \<Rightarrow> MemoryEntry \<Rightarrow> RateState \<Rightarrow> RateState" where
  "remember opts key entry st =
     (let es = rateEntries st;
          kept = (if key \<in> set (jskeys es) then jsdelete key es
                  else if maxKeys opts \<le> int (length es) then drop 1 es else es) in
      st\<lparr>rateEntries := jsset key entry kept\<rparr>)"

definition windowOf :: "string \<Rightarrow> RateLimitRule \<Rightarrow> int \<Rightarrow> RateState \<Rightarrow> MemoryEntry" where
  "windowOf key rule timestamp st =
     (let entry = getOr \<lparr>hits = [], blockedUntil = 0\<rparr> (jsget (rateEntries st) key) in
      entry\<lparr>hits := filter (\<lambda>h. timestamp - windowMillis rule < h) (hits entry)\<rparr>)"

definition sweep_if_due :: "StoreOptions \<Rightarrow> int \<Rightarrow> RateState \<Rightarrow> RateState" where
  "sweep_if_due opts timestamp st =
     (case lastSweep st of
        None \<Rightarrow> sweep timestamp st
      | Some l \<Rightarrow> if sweepInterval opts \<le> timestamp - l then sweep timestamp st else st)"

definition until_oldest_leaves :: "int list \<Rightarrow> RateLimitRule \<Rightarrow> int \<Rightarrow> int" where
  "until_oldest_leaves hs rule timestamp =
     (case hs of [] \<Rightarrow> windowMillis rule | oldest # _ \<Rightarrow> oldest + windowMillis rule - timestamp)"

definition mem_consume ::
  "StoreOptions \<Rightarrow> string \<Rightarrow> RateLimitRule \<Rightarrow> int \<Rightarrow> RateState \<Rightarrow> RateLimitDecision \<times> RateState" where
  "mem_consume opts key rule timestamp st0 =
     (let st1 = st0\<lparr>longestWindow := max (longestWindow st0) (windowMillis rule)\<rparr>;
          st = sweep_if_due opts timestamp st1;
          w = windowOf key rule timestamp st;
          hs = hits w;
          blocked = blockedUntil w in
      if timestamp < blocked
      then (denied rule (blocked - timestamp) (resetOf hs blocked rule timestamp), remember opts key w st)
      else if points rule \<le> int (length hs)
      then let blockedFromNow = timestamp + blockMillis rule;
               retryAfter = (if 0 < blockMillis rule then blockMillis rule
                             else max 1 (until_oldest_leaves hs rule timestamp)) in
        (denied rule retryAfter (max retryAfter (resetOf hs blockedFromNow rule timestamp)),
         remember opts key \<lparr>hits = hs, blockedUntil = blockedFromNow\<rparr> st)
      else
        (\<lparr>isAllowed = True, retryAfterMillis = 0, denyReason = None, decisionLimit = points rule,
          remaining = points rule - int (length (hs @ [timestamp])), resetMillis = windowMillis rule\<rparr>,
         remember opts key \<lparr>hits = hs @ [timestamp], blockedUntil = 0\<rparr> st))"

definition mem_peek :: "string \<Rightarrow> RateLimitRule \<Rightarrow> int \<Rightarrow> RateState \<Rightarrow> RateLimitDecision" where
  "mem_peek key rule timestamp st =
     (let w = windowOf key rule timestamp st;
          hs = hits w;
          blocked = blockedUntil w;
          reset_ms = resetOf hs blocked rule timestamp in
      if timestamp < blocked then denied rule (blocked - timestamp) reset_ms
      else if points rule \<le> int (length hs)
      then let retryAfter = max 1 (until_oldest_leaves hs rule timestamp) in
        denied rule retryAfter (max retryAfter reset_ms)
      else
        \<lparr>isAllowed = True, retryAfterMillis = 0, denyReason = None, decisionLimit = points rule,
         remaining = points rule - int (length hs), resetMillis = reset_ms\<rparr>)"

definition memRateStore :: "StoreOptions \<Rightarrow> (int \<times> RateState) RateLimitStore" where
  "memRateStore opts =
     \<lparr>storeConsume = (\<lambda>key rule (now, st). let (d, st') = mem_consume opts key rule now st in (Inr d, (now, st'))),
      storePeek = (\<lambda>key rule (now, st). (Inr (mem_peek key rule now st), (now, st)))\<rparr>"

subsection \<open>Requests and responses\<close>

record HttpRequest =
  reqMethod :: string
  url :: string
  reqHeaders :: "(string, string) jsmap"
  remoteAddress :: "string option"

record HttpResponse =
  statusCode :: int
  respHeaders :: "(string, string) jsmap"
  respBody :: json

definition clientIp :: "HttpRequest \<Rightarrow> bool \<Rightarrow> string option" where
  "clientIp request trustProxy =
     (let hops = (case jsget (reqHeaders request) ''x-forwarded-for'' of
                    None \<Rightarrow> []
                  | Some forwarded \<Rightarrow> filter (\<lambda>h. h \<noteq> []) (map trim (split_char (CHR '','') forwarded))) in
      if trustProxy \<and> hops \<noteq> [] then Some (last hops)
      else case (if trustProxy then jsget (reqHeaders request) ''x-real-ip'' else None) of
        Some real \<Rightarrow> if trim real \<noteq> [] then Some (trim real) else remoteAddress request
      | None \<Rightarrow> remoteAddress request)"

definition PROBE_PATHS :: "string list" where
  "PROBE_PATHS = [''/health/live'', ''/health/ready'']"

definition isProbe :: "HttpRequest \<Rightarrow> bool" where
  "isProbe request \<longleftrightarrow> hd (split_char (CHR ''?'') (url request)) \<in> set PROBE_PATHS"

definition ceil_seconds :: "int \<Rightarrow> int" where
  "ceil_seconds millis = - ((- millis) div 1000)"

definition seconds :: "int \<Rightarrow> string" where
  "seconds millis = show_int (max 0 (ceil_seconds millis))"

definition quotaHeaders :: "RateLimitDecision \<Rightarrow> (string \<times> string) list" where
  "quotaHeaders d =
     (let lim = show_int (decisionLimit d); rem_s = show_int (max 0 (remaining d)); res = seconds (resetMillis d) in
      [(''ratelimit-limit'', lim), (''ratelimit-remaining'', rem_s), (''ratelimit-reset'', res),
       (''x-ratelimit-limit'', lim), (''x-ratelimit-remaining'', rem_s), (''x-ratelimit-reset'', res)])"

record Outcome =
  outDecision :: RateLimitDecision
  counted :: bool

definition stamp_response :: "HttpResponse \<Rightarrow> Outcome \<Rightarrow> HttpResponse" where
  "stamp_response response out =
     (if counted out
      then response\<lparr>respHeaders := foldl (\<lambda>m kv. jsset (fst kv) (snd kv) m) (respHeaders response) (quotaHeaders (outDecision out))\<rparr>
      else response)"

subsection \<open>The middleware\<close>

datatype OnStoreError = AllowOnError | DenyOnError

record RateLimitGroup =
  groupLabel :: string
  groupRule :: RateLimitRule
  groupMatch :: "HttpRequest \<Rightarrow> bool"
  groupKeys :: "HttpRequest \<Rightarrow> string option list"
  consumeWhen :: "(HttpResponse \<Rightarrow> bool) option"

record 'w RateLimitOptions =
  rlStore :: "'w RateLimitStore"
  groups :: "RateLimitGroup list"
  onStoreError :: "OnStoreError option"

definition keysOf :: "RateLimitGroup \<Rightarrow> HttpRequest \<Rightarrow> string list" where
  "keysOf grp request = map the (filter (\<lambda>k. k \<noteq> None) (groupKeys grp request))"

fun combine_loop :: "RateLimitDecision list \<Rightarrow> RateLimitDecision \<Rightarrow> RateLimitDecision" where
  "combine_loop [] acc = acc"
| "combine_loop (d # ds) acc =
     combine_loop ds (acc\<lparr>isAllowed := isAllowed acc \<and> isAllowed d,
       retryAfterMillis := max (retryAfterMillis acc) (retryAfterMillis d),
       remaining := min (remaining acc) (remaining d),
       resetMillis := max (resetMillis acc) (resetMillis d),
       denyReason := (if denyReason d = Some StoreUnavailable then Some StoreUnavailable
                      else if \<not> isAllowed d \<and> denyReason acc = None then Some Exceeded else denyReason acc)\<rparr>)"

definition combine :: "RateLimitRule \<Rightarrow> RateLimitDecision list \<Rightarrow> RateLimitDecision" where
  "combine rule ds =
     combine_loop ds \<lparr>isAllowed = True, retryAfterMillis = 0, denyReason = None, decisionLimit = points rule,
       remaining = points rule, resetMillis = 0\<rparr>"

definition fallback :: "'w RateLimitOptions \<Rightarrow> RateLimitGroup \<Rightarrow> RateLimitDecision" where
  "fallback opts grp =
     (if getOr AllowOnError (onStoreError opts) = DenyOnError
      then \<lparr>isAllowed = False, retryAfterMillis = 1000, denyReason = Some StoreUnavailable,
            decisionLimit = points (groupRule grp), remaining = 0, resetMillis = 1000\<rparr>
      else \<lparr>isAllowed = True, retryAfterMillis = 0, denyReason = None, decisionLimit = points (groupRule grp),
            remaining = points (groupRule grp), resetMillis = 0\<rparr>)"

fun ask_keys ::
  "'w RateLimitOptions \<Rightarrow> RateLimitGroup
    \<Rightarrow> (string \<Rightarrow> RateLimitRule \<Rightarrow> 'w \<Rightarrow> (RateLimitStoreError, RateLimitDecision) result \<times> 'w)
    \<Rightarrow> string list \<Rightarrow> 'w \<Rightarrow> Outcome list \<times> 'w" where
  "ask_keys opts grp call [] w = ([], w)"
| "ask_keys opts grp call (key # ks) w =
     (let (r, w1) = call key (groupRule grp) w;
          out = (case r of Inr d \<Rightarrow> \<lparr>outDecision = d, counted = True\<rparr>
                 | Inl _ \<Rightarrow> \<lparr>outDecision = fallback opts grp, counted = False\<rparr>);
          (outs, w2) = ask_keys opts grp call ks w1 in
      (out # outs, w2))"

definition forKeys ::
  "'w RateLimitOptions \<Rightarrow> RateLimitGroup \<Rightarrow> string list
    \<Rightarrow> (string \<Rightarrow> RateLimitRule \<Rightarrow> 'w \<Rightarrow> (RateLimitStoreError, RateLimitDecision) result \<times> 'w)
    \<Rightarrow> 'w \<Rightarrow> Outcome \<times> 'w" where
  "forKeys opts grp ks call w =
     (let (outs, w') = ask_keys opts grp call ks w in
      (\<lparr>outDecision = combine (groupRule grp) (map outDecision outs), counted = list_all counted outs\<rparr>, w'))"

definition retry_after_seconds :: "Outcome \<Rightarrow> int" where
  "retry_after_seconds out = max 1 (ceil_seconds (retryAfterMillis (outDecision out)))"

definition deny_response :: "string option \<Rightarrow> Outcome \<Rightarrow> HttpResponse" where
  "deny_response correlationId out =
     stamp_response
       \<lparr>statusCode = 429,
        respHeaders = [(''retry-after'', show_int (retry_after_seconds out)), (''cache-control'', ''no-store'')],
        respBody = JObj ([(''error'', JStr ''TooManyRequests''),
          (''message'', JStr (if denyReason (outDecision out) = Some StoreUnavailable
             then ''rate limit temporarily unavailable''
             else ''rate limit exceeded, retry after '' @ show_int (retry_after_seconds out) @ ''s''))]
          @ (case correlationId of None \<Rightarrow> [] | Some c \<Rightarrow> [(''correlationId'', JStr c)]))\<rparr> out"

text \<open>
  What the middleware returns: the response or the failure of the app, the outcome that the pre-response handler
  stamps on whatever response is sent in the end, and the world. \<open>render\<close> is \<open>defaultErrorResponse\<close>.
\<close>

type_synonym ('e, 'w) http_app = "HttpRequest \<Rightarrow> 'w \<Rightarrow> ('e, HttpResponse) result \<times> 'w"

definition charge ::
  "'w RateLimitOptions \<Rightarrow> RateLimitGroup \<Rightarrow> string list \<Rightarrow> (HttpResponse \<Rightarrow> bool) \<Rightarrow> HttpResponse \<Rightarrow> Outcome \<Rightarrow> 'w \<Rightarrow> Outcome \<times> 'w" where
  "charge opts grp ks cond response out w =
     (if cond response then forKeys opts grp ks (storeConsume (rlStore opts)) w else (out, w))"

definition rateLimit ::
  "'w RateLimitOptions \<Rightarrow> ('e \<Rightarrow> HttpResponse) \<Rightarrow> string option \<Rightarrow> ('e, 'w) http_app \<Rightarrow> HttpRequest \<Rightarrow> 'w
    \<Rightarrow> ('e, HttpResponse) result \<times> Outcome option \<times> 'w" where
  "rateLimit opts render correlationId app request w =
     (let bare = (let (r, w') = app request w in (r, None, w')) in
      if reqMethod request = ''OPTIONS'' \<or> isProbe request then bare
      else case find (\<lambda>g. groupMatch g request) (groups opts) of
        None \<Rightarrow> bare
      | Some grp \<Rightarrow>
          (let ks = map (\<lambda>k. groupLabel grp @ '':'' @ k) (keysOf grp request) in
           if ks = [] then bare
           else
             let call = (if consumeWhen grp = None then storeConsume (rlStore opts) else storePeek (rlStore opts));
                 (out, w1) = forKeys opts grp ks call w in
             if \<not> isAllowed (outDecision out) then (Inr (deny_response correlationId out), None, w1)
             else
               let (r, w2) = app request w1 in
               (case consumeWhen grp of
                  None \<Rightarrow> (r, Some out, w2)
                | Some cond \<Rightarrow>
                    (let (out', w3) = charge opts grp ks cond (case r of Inl e \<Rightarrow> render e | Inr response \<Rightarrow> response) out w2 in
                     (r, Some out', w3)))))"

subsection \<open>The store keeps its map in order\<close>

definition rate_inv :: "StoreOptions \<Rightarrow> RateState \<Rightarrow> bool" where
  "rate_inv opts st \<longleftrightarrow> distinct (jskeys (rateEntries st)) \<and> int (length (rateEntries st)) \<le> maxKeys opts"

definition entry_of :: "RateState \<Rightarrow> string \<Rightarrow> MemoryEntry" where
  "entry_of st k = getOr \<lparr>hits = [], blockedUntil = 0\<rparr> (jsget (rateEntries st) k)"

lemma windowOf_entry:
  "hits (windowOf k rule t st) = filter (\<lambda>h. t - windowMillis rule < h) (hits (entry_of st k))"
  "blockedUntil (windowOf k rule t st) = blockedUntil (entry_of st k)"
  by (simp_all add: windowOf_def entry_of_def Let_def)

lemma jsget_filter:
  "distinct (jskeys m) \<Longrightarrow> jsget (filter (\<lambda>(k, v). P v) m) k =
     (case jsget m k of None \<Rightarrow> None | Some v \<Rightarrow> if P v then Some v else None)"
  by (induction m) (auto simp: map_of_eq_None_iff [symmetric] split: option.splits)

lemma distinct_filter_keys: "distinct (jskeys m) \<Longrightarrow> distinct (jskeys (filter P m))"
  by (induction m) auto

definition stale :: "int \<Rightarrow> RateState \<Rightarrow> MemoryEntry \<Rightarrow> bool" where
  "stale t st e \<longleftrightarrow> blockedUntil e \<le> t \<and> list_all (\<lambda>h. h \<le> t - longestWindow st) (hits e)"

lemma sweep_if_due_cases:
  assumes "distinct (jskeys (rateEntries st))"
  obtains "sweep_if_due opts t st = st"
  | "longestWindow (sweep_if_due opts t st) = longestWindow st"
    "\<And>k. jsget (rateEntries (sweep_if_due opts t st)) k =
       (case jsget (rateEntries st) k of None \<Rightarrow> None | Some e \<Rightarrow> if stale t st e then None else Some e)"
    "set (jskeys (rateEntries (sweep_if_due opts t st))) \<subseteq> set (jskeys (rateEntries st))"
    "distinct (jskeys (rateEntries (sweep_if_due opts t st)))"
    "length (rateEntries (sweep_if_due opts t st)) \<le> length (rateEntries st)"
proof (cases "sweep_if_due opts t st = st")
  case False
  then have sw: "sweep_if_due opts t st = sweep t st"
    by (auto simp: sweep_if_due_def split: option.splits if_splits)
  have "rateEntries (sweep t st) = filter (\<lambda>(k, e). \<not> stale t st e) (rateEntries st)"
    by (simp add: sweep_def stale_def)
  with jsget_filter [OF assms, of "\<lambda>e. \<not> stale t st e"] distinct_filter_keys [OF assms] sw show ?thesis
    by (intro that(2)) (auto simp: sweep_def split: option.splits)
qed (rule that(1))

lemma sweep_if_due_keeps:
  assumes "distinct (jskeys (rateEntries st))"
  shows "longestWindow (sweep_if_due opts t st) = longestWindow st"
    "set (jskeys (rateEntries (sweep_if_due opts t st))) \<subseteq> set (jskeys (rateEntries st))"
    "distinct (jskeys (rateEntries (sweep_if_due opts t st)))"
    "length (rateEntries (sweep_if_due opts t st)) \<le> length (rateEntries st)"
  using assms by (cases rule: sweep_if_due_cases [OF assms, of opts t]; simp)+

text \<open>A sweep is invisible: no hit that still counts and no block that still holds is lost.\<close>

lemma sweep_entry:
  assumes "distinct (jskeys (rateEntries st))"
  shows "entry_of (sweep_if_due opts t st) k = entry_of st k \<or>
    entry_of (sweep_if_due opts t st) k = \<lparr>hits = [], blockedUntil = 0\<rparr> \<and> jsget (rateEntries st) k \<noteq> None
      \<and> stale t st (entry_of st k)"
proof (cases rule: sweep_if_due_cases [OF assms, of opts t])
  case 2
  show ?thesis
  proof (cases "jsget (rateEntries st) k")
    case (Some e)
    then show ?thesis using 2(2) [of k] by (auto simp: entry_of_def)
  qed (use 2(2) [of k] in \<open>simp add: entry_of_def\<close>)
qed simp

lemma stale_hits: "stale t st e \<Longrightarrow> w \<le> longestWindow st \<Longrightarrow> t \<le> u \<Longrightarrow> filter (\<lambda>h. u - w < h) (hits e) = []"
  by (force simp: stale_def list_all_iff filter_empty_conv)

lemma sweep_invisible:
  assumes "distinct (jskeys (rateEntries st))"
    and "jsget (rateEntries st) k \<noteq> None \<longrightarrow> w \<le> longestWindow st" and "t \<le> u"
  shows "filter (\<lambda>h. u - w < h) (hits (entry_of (sweep_if_due opts t st) k)) = filter (\<lambda>h. u - w < h) (hits (entry_of st k))"
    and "t < blockedUntil (entry_of st k) \<Longrightarrow> entry_of (sweep_if_due opts t st) k = entry_of st k"
    and "entry_of (sweep_if_due opts t st) k = entry_of st k \<or>
      entry_of (sweep_if_due opts t st) k = \<lparr>hits = [], blockedUntil = 0\<rparr> \<and> blockedUntil (entry_of st k) \<le> t"
  using sweep_entry [OF assms(1), of opts t k] stale_hits [of t st "entry_of st k" w u] assms(2,3)
  by (auto simp: stale_def)

definition kept_entries :: "StoreOptions \<Rightarrow> string \<Rightarrow> RateState \<Rightarrow> (string, MemoryEntry) jsmap" where
  "kept_entries opts k st =
     (if k \<in> set (jskeys (rateEntries st)) then jsdelete k (rateEntries st)
      else if maxKeys opts \<le> int (length (rateEntries st)) then drop 1 (rateEntries st) else rateEntries st)"

lemma remember_kept: "remember opts k e st = st\<lparr>rateEntries := jsset k e (kept_entries opts k st)\<rparr>"
  by (simp only: remember_def kept_entries_def Let_def)

lemma remember_entry:
  assumes "k \<in> set (jskeys (rateEntries st)) \<or> int (length (rateEntries st)) < maxKeys opts"
  shows "entry_of (remember opts k e st) k' = (if k' = k then e else entry_of st k')"
    and "set (jskeys (rateEntries (remember opts k e st))) = insert k (set (jskeys (rateEntries st)))"
    and "longestWindow (remember opts k e st) = longestWindow st"
proof -
  have "k' \<noteq> k \<Longrightarrow> jsget (kept_entries opts k st) k' = jsget (rateEntries st) k'"
    using assms by (auto simp: kept_entries_def simp del: set_map)
  then show "entry_of (remember opts k e st) k' = (if k' = k then e else entry_of st k')"
    by (simp add: entry_of_def remember_kept)
  have "insert k (set (jskeys (kept_entries opts k st))) = insert k (set (jskeys (rateEntries st)))"
    using assms by (auto simp: kept_entries_def jsmap_simps simp del: set_map)
  then show "set (jskeys (rateEntries (remember opts k e st))) = insert k (set (jskeys (rateEntries st)))"
    by (simp add: remember_kept del: set_map)
qed (simp add: remember_kept)

lemma remember_inv:
  assumes "rate_inv opts st"
  shows "rate_inv opts (remember opts k e st)"
proof -
  have d: "distinct (jskeys (rateEntries st))" using assms by (simp add: rate_inv_def)
  have dk: "distinct (jskeys (kept_entries opts k st))"
    using d by (simp add: kept_entries_def jsmap_simps drop_map [symmetric] del: set_map)
  have nk: "k \<notin> set (jskeys (kept_entries opts k st))"
    by (auto simp: kept_entries_def jsmap_simps drop_map [symmetric] dest: in_set_dropD simp del: set_map)
  have "int (length (kept_entries opts k st)) < maxKeys opts"
    using assms length_jsdelete [of k "rateEntries st"] by (auto simp: rate_inv_def kept_entries_def maxKeys_def simp del: set_map)
  with dk jskeys_jsset_absent [OF nk, of e] nk show ?thesis by (simp add: rate_inv_def remember_kept del: set_map)
qed

definition prepared :: "StoreOptions \<Rightarrow> RateLimitRule \<Rightarrow> int \<Rightarrow> RateState \<Rightarrow> RateState" where
  "prepared opts rule t st = sweep_if_due opts t (st\<lparr>longestWindow := max (longestWindow st) (windowMillis rule)\<rparr>)"

lemma consume_cases:
  fixes opts rule t st k
  defines "w \<equiv> windowOf k rule t (prepared opts rule t st)"
  obtains (blocked) "t < blockedUntil w"
    "mem_consume opts k rule t st = (denied rule (blockedUntil w - t) (resetOf (hits w) (blockedUntil w) rule t),
       remember opts k w (prepared opts rule t st))"
  | (exhausted) r where "\<not> t < blockedUntil w" "points rule \<le> int (length (hits w))"
    "r = (if 0 < blockMillis rule then blockMillis rule else max 1 (until_oldest_leaves (hits w) rule t))"
    "mem_consume opts k rule t st = (denied rule r (max r (resetOf (hits w) (t + blockMillis rule) rule t)),
       remember opts k \<lparr>hits = hits w, blockedUntil = t + blockMillis rule\<rparr> (prepared opts rule t st))"
  | (allowed) d where "\<not> t < blockedUntil w" "int (length (hits w)) < points rule" "isAllowed d"
    "remaining d = points rule - int (length (hits w)) - 1" "retryAfterMillis d = 0"
    "mem_consume opts k rule t st = (d, remember opts k \<lparr>hits = hits w @ [t], blockedUntil = 0\<rparr> (prepared opts rule t st))"
proof (cases "t < blockedUntil w")
  case True
  then show ?thesis by (intro blocked) (simp_all add: mem_consume_def Let_def w_def prepared_def)
next
  case not_blocked: False
  show ?thesis
  proof (cases "points rule \<le> int (length (hits w))")
    case True
    with not_blocked show ?thesis
      by (intro exhausted [OF not_blocked True refl]) (simp add: mem_consume_def Let_def w_def prepared_def)
  next
    case False
    then have "int (length (hits w)) < points rule" by simp
    with not_blocked show ?thesis
      by (intro allowed [where d = "fst (mem_consume opts k rule t st)"])
         (simp_all add: mem_consume_def Let_def w_def prepared_def)
  qed
qed

lemma prepared_keeps:
  assumes "distinct (jskeys (rateEntries st))"
  shows "longestWindow (prepared opts rule t st) = max (longestWindow st) (windowMillis rule)"
    "set (jskeys (rateEntries (prepared opts rule t st))) \<subseteq> set (jskeys (rateEntries st))"
    "distinct (jskeys (rateEntries (prepared opts rule t st)))"
    "length (rateEntries (prepared opts rule t st)) \<le> length (rateEntries st)"
  using sweep_if_due_keeps [of "st\<lparr>longestWindow := max (longestWindow st) (windowMillis rule)\<rparr>" opts t] assms
  by (simp_all add: prepared_def)

lemma prepared_invisible:
  assumes "distinct (jskeys (rateEntries st))"
    and "jsget (rateEntries st) k \<noteq> None \<longrightarrow> w \<le> max (longestWindow st) (windowMillis rule)" and "t \<le> u"
  shows "filter (\<lambda>h. u - w < h) (hits (entry_of (prepared opts rule t st) k)) = filter (\<lambda>h. u - w < h) (hits (entry_of st k))"
    and "t < blockedUntil (entry_of st k) \<Longrightarrow> entry_of (prepared opts rule t st) k = entry_of st k"
    and "entry_of (prepared opts rule t st) k = entry_of st k \<or>
      entry_of (prepared opts rule t st) k = \<lparr>hits = [], blockedUntil = 0\<rparr> \<and> blockedUntil (entry_of st k) \<le> t"
  using sweep_invisible [of "st\<lparr>longestWindow := max (longestWindow st) (windowMillis rule)\<rparr>" k w t u opts] assms
  by (simp_all add: prepared_def entry_of_def)

lemma mem_consume_inv:
  assumes "rate_inv opts st"
  shows "rate_inv opts (snd (mem_consume opts k rule t st))"
proof -
  have "rate_inv opts (prepared opts rule t st)"
    using prepared_keeps(3,4) [of st opts rule t] assms by (simp add: rate_inv_def)
  note keep = remember_inv [OF this]
  show ?thesis by (cases rule: consume_cases [of t k rule opts st]) (simp_all add: keep)
qed

text \<open>\<open>peek\<close> answers what \<open>consume\<close> would.\<close>

lemma peek_predicts:
  assumes "rate_inv opts st" and "0 \<le> t"
  shows "isAllowed (mem_peek k rule t st) = isAllowed (fst (mem_consume opts k rule t st))"
proof -
  let ?p = "prepared opts rule t st"
  have d: "distinct (jskeys (rateEntries st))" using assms by (simp add: rate_inv_def)
  note inv = prepared_invisible [OF d, of k "windowMillis rule" rule t t opts, simplified]
  have "hits (windowOf k rule t ?p) = hits (windowOf k rule t st)"
    using inv(1) by (simp add: windowOf_entry)
  moreover have "t < blockedUntil (windowOf k rule t ?p) \<longleftrightarrow> t < blockedUntil (windowOf k rule t st)"
    using inv(3) assms(2) by (auto simp: windowOf_entry)
  ultimately show ?thesis
    by (cases rule: consume_cases [of t k rule opts st]) (simp_all add: mem_peek_def Let_def denied_def)
qed

text \<open>A refusal says when to come back, never at once, and never later than the budget is restored.\<close>

definition decision_ok :: "RateLimitRule \<Rightarrow> RateLimitDecision \<Rightarrow> bool" where
  "decision_ok rule d \<longleftrightarrow>
     (if isAllowed d then retryAfterMillis d = 0 \<and> 0 \<le> remaining d \<and> remaining d \<le> points rule
      else 0 < retryAfterMillis d \<and> retryAfterMillis d \<le> resetMillis d \<and> remaining d = 0)"

lemma resetOf_ge: "blocked - t \<le> resetOf hs blocked rule t"
  by (simp add: resetOf_def Let_def)

lemma consume_decision_ok: "decision_ok rule (fst (mem_consume opts k rule t st))"
proof (cases rule: consume_cases [of t k rule opts st])
  case blocked
  then show ?thesis using resetOf_ge by (simp add: decision_ok_def denied_def)
next
  case (exhausted r)
  have "0 < r" unfolding exhausted(3) by (simp add: less_max_iff_disj)
  then show ?thesis unfolding exhausted(4) by (simp add: decision_ok_def denied_def)
next
  case (allowed d)
  then show ?thesis by (simp add: decision_ok_def)
qed

lemma peek_decision_ok: "decision_ok rule (mem_peek k rule t st)"
  using resetOf_ge by (simp add: decision_ok_def denied_def mem_peek_def Let_def less_max_iff_disj)

subsection \<open>The budget\<close>

definition lookups_kept :: "StoreOptions \<Rightarrow> string set \<Rightarrow> RateState \<Rightarrow> bool" where
  "lookups_kept opts K st \<longleftrightarrow> rate_inv opts st \<and> finite K \<and> int (card K) \<le> maxKeys opts \<and> set (jskeys (rateEntries st)) \<subseteq> K"

text \<open>With at most \<open>maxKeys\<close> keys in use nothing is evicted.\<close>

lemma consume_entry:
  assumes "lookups_kept opts K st" and "k \<in> K" and "mem_consume opts k rule t st = (d, st')"
  shows "lookups_kept opts K st'"
    and "k' \<noteq> k \<Longrightarrow> entry_of st' k' = entry_of (prepared opts rule t st) k'"
    and "longestWindow st' = max (longestWindow st) (windowMillis rule)"
    and "set (jskeys (rateEntries st')) = insert k (set (jskeys (rateEntries (prepared opts rule t st))))"
    and "snd (mem_consume opts k rule t st) = remember opts k e (prepared opts rule t st) \<Longrightarrow> entry_of st' k = e"
proof -
  let ?p = "prepared opts rule t st"
  have d: "distinct (jskeys (rateEntries st))" using assms(1) by (simp add: lookups_kept_def rate_inv_def)
  note keeps = prepared_keeps [OF d, of opts rule t]
  obtain e' where e': "st' = remember opts k e' ?p"
    using assms(3) by (cases rule: consume_cases [of t k rule opts st]) auto
  have room: "k \<in> set (jskeys (rateEntries ?p)) \<or> int (length (rateEntries ?p)) < maxKeys opts"
  proof (rule disjCI)
    assume "\<not> int (length (rateEntries ?p)) < maxKeys opts"
    moreover have "length (rateEntries ?p) = card (set (jskeys (rateEntries ?p)))"
      using distinct_card [OF keeps(3)] by simp
    moreover have "card (set (jskeys (rateEntries ?p))) \<le> card (K - {k})" if "k \<notin> set (jskeys (rateEntries ?p))"
      using that keeps(2) assms(1) by (intro card_mono) (auto simp: lookups_kept_def)
    moreover have "card (K - {k}) < card K" using assms(1,2) by (intro card_Diff1_less) (auto simp: lookups_kept_def)
    ultimately show "k \<in> set (jskeys (rateEntries ?p))" using assms(1) by (force simp: lookups_kept_def)
  qed
  note ent = remember_entry [OF room, of e']
  show "k' \<noteq> k \<Longrightarrow> entry_of st' k' = entry_of ?p k'" using ent(1) e' by simp
  show "longestWindow st' = max (longestWindow st) (windowMillis rule)" using ent(3) e' keeps(1) by simp
  show keys: "set (jskeys (rateEntries st')) = insert k (set (jskeys (rateEntries ?p)))" using ent(2) e' by simp
  show "lookups_kept opts K st'"
    using assms mem_consume_inv [of opts st k rule t] keys keeps(2) by (auto simp: lookups_kept_def)
  show "entry_of st' k = e" if "snd (mem_consume opts k rule t st) = remember opts k e ?p"
    using that assms(3) remember_entry(1) [OF room, of e k] by simp
qed

text \<open>A run of \<open>consume\<close> calls, every key under one rule, and the times at which a key was let through.\<close>

fun run_consumes ::
  "StoreOptions \<Rightarrow> (string \<Rightarrow> RateLimitRule) \<Rightarrow> (int \<times> string) list \<Rightarrow> RateState \<Rightarrow> (int \<times> string \<times> bool) list \<times> RateState" where
  "run_consumes opts rules [] st = ([], st)"
| "run_consumes opts rules ((t, k) # cs) st =
     (let (d, st1) = mem_consume opts k (rules k) t st; (log, st2) = run_consumes opts rules cs st1 in
      ((t, k, isAllowed d) # log, st2))"

definition allowed_times :: "string \<Rightarrow> (int \<times> string \<times> bool) list \<Rightarrow> int list" where
  "allowed_times k log = map fst (filter (\<lambda>(t, k', ok). k' = k \<and> ok) log)"

definition in_window :: "int \<Rightarrow> int \<Rightarrow> int list \<Rightarrow> int list" where
  "in_window w s ts = filter (\<lambda>h. s - w < h \<and> h \<le> s) ts"

definition windows_known :: "(string \<Rightarrow> RateLimitRule) \<Rightarrow> RateState \<Rightarrow> bool" where
  "windows_known rules st \<longleftrightarrow> (\<forall>k \<in> set (jskeys (rateEntries st)). windowMillis (rules k) \<le> longestWindow st)"

definition remembers :: "(string \<Rightarrow> RateLimitRule) \<Rightarrow> int \<Rightarrow> (string \<Rightarrow> int list) \<Rightarrow> RateState \<Rightarrow> bool" where
  "remembers rules now past st \<longleftrightarrow>
     (\<forall>k. filter (\<lambda>h. now - windowMillis (rules k) < h) (past k)
        = filter (\<lambda>h. now - windowMillis (rules k) < h) (hits (entry_of st k))
      \<and> (\<forall>h \<in> set (past k). h \<le> now)
      \<and> (\<forall>s. int (length (in_window (windowMillis (rules k)) s (past k))) \<le> max 0 (points (rules k))))"

lemma filter_later:
  fixes c c' :: int
  assumes "filter (\<lambda>h. c < h) xs = filter (\<lambda>h. c < h) ys" and "c \<le> c'"
  shows "filter (\<lambda>h. c' < h) xs = filter (\<lambda>h. c' < h) ys"
proof -
  have "filter (\<lambda>h. c' < h) zs = filter (\<lambda>h. c' < h) (filter (\<lambda>h. c < h) zs)" for zs
    using assms(2) by (induction zs) auto
  with assms(1) show ?thesis by metis
qed

lemma length_filter_imp: "(\<And>x. x \<in> set xs \<Longrightarrow> P x \<Longrightarrow> Q x) \<Longrightarrow> length (filter P xs) \<le> length (filter Q xs)"
  by (induction xs) auto

lemma in_window_snoc:
  assumes "\<forall>h \<in> set ts. h \<le> t" and "int (length (filter (\<lambda>h. t - w < h) ts)) < p"
    and "int (length (in_window w s ts)) \<le> max 0 p"
  shows "int (length (in_window w s (ts @ [t]))) \<le> max 0 p"
proof (cases "t \<le> s")
  case True
  then have "length (in_window w s ts) \<le> length (filter (\<lambda>h. t - w < h) ts)"
    unfolding in_window_def by (intro length_filter_imp) auto
  with assms(2) show ?thesis by (auto simp: in_window_def)
qed (use assms(3) in \<open>simp add: in_window_def\<close>)

lemma windows_known_consume:
  assumes "lookups_kept opts K st" and "windows_known rules st" and "k \<in> K" and "mem_consume opts k (rules k) t st = (d, st')"
  shows "windows_known rules st'"
proof -
  have "distinct (jskeys (rateEntries st))" using assms(1) by (simp add: lookups_kept_def rate_inv_def)
  from prepared_keeps(2) [OF this, of opts "rules k" t] assms(2) show ?thesis
    unfolding windows_known_def consume_entry(3,4) [OF assms(1,3,4)]
    by (auto simp: subset_iff intro: max.coboundedI1 simp del: set_map)
qed

lemma remembers_consume:
  assumes "lookups_kept opts K st" and "windows_known rules st" and "remembers rules now past st"
    and "k \<in> K" and "now \<le> t" and "mem_consume opts k (rules k) t st = (d, st')"
  shows "remembers rules t (if isAllowed d then past(k := past k @ [t]) else past) st'"
proof -
  let ?p = "prepared opts (rules k) t st" and ?past = "if isAllowed d then past(k := past k @ [t]) else past"
  let ?w = "\<lambda>j. windowMillis (rules j)"
  have d: "distinct (jskeys (rateEntries st))" using assms(1) by (simp add: lookups_kept_def rate_inv_def)
  have kept: "filter (\<lambda>h. t - ?w j < h) (hits (entry_of ?p j)) = filter (\<lambda>h. t - ?w j < h) (past j)" for j
  proof -
    have "jsget (rateEntries st) j \<noteq> None \<longrightarrow> ?w j \<le> max (longestWindow st) (?w k)"
      using assms(2) by (auto simp: windows_known_def intro: max.coboundedI1 dest: jsget_SomeD simp del: set_map)
    from prepared_invisible(1) [OF d this, of t t opts]
    have "filter (\<lambda>h. t - ?w j < h) (hits (entry_of ?p j)) = filter (\<lambda>h. t - ?w j < h) (hits (entry_of st j))" by simp
    also have "\<dots> = filter (\<lambda>h. t - ?w j < h) (past j)"
    proof (rule filter_later)
      show "filter (\<lambda>h. now - ?w j < h) (hits (entry_of st j)) = filter (\<lambda>h. now - ?w j < h) (past j)"
        using assms(3) by (simp add: remembers_def)
    qed (use assms(5) in simp)
    finally show ?thesis .
  qed
  note ent = consume_entry [OF assms(1,4,6)]
  have old: "h \<in> set (past j) \<Longrightarrow> h \<le> t" for j h using assms(3,5) by (force simp: remembers_def)
  have count: "int (length (in_window (?w j) s (past j))) \<le> max 0 (points (rules j))" for j s
    using assms(3) by (simp add: remembers_def)
  have here: "filter (\<lambda>h. t - ?w k < h) (?past k) = filter (\<lambda>h. t - ?w k < h) (hits (entry_of st' k))
      \<and> (\<forall>s. int (length (in_window (?w k) s (?past k))) \<le> max 0 (points (rules k)))"
  proof (cases rule: consume_cases [of t k "rules k" opts st])
    case blocked
    then show ?thesis using assms(6) ent(5) [of "windowOf k (rules k) t ?p"] kept [of k] count
      by (simp add: windowOf_entry denied_def)
  next
    case (exhausted r)
    then show ?thesis
      using assms(6) ent(5) [of "\<lparr>hits = hits (windowOf k (rules k) t ?p), blockedUntil = t + blockMillis (rules k)\<rparr>"]
        kept [of k] count by (simp add: windowOf_entry denied_def)
  next
    case (allowed d')
    then have "int (length (filter (\<lambda>h. t - ?w k < h) (past k))) < points (rules k)"
      using kept [of k] by (simp add: windowOf_entry)
    from in_window_snoc [OF _ this count] old have "\<forall>s. int (length (in_window (?w k) s (past k @ [t]))) \<le> max 0 (points (rules k))"
      by blast
    with allowed show ?thesis
      using assms(6) ent(5) [of "\<lparr>hits = hits (windowOf k (rules k) t ?p) @ [t], blockedUntil = 0\<rparr>"] kept [of k]
      by (simp add: windowOf_entry)
  qed
  show ?thesis
    unfolding remembers_def
  proof (intro allI conjI)
    fix j
    show "filter (\<lambda>h. t - ?w j < h) (?past j) = filter (\<lambda>h. t - ?w j < h) (hits (entry_of st' j))"
      using here kept [of j] ent(2) [of j] by (cases "j = k") auto
    show "\<forall>h \<in> set (?past j). h \<le> t" using old by auto
    show "int (length (in_window (?w j) s (?past j))) \<le> max 0 (points (rules j))" for s
      using here count [of j s] by (cases "j = k") auto
  qed
qed

lemma run_budget:
  assumes "lookups_kept opts K st" and "windows_known rules st" and "remembers rules now past st"
    and "snd ` set cs \<subseteq> K" and "sorted (now # map fst cs)"
  shows "int (length (in_window (windowMillis (rules k)) s (past k @ allowed_times k (fst (run_consumes opts rules cs st)))))
    \<le> max 0 (points (rules k))"
  using assms
proof (induction cs arbitrary: st now past)
  case Nil
  then show ?case by (simp add: allowed_times_def remembers_def)
next
  case (Cons c cs)
  obtain t j where c: "c = (t, j)" by force
  obtain d st' where d: "mem_consume opts j (rules j) t st = (d, st')" by force
  let ?past = "if isAllowed d then past(j := past j @ [t]) else past"
  have j: "j \<in> K" and t: "now \<le> t" using Cons.prems(4,5) c by auto
  have "int (length (in_window (windowMillis (rules k)) s (?past k @ allowed_times k (fst (run_consumes opts rules cs st')))))
      \<le> max 0 (points (rules k))"
    using Cons.prems(4,5) c
    by (intro Cons.IH [where now = t] consume_entry(1) [OF Cons.prems(1) j d] windows_known_consume [OF Cons.prems(1,2) j d]
          remembers_consume [OF Cons.prems(1-3) j t d]) auto
  then show ?case
    using c d by (cases "run_consumes opts rules cs st'") (auto simp: allowed_times_def split: if_splits)
qed

lemma empty_rates_ok:
  "rate_inv opts emptyRates" "windows_known rules emptyRates" "remembers rules now (\<lambda>k. []) emptyRates"
  "finite K \<Longrightarrow> int (card K) \<le> maxKeys opts \<Longrightarrow> lookups_kept opts K emptyRates"
  by (simp_all add: rate_inv_def emptyRates_def windows_known_def remembers_def in_window_def lookups_kept_def entry_of_def
      maxKeys_def)

subsection \<open>Retry-After\<close>

text \<open>A key is closed until a time: blocked that long, or with a full window that long.\<close>

definition closed_until :: "RateLimitRule \<Rightarrow> string \<Rightarrow> int \<Rightarrow> RateState \<Rightarrow> bool" where
  "closed_until rule k u st \<longleftrightarrow>
     u \<le> blockedUntil (entry_of st k)
     \<or> points rule \<le> int (length (filter (\<lambda>h. u - 1 - windowMillis rule < h) (hits (entry_of st k))))"

lemma closed_prepared:
  assumes "distinct (jskeys (rateEntries st))" and "jsget (rateEntries st) k \<noteq> None \<longrightarrow> windowMillis rule \<le> max (longestWindow st) (windowMillis rule')"
    and "closed_until rule k u st" and "t < u"
  shows "closed_until rule k u (prepared opts rule' t st)"
proof -
  have "t \<le> u - 1" using assms(4) by simp
  note inv = prepared_invisible [OF assms(1,2) this, of opts]
  show ?thesis
  proof (cases "u \<le> blockedUntil (entry_of st k)")
    case True
    with inv(2) assms(4) show ?thesis by (simp add: closed_until_def)
  next
    case False
    with assms(3) inv(1) show ?thesis by (simp add: closed_until_def)
  qed
qed

lemma closed_refuses:
  assumes "closed_until rule k u (prepared opts rule t st)" and "t < u"
  shows "\<not> isAllowed (fst (mem_consume opts k rule t st))"
proof -
  let ?e = "entry_of (prepared opts rule t st) k"
  have "length (filter (\<lambda>h. u - 1 - windowMillis rule < h) (hits ?e)) \<le> length (filter (\<lambda>h. t - windowMillis rule < h) (hits ?e))"
    using assms(2) by (intro length_filter_imp) auto
  with assms have "t < blockedUntil ?e \<or> points rule \<le> int (length (filter (\<lambda>h. t - windowMillis rule < h) (hits ?e)))"
    by (auto simp: closed_until_def)
  then show ?thesis
    by (cases rule: consume_cases [of t k rule opts st]) (auto simp: denied_def windowOf_entry)
qed

lemma filter_shorter:
  fixes c c' :: int
  shows "c \<le> c' \<Longrightarrow> filter (\<lambda>h. c' < h) (filter (\<lambda>h. c < h) xs) = filter (\<lambda>h. c' < h) xs"
  by (induction xs) auto

lemma closed_consume:
  assumes "lookups_kept opts K st" and "windows_known rules st" and "j \<in> K" and "mem_consume opts j (rules j) t st = (d, st')"
    and "closed_until (rules k) k u st" and "t < u"
  shows "closed_until (rules k) k u st'"
proof -
  let ?p = "prepared opts (rules j) t st"
  have dist: "distinct (jskeys (rateEntries st))" using assms(1) by (simp add: lookups_kept_def rate_inv_def)
  have "jsget (rateEntries st) k \<noteq> None \<longrightarrow> windowMillis (rules k) \<le> max (longestWindow st) (windowMillis (rules j))"
    using assms(2) by (auto simp: windows_known_def intro: max.coboundedI1 dest: jsget_SomeD simp del: set_map)
  from closed_prepared [OF dist this assms(5,6)] have p: "closed_until (rules k) k u ?p" .
  note ent = consume_entry [OF assms(1,3,4)]
  show ?thesis
  proof (cases "j = k")
    case False
    with p ent(2) [of k] show ?thesis by (simp add: closed_until_def)
  next
    case True
    let ?w = "windowOf k (rules k) t ?p"
    have same: "filter (\<lambda>h. u - 1 - windowMillis (rules k) < h) (hits ?w) =
        filter (\<lambda>h. u - 1 - windowMillis (rules k) < h) (hits (entry_of ?p k))"
      using assms(6) unfolding windowOf_entry by (intro filter_shorter) simp
    show ?thesis
    proof (cases rule: consume_cases [of t k "rules k" opts st])
      case blocked
      then have "entry_of st' k = ?w" using ent(5) [of ?w] True by simp
      with p same True show ?thesis by (simp add: closed_until_def windowOf_entry(2))
    next
      case (exhausted r)
      then have e: "entry_of st' k = \<lparr>hits = hits ?w, blockedUntil = t + blockMillis (rules k)\<rparr>"
        using ent(5) [of "\<lparr>hits = hits ?w, blockedUntil = t + blockMillis (rules k)\<rparr>"] True by simp
      from exhausted(1) have "\<not> u \<le> blockedUntil (entry_of ?p k)" using assms(6) True by (simp add: windowOf_entry)
      with p e same True show ?thesis by (simp add: closed_until_def)
    next
      case (allowed d')
      with closed_refuses [of "rules k" k u opts t st] p True assms(6) show ?thesis by simp
    qed
  qed
qed

lemma closed_run:
  assumes "lookups_kept opts K st" and "windows_known rules st" and "snd ` set cs \<subseteq> K" and "\<forall>c \<in> set cs. fst c < u"
    and "closed_until (rules k) k u st" and "(t, k, ok) \<in> set (fst (run_consumes opts rules cs st))"
  shows "\<not> ok"
  using assms
proof (induction cs arbitrary: st)
  case (Cons c cs)
  obtain t' j where c: "c = (t', j)" by force
  obtain d st' where d: "mem_consume opts j (rules j) t' st = (d, st')" by force
  have j: "j \<in> K" and t': "t' < u" using Cons.prems(3,4) c by auto
  note next_ok = consume_entry(1) [OF Cons.prems(1) j d] windows_known_consume [OF Cons.prems(1,2) j d]
    closed_consume [OF Cons.prems(1,2) j d Cons.prems(5) t']
  have dist: "distinct (jskeys (rateEntries st))" using Cons.prems(1) by (simp add: lookups_kept_def rate_inv_def)
  have "\<not> isAllowed d" if "j = k"
    using that d closed_refuses [OF closed_prepared [OF dist _ Cons.prems(5) t', where rule' = "rules k" and opts = opts] t']
    by simp
  moreover have "\<not> ok" if "(t, k, ok) \<in> set (fst (run_consumes opts rules cs st'))"
    using that next_ok Cons.prems(3,4) by (intro Cons.IH [of st']) auto
  ultimately show ?case
    using Cons.prems(6) c d by (cases "run_consumes opts rules cs st'") auto
qed simp

text \<open>A refusal closes the key for as long as its \<open>Retry-After\<close> says.\<close>

lemma refusal_closes:
  assumes "lookups_kept opts K st" and "k \<in> K" and "mem_consume opts k rule t st = (d, st')" and "\<not> isAllowed d"
    and "sorted (hits (entry_of (prepared opts rule t st) k))"
  shows "closed_until rule k (t + retryAfterMillis d) st'"
proof -
  let ?p = "prepared opts rule t st"
  let ?w = "windowOf k rule t ?p"
  note ent = consume_entry(5) [OF assms(1-3)]
  show ?thesis
  proof (cases rule: consume_cases [of t k rule opts st])
    case blocked
    then show ?thesis using ent [of ?w] assms(3) by (auto simp: closed_until_def denied_def)
  next
    case (exhausted r)
    have e: "entry_of st' k = \<lparr>hits = hits ?w, blockedUntil = t + blockMillis rule\<rparr>"
      using ent [of "\<lparr>hits = hits ?w, blockedUntil = t + blockMillis rule\<rparr>"] exhausted(4) by simp
    have d: "retryAfterMillis d = r" using exhausted(4) assms(3) by (auto simp: denied_def)
    show ?thesis
    proof (cases "0 < blockMillis rule")
      case True
      with e d exhausted(3) show ?thesis by (simp add: closed_until_def)
    next
      case False
      have "\<forall>h \<in> set (hits ?w). t + r - 1 - windowMillis rule < h"
      proof (cases "hits ?w")
        case (Cons oldest rest)
        have "sorted (hits ?w)" using assms(5) by (simp add: windowOf_entry sorted_wrt_filter)
        moreover have "t - windowMillis rule < oldest"
        proof -
          have "oldest \<in> set (hits ?w)" using Cons by simp
          then show ?thesis unfolding windowOf_entry by simp
        qed
        ultimately show ?thesis
          using Cons exhausted(3) False by (auto simp: until_oldest_leaves_def)
      qed simp
      then have "filter (\<lambda>h. t + r - 1 - windowMillis rule < h) (hits ?w) = hits ?w" by (simp add: filter_id_conv)
      with e d exhausted(2) show ?thesis by (simp add: closed_until_def)
    qed
  next
    case (allowed d')
    with assms(3,4) show ?thesis by simp
  qed
qed

text \<open>The facts about a state that every run with a clock that never goes back keeps.\<close>

definition hits_ordered :: "int \<Rightarrow> RateState \<Rightarrow> bool" where
  "hits_ordered now st \<longleftrightarrow> (\<forall>k. sorted (hits (entry_of st k)) \<and> (\<forall>h \<in> set (hits (entry_of st k)). h \<le> now))"

lemma hits_ordered_consume:
  assumes "lookups_kept opts K st" and "k \<in> K" and "hits_ordered now st" and "now \<le> t"
    and "mem_consume opts k rule t st = (d, st')"
  shows "hits_ordered t st'" and "sorted (hits (entry_of (prepared opts rule t st) k))"
proof -
  let ?p = "prepared opts rule t st"
  have dist: "distinct (jskeys (rateEntries st))" using assms(1) by (simp add: lookups_kept_def rate_inv_def)
  have p: "sorted (hits (entry_of ?p j)) \<and> (\<forall>h \<in> set (hits (entry_of ?p j)). h \<le> t)" for j
  proof -
    have "entry_of ?p j = entry_of st j \<or> hits (entry_of ?p j) = []"
      using sweep_entry [of "st\<lparr>longestWindow := max (longestWindow st) (windowMillis rule)\<rparr>" opts t j] dist
      by (auto simp: prepared_def entry_of_def)
    with assms(3,4) show ?thesis by (force simp: hits_ordered_def)
  qed
  then show "sorted (hits (entry_of ?p k))" by blast
  note ent = consume_entry [OF assms(1,2,5)]
  have "sorted (hits (entry_of st' k)) \<and> (\<forall>h \<in> set (hits (entry_of st' k)). h \<le> t)"
  proof (cases rule: consume_cases [of t k rule opts st])
    case blocked
    then show ?thesis using ent(5) [of "windowOf k rule t ?p"] p [of k] by (simp add: windowOf_entry sorted_wrt_filter)
  next
    case (exhausted r)
    then show ?thesis
      using ent(5) [of "\<lparr>hits = hits (windowOf k rule t ?p), blockedUntil = t + blockMillis rule\<rparr>"] p [of k]
      by (simp add: windowOf_entry sorted_wrt_filter)
  next
    case (allowed d')
    then show ?thesis
      using ent(5) [of "\<lparr>hits = hits (windowOf k rule t ?p) @ [t], blockedUntil = 0\<rparr>"] p [of k]
      by (simp add: windowOf_entry sorted_wrt_filter sorted_append)
  qed
  with p ent(2) show "hits_ordered t st'" unfolding hits_ordered_def by metis
qed

definition run_ok :: "StoreOptions \<Rightarrow> string set \<Rightarrow> (string \<Rightarrow> RateLimitRule) \<Rightarrow> int \<Rightarrow> RateState \<Rightarrow> bool" where
  "run_ok opts K rules now st \<longleftrightarrow> lookups_kept opts K st \<and> windows_known rules st \<and> hits_ordered now st"

lemma run_ok_run:
  "run_ok opts K rules now st \<Longrightarrow> snd ` set cs \<subseteq> K \<Longrightarrow> sorted (now # map fst cs) \<Longrightarrow>
    run_ok opts K rules (last (now # map fst cs)) (snd (run_consumes opts rules cs st))"
proof (induction cs arbitrary: now st)
  case (Cons c cs)
  obtain t j where c: "c = (t, j)" by force
  obtain d st' where d: "mem_consume opts j (rules j) t st = (d, st')" by force
  have ok: "lookups_kept opts K st" "windows_known rules st" "hits_ordered now st"
    using Cons.prems(1) by (simp_all add: run_ok_def)
  have j: "j \<in> K" and t: "now \<le> t" using Cons.prems(2,3) c by auto
  have "run_ok opts K rules t st'"
    using consume_entry(1) [OF ok(1) j d] windows_known_consume [OF ok(1,2) j d] hits_ordered_consume(1) [OF ok(1) j ok(3) t d]
    by (simp add: run_ok_def)
  from Cons.IH [OF this] Cons.prems(2,3) c
  have "run_ok opts K rules (last (t # map fst cs)) (snd (run_consumes opts rules cs st'))" by auto
  with c d show ?case by (cases "run_consumes opts rules cs st'") auto
qed simp

lemma run_ok_empty: "finite K \<Longrightarrow> int (card K) \<le> maxKeys opts \<Longrightarrow> run_ok opts K rules now emptyRates"
  using empty_rates_ok by (auto simp: run_ok_def hits_ordered_def emptyRates_def entry_of_def)

lemma refused_until:
  assumes "run_ok opts K rules now st" and "k \<in> K" and "now \<le> t" and "mem_consume opts k (rules k) t st = (d, st')"
    and "\<not> isAllowed d" and "snd ` set cs \<subseteq> K" and "\<forall>c \<in> set cs. fst c < t + retryAfterMillis d"
    and "(t', k, ok) \<in> set (fst (run_consumes opts rules cs st'))"
  shows "\<not> ok"
proof -
  have st: "lookups_kept opts K st" "windows_known rules st" "hits_ordered now st" using assms(1) by (simp_all add: run_ok_def)
  have "closed_until (rules k) k (t + retryAfterMillis d) st'"
    using refusal_closes [OF st(1) assms(2,4,5)] hits_ordered_consume(2) [OF st(1) assms(2) st(3) assms(3,4)] by blast
  with closed_run [OF consume_entry(1) [OF st(1) assms(2,4)] windows_known_consume [OF st(1,2) assms(2,4)] assms(6,7)] assms(8)
  show ?thesis by blast
qed

subsection \<open>The middleware over any store\<close>

text \<open>What the middleware relies on: a store answers with consistent decisions and \<open>peek\<close> spends nothing.\<close>

locale budget_store =
  fixes store :: "'w RateLimitStore" and valid :: "'w \<Rightarrow> bool"
  assumes consume_ok: "valid w \<Longrightarrow> storeConsume store k rule w = (r, w') \<Longrightarrow>
      valid w' \<and> (case r of Inl _ \<Rightarrow> True | Inr d \<Rightarrow> decision_ok rule d)"
    and peek_ok: "valid w \<Longrightarrow> storePeek store k rule w = (r, w') \<Longrightarrow>
      w' = w \<and> (case r of Inl _ \<Rightarrow> True | Inr d \<Rightarrow> decision_ok rule d)"
begin

lemma ask_keys_ok:
  assumes "valid w" and "call = storeConsume store \<or> call = storePeek store" and "0 \<le> points (groupRule grp)"
    and "ask_keys opts grp call ks w = (outs, w')"
  shows "valid w' \<and> (call = storePeek store \<longrightarrow> w' = w) \<and> length outs = length ks
    \<and> (\<forall>out \<in> set outs. decision_ok (groupRule grp) (outDecision out))"
  using assms(1,4)
proof (induction ks arbitrary: w outs w')
  case (Cons k ks)
  obtain r w1 where r: "call k (groupRule grp) w = (r, w1)" by force
  obtain outs' where outs': "ask_keys opts grp call ks w1 = (outs', w')"
    using Cons.prems(2) r by (auto simp: Let_def split: prod.splits)
  have step: "valid w1 \<and> (call = storePeek store \<longrightarrow> w1 = w) \<and> (case r of Inl _ \<Rightarrow> True | Inr d \<Rightarrow> decision_ok (groupRule grp) d)"
    using r assms(2) consume_ok [OF Cons.prems(1)] peek_ok [OF Cons.prems(1)] Cons.prems(1) by metis
  have "decision_ok (groupRule grp) (fallback opts grp)"
    using assms(3) by (simp add: fallback_def decision_ok_def)
  with Cons.IH [of w1 outs' w'] outs' step r Cons.prems(2) show ?case
    by (auto simp: Let_def split: sum.splits)
qed simp

end

lemma combine_loop_ok:
  "(isAllowed (combine_loop ds acc) \<longleftrightarrow> isAllowed acc \<and> list_all isAllowed ds)
   \<and> (\<forall>d \<in> set ds. retryAfterMillis d \<le> retryAfterMillis (combine_loop ds acc))
   \<and> retryAfterMillis acc \<le> retryAfterMillis (combine_loop ds acc)"
proof (induction ds arbitrary: acc)
  case (Cons d ds)
  obtain a where a: "combine_loop (d # ds) acc = combine_loop ds a" "isAllowed a = (isAllowed acc \<and> isAllowed d)"
    "retryAfterMillis a = max (retryAfterMillis acc) (retryAfterMillis d)" by simp
  show ?case using Cons.IH [of a] unfolding a by auto
qed simp

lemma combine_allowed: "isAllowed (combine rule ds) \<longleftrightarrow> list_all isAllowed ds"
  and combine_retry: "d \<in> set ds \<Longrightarrow> retryAfterMillis d \<le> retryAfterMillis (combine rule ds)"
  using combine_loop_ok [of ds] by (simp_all add: combine_def)

interpretation memory_rates: budget_store "memRateStore opts" "\<lambda>(now, st). rate_inv opts st"
proof
  fix w k rule r w'
  assume "case w of (now, st) \<Rightarrow> rate_inv opts st" and "storeConsume (memRateStore opts) k rule w = (r, w')"
  then show "(case w' of (now, st) \<Rightarrow> rate_inv opts st) \<and> (case r of Inl _ \<Rightarrow> True | Inr d \<Rightarrow> decision_ok rule d)"
    using mem_consume_inv [of opts "snd w" k rule "fst w"] consume_decision_ok [of rule opts k "fst w" "snd w"]
    by (auto simp: memRateStore_def Let_def split: prod.splits)
next
  fix w k rule r w'
  assume "storePeek (memRateStore opts) k rule w = (r, w')"
  then show "w' = w \<and> (case r of Inl _ \<Rightarrow> True | Inr d \<Rightarrow> decision_ok rule d)"
    using peek_decision_ok by (auto simp: memRateStore_def split: prod.splits)
qed

text \<open>One key over the in-memory store.\<close>

lemma forKeys_single:
  "forKeys opts grp [k] (storePeek (memRateStore so)) (now, st) =
     (\<lparr>outDecision = combine (groupRule grp) [mem_peek k (groupRule grp) now st], counted = True\<rparr>, (now, st))"
  "forKeys opts grp [k] (storeConsume (memRateStore so)) (now, st) =
     (\<lparr>outDecision = combine (groupRule grp) [fst (mem_consume so k (groupRule grp) now st)], counted = True\<rparr>,
      (now, snd (mem_consume so k (groupRule grp) now st)))"
  by (simp_all add: forKeys_def memRateStore_def Let_def split: prod.splits)

lemma ceil_seconds_covers: "millis \<le> 1000 * ceil_seconds millis"
  by (simp add: ceil_seconds_def)

lemma deny_response_429:
  "statusCode (deny_response c out) = 429 \<and>
   jsget (respHeaders (deny_response c out)) ''retry-after'' = Some (show_int (retry_after_seconds out))"
  by (simp add: deny_response_def stamp_response_def quotaHeaders_def Let_def)

end
