(* ===== verification/Cron.thy ===== *)
theory Cron
  imports Prelude
begin

section \<open>Cron schedules\<close>

text \<open>
  \<open>packages/jobs/src/cron.ts\<close>: the parser of five-field cron expressions, their description and the search
  for the next fire time. The time-zone formatter is \<open>Intl.DateTimeFormat\<close>: it is a parameter that gives the
  parts of the wall clock at an instant, in milliseconds since the epoch.
\<close>

subsection \<open>Fields\<close>

record InvalidCronExpression =
  badExpression :: string
  problems :: "string list"

record CronFields =
  minutes :: "nat list"
  hours :: "nat list"
  daysOfMonth :: "nat list"
  months :: "nat list"
  daysOfWeek :: "nat list"
  domRestricted :: bool
  dowRestricted :: bool

definition RANGES :: "(string \<times> nat \<times> nat) list" where
  "RANGES = [(''minute'', 0, 59), (''hour'', 0, 23), (''day-of-month'', 1, 31), (''month'', 1, 12), (''day-of-week'', 0, 6)]"

definition DAY_NAMES :: "(string \<times> nat) list" where
  "DAY_NAMES = [(''sun'', 0), (''mon'', 1), (''tue'', 2), (''wed'', 3), (''thu'', 4), (''fri'', 5), (''sat'', 6)]"

text \<open>\<open>/^(\*|\d+-\d+|\d+)(?:\/(\d+))?$/\<close>: the range and the step of one part.\<close>

definition is_number :: "string \<Rightarrow> bool" where
  "is_number s \<longleftrightarrow> s \<noteq> [] \<and> list_all is_digit s"

definition before_char :: "char \<Rightarrow> string \<Rightarrow> string" where
  "before_char c s = takeWhile (\<lambda>x. x \<noteq> c) s"

definition after_char :: "char \<Rightarrow> string \<Rightarrow> string" where
  "after_char c s = drop 1 (dropWhile (\<lambda>x. x \<noteq> c) s)"

definition is_range :: "string \<Rightarrow> bool" where
  "is_range s \<longleftrightarrow> s = ''*'' \<or> is_number s
     \<or> (CHR ''-'' \<in> set s \<and> is_number (before_char (CHR ''-'') s) \<and> is_number (after_char (CHR ''-'') s))"

definition match_part :: "string \<Rightarrow> (string \<times> string option) option" where
  "match_part s =
     (if CHR ''/'' \<in> set s
      then if is_range (before_char (CHR ''/'') s) \<and> is_number (after_char (CHR ''/'') s)
           then Some (before_char (CHR ''/'') s, Some (after_char (CHR ''/'') s)) else None
      else if is_range s then Some (s, None) else None)"

text \<open>\<open>for (let value = from; value <= to; value += step)\<close>\<close>

function step_values :: "nat \<Rightarrow> nat \<Rightarrow> nat \<Rightarrow> nat list" where
  "step_values v to step = (if v \<le> to \<and> 0 < step then v # step_values (v + step) to step else [])"
  by pat_completeness auto
termination
  by (relation "measure (\<lambda>(v, to, step). Suc to - v)") auto

declare step_values.simps [simp del]

definition bounds_of :: "string \<Rightarrow> nat \<Rightarrow> nat \<Rightarrow> nat \<times> nat" where
  "bounds_of rangePart lo hi =
     (if rangePart = ''*'' then (lo, hi)
      else if CHR ''-'' \<in> set rangePart
      then (read_nat (before_char (CHR ''-'') rangePart), read_nat (after_char (CHR ''-'') rangePart))
      else (read_nat rangePart, if CHR ''/'' \<in> set rangePart then hi else read_nat rangePart))"

definition parse_part :: "string \<Rightarrow> nat \<Rightarrow> nat \<Rightarrow> string \<Rightarrow> (string, nat list) result" where
  "parse_part nm lo hi part =
     (case match_part (trim part) of
        None \<Rightarrow> Inl (nm @ '': cannot parse '' @ quoted part)
      | Some (rangePart, stepPart) \<Rightarrow>
          (let step = (case stepPart of None \<Rightarrow> 1 | Some ds \<Rightarrow> read_nat ds) in
           if \<not> is_finite_number step \<or> step < 1 then Inl (nm @ '': step must be a positive integer'')
           else let (from_v, to_v) = bounds_of rangePart lo hi in
             if \<not> is_finite_number from_v \<or> \<not> is_finite_number to_v \<or> from_v < lo \<or> to_v > hi \<or> from_v > to_v
             then Inl (nm @ '': values must be within '' @ show_nat lo @ ''-'' @ show_nat hi)
             else Inr (step_values from_v to_v step)))"

fun parse_parts :: "string \<Rightarrow> nat \<Rightarrow> nat \<Rightarrow> string list \<Rightarrow> nat list \<Rightarrow> (string, nat list) result" where
  "parse_parts nm lo hi [] vals = Inr (sort (remdups vals))"
| "parse_parts nm lo hi (part # parts) vals =
     bind_result (parse_part nm lo hi part) (\<lambda>vs. parse_parts nm lo hi parts (vals @ vs))"

definition parseField :: "string \<Rightarrow> string \<Rightarrow> nat \<Rightarrow> nat \<Rightarrow> (string, nat list) result" where
  "parseField field nm lo hi = parse_parts nm lo hi (split_char (CHR '','') field) []"

text \<open>\<open>\b(sun|...)\b\<close>, case-insensitively: a day name is replaced where it is a whole word.\<close>

definition word_char :: "char \<Rightarrow> bool" where
  "word_char c \<longleftrightarrow> is_digit c \<or> c = CHR ''_'' \<or> 97 \<le> (of_char (lower_char c) :: nat) \<and> (of_char (lower_char c) :: nat) \<le> 122"

function replace_words :: "(string \<Rightarrow> string) \<Rightarrow> string \<Rightarrow> string" where
  "replace_words f [] = []"
| "replace_words f (c # cs) =
     (if word_char c then f (c # takeWhile word_char cs) @ replace_words f (dropWhile word_char cs)
      else c # replace_words f cs)"
  by pat_completeness auto
termination
  by (relation "measure (\<lambda>(f, s). length s)") (auto simp: le_imp_less_Suc length_dropWhile_le)

definition normalize_field :: "string \<Rightarrow> string" where
  "normalize_field part =
     replace_words (\<lambda>w. case map_of DAY_NAMES (map lower_char w) of None \<Rightarrow> w | Some n \<Rightarrow> show_nat n)
       (if part = ''7'' then ''0'' else part)"

definition problems_of :: "(string, nat list) result list \<Rightarrow> string list" where
  "problems_of rs = concat (map (\<lambda>r. case r of Inl e \<Rightarrow> [e] | Inr _ \<Rightarrow> []) rs)"

definition values_of :: "(string, nat list) result \<Rightarrow> nat list" where
  "values_of r = (case r of Inl _ \<Rightarrow> [] | Inr vs \<Rightarrow> vs)"

definition parseCron :: "string \<Rightarrow> (InvalidCronExpression, CronFields) result" where
  "parseCron expression =
     (let parts = split_spaces (trim expression) in
      if length parts \<noteq> 5
      then Inl \<lparr>badExpression = expression, problems =
             [''expected 5 fields (minute hour day-of-month month day-of-week), got '' @ show_nat (length parts)]\<rparr>
      else
        let parsed = map (\<lambda>((nm, lo, hi), part). parseField (normalize_field part) nm lo hi) (zip RANGES parts);
            vals = map values_of parsed in
        if problems_of parsed \<noteq> [] then Inl \<lparr>badExpression = expression, problems = problems_of parsed\<rparr>
        else Inr \<lparr>minutes = vals ! 0, hours = vals ! 1, daysOfMonth = vals ! 2, months = vals ! 3, daysOfWeek = vals ! 4,
               domRestricted = length (vals ! 2) \<noteq> 31, dowRestricted = length (vals ! 4) \<noteq> 7\<rparr>)"

definition DAYS :: "string list" where
  "DAYS = [''sun'', ''mon'', ''tue'', ''wed'', ''thu'', ''fri'', ''sat'']"

definition describeCron :: "CronFields \<Rightarrow> string" where
  "describeCron cron =
     (let pad = (\<lambda>n. pad_start 2 (show_nat n));
          time = (if length (hours cron) = 24 \<and> length (minutes cron) = 60 then ''every minute''
            else join '', '' (concat (map (\<lambda>h. map (\<lambda>m. pad h @ '':'' @ pad m) (minutes cron)) (hours cron))));
          days = (if dowRestricted cron
            then join '', '' (map (\<lambda>d. if d < length DAYS then DAYS ! d else show_nat d) (daysOfWeek cron))
            else ''every day'');
          mons = (if length (months cron) = 12 then [] else '' in months '' @ join '','' (map show_nat (months cron)));
          dom = (if domRestricted cron then '' on days '' @ join '','' (map show_nat (daysOfMonth cron)) else []) in
      ''at '' @ time @ '' '' @ days @ dom @ mons)"

subsection \<open>Instants and wall clocks\<close>

text \<open>\<open>Date.UTC\<close>: the day number of a date in the proleptic Gregorian calendar, years 0 to 99 read as 1900 to 1999.\<close>

definition day_from_year :: "int \<Rightarrow> int" where
  "day_from_year y = 365 * (y - 1970) + (y - 1969) div 4 - (y - 1901) div 100 + (y - 1601) div 400"

definition leap :: "int \<Rightarrow> bool" where
  "leap y \<longleftrightarrow> y mod 4 = 0 \<and> (y mod 100 \<noteq> 0 \<or> y mod 400 = 0)"

definition month_days :: "int \<Rightarrow> int list" where
  "month_days y = [31, if leap y then 29 else 28, 31, 30, 31, 30, 31, 31, 30, 31, 30, 31]"

definition make_day :: "int \<Rightarrow> int \<Rightarrow> int \<Rightarrow> int" where
  "make_day y m d =
     day_from_year (y + m div 12) + sum_list (take (nat (m mod 12)) (month_days (y + m div 12))) + d - 1"

definition ms_per_day :: int where "ms_per_day = 86400000"

definition Date_UTC :: "int \<Rightarrow> int \<Rightarrow> int \<Rightarrow> int \<Rightarrow> int \<Rightarrow> int" where
  "Date_UTC y m d h mi =
     make_day (if 0 \<le> y \<and> y \<le> 99 then 1900 + y else y) m d * ms_per_day + h * 3600000 + mi * 60000"

record FormatParts =
  partYear :: int
  partMonth :: int
  partDay :: int
  partHour :: int
  partMinute :: int
  partWeekday :: string

record WallClock =
  wYear :: int
  wMonth :: int
  wDay :: int
  wHour :: int
  wMinute :: int
  wWeekday :: int

definition weekdayIndex :: "(string \<times> int) list" where
  "weekdayIndex = [(''Sun'', 0), (''Mon'', 1), (''Tue'', 2), (''Wed'', 3), (''Thu'', 4), (''Fri'', 5), (''Sat'', 6)]"

definition wallClockOf :: "int \<Rightarrow> (int \<Rightarrow> FormatParts) \<Rightarrow> WallClock" where
  "wallClockOf t formatter =
     (let parts = formatter t in
      \<lparr>wYear = partYear parts, wMonth = partMonth parts, wDay = partDay parts, wHour = partHour parts mod 24,
       wMinute = partMinute parts, wWeekday = getOr 0 (map_of weekdayIndex (partWeekday parts))\<rparr>)"

definition instantFromWallClock ::
  "int \<Rightarrow> int \<Rightarrow> int \<Rightarrow> int \<Rightarrow> int \<Rightarrow> (int \<Rightarrow> FormatParts) \<Rightarrow> int" where
  "instantFromWallClock y mo d h mi formatter =
     (let guess = Date_UTC y (mo - 1) d h mi;
          at_guess = wallClockOf guess formatter;
          wall_as_utc = Date_UTC (wYear at_guess) (wMonth at_guess - 1) (wDay at_guess) (wHour at_guess) (wMinute at_guess) in
      guess - (wall_as_utc - guess))"

definition dayMatches :: "WallClock \<Rightarrow> CronFields \<Rightarrow> bool" where
  "dayMatches c cron \<longleftrightarrow>
     (if wMonth c \<notin> int ` set (months cron) then False
      else let domOk = wDay c \<in> int ` set (daysOfMonth cron); dowOk = wWeekday c \<in> int ` set (daysOfWeek cron) in
        if domRestricted cron \<and> dowRestricted cron then domOk \<or> dowOk
        else if domRestricted cron then domOk
        else if dowRestricted cron then dowOk
        else True)"

definition SEARCH_LIMIT_DAYS :: nat where "SEARCH_LIMIT_DAYS = 400"

text \<open>The fire times the schedule asks for on the day of a wall clock.\<close>

definition day_candidates :: "(int \<Rightarrow> FormatParts) \<Rightarrow> WallClock \<Rightarrow> CronFields \<Rightarrow> int list" where
  "day_candidates formatter c cron =
     concat (map (\<lambda>h. map (\<lambda>m. instantFromWallClock (wYear c) (wMonth c) (wDay c) (int h) (int m) formatter)
       (minutes cron)) (hours cron))"

fun next_loop :: "int \<Rightarrow> CronFields \<Rightarrow> (int \<Rightarrow> FormatParts) \<Rightarrow> int \<Rightarrow> nat list \<Rightarrow> int option" where
  "next_loop after cron formatter base [] = None"
| "next_loop after cron formatter base (k # ks) =
     (let dayClock = wallClockOf (base + int k * ms_per_day) formatter in
      if \<not> dayMatches dayClock cron then next_loop after cron formatter base ks
      else case find (\<lambda>t. after < t) (day_candidates formatter dayClock cron) of
        Some t \<Rightarrow> Some t
      | None \<Rightarrow> next_loop after cron formatter base ks)"

definition nextRun :: "int \<Rightarrow> CronFields \<Rightarrow> (int \<Rightarrow> FormatParts) \<Rightarrow> int option" where
  "nextRun after cron formatter =
     (let start = wallClockOf after formatter;
          base = instantFromWallClock (wYear start) (wMonth start) (wDay start) 0 0 formatter in
      next_loop after cron formatter base [0..<Suc SEARCH_LIMIT_DAYS])"

text \<open>In any zone, a next run lies strictly after the given instant.\<close>

lemma next_loop_after: "next_loop after cron formatter base ks = Some t \<Longrightarrow> after < t"
  by (induction ks) (auto simp: Let_def find_Some_iff split: if_splits option.splits)

lemma nextRun_after: "nextRun after cron formatter = Some t \<Longrightarrow> after < t"
  by (auto simp: nextRun_def Let_def dest: next_loop_after)

subsection \<open>What a field denotes\<close>

text \<open>The parts of a field as data, what they print to and which values they stand for.\<close>

datatype cron_part = Every "nat option" | Single nat "nat option" | Span nat nat "nat option"

fun print_range :: "cron_part \<Rightarrow> string" where
  "print_range (Every s) = ''*''"
| "print_range (Single n s) = show_nat n"
| "print_range (Span a b s) = show_nat a @ ''-'' @ show_nat b"

fun part_step :: "cron_part \<Rightarrow> nat option" where
  "part_step (Every s) = s"
| "part_step (Single n s) = s"
| "part_step (Span a b s) = s"

definition print_part :: "cron_part \<Rightarrow> string" where
  "print_part p = print_range p @ (case part_step p of None \<Rightarrow> [] | Some s \<Rightarrow> ''/'' @ show_nat s)"

text \<open>
  The first and the last value of a part as the documentation has it, where a single value with a step, such as \<open>0/10\<close>, goes on to
  the end of the range of the field, and as the code has it, where it ends at the value itself.
\<close>

fun denoted_bounds :: "nat \<Rightarrow> nat \<Rightarrow> cron_part \<Rightarrow> nat \<times> nat" where
  "denoted_bounds lo hi (Every s) = (lo, hi)"
| "denoted_bounds lo hi (Single n None) = (n, n)"
| "denoted_bounds lo hi (Single n (Some s)) = (n, hi)"
| "denoted_bounds lo hi (Span a b s) = (a, b)"

definition denotes :: "nat \<Rightarrow> nat \<Rightarrow> cron_part \<Rightarrow> nat set" where
  "denotes lo hi p =
     (case denoted_bounds lo hi p of (a, b) \<Rightarrow> {v. \<exists>k. v = a + k * getOr 1 (part_step p) \<and> v \<le> b})"

fun stepped_single :: "cron_part \<Rightarrow> bool" where
  "stepped_single (Single n (Some s)) = True"
| "stepped_single p = False"

fun part_bounds :: "nat \<Rightarrow> nat \<Rightarrow> cron_part \<Rightarrow> nat \<times> nat" where
  "part_bounds lo hi (Every s) = (lo, hi)"
| "part_bounds lo hi (Single n s) = (n, n)"
| "part_bounds lo hi (Span a b s) = (a, b)"

definition part_ok :: "nat \<Rightarrow> nat \<Rightarrow> cron_part \<Rightarrow> bool" where
  "part_ok lo hi p \<longleftrightarrow> hi < 1000000 \<and> 0 < getOr 1 (part_step p) \<and> getOr 1 (part_step p) < 1000000 \<and>
     (case part_bounds lo hi p of (a, b) \<Rightarrow> lo \<le> a \<and> a \<le> b \<and> b \<le> hi)"

definition part_values :: "nat \<Rightarrow> nat \<Rightarrow> cron_part \<Rightarrow> nat set" where
  "part_values lo hi p =
     (case part_bounds lo hi p of (a, b) \<Rightarrow> {v. \<exists>k. v = a + k * getOr 1 (part_step p) \<and> v \<le> b})"

lemma part_values_denoted: "\<not> stepped_single p \<Longrightarrow> part_values lo hi p = denotes lo hi p"
  by (cases p rule: stepped_single.cases) (simp_all add: part_values_def denotes_def)

lemma part_values_single [simp]: "part_values lo hi (Single n s) = {n}"
proof -
  have "v = n + k * getOr 1 s \<and> v \<le> n \<Longrightarrow> v = n" for v k by auto
  then show ?thesis by (auto simp: part_values_def intro: exI [of _ 0])
qed

lemma stepped_single_denotes_next: "n + s \<le> hi \<Longrightarrow> n + s \<in> denotes lo hi (Single n (Some s))"
  by (auto simp: denotes_def intro: exI [of _ 1])

lemma set_step_values:
  "0 < step \<Longrightarrow> set (step_values a b step) = {v. \<exists>k. v = a + k * step \<and> v \<le> b}"
proof (induction a b step rule: step_values.induct)
  case (1 a b step)
  show ?case
  proof (cases "a \<le> b")
    case True
    have "{v. \<exists>k. v = a + k * step \<and> v \<le> b} = insert a {v. \<exists>k. v = a + step + k * step \<and> v \<le> b}"
    proof (intro equalityI subsetI)
      fix v assume "v \<in> {v. \<exists>k. v = a + k * step \<and> v \<le> b}"
      then obtain k where "v = a + k * step" "v \<le> b" by blast
      then show "v \<in> insert a {v. \<exists>k. v = a + step + k * step \<and> v \<le> b}"
        by (cases k) auto
    next
      fix v assume "v \<in> insert a {v. \<exists>k. v = a + step + k * step \<and> v \<le> b}"
      then consider "v = a" | k where "v = a + step + k * step" "v \<le> b" by auto
      then show "v \<in> {v. \<exists>k. v = a + k * step \<and> v \<le> b}"
      proof cases
        case 1
        with True show ?thesis by (auto intro: exI [of _ 0])
      next
        case (2 k)
        then show ?thesis by (auto intro: exI [of _ "Suc k"])
      qed
    qed
    with True 1 show ?thesis by (simp add: step_values.simps [of a])
  qed (use 1 in \<open>auto simp: step_values.simps [of a]\<close>)
qed

lemma trim_no_space: "\<forall>c \<in> set s. \<not> js_space c \<Longrightarrow> trim s = s"
proof -
  assume plain: "\<forall>c \<in> set s. \<not> js_space c"
  have keep: "\<forall>c \<in> set t. \<not> js_space c \<Longrightarrow> dropWhile js_space t = t" for t by (cases t) auto
  from plain show ?thesis by (simp add: trim_def keep)
qed

lemma split_char_join:
  "ws \<noteq> [] \<Longrightarrow> \<forall>w \<in> set ws. c \<notin> set w \<Longrightarrow> split_char c (join [c] ws) = ws"
proof (induction ws)
  case (Cons w ws)
  have app: "c \<notin> set w \<Longrightarrow> split_char c (w @ c # rest) = w # split_char c rest" for w rest
    by (induction w) (auto split: list.splits)
  show ?case
  proof (cases ws)
    case Nil
    with Cons.prems show ?thesis by (simp add: join_def split_char_none)
  next
    case (Cons v vs)
    then have "join [c] (w # ws) = w @ c # join [c] ws" by (simp add: join_def)
    with Cons Cons.IH Cons.prems app [of w] show ?thesis by simp
  qed
qed simp

definition cron_chars :: "char set" where
  "cron_chars = {c. is_digit c} \<union> {CHR ''*'', CHR ''-'', CHR ''/''}"

lemma print_part_chars: "set (print_part p) \<subseteq> cron_chars"
  using show_nat_digits
  by (cases p) (auto simp: print_part_def cron_chars_def split: option.splits)

lemma cron_chars_plain: "c \<in> cron_chars \<Longrightarrow> \<not> js_space c \<and> c \<noteq> CHR '',''"
  by (auto simp: cron_chars_def is_digit_def js_space_def)

lemma digits_not_sep: "c \<in> set (show_nat n) \<Longrightarrow> c \<noteq> CHR ''-'' \<and> c \<noteq> CHR ''/'' \<and> c \<noteq> CHR ''*''"
  using show_nat_digits [of n] by (auto simp: is_digit_def)

lemma before_char_sep [simp]: "c \<notin> set a \<Longrightarrow> before_char c (a @ c # b) = a"
  and after_char_sep [simp]: "c \<notin> set a \<Longrightarrow> after_char c (a @ c # b) = b"
  by (auto simp: before_char_def after_char_def takeWhile_append dropWhile_append)

lemma is_number_show_nat [simp]: "is_number (show_nat n)"
  using show_nat_digits [of n] by (simp add: is_number_def list_all_iff)

lemma show_nat_seps [simp]: "CHR ''-'' \<notin> set (show_nat n)" "CHR ''/'' \<notin> set (show_nat n)" "show_nat n \<noteq> ''*''"
  using digits_not_sep [of _ n] by force+

lemma is_range_print_range [simp]: "is_range (print_range p)"
  by (cases p) (auto simp: is_range_def)

lemma print_range_no_slash [simp]: "CHR ''/'' \<notin> set (print_range p)"
  by (cases p) auto

lemma bounds_of_print [simp]: "bounds_of (print_range p) lo hi = part_bounds lo hi p"
proof (cases p)
  case (Span a b s)
  have "show_nat a @ CHR ''-'' # show_nat b \<noteq> ''*''" using show_nat_seps(3) by (cases "show_nat a") auto
  with Span show ?thesis by (simp add: bounds_of_def)
qed (simp_all add: bounds_of_def)

lemma match_print_part: "match_part (print_part p) = Some (print_range p, map_option show_nat (part_step p))"
  by (cases "part_step p") (simp_all add: match_part_def print_part_def)

lemma trim_print_part [simp]: "trim (print_part p) = print_part p"
  using print_part_chars [of p] cron_chars_plain by (intro trim_no_space) blast

lemma parse_print_part:
  assumes "part_ok lo hi p"
  obtains vs where "parse_part nm lo hi (print_part p) = Inr vs" and "set vs = part_values lo hi p"
proof -
  obtain a b where ab: "part_bounds lo hi p = (a, b)" by force
  let ?step = "getOr 1 (part_step p)"
  have ok: "0 < ?step" "is_finite_number ?step" "is_finite_number a" "is_finite_number b" "lo \<le> a" "a \<le> b" "b \<le> hi"
    using assms ab by (auto simp: part_ok_def)
  have "parse_part nm lo hi (print_part p) = Inr (step_values a b ?step)"
    using ok by (cases "part_step p") (simp_all add: parse_part_def match_print_part ab)
  moreover have "set (step_values a b ?step) = part_values lo hi p"
    using ok ab by (simp add: set_step_values part_values_def)
  ultimately show ?thesis by (rule that)
qed

lemma parse_parts_values:
  assumes "\<forall>p \<in> set ps. part_ok lo hi p"
  shows "parse_parts nm lo hi (map print_part ps) vals =
    Inr (sorted_list_of_set (set vals \<union> (\<Union>p \<in> set ps. part_values lo hi p)))"
  using assms
proof (induction ps arbitrary: vals)
  case Nil
  show ?case by (simp add: sorted_list_of_set_sort_remdups)
next
  case (Cons p ps)
  then have p: "part_ok lo hi p" and ps: "\<forall>p \<in> set ps. part_ok lo hi p" by simp_all
  obtain vs where vs: "parse_part nm lo hi (print_part p) = Inr vs" "set vs = part_values lo hi p"
    by (rule parse_print_part [OF p])
  have "set (vals @ vs) \<union> \<Union> (part_values lo hi ` set ps) = set vals \<union> \<Union> (part_values lo hi ` set (p # ps))"
    using vs(2) by auto
  with vs(1) Cons.IH [OF ps, of "vals @ vs"] show ?case by simp
qed

lemma parseField_part_values:
  assumes "ps \<noteq> []" and "\<forall>p \<in> set ps. part_ok lo hi p"
  shows "parseField (join '','' (map print_part ps)) nm lo hi =
    Inr (sorted_list_of_set (\<Union>p \<in> set ps. part_values lo hi p))"
proof -
  have "\<forall>w \<in> set (map print_part ps). CHR '','' \<notin> set w"
    using print_part_chars cron_chars_plain by fastforce
  then show ?thesis
    using assms parse_parts_values [OF assms(2), of nm "[]"] by (simp add: parseField_def split_char_join)
qed

text \<open>Every parsed field is sorted, without duplicates and within its range.\<close>

lemma parse_part_range: "parse_part nm lo hi part = Inr vs \<Longrightarrow> set vs \<subseteq> {lo..hi}"
  by (auto simp: parse_part_def Let_def set_step_values split: option.splits prod.splits if_splits)

lemma parse_parts_range:
  "parse_parts nm lo hi parts vals = Inr vs \<Longrightarrow> set vals \<subseteq> {lo..hi} \<Longrightarrow>
    sorted vs \<and> distinct vs \<and> set vs \<subseteq> {lo..hi}"
proof (induction nm lo hi parts vals rule: parse_parts.induct)
  case (2 nm lo hi part parts vals)
  then obtain us where us: "parse_part nm lo hi part = Inr us" "parse_parts nm lo hi parts (vals @ us) = Inr vs"
    by (cases "parse_part nm lo hi part") auto
  with 2 parse_part_range [OF us(1)] show ?case by simp
qed auto

lemma parseField_range:
  "parseField field nm lo hi = Inr vs \<Longrightarrow> sorted vs \<and> distinct vs \<and> set vs \<subseteq> {lo..hi}"
  by (auto simp: parseField_def dest!: parse_parts_range)

subsection \<open>The next fire time\<close>

lemma Date_UTC_time: "Date_UTC y m d h mi = Date_UTC y m d 0 0 + h * 3600000 + mi * 60000"
  by (simp add: Date_UTC_def)

lemma find_sorted:
  assumes "sorted xs" and "find (\<lambda>t. a < t) xs = Some t"
  shows "t \<in> set xs \<and> a < t \<and> (\<forall>u \<in> set xs. a < u \<longrightarrow> t \<le> u)"
  using assms by (induction xs) (auto split: if_splits)

lemma minutes_of_day:
  fixes l :: int
  shows "l div ms_per_day * ms_per_day + l div 3600000 mod 24 * 3600000 + l div 60000 mod 60 * 60000 = l div 60000 * 60000"
proof -
  have "l div 3600000 = l div 60000 div 60" and "l div ms_per_day = l div 60000 div 60 div 24"
    by (simp_all add: ms_per_day_def div_mult2_eq [symmetric] zdiv_zmult2_eq [symmetric])
  moreover have "q div 60 div 24 * 86400000 + q div 60 mod 24 * 3600000 + q mod 60 * 60000 = q * 60000" for q :: int
    using div_mult_mod_eq [of q 60] div_mult_mod_eq [of "q div 60" 24] by linarith
  ultimately show ?thesis by (simp add: ms_per_day_def)
qed

text \<open>The schedule asks for a fire at an instant: a whole local minute whose day, hour and minute it lists.\<close>

definition cron_fires :: "(int \<Rightarrow> FormatParts) \<Rightarrow> int \<Rightarrow> CronFields \<Rightarrow> int \<Rightarrow> bool" where
  "cron_fires formatter off cron t \<longleftrightarrow>
     (t + off) mod 60000 = 0 \<and> dayMatches (wallClockOf t formatter) cron
     \<and> wHour (wallClockOf t formatter) \<in> int ` set (hours cron)
     \<and> wMinute (wallClockOf t formatter) \<in> int ` set (minutes cron)"

definition cron_wf :: "CronFields \<Rightarrow> bool" where
  "cron_wf cron \<longleftrightarrow> sorted (hours cron) \<and> distinct (hours cron) \<and> set (hours cron) \<subseteq> {0..23}
     \<and> sorted (minutes cron) \<and> distinct (minutes cron) \<and> set (minutes cron) \<subseteq> {0..59}"

text \<open>
  A zone at a fixed offset from UTC, from the epoch on: what the formatter of such a zone is documented to
  give. The date is that of the local day, the hour (0 or 24 at midnight) and the minute are those of the local time.
\<close>

locale fixed_zone =
  fixes formatter :: "int \<Rightarrow> FormatParts" and off :: int
  assumes off_minutes: "off mod 60000 = 0" and off_small: "\<bar>off\<bar> \<le> ms_per_day"
    and zone_date: "0 \<le> t \<Longrightarrow>
      Date_UTC (partYear (formatter t)) (partMonth (formatter t) - 1) (partDay (formatter t)) 0 0
        = (t + off) div ms_per_day * ms_per_day"
    and zone_hour: "0 \<le> t \<Longrightarrow> partHour (formatter t) mod 24 = (t + off) div 3600000 mod 24"
    and zone_minute: "0 \<le> t \<Longrightarrow> partMinute (formatter t) = (t + off) div 60000 mod 60"
    and zone_day: "0 \<le> t \<Longrightarrow> 0 \<le> u \<Longrightarrow> (t + off) div ms_per_day = (u + off) div ms_per_day \<Longrightarrow>
      partYear (formatter t) = partYear (formatter u) \<and> partMonth (formatter t) = partMonth (formatter u)
      \<and> partDay (formatter t) = partDay (formatter u) \<and> partWeekday (formatter t) = partWeekday (formatter u)"
begin

definition local_day :: "int \<Rightarrow> int" where
  "local_day t = (t + off) div ms_per_day"

definition slot :: "int \<Rightarrow> nat \<Rightarrow> nat \<Rightarrow> int" where
  "slot n h m = n * ms_per_day + int h * 3600000 + int m * 60000 - off"

abbreviation clock :: "int \<Rightarrow> WallClock" where
  "clock t \<equiv> wallClockOf t formatter"

lemma clock_as_utc:
  assumes "0 \<le> t"
  shows "Date_UTC (wYear (clock t)) (wMonth (clock t) - 1) (wDay (clock t)) (wHour (clock t)) (wMinute (clock t))
    = (t + off) div 60000 * 60000"
  using zone_date [OF assms] zone_hour [OF assms] zone_minute [OF assms] minutes_of_day [of "t + off"]
  by (simp add: wallClockOf_def Let_def Date_UTC_time [of _ _ _ "_ mod _"])

lemma instant_slot:
  assumes "0 \<le> t" and "0 \<le> slot (local_day t) h m + off"
  shows "instantFromWallClock (wYear (clock t)) (wMonth (clock t)) (wDay (clock t)) (int h) (int m) formatter = slot (local_day t) h m"
proof -
  let ?g = "Date_UTC (wYear (clock t)) (wMonth (clock t) - 1) (wDay (clock t)) (int h) (int m)"
  have g: "?g = slot (local_day t) h m + off"
    using zone_date [OF assms(1)]
    by (simp add: Date_UTC_time [of _ _ _ "int h"] slot_def local_day_def wallClockOf_def Let_def)
  have "?g + off = off + 60000 * (local_day t * 1440 + int h * 60 + int m)"
    unfolding g by (simp add: slot_def ms_per_day_def)
  then have "60000 dvd ?g + off" using off_minutes by (simp add: dvd_add mod_0_imp_dvd)
  then have "(?g + off) div 60000 * 60000 = ?g + off" by simp
  moreover have "0 \<le> ?g" using assms(2) g by simp
  ultimately show ?thesis using clock_as_utc [of ?g] g by (simp add: instantFromWallClock_def Let_def)
qed

lemma local_time: "slot n h m = t \<longleftrightarrow> t + off = 60000 * (n * 1440 + int h * 60 + int m)"
  by (auto simp: slot_def ms_per_day_def)

lemma fires_slot:
  assumes "0 \<le> t" and "cron_wf cron"
  shows "cron_fires formatter off cron t \<longleftrightarrow> dayMatches (clock t) cron
    \<and> (\<exists>h \<in> set (hours cron). \<exists>m \<in> set (minutes cron). t = slot (local_day t) h m)"
proof -
  let ?l = "t + off"
  have whole: "?l mod 60000 = 0 \<longleftrightarrow> ?l div 60000 * 60000 = ?l" using div_mult_mod_eq [of ?l 60000] by linarith
  have clk: "wHour (clock t) = ?l div 3600000 mod 24" "wMinute (clock t) = ?l div 60000 mod 60"
    using zone_hour [OF assms(1)] zone_minute [OF assms(1)] by (simp_all add: wallClockOf_def Let_def)
  have "?l mod 60000 = 0 \<and> ?l div 3600000 mod 24 = int h \<and> ?l div 60000 mod 60 = int m \<longleftrightarrow> t = slot (local_day t) h m"
    if h: "h \<in> set (hours cron)" and m: "m \<in> set (minutes cron)" for h m
  proof
    assume a: "?l mod 60000 = 0 \<and> ?l div 3600000 mod 24 = int h \<and> ?l div 60000 mod 60 = int m"
    with minutes_of_day [of ?l] whole show "t = slot (local_day t) h m" by (simp add: slot_def local_day_def)
  next
    assume "t = slot (local_day t) h m"
    then have q: "?l = 60000 * (local_day t * 1440 + int h * 60 + int m)" using local_time by metis
    then have d: "?l div 60000 = local_day t * 1440 + int h * 60 + int m" by simp
    have "int h < 24" "int m < 60" using assms(2) h m by (auto simp: cron_wf_def)
    have dh: "?l div 3600000 = ?l div 60000 div 60" by (simp add: zdiv_zmult2_eq [symmetric])
    have split: "local_day t * 1440 + int h * 60 + int m = int m + 60 * (local_day t * 24 + int h)" by simp
    have "(int m + 60 * (local_day t * 24 + int h)) div 60 = local_day t * 24 + int h"
      and "(int m + 60 * (local_day t * 24 + int h)) mod 60 = int m"
      using \<open>int m < 60\<close> by (simp_all only: div_mult_self2 mod_mult_self2) simp_all
    moreover have "(local_day t * 24 + int h) mod 24 = int h" using \<open>int h < 24\<close> by simp
    moreover have "?l mod 60000 = 0" unfolding q by simp
    ultimately show "?l mod 60000 = 0 \<and> ?l div 3600000 mod 24 = int h \<and> ?l div 60000 mod 60 = int m"
      unfolding dh d split by metis
  qed
  then have eq: "(\<exists>h \<in> set (hours cron). \<exists>m \<in> set (minutes cron). t = slot (local_day t) h m) \<longleftrightarrow>
      (\<exists>h \<in> set (hours cron). \<exists>m \<in> set (minutes cron).
         ?l mod 60000 = 0 \<and> ?l div 3600000 mod 24 = int h \<and> ?l div 60000 mod 60 = int m)"
    by (intro bex_cong) simp_all
  show ?thesis unfolding cron_fires_def clk image_iff eq by auto
qed

lemma same_day_matches:
  assumes "0 \<le> t" and "0 \<le> u" and "local_day t = local_day u"
  shows "dayMatches (clock t) cron = dayMatches (clock u) cron"
  using zone_day [OF assms(1,2)] assms(3) by (simp add: local_day_def dayMatches_def wallClockOf_def Let_def)

definition slots :: "int \<Rightarrow> CronFields \<Rightarrow> int list" where
  "slots n cron = concat (map (\<lambda>h. map (slot n h) (minutes cron)) (hours cron))"

lemma day_candidates_slots:
  assumes "0 \<le> t" and "0 \<le> local_day t"
  shows "day_candidates formatter (clock t) cron = slots (local_day t) cron"
proof -
  have "0 \<le> slot (local_day t) h m + off" for h m
    using assms(2) by (simp add: slot_def ms_per_day_def)
  then show ?thesis by (simp add: day_candidates_def slots_def instant_slot [OF assms(1)])
qed

lemma sorted_slots:
  assumes "cron_wf cron"
  shows "sorted (slots n cron)"
proof -
  have m: "sorted (map (slot n h) (minutes cron))" for h
    using assms unfolding cron_wf_def sorted_map by (auto simp: slot_def elim!: sorted_wrt_mono_rel [rotated])
  have lt: "slot n h m \<le> slot n h' m'" if "h < h'" "m \<le> 59" for h h' m m'
    using that by (simp add: slot_def)
  have "sorted (concat (map (\<lambda>h. map (slot n h) (minutes cron)) hs))" if "sorted hs" "distinct hs" for hs
    using that
  proof (induction hs)
    case (Cons h hs)
    then have "\<forall>h' \<in> set hs. h < h'" by (auto simp: less_le)
    then show ?case
      using Cons m [of h] lt assms by (fastforce simp: sorted_append cron_wf_def)
  qed simp
  then show ?thesis using assms by (simp add: slots_def cron_wf_def)
qed

lemma next_loop_spec:
  assumes "cron_wf cron" and "0 \<le> base" and "0 \<le> local_day base" and "sorted_wrt (<) ks"
  defines "day_fires \<equiv> \<lambda>k. if dayMatches (clock (base + int k * ms_per_day)) cron
      then set (slots (local_day base + int k) cron) else {}"
  shows "case next_loop after cron formatter base ks of
      None \<Rightarrow> \<forall>k \<in> set ks. \<forall>u \<in> day_fires k. u \<le> after
    | Some t \<Rightarrow> after < t \<and> (\<exists>k \<in> set ks. t \<in> day_fires k \<and>
        (\<forall>j \<in> set ks. j \<le> k \<longrightarrow> (\<forall>u \<in> day_fires j. after < u \<longrightarrow> t \<le> u)))"
  using assms(4)
proof (induction ks)
  case (Cons k ks)
  let ?t = "base + int k * ms_per_day"
  have day: "local_day ?t = local_day base + int k" by (simp add: local_day_def ms_per_day_def add.commute add.left_commute)
  have "0 \<le> ?t" using assms(2) by (simp add: ms_per_day_def)
  with day assms(3) have cands: "day_candidates formatter (clock ?t) cron = slots (local_day base + int k) cron"
    using day_candidates_slots [of ?t cron] by simp
  from Cons have IH: "case next_loop after cron formatter base ks of
      None \<Rightarrow> \<forall>k \<in> set ks. \<forall>u \<in> day_fires k. u \<le> after
    | Some t \<Rightarrow> after < t \<and> (\<exists>k \<in> set ks. t \<in> day_fires k \<and>
        (\<forall>j \<in> set ks. j \<le> k \<longrightarrow> (\<forall>u \<in> day_fires j. after < u \<longrightarrow> t \<le> u)))" and less: "\<forall>j \<in> set ks. k < j" by auto
  show ?case
  proof (cases "dayMatches (clock ?t) cron \<and> find (\<lambda>t. after < t) (slots (local_day base + int k) cron) \<noteq> None")
    case True
    then obtain t where t: "find (\<lambda>t. after < t) (slots (local_day base + int k) cron) = Some t" by blast
    have "next_loop after cron formatter base (k # ks) = Some t" using True t cands by (simp add: Let_def)
    moreover have "t \<in> day_fires k \<and> after < t \<and> (\<forall>u \<in> day_fires k. after < u \<longrightarrow> t \<le> u)"
      using find_sorted [OF sorted_slots [OF assms(1)] t] True by (auto simp: day_fires_def)
    moreover have "\<forall>j \<in> set (k # ks). j \<le> k \<longrightarrow> j = k" using less by auto
    ultimately show ?thesis by auto
  next
    case False
    then have next_eq: "next_loop after cron formatter base (k # ks) = next_loop after cron formatter base ks"
      using cands by (auto simp: Let_def)
    have "\<forall>u \<in> day_fires k. u \<le> after"
      using False by (auto simp: day_fires_def find_None_iff not_less)
    note here = this
    show ?thesis
    proof (cases "next_loop after cron formatter base ks")
      case None
      with IH here show ?thesis unfolding next_eq by simp
    next
      case (Some t)
      with IH obtain l where l: "after < t" "l \<in> set ks" "t \<in> day_fires l"
        "\<forall>j \<in> set ks. j \<le> l \<longrightarrow> (\<forall>u \<in> day_fires j. after < u \<longrightarrow> t \<le> u)" by auto
      then have "\<forall>j \<in> set (k # ks). j \<le> l \<longrightarrow> (\<forall>u \<in> day_fires j. after < u \<longrightarrow> t \<le> u)"
        using here by (auto simp: not_less [symmetric])
      with l Some show ?thesis unfolding next_eq by auto
    qed
  qed
qed simp

lemma next_run_spec:
  assumes "cron_wf cron" and "3 * ms_per_day \<le> after"
  shows "case nextRun after cron formatter of
      Some t \<Rightarrow> after < t \<and> local_day t \<le> local_day after + int SEARCH_LIMIT_DAYS
        \<and> cron_fires formatter off cron t \<and> (\<forall>u. after < u \<and> u < t \<longrightarrow> \<not> cron_fires formatter off cron u)
    | None \<Rightarrow> \<forall>u. after < u \<and> local_day u \<le> local_day after + int SEARCH_LIMIT_DAYS \<longrightarrow> \<not> cron_fires formatter off cron u"
proof -
  let ?base = "slot (local_day after) 0 0"
  let ?day = "\<lambda>k. if dayMatches (clock (?base + int k * ms_per_day)) cron then set (slots (local_day after + int k) cron) else {}"
  have after0: "0 \<le> after" using assms(2) by (simp add: ms_per_day_def)
  have "after + off - ms_per_day < local_day after * ms_per_day"
    using div_mult_mod_eq [of "after + off" ms_per_day] pos_mod_bound [of ms_per_day "after + off"]
    by (simp add: local_day_def ms_per_day_def)
  then have low: "ms_per_day \<le> local_day after * ms_per_day" "0 \<le> ?base"
    using assms(2) off_small by (auto simp: slot_def ms_per_day_def)
  then have day0: "0 \<le> local_day after" by (simp add: ms_per_day_def)
  have based: "local_day ?base = local_day after" by (simp add: local_day_def slot_def ms_per_day_def)
  have "0 \<le> slot (local_day after) 0 0 + off" using day0 by (simp add: slot_def ms_per_day_def)
  note base_instant = instant_slot [OF after0 this]
  define ks where "ks = [0..<Suc SEARCH_LIMIT_DAYS]"
  have ks: "sorted_wrt (<) ks" "set ks = {0..<Suc SEARCH_LIMIT_DAYS}" by (simp_all only: ks_def sorted_wrt_upt set_upt)
  have "nextRun after cron formatter = next_loop after cron formatter ?base ks"
    using base_instant by (simp add: nextRun_def Let_def ks_def)
  with next_loop_spec [OF assms(1) low(2), of ks after] day0 based ks
  have spec: "case nextRun after cron formatter of
      None \<Rightarrow> \<forall>k \<in> set ks. \<forall>u \<in> ?day k. u \<le> after
    | Some t \<Rightarrow> after < t \<and> (\<exists>k \<in> set ks. t \<in> ?day k \<and>
        (\<forall>j \<in> set ks. j \<le> k \<longrightarrow> (\<forall>u \<in> ?day j. after < u \<longrightarrow> t \<le> u)))" by metis
  have dayk: "local_day (?base + int k * ms_per_day) = local_day after + int k" for k
    using based by (simp add: local_day_def ms_per_day_def add.commute add.left_commute)
  have slotday: "local_day t = n" if "t \<in> set (slots n cron)" for t n
    using that assms(1) by (fastforce simp: slots_def slot_def local_day_def ms_per_day_def cron_wf_def subset_iff)
  have mono: "after < u \<Longrightarrow> local_day after \<le> local_day u" for u
    by (simp add: local_day_def zdiv_mono1 ms_per_day_def)
  have fires: "cron_fires formatter off cron u \<longleftrightarrow> u \<in> ?day (nat (local_day u - local_day after))" if "after < u" for u
  proof -
    let ?k = "nat (local_day u - local_day after)"
    have k: "local_day after + int ?k = local_day u" using mono [OF that] by simp
    have "0 \<le> ?base + int ?k * ms_per_day" using low by (simp add: ms_per_day_def)
    then have "dayMatches (clock u) cron = dayMatches (clock (?base + int ?k * ms_per_day)) cron"
      using same_day_matches [of u "?base + int ?k * ms_per_day"] after0 that dayk [of ?k] k by (simp only: refl)
    then show ?thesis using fires_slot [of u cron] assms(1) after0 that k by (auto simp: slots_def)
  qed
  show ?thesis
  proof (cases "nextRun after cron formatter")
    case None
    with spec have none: "\<forall>k \<in> set ks. \<forall>u \<in> ?day k. u \<le> after" by simp
    have "\<not> cron_fires formatter off cron u" if u: "after < u" "local_day u \<le> local_day after + int SEARCH_LIMIT_DAYS" for u
    proof
      assume "cron_fires formatter off cron u"
      with fires [OF u(1)] have "u \<in> ?day (nat (local_day u - local_day after))" by simp
      moreover have "nat (local_day u - local_day after) \<in> set ks" using u(2) ks(2) by simp
      ultimately show False using none u(1) by fastforce
    qed
    with None show ?thesis by simp
  next
    case (Some t)
    with spec have "after < t" and "\<exists>k \<in> set ks. t \<in> ?day k \<and>
        (\<forall>j \<in> set ks. j \<le> k \<longrightarrow> (\<forall>u \<in> ?day j. after < u \<longrightarrow> t \<le> u))" by simp_all
    then obtain k where k: "after < t" "k \<in> set ks" "t \<in> ?day k"
      "\<forall>j \<in> set ks. j \<le> k \<longrightarrow> (\<forall>u \<in> ?day j. after < u \<longrightarrow> t \<le> u)"
      by blast
    have kt: "nat (local_day t - local_day after) = k" using slotday k(3) by (force split: if_splits)
    have "cron_fires formatter off cron t" using fires [OF k(1), unfolded kt] k(3) by (rule iffD2)
    moreover have "\<not> cron_fires formatter off cron u" if u: "after < u" "u < t" for u
    proof
      assume "cron_fires formatter off cron u"
      with fires [OF u(1)] have "u \<in> ?day (nat (local_day u - local_day after))" by simp
      moreover have "local_day u \<le> local_day t" using u(2) by (simp add: local_day_def zdiv_mono1 ms_per_day_def)
      then have "nat (local_day u - local_day after) \<le> k" using kt by linarith
      moreover from this have "nat (local_day u - local_day after) \<in> set ks" using k(2) ks(2) by simp
      ultimately show False using k(4) u by fastforce
    qed
    moreover have "local_day t \<le> local_day after + int SEARCH_LIMIT_DAYS" using kt k(2) ks(2) by auto
    ultimately show ?thesis using Some k(1) by simp
  qed
qed

lemmas next_run_days = next_run_spec [unfolded local_day_def SEARCH_LIMIT_DAYS_def]

end

subsection \<open>Coordinated universal time\<close>

text \<open>The formatter of the zone UTC, from the epoch on: the year is the last one that starts on or before the day.\<close>

lemma day_from_year_less: "day_from_year y < day_from_year (y + 1)"
proof -
  have "(y - 1969) div 4 \<le> (y + 1 - 1969) div 4" "(y - 1601) div 400 \<le> (y + 1 - 1601) div 400"
    by (simp_all add: zdiv_mono1)
  moreover have "(y + 1 - 1901) div 100 \<le> (y - 1901) div 100 + 1"
    using zdiv_mono1 [of "y + 1 - 1901" "y - 1901 + 100" 100] by simp
  moreover have "365 * (y - 1970) + a - b + c < 365 * (y + 1 - 1970) + a' - b' + c'"
    if "a \<le> a'" "c \<le> c'" "b' \<le> b + 1" for a a' b b' c c' :: int
    using that by simp
  ultimately show ?thesis unfolding day_from_year_def by blast
qed

function year_from :: "int \<Rightarrow> int \<Rightarrow> int" where
  "year_from y n = (if day_from_year (y + 1) \<le> n then year_from (y + 1) n else y)"
  by pat_completeness auto
termination
proof (relation "measure (\<lambda>(y, n). nat (n - day_from_year y))")
  fix y n assume "day_from_year (y + 1) \<le> n"
  with day_from_year_less [of y] show "((y + 1, n), y, n) \<in> measure (\<lambda>(y, n). nat (n - day_from_year y))" by simp
qed simp

declare year_from.simps [simp del]

lemma year_from_ge: "y \<le> year_from y n"
proof (induction y n rule: year_from.induct)
  case (1 y n)
  then show ?case by (cases "day_from_year (y + 1) \<le> n") (simp_all add: year_from.simps [of y n])
qed

fun month_from :: "int list \<Rightarrow> nat \<Rightarrow> int \<Rightarrow> nat \<times> int" where
  "month_from [] m r = (m, r + 1)"
| "month_from (l # ls) m r = (if r < l \<or> ls = [] then (m, r + 1) else month_from ls (Suc m) (r - l))"

lemma month_from_sum:
  "month_from ls m r = (m', d) \<Longrightarrow> m \<le> m' \<and> (ls \<noteq> [] \<longrightarrow> m' < m + length ls) \<and> sum_list (take (m' - m) ls) + d - 1 = r"
proof (induction ls m r rule: month_from.induct)
  case (2 l ls m r)
  show ?case
  proof (cases "r < l \<or> ls = []")
    case False
    with 2 have IH: "Suc m \<le> m'" "m' < Suc m + length ls" "sum_list (take (m' - Suc m) ls) + d - 1 = r - l" by auto
    then have "take (m' - m) (l # ls) = l # take (m' - Suc m) ls"
      using Suc_diff_Suc [of m m'] by (simp flip: Suc_diff_Suc)
    with IH show ?thesis by simp
  qed (use 2 in auto)
qed auto

definition utc_formatter :: "int \<Rightarrow> FormatParts" where
  "utc_formatter t =
     (let n = t div ms_per_day; y = year_from 1970 n; (m, d) = month_from (month_days y) 0 (n - day_from_year y) in
      \<lparr>partYear = y, partMonth = int m + 1, partDay = d, partHour = t div 3600000 mod 24, partMinute = t div 60000 mod 60,
       partWeekday = [''Sun'', ''Mon'', ''Tue'', ''Wed'', ''Thu'', ''Fri'', ''Sat''] ! nat ((n + 4) mod 7)\<rparr>)"

interpretation utc: fixed_zone utc_formatter 0
proof
  fix t :: int
  let ?n = "t div ms_per_day"
  let ?y = "year_from 1970 ?n"
  obtain m d where md: "month_from (month_days ?y) 0 (?n - day_from_year ?y) = (m, d)" by force
  have "m < 12" and sum: "sum_list (take m (month_days ?y)) + d - 1 = ?n - day_from_year ?y"
    using month_from_sum [OF md] by (simp_all add: month_days_def)
  then have "make_day ?y (int m) d = ?n" by (simp add: make_day_def)
  then show "Date_UTC (partYear (utc_formatter t)) (partMonth (utc_formatter t) - 1) (partDay (utc_formatter t)) 0 0
      = (t + 0) div ms_per_day * ms_per_day"
    using md year_from_ge [of 1970 ?n] by (simp add: Date_UTC_def utc_formatter_def Let_def)
qed (auto simp: utc_formatter_def Let_def ms_per_day_def split: prod.splits)

lemma parseCron_wf: "parseCron expression = Inr cron \<Longrightarrow> cron_wf cron"
proof -
  assume ok: "parseCron expression = Inr cron"
  let ?parts = "split_spaces (trim expression)"
  from ok have five: "length ?parts = 5" by (auto simp: parseCron_def Let_def split: if_splits)
  then obtain a b c d e where parts: "?parts = [a, b, c, d, e]"
    by (auto simp: numeral_eq_Suc length_Suc_conv)
  have "sorted (values_of (parseField field nm lo hi)) \<and> distinct (values_of (parseField field nm lo hi))
      \<and> set (values_of (parseField field nm lo hi)) \<subseteq> {lo..hi}" for field nm lo hi
    using parseField_range [of field nm lo hi] by (cases "parseField field nm lo hi") (auto simp: values_of_def)
  then show ?thesis
    using ok parts by (fastforce simp: parseCron_def Let_def RANGES_def cron_wf_def split: if_splits)
qed

subsection \<open>Two slips of the parser\<close>

text \<open>A single value with a step stands for itself only: the test for a step looks at the text before the slash.\<close>

lemma single_with_step:
  assumes "lo \<le> n" and "n \<le> hi" and "hi < 1000000" and "0 < s" and "s < 1000000"
  shows "parseField (show_nat n @ ''/'' @ show_nat s) nm lo hi = Inr [n]"
  using assms parseField_part_values [of "[Single n (Some s)]" lo hi nm]
  by (simp add: join_def print_part_def part_ok_def)

text \<open>The rule that reads day-of-week 7 as Sunday is applied to every field.\<close>

lemma normalize_seven: "normalize_field ''7'' = ''0''"
  by code_simp

lemma parse_zero: "parseField ''0'' nm lo hi =
    (if lo = 0 then Inr [0] else Inl (nm @ '': values must be within '' @ show_nat lo @ ''-'' @ show_nat hi))"
proof -
  have m: "match_part (trim ''0'') = Some (''0'', None)" and v: "read_nat ''0'' = 0" by code_simp+
  show ?thesis
    by (simp add: parseField_def parse_part_def m v bounds_of_def step_values.simps Let_def)
qed

lemma parseCron_sevens:
  assumes "split_spaces (trim expression) = [a, b, c, d, e]"
  shows "(a = ''7'' \<longrightarrow> (\<forall>cron. parseCron expression = Inr cron \<longrightarrow> minutes cron = [0]))
    \<and> (b = ''7'' \<longrightarrow> (\<forall>cron. parseCron expression = Inr cron \<longrightarrow> hours cron = [0]))
    \<and> (c = ''7'' \<or> d = ''7'' \<longrightarrow> (\<exists>why. parseCron expression = Inl why))"
  using assms by (auto simp: parseCron_def Let_def RANGES_def normalize_seven parse_zero values_of_def problems_of_def)

end
