(* ===== verification/Samples.thy ===== *)
theory Samples
  imports Memory Relay Bus RateLimit Cron
begin

section \<open>A counter aggregate\<close>

text \<open>
  Concrete data on which the properties are instantiated: a counter aggregate that rejects
  negative amounts, its one-entry event registry, events to append, and a history batch.
\<close>

definition counter :: "(int, int, int, string) Aggregate" where
  "counter = \<lparr>name = ''counter'', initial = 0,
     decide = (\<lambda>s n. if n < 0 then Inl ''negative'' else if n = 0 then Inr [] else Inr [n]),
     evolve = (\<lambda>s n. s + n)\<rparr>"

definition counter_tag :: "int \<Rightarrow> string" where
  "counter_tag n = ''Added''"

definition counter_entry :: "int EventRegistryEntry" where
  "counter_entry = \<lparr>tagOf = Some ''Added'', entryVersion = 2,
     upcasters = [(1, \<lambda>p. Inr (case p of JNum n \<Rightarrow> JObj [(''n'', JNum n)] | _ \<Rightarrow> p))],
     encodeSync = (\<lambda>n. Inr (JObj [(''n'', JNum n)])),
     decodeUnknown = (\<lambda>p. case p of JObj [(k, JNum n)] \<Rightarrow> Inr n | _ \<Rightarrow> Inl ''expected n'')\<rparr>"

definition counter_registry :: "int EventRegistry" where
  "counter_registry = [(''Added'', counter_entry)]"

lemma makeRegistry_counter: "makeRegistry [counter_entry] = Inr counter_registry"
  by (simp add: makeRegistry_def counter_registry_def counter_entry_def)

definition sample_metadata :: "string \<Rightarrow> int \<Rightarrow> EventMetadata" where
  "sample_metadata ident v = \<lparr>eventId = ident, occurredAt = ''2026-01-01T00:00:00.000Z'',
     aggregateName = ''counter'', aggregateId = ''a'', aggregateVersion = v, correlationId = None,
     causationId = None, actor = None, partition = None, origin = None, extensions = None\<rparr>"

definition added :: "string \<Rightarrow> int \<Rightarrow> int \<Rightarrow> AppendEvent" where
  "added ident v n = \<lparr>etype = ''Added'', schemaVersion = 2, payload = JObj [(''n'', JNum n)],
     metadata = sample_metadata ident v\<rparr>"

definition sample_world :: "int memory_world" where
  "sample_world = snd (append_world ''counter-a'' 0 [added ''e1'' 1 5, added ''e2'' 2 7] emptyWorld)"

definition sample_stored :: "StoredEvent list" where
  "sample_stored = storeEvents 0 ''counter-a'' 0 [added ''e1'' 1 5, added ''e2'' 2 7]"

lemma reachable_sample: "reachable sample_world"
  unfolding sample_world_def by (rule reachable.step [OF reachable.start]) (rule world_step.append)

lemma sample_world_es:
  "es sample_world = emptyStore\<lparr>streams := [(''counter-a'', sample_stored)], allEvents := sample_stored\<rparr>"
  by (simp add: sample_world_def es_append_world append_mem_def emptyWorld_def emptyStore_def streamOf_def
      sample_stored_def Let_def)

lemma store_inv_sample: "store_inv (es sample_world)"
  using reachable_ok [OF reachable_sample] by (simp add: store_ok_def)

lemma codec_lawful_counter: "codec_lawful counter_tag counter_registry"
  by (auto simp: codec_lawful_def encode_def decode_def counter_registry_def counter_entry_def)


subsection \<open>Erasure and import requests\<close>

definition sample_erasure :: StreamErasureRequest where
  "sample_erasure = \<lparr>reqStream = ''counter-a'', reqVersion = 2, reqReason = ''gdpr''\<rparr>"

lemma prepare_sample_erasure: "prepareStreamErasure sample_erasure = Inr sample_erasure"
  by (simp add: prepareStreamErasure_def sample_erasure_def is_safe_integer_def trim_def js_space_def)

definition sample_erased_world :: "int memory_world" where
  "sample_erased_world = snd (eraseStream_world sample_erasure ''now'' sample_world)"

lemma reachable_sample_erased: "reachable sample_erased_world"
  unfolding sample_erased_world_def by (rule reachable.step [OF reachable_sample]) (rule world_step.erase)

lemma streamOf_sample: "streamOf (es sample_world) ''counter-a'' = sample_stored"
  by (simp add: sample_world_es streamOf_def)

lemma length_sample_stored [simp]: "length sample_stored = 2"
  by (simp add: sample_stored_def)

lemma erase_state_sample:
  "erase_state sample_erasure ''now'' (es sample_world) =
     (Inr \<lparr>erasedEvents = 2, pinnedVersion = 2, resultErasedAt = ''now'', resultReason = ''gdpr''\<rparr>,
      entombed sample_erasure ''now'' (es sample_world))"
proof -
  have "jsget (erased (es sample_world)) (reqStream sample_erasure) = None"
    by (simp add: sample_world_es emptyStore_def)
  moreover have "reqVersion sample_erasure = int (length (streamOf (es sample_world) (reqStream sample_erasure)))"
    by (simp add: sample_erasure_def streamOf_sample)
  ultimately show ?thesis
    by (subst erase_state_first [OF store_inv_sample]) (simp_all add: sample_erasure_def)
qed

lemma erase_sample:
  "eraseStream_world sample_erasure ''now'' sample_world =
     (Inr \<lparr>erasedEvents = 2, pinnedVersion = 2, resultErasedAt = ''now'', resultReason = ''gdpr''\<rparr>,
      sample_erased_world)"
  by (simp add: sample_erased_world_def eraseStream_world_def eraseStream_def prepare_sample_erasure
      erase_state_sample split: prod.splits)

lemma es_sample_erased: "es sample_erased_world = entombed sample_erasure ''now'' (es sample_world)"
  by (simp add: sample_erased_world_def es_world prepare_sample_erasure erase_state_sample)

text \<open>The same history with other amounts.\<close>

definition sample_world_secret :: "int memory_world" where
  "sample_world_secret = snd (append_world ''counter-a'' 0 [added ''s1'' 1 6, added ''s2'' 2 9] emptyWorld)"

definition sample_stored_secret :: "StoredEvent list" where
  "sample_stored_secret = storeEvents 0 ''counter-a'' 0 [added ''s1'' 1 6, added ''s2'' 2 9]"

lemma reachable_sample_secret: "reachable sample_world_secret"
  unfolding sample_world_secret_def by (rule reachable.step [OF reachable.start]) (rule world_step.append)

lemma sample_world_secret_es:
  "es sample_world_secret =
     emptyStore\<lparr>streams := [(''counter-a'', sample_stored_secret)], allEvents := sample_stored_secret\<rparr>"
  by (simp add: sample_world_secret_def es_append_world append_mem_def emptyWorld_def emptyStore_def streamOf_def
      sample_stored_secret_def Let_def)

lemma erase_sample_secret:
  "eraseStream_world sample_erasure ''now'' sample_world_secret =
     (Inr \<lparr>erasedEvents = 2, pinnedVersion = 2, resultErasedAt = ''now'', resultReason = ''gdpr''\<rparr>,
      snd (eraseStream_world sample_erasure ''now'' sample_world_secret))"
proof -
  have "fst (erase_state sample_erasure ''now'' (es sample_world_secret)) =
      Inr \<lparr>erasedEvents = 2, pinnedVersion = 2, resultErasedAt = ''now'', resultReason = ''gdpr''\<rparr>"
    by (simp add: erase_state_def sample_world_secret_es sample_erasure_def emptyStore_def streamOf_def
        sample_stored_secret_def Let_def)
  then show ?thesis
    by (auto simp: eraseStream_world_def eraseStream_def prepare_sample_erasure split: prod.splits)
qed

text \<open>A one-batch history; the digest is a parameter of the model, here a constant function.\<close>

definition sample_sha :: "string \<Rightarrow> string" where
  "sample_sha s = ''digest''"

definition sample_batch :: HistoryImportBatch where
  "sample_batch = \<lparr>importId = ''imp'', batchId = ''b1'', batchEvents = sample_stored,
     batchChecksum = ''digest'', batchToken = None, batchComplete = Some True\<rparr>"

definition accept_all :: "StoredEvent \<Rightarrow> (EventDecodeError, unit) result" where
  "accept_all e = Inr ()"

definition sample_imported :: "HistoryImportResult \<times> EventStoreState" where
  "sample_imported = commit_batch sample_batch ''digest'' (last sample_stored) emptyStore"

lemma sample_stored_list:
  "sample_stored =
     [AppendEvent.extend (added ''e1'' 1 5) (StoredEvent.fields 1 ''counter-a'' 1),
      AppendEvent.extend (added ''e2'' 2 7) (StoredEvent.fields 2 ''counter-a'' 2)]"
  by (simp add: sample_stored_def storeEvents_def AppendEvent.defs StoredEvent.defs added_def)

lemma import_sample:
  "importBatch sample_sha Some accept_all sample_batch emptyStore =
     (Inr (fst sample_imported), snd sample_imported)"
  by (simp add: importBatch_def prepareHistoryImportBatch_def sample_batch_def checksum_def sample_sha_def
      sample_stored_list prepare_event_def added_def sample_metadata_def AppendEvent.defs StoredEvent.defs
      stored_eventId_def accept_all_def trim_def js_space_def maxPgBigInt_def maxPgInteger_def is_safe_integer_def
      import_state_def session_check_def emptyStore_def historyImportTarget_def Let_def
      validateHistoryImportContinuation_def historyImportResumeToken_def sample_imported_def split: prod.splits)

subsection \<open>Commands\<close>

lemma counter_stream_name [simp]: "stream_name counter ident = ''counter-'' @ ident"
  by (simp add: stream_name_def counter_def)

lemma counter_simps [simp]:
  "initial counter = 0" "evolve counter s n = s + n" "name counter = ''counter''"
  "decide counter s n = (if n < 0 then Inl ''negative'' else if n = 0 then Inr [] else Inr [n])"
  by (simp_all add: counter_def)

lemma counter_codec [simp]:
  "encode counter_tag counter_registry n = Inr \<lparr>etype = ''Added'', schemaVersion = 2, payload = JObj [(''n'', JNum n)]\<rparr>"
  by (simp add: encode_def counter_registry_def counter_tag_def counter_entry_def)

lemma decode_counter [simp]:
  "etype e = ''Added'' \<Longrightarrow> schemaVersion e = 2 \<Longrightarrow> payload e = JObj [(k, JNum n)] \<Longrightarrow> decode counter_registry e = Inr n"
  by (simp add: decode_def counter_registry_def counter_entry_def)

lemma snaps_sample_world [simp]: "snaps sample_world = []"
  by (simp add: sample_world_def append_world_def emptyWorld_def notify_def split: prod.splits sum.splits)

lemma sample_world_consistent: "snapshots_consistent counter counter_registry sample_world"
  by (simp add: snapshots_consistent_def load_snapshot_def)

lemma counter_state_sample:
  "stream_state counter counter_registry ''counter-a'' (world_feed sample_world) = Inr (12, 2)"
  by (simp add: stream_state_def sample_world_es sample_stored_list added_def AppendEvent.defs StoredEvent.defs)

definition sample_snapshot_world :: "int memory_world" where
  "sample_snapshot_world =
     sample_world\<lparr>snaps := save_snapshot ''counter-a'' \<lparr>snapState = 5, snapVersion = 1\<rparr> (snaps sample_world)\<rparr>"

lemma sample_snapshot_world_ok:
  "store_inv (es sample_snapshot_world) \<and> snapshots_consistent counter counter_registry sample_snapshot_world"
proof -
  have "snapshot_valid counter counter_registry (stream_in sample_stored ''counter-a'') \<lparr>snapState = 5, snapVersion = 1\<rparr>"
    by (auto simp: snapshot_valid_def sample_stored_list added_def AppendEvent.defs StoredEvent.defs intro!: exI [of _ 1])
  then show ?thesis
    using store_inv_sample
    by (simp add: snapshots_consistent_def sample_snapshot_world_def snapshots.load_save load_snapshot_def [of _ "[]"])
       (simp add: sample_world_es)
qed

lemma counter_state_sample_snapshot:
  "stream_state counter counter_registry ''counter-a'' (world_feed sample_snapshot_world) = Inr (12, 2)"
  using counter_state_sample by (simp add: sample_snapshot_world_def)

definition sample_env :: "yield_point \<Rightarrow> int memory_world \<Rightarrow> int memory_world" where
  "sample_env y w = snd (append_world ''counter-b'' 0 [added ''x1'' 1 1] w)"

lemma sample_env_ok: "appending_env counter counter_registry sample_env"
  unfolding sample_env_def by (rule appending_env_append)

definition sample_execution where
  "sample_execution = execute (world_runtime counter counter_registry counter_tag (Some 2)) sample_env ''now'' show_nat ''a'' 4 None
     sample_world"

lemmas world_services =
  worldEventStore_def worldSnapshotStore_def worldCheckpointStore_def load_snapshot_def save_snapshot_def read_mem_def
  append_mem_def append_world_def notify_def streamOf_def

lemmas sample_events = storeEvents_def added_def AppendEvent.defs StoredEvent.defs SerializedEvent.defs

lemma sample_world_eq: "sample_world = \<lparr>es = emptyStore\<lparr>streams := [(''counter-a'', sample_stored)], allEvents := sample_stored\<rparr>,
    snaps = [], checks = [], signals = 1\<rparr>"
  by (simp add: sample_world_def append_world_def append_mem_def emptyWorld_def notify_def emptyStore_def streamOf_def
      sample_stored_def Let_def)

lemma sample_execution_result:
  "execute (world_runtime counter counter_registry counter_tag (Some 2)) sample_env ''now'' show_nat ''a'' 4 None sample_world =
     (Inr \<lparr>resState = 16, resVersion = 3, resEvents = [4]\<rparr>, snd sample_execution)"
  by (simp add: sample_execution_def execute_def loadFrom_def snapshotting_def world_services sample_env_def sample_world_eq
      sample_stored_def sample_events emptyStore_def stamp_def snapshot_if_due_def Let_def)

lemma sample_rejected:
  "execute (world_runtime counter counter_registry counter_tag None) (\<lambda>y w. w) ''now'' show_nat ''a'' (- 1) None sample_world =
     (Inl (DomainErr ''negative''), sample_world)"
  by (simp add: execute_def loadFrom_def snapshotting_def world_services sample_world_eq sample_stored_def sample_events emptyStore_def)

text \<open>A projection that sums the amounts of all counters.\<close>

definition total :: "(int, int, string) Projection" where
  "total = \<lparr>projName = ''total'', projRegistry = counter_registry,
     projWhen = (\<lambda>t. if t = ''Added'' then Some (\<lambda>n stored live v. (Inr (), v + n)) else None)\<rparr>"

lemma handle_total_sample:
  "handle_batch total live (world_feed sample_world) pos no_stats 0 = (Inr (2, \<lparr>processed = 2, skipped = 0\<rparr>), 12)"
  by (simp add: sample_world_eq sample_stored_def sample_events total_def no_stats_def)
     (simp add: has_type_def counter_registry_def)

lemma checks_sample_world [simp]: "checks sample_world = []"
  by (simp add: sample_world_eq)

text \<open>Another fiber erases the stream between the append of a command and its snapshot.\<close>

definition erasing_env :: "yield_point \<Rightarrow> int memory_world \<Rightarrow> int memory_world" where
  "erasing_env y w =
     (if y = AfterAppend
      then snd (eraseStream_world \<lparr>reqStream = ''counter-a'', reqVersion = 3, reqReason = ''gdpr''\<rparr> ''now'' w) else w)"

subsection \<open>Messages\<close>

definition sample_message :: "string \<Rightarrow> OutboxMessage" where
  "sample_message ident = \<lparr>msgId = ident, msgTopic = ''orders'', msgPayload = JNull, msgMetadata = [], msgAvailableAt = None\<rparr>"

definition sample_entry :: "string \<Rightarrow> OutboxEntry" where
  "sample_entry ident = \<lparr>entryMessage = sample_message ident, entryStatus = Pending, entryAttempts = 0,
     entryError = None, entryAvailableAt = None\<rparr>"

definition sample_outbox :: OutboxState where
  "sample_outbox = enqueue [sample_message ''m1'', sample_message ''m2''] emptyOutbox"

lemma sample_outbox_eq:
  "sample_outbox = \<lparr>entries = [(''m1'', sample_entry ''m1''), (''m2'', sample_entry ''m2'')], claims = [], nextToken = 0\<rparr>"
  by (simp add: sample_outbox_def enqueue_def emptyOutbox_def sample_message_def sample_entry_def)

lemma sample_outbox_ok: "outbox_ok sample_outbox"
  unfolding sample_outbox_def by (rule outbox_ok_enqueue [OF outbox_ok_empty])

text \<open>The state after one relay claimed both messages at time 0 for 30 seconds.\<close>

definition sample_claimed :: OutboxState where
  "sample_claimed = snd (claim 32 30000 0 sample_outbox)"

lemma sample_claim:
  "claim 32 30000 0 sample_outbox =
     (\<lparr>claimedEntries = [sample_entry ''m1'', sample_entry ''m2''], token = claim_token 0, leaseUntil = 30000\<rparr>, sample_claimed)"
  by (simp add: claim_def sample_claimed_def sample_outbox_eq sample_entry_def sample_message_def due_def leaseLapsed_def Let_def)

lemma sample_claimed_eq:
  "sample_claimed = sample_outbox\<lparr>claims :=
     [(''m1'', \<lparr>claimToken = claim_token 0, claimLeaseUntil = 30000\<rparr>),
      (''m2'', \<lparr>claimToken = claim_token 0, claimLeaseUntil = 30000\<rparr>)], nextToken := 1\<rparr>"
  by (simp add: claim_def sample_claimed_def sample_outbox_eq sample_entry_def sample_message_def due_def leaseLapsed_def Let_def)

lemma sample_claimed_ok: "outbox_ok sample_claimed"
  by (rule outbox_ok_claim [OF sample_outbox_ok sample_claim])

text \<open>A transport that rejects the first attempt and accepts the second.\<close>

definition sample_relay_env :: "'w relay_env" where
  "sample_relay_env = \<lparr>answer = (\<lambda>e k. if k = 0 then PublishFailed ''busy'' else PublishOk), clock = (\<lambda>k. 0),
     delay = (\<lambda>k. 100), publishing = (\<lambda>k w. w), settling = (\<lambda>k w. w)\<rparr>"

lemma quiet_sample_relay_env: "quiet sample_relay_env"
  by (simp add: quiet_def sample_relay_env_def)

subsection \<open>Policies\<close>

definition role_spec :: "string list \<Rightarrow> Grant list \<Rightarrow> RoleDefinition" where
  "role_spec ps gs = \<lparr>roleDescription = None, roleInherits = Some ps, roleGrants = Some gs\<rparr>"

definition invoice_policy :: PolicyDefinition where
  "invoice_policy = \<lparr>resources = [(''invoice'', [''read'', ''approve''])],
     roles = [(''viewer'', role_spec [] [Plain ''invoice:read'']),
              (''clerk'', role_spec [''viewer''] [Conditional ''invoice:approve'' ''owner''])]\<rparr>"

definition invoice_conditions :: ConditionMap where
  "invoice_conditions = [(''owner'', owner None)]"

definition alice :: Principal where
  "alice = \<lparr>principalId = ''alice'', principalRoles = [InScope ''clerk'' ''tenant:acme''], principalKind = Some UserKind,
     tenantId = None, principalAttributes = None\<rparr>"

text \<open>A policy that names a condition and one that names a resource nobody declared.\<close>

definition open_policy :: PolicyDefinition where
  "open_policy = \<lparr>resources = [(''invoice'', [''read''])],
     roles = [(''viewer'', role_spec [] [Conditional ''invoice:read'' ''toString''])]\<rparr>"

definition crashing_policy :: PolicyDefinition where
  "crashing_policy = \<lparr>resources = [(''invoice'', [''read''])], roles = [(''viewer'', role_spec [] [Plain ''constructor:*''])]\<rparr>"

definition bob :: Principal where
  "bob = \<lparr>principalId = ''bob'', principalRoles = [Everywhere ''viewer''], principalKind = None, tenantId = None,
     principalAttributes = None\<rparr>"

lemma open_policy_made:
  "make_policy open_policy [] = Some (Inr (Inr \<lparr>policyDefinition = open_policy, policyConditions = [],
     permissions = [''invoice:read''], resolvedRoles = [(''viewer'', [(''invoice:read'', Some [''toString''])])]\<rparr>))"
proof -
  have v: "validate open_policy [] = Some []" by code_simp
  have p: "all_permissions open_policy = [''invoice:read'']" by code_simp
  have r: "resolveRoles open_policy [''invoice:read''] = Some (Inr [(''viewer'', [(''invoice:read'', Some [''toString''])])])"
    by code_simp
  show ?thesis by (simp add: make_policy_def build_def v p r)
qed

lemma crashing_policy_made: "make_policy crashing_policy [] = Some (Inl ''TypeError: map is not a function'')"
proof -
  have v: "validate crashing_policy [] = Some []" by code_simp
  have r: "resolveRoles crashing_policy (all_permissions crashing_policy) = Some (Inl ''TypeError: map is not a function'')"
    by code_simp
  show ?thesis by (simp add: make_policy_def build_def v r)
qed

definition invoice_resolved :: Policy where
  "invoice_resolved = \<lparr>policyDefinition = invoice_policy, policyConditions = invoice_conditions,
     permissions = [''invoice:read'', ''invoice:approve''],
     resolvedRoles = [(''viewer'', [(''invoice:read'', None)]),
                      (''clerk'', [(''invoice:read'', None), (''invoice:approve'', Some [''owner''])])]\<rparr>"

lemma invoice_policy_made: "make_policy invoice_policy invoice_conditions = Some (Inr (Inr invoice_resolved))"
proof -
  have v: "validate invoice_policy invoice_conditions = Some []" by code_simp
  have p: "all_permissions invoice_policy = [''invoice:read'', ''invoice:approve'']" by code_simp
  have r: "resolveRoles invoice_policy [''invoice:read'', ''invoice:approve''] = Some (Inr (resolvedRoles invoice_resolved))"
    by code_simp
  show ?thesis by (simp add: make_policy_def build_def v p r) (simp add: invoice_resolved_def)
qed

lemma invoice_names_own: "names_own invoice_policy invoice_conditions"
  by (auto simp: names_own_def invoice_policy_def role_spec_def invoice_conditions_def prototype_keys_def is_wildcard_def)

lemma invoice_accepted: "accepted_policy invoice_resolved"
  by (rule accepted_policyI [OF invoice_names_own invoice_policy_made])

definition acme_options :: CheckOptions where
  "acme_options = \<lparr>optScope = Some ''tenant:acme'', optAttributes = Some [(''ownerId'', AStr ''alice'')]\<rparr>"

definition invoice_rules :: "string CqrsAuthorizationRules" where
  "invoice_rules = add_public [''Ping''] (add_rule ''Approve''
     (PayloadRule (\<lambda>who. NeedsPermission ''invoice:approve'' (Some ''tenant:acme'') (Some [(''ownerId'', AStr who)])))
     (make_rules invoice_resolved None None))"

definition approve_request :: "string \<Rightarrow> string AuthorizationRequest" where
  "approve_request who = \<lparr>requestTag = ''Approve'', requestKind = CommandKind, requestPayload = who, requestActor = Some ''alice''\<rparr>"

lemma invoice_rules_accepted: "accepted_policy (rulesPolicy invoice_rules)"
  using invoice_accepted by (simp add: invoice_rules_def make_rules_def add_rule_def add_public_def add_rules_def)

subsection \<open>Messages\<close>

definition pay_message :: "(int, int) MessageDefinition" where
  "pay_message = \<lparr>msgKind = CommandKind, msgTag = ''Pay'',
     decodePayload = (\<lambda>j. case j of JNum n \<Rightarrow> Inr n | _ \<Rightarrow> Inl [''expected a number'']), encodePayload = (\<lambda>n. Some (JNum n)),
     decodeSuccess = (\<lambda>j. case j of JNum n \<Rightarrow> Inr n | _ \<Rightarrow> Inl JNull), encodeSuccess = (\<lambda>n. Some (JNum n))\<rparr>"

definition pay_dispatch :: "(int, int) KeyedDispatch" where
  "pay_dispatch = \<lparr>kdDefinition = pay_message, kdKey = ''k1'', kdActor = Some ''alice'', kdPayload = 5\<rparr>"

definition pay_claim :: IdempotencyContext where
  "pay_claim = idempotency_context id pay_message ''k1'' (Some ''alice'') (JNum 5)"

definition approve_message :: "(string, nat) MessageDefinition" where
  "approve_message = \<lparr>msgKind = CommandKind, msgTag = ''Approve'',
     decodePayload = (\<lambda>j. case j of JStr s \<Rightarrow> Inr s | _ \<Rightarrow> Inl [''expected a string'']), encodePayload = (\<lambda>s. Some (JStr s)),
     decodeSuccess = (\<lambda>j. case j of JNum n \<Rightarrow> Inr (nat n) | _ \<Rightarrow> Inl JNull), encodeSuccess = (\<lambda>n. Some (JNum (int n)))\<rparr>"

definition approve_bus :: "(string, nat, unit, nat) bus" where
  "approve_bus = makeQueryBus [(''Approve'', \<lparr>regDefinition = approve_message,
     regHandler = (\<lambda>p env ctx deadline n. (Returned (Suc n), Suc n))\<rparr>)] (authorize invoice_rules (Some alice))"

definition no_dispatch_options :: DispatchOptions where
  "no_dispatch_options = \<lparr>idempotencyKey = None, optActor = None, timeoutMillis = None\<rparr>"

definition root_correlation :: CorrelationContext where
  "root_correlation = \<lparr>correlationId = None, causationId = None, ctxActor = None\<rparr>"

subsection \<open>Budgets\<close>

definition no_store_options :: StoreOptions where
  "no_store_options = \<lparr>optMaxKeys = None, optSweepInterval = None\<rparr>"

definition two_per_second :: RateLimitRule where
  "two_per_second = \<lparr>points = 2, windowMillis = 1000, blockMillis = 500\<rparr>"

definition one_key_options :: StoreOptions where
  "one_key_options = \<lparr>optMaxKeys = Some 1, optSweepInterval = None\<rparr>"

definition login_group :: RateLimitGroup where
  "login_group = \<lparr>groupLabel = ''login'', groupRule = two_per_second, groupMatch = (\<lambda>request. url request = ''/login''),
     groupKeys = (\<lambda>request. [Some ''ann'']), consumeWhen = Some (\<lambda>response. statusCode response = 401)\<rparr>"

definition login_options :: "(int \<times> RateState) RateLimitOptions" where
  "login_options = \<lparr>rlStore = memRateStore no_store_options, groups = [login_group], onStoreError = None\<rparr>"

definition login_request :: HttpRequest where
  "login_request = \<lparr>reqMethod = ''POST'', url = ''/login'', reqHeaders = [], remoteAddress = None\<rparr>"

definition login_ok :: HttpResponse where
  "login_ok = \<lparr>statusCode = 200, respHeaders = [], respBody = JNull\<rparr>"

subsection \<open>A schedule\<close>

definition morning :: CronFields where
  "morning = \<lparr>minutes = [30], hours = [9], daysOfMonth = [1..<32], months = [1..<13], daysOfWeek = [0..<7],
     domRestricted = False, dowRestricted = False\<rparr>"

end
