(* ===== verification/AuthModel.thy ===== *)
theory AuthModel
  imports Prelude
begin

section \<open>Records and errors of the authentication package\<close>

text \<open>
  \<open>packages/auth/src/model.ts\<close> and \<open>errors.ts\<close>. Times (\<open>Date\<close>) are milliseconds since the epoch. A redacted value is
  the value: redaction concerns only how it prints. An error's \<open>cause\<close>, which is diagnostic, is left out.
\<close>

type_synonym TenantId = string
type_synonym UserId = string
type_synonym OAuthProviderId = string

datatype OneTimeTokenPurpose = EmailVerification | MagicLink | PasswordReset

datatype PasskeyChallengePurpose = Registration_purpose | Authentication_purpose

fun purpose_name :: "OneTimeTokenPurpose \<Rightarrow> string" where
  "purpose_name EmailVerification = ''email-verification''"
| "purpose_name MagicLink = ''magic-link''"
| "purpose_name PasswordReset = ''password-reset''"

fun challenge_name :: "PasskeyChallengePurpose \<Rightarrow> string" where
  "challenge_name Registration_purpose = ''registration''"
| "challenge_name Authentication_purpose = ''authentication''"

record AuthUser =
  userId :: UserId
  userTenant :: TenantId
  userEmail :: "string option"
  emailVerified :: bool
  displayName :: "string option"
  userCreatedAt :: int
  userUpdatedAt :: int

record PasswordCredential =
  credTenant :: TenantId
  credUser :: UserId
  credEmail :: string
  passwordHash :: string
  credUpdatedAt :: int

record OAuthIdentity =
  oauthTenant :: TenantId
  oauthUser :: UserId
  oauthProvider :: OAuthProviderId
  oauthSubject :: string
  oauthEmail :: "string option"
  oauthCreatedAt :: int

record SessionRecord =
  sessionId :: string
  sessionTenant :: TenantId
  sessionUser :: UserId
  sessionHash :: string
  sessionCreatedAt :: int
  sessionExpiresAt :: int
  elevatedAt :: "int option"

record TotpRecord =
  totpTenant :: TenantId
  totpUser :: UserId
  secretBase32 :: string
  confirmed :: bool
  recoveryCodeHashes :: "string list"
  failedAttempts :: int
  lockedUntil :: "int option"
  lastUsedStep :: "int option"
  enrolledAt :: int

record AuthSession =
  authToken :: string
  authUser :: AuthUser
  authExpiresAt :: int

record OneTimeTokenRecord =
  ottTenant :: TenantId
  ottPurpose :: OneTimeTokenPurpose
  ottHash :: string
  ottEmail :: string
  ottUser :: "UserId option"
  ottExpiresAt :: int

record OAuthStateRecord =
  stateTenant :: TenantId
  stateProvider :: OAuthProviderId
  stateHash :: string
  codeVerifier :: string
  redirectUri :: string
  returnTo :: "string option"
  stateExpiresAt :: int

record PasskeyChallengeRecord =
  challengeTenant :: TenantId
  challengePurpose :: PasskeyChallengePurpose
  challengeHash :: string
  challengeUser :: "UserId option"
  challengeExpiresAt :: int

datatype PasskeyAlgorithm = ES256 | RS256 | Ed25519

record PasskeyRecord =
  passkeyTenant :: TenantId
  passkeyUser :: UserId
  credentialId :: string
  publicKey :: string
  algorithm :: PasskeyAlgorithm
  passkeyCounter :: int
  transports :: "string list"
  passkeyLabel :: "string option"
  aaguid :: "string option"
  passkeyCreatedAt :: int

datatype AuthError =
    AccountLinkDenied string "string option"
  | AuthDependencyError string string
  | AuthStoreError string
  | AuthValidationError string string
  | EmailNotVerified UserId
  | IdentityConflict TenantId string
  | InvalidAuthToken string
  | InvalidAuthRoutes "(string \<times> string) list"
  | InvalidCredentials "string option"
  | SecondFactorRequired UserId
  | RateLimitExceeded string "int option"
  | UnsupportedPasskey string

datatype AuthFailureClass = TransientAuth | PermanentAuth | ConflictAuth

fun auth_classification :: "AuthError \<Rightarrow> AuthFailureClass" where
  "auth_classification (AuthDependencyError dependency operation) = TransientAuth"
| "auth_classification (AuthStoreError operation) = TransientAuth"
| "auth_classification (RateLimitExceeded action retryAfterSeconds) = TransientAuth"
| "auth_classification (IdentityConflict tenantId identity) = ConflictAuth"
| "auth_classification _ = PermanentAuth"

end
