(* ===== verification/AuthStore.thy ===== *)
theory AuthStore
  imports AuthModel
begin

section \<open>The in-memory store of the authentication package\<close>

text \<open>
  \<open>packages/auth/src/store.ts\<close>: the state and every operation of \<open>inMemoryAuthStore\<close>. Each operation runs in one turn
  of the event loop and is one atomic step. A loop over a map that overwrites or deletes entries of the map is written as
  the map with those entries overwritten or left out; keys of a map are unique.
\<close>

record MemoryState =
  users :: "(string, AuthUser) jsmap"
  usersByEmail :: "(string, UserId) jsmap"
  passwords :: "(string, PasswordCredential) jsmap"
  tokens :: "(string, OneTimeTokenRecord) jsmap"
  sessions :: "(string, SessionRecord) jsmap"
  oauthStates :: "(string, OAuthStateRecord) jsmap"
  oauthIdentities :: "(string, OAuthIdentity) jsmap"
  passkeyChallenges :: "(string, PasskeyChallengeRecord) jsmap"
  passkeys :: "(string, PasskeyRecord) jsmap"
  totp :: "(string, TotpRecord) jsmap"

definition NUL :: char where "NUL = CHR 0x00"

definition scoped :: "string \<Rightarrow> string \<Rightarrow> string" where
  "scoped tenantId v = tenantId @ NUL # v"

definition tokenKey :: "string \<Rightarrow> string \<Rightarrow> string \<Rightarrow> string" where
  "tokenKey tenantId purpose hash = tenantId @ NUL # purpose @ NUL # hash"

definition oauthKey :: "string \<Rightarrow> string \<Rightarrow> string \<Rightarrow> string" where
  "oauthKey tenantId provider subject = tenantId @ NUL # provider @ NUL # subject"

definition newState :: MemoryState where
  "newState = \<lparr>users = [], usersByEmail = [], passwords = [], tokens = [], sessions = [], oauthStates = [],
     oauthIdentities = [], passkeyChallenges = [], passkeys = [], totp = []\<rparr>"

abbreviation has_key :: "('k, 'v) jsmap \<Rightarrow> 'k \<Rightarrow> bool" where
  "has_key m k \<equiv> jsget m k \<noteq> None"

subsection \<open>Users, passwords, external identities\<close>

definition assertUserUnique :: "AuthUser \<Rightarrow> MemoryState \<Rightarrow> AuthError option" where
  "assertUserUnique user st =
     (if has_key (users st) (scoped (userTenant user) (userId user))
      then Some (IdentityConflict (userTenant user) (''user:'' @ userId user))
      else case userEmail user of
        Some email \<Rightarrow> if has_key (usersByEmail st) (scoped (userTenant user) email)
          then Some (IdentityConflict (userTenant user) ''email'') else None
      | None \<Rightarrow> None)"

definition insertUser :: "AuthUser \<Rightarrow> MemoryState \<Rightarrow> MemoryState" where
  "insertUser user st =
     st\<lparr>users := jsset (scoped (userTenant user) (userId user)) user (users st),
        usersByEmail := (case userEmail user of None \<Rightarrow> usersByEmail st
          | Some email \<Rightarrow> jsset (scoped (userTenant user) email) (userId user) (usersByEmail st))\<rparr>"

definition createPasswordUser :: "AuthUser \<Rightarrow> PasswordCredential \<Rightarrow> MemoryState \<Rightarrow> (AuthError, unit) result \<times> MemoryState" where
  "createPasswordUser user credential st =
     (case assertUserUnique user st of
        Some conflict \<Rightarrow> (Inl conflict, st)
      | None \<Rightarrow>
          (let passwordKey = scoped (credTenant credential) (credEmail credential) in
           if has_key (passwords st) passwordKey
           then (Inl (IdentityConflict (credTenant credential) ''password-email''), st)
           else (let st1 = insertUser user st in
             (Inr (), st1\<lparr>passwords := jsset passwordKey credential (passwords st1)\<rparr>))))"

definition createOAuthUser :: "AuthUser \<Rightarrow> OAuthIdentity \<Rightarrow> MemoryState \<Rightarrow> (AuthError, unit) result \<times> MemoryState" where
  "createOAuthUser user identity st =
     (case assertUserUnique user st of
        Some conflict \<Rightarrow> (Inl conflict, st)
      | None \<Rightarrow>
          (let identityKey = oauthKey (oauthTenant identity) (oauthProvider identity) (oauthSubject identity) in
           if has_key (oauthIdentities st) identityKey
           then (Inl (IdentityConflict (oauthTenant identity) ''oauth''), st)
           else (let st1 = insertUser user st in
             (Inr (), st1\<lparr>oauthIdentities := jsset identityKey identity (oauthIdentities st1)\<rparr>))))"

definition createMagicLinkUser :: "AuthUser \<Rightarrow> MemoryState \<Rightarrow> (AuthError, unit) result \<times> MemoryState" where
  "createMagicLinkUser user st =
     (case assertUserUnique user st of
        Some conflict \<Rightarrow> (Inl conflict, st)
      | None \<Rightarrow> (Inr (), insertUser user st))"

definition findUserById :: "TenantId \<Rightarrow> UserId \<Rightarrow> MemoryState \<Rightarrow> AuthUser option" where
  "findUserById tenantId uid st = jsget (users st) (scoped tenantId uid)"

definition findUserByEmail :: "TenantId \<Rightarrow> string \<Rightarrow> MemoryState \<Rightarrow> AuthUser option" where
  "findUserByEmail tenantId email st =
     (case jsget (usersByEmail st) (scoped tenantId email) of
        None \<Rightarrow> None
      | Some uid \<Rightarrow> jsget (users st) (scoped tenantId uid))"

definition findPassword :: "TenantId \<Rightarrow> string \<Rightarrow> MemoryState \<Rightarrow> PasswordCredential option" where
  "findPassword tenantId email st = jsget (passwords st) (scoped tenantId email)"

definition setEmailVerified :: "TenantId \<Rightarrow> UserId \<Rightarrow> int \<Rightarrow> MemoryState \<Rightarrow> AuthUser option \<times> MemoryState" where
  "setEmailVerified tenantId uid now st =
     (let key = scoped tenantId uid in
      case jsget (users st) key of
        None \<Rightarrow> (None, st)
      | Some current \<Rightarrow>
          (let updated = current\<lparr>emailVerified := True, userUpdatedAt := now\<rparr> in
           (Some updated, st\<lparr>users := jsset key updated (users st)\<rparr>)))"

definition of_user :: "TenantId \<Rightarrow> UserId \<Rightarrow> SessionRecord \<Rightarrow> bool" where
  "of_user tenantId uid session \<longleftrightarrow> sessionTenant session = tenantId \<and> sessionUser session = uid"

definition replacePasswordAndRevokeSessions :: "TenantId \<Rightarrow> UserId \<Rightarrow> string \<Rightarrow> int \<Rightarrow> MemoryState \<Rightarrow> MemoryState" where
  "replacePasswordAndRevokeSessions tenantId uid hash now st =
     st\<lparr>passwords := map (\<lambda>(key, credential).
          (key, if credTenant credential = tenantId \<and> credUser credential = uid
                then credential\<lparr>passwordHash := hash, credUpdatedAt := now\<rparr> else credential)) (passwords st),
        sessions := filter (\<lambda>(key, session). \<not> of_user tenantId uid session) (sessions st)\<rparr>"

subsection \<open>One-time tokens and sessions\<close>

definition putOneTimeToken :: "OneTimeTokenRecord \<Rightarrow> MemoryState \<Rightarrow> MemoryState" where
  "putOneTimeToken rec st =
     st\<lparr>tokens := jsset (tokenKey (ottTenant rec) (purpose_name (ottPurpose rec)) (ottHash rec)) rec
          (filter (\<lambda>(key, existing). \<not> (ottTenant existing = ottTenant rec \<and> ottPurpose existing = ottPurpose rec
             \<and> ottEmail existing = ottEmail rec)) (tokens st))\<rparr>"

definition consumeOneTimeToken ::
  "TenantId \<Rightarrow> OneTimeTokenPurpose \<Rightarrow> string \<Rightarrow> int \<Rightarrow> MemoryState \<Rightarrow> OneTimeTokenRecord option \<times> MemoryState" where
  "consumeOneTimeToken tenantId purpose hash now st =
     (let key = tokenKey tenantId (purpose_name purpose) hash in
      (case jsget (tokens st) key of
         None \<Rightarrow> None
       | Some rec \<Rightarrow> if ottExpiresAt rec \<le> now then None else Some rec,
       st\<lparr>tokens := jsdelete key (tokens st)\<rparr>))"

definition createSession :: "SessionRecord \<Rightarrow> MemoryState \<Rightarrow> (AuthError, unit) result \<times> MemoryState" where
  "createSession rec st =
     (let key = scoped (sessionTenant rec) (sessionHash rec) in
      if has_key (sessions st) key
      then (Inl (IdentityConflict (sessionTenant rec) ''session-token''), st)
      else (Inr (), st\<lparr>sessions := jsset key rec (sessions st)\<rparr>))"

definition findSession :: "TenantId \<Rightarrow> string \<Rightarrow> int \<Rightarrow> MemoryState \<Rightarrow> SessionRecord option \<times> MemoryState" where
  "findSession tenantId hash now st =
     (let key = scoped tenantId hash in
      case jsget (sessions st) key of
        None \<Rightarrow> (None, st)
      | Some rec \<Rightarrow>
          if sessionExpiresAt rec \<le> now then (None, st\<lparr>sessions := jsdelete key (sessions st)\<rparr>)
          else (Some rec, st))"

definition revokeSession :: "TenantId \<Rightarrow> string \<Rightarrow> MemoryState \<Rightarrow> MemoryState" where
  "revokeSession tenantId hash st = st\<lparr>sessions := jsdelete (scoped tenantId hash) (sessions st)\<rparr>"

definition revokeUserSessions :: "TenantId \<Rightarrow> UserId \<Rightarrow> MemoryState \<Rightarrow> MemoryState" where
  "revokeUserSessions tenantId uid st =
     st\<lparr>sessions := filter (\<lambda>(key, session). \<not> of_user tenantId uid session) (sessions st)\<rparr>"

subsection \<open>OAuth\<close>

definition putOAuthState :: "OAuthStateRecord \<Rightarrow> MemoryState \<Rightarrow> MemoryState" where
  "putOAuthState rec st = st\<lparr>oauthStates := jsset (scoped (stateTenant rec) (stateHash rec)) rec (oauthStates st)\<rparr>"

definition consumeOAuthState :: "TenantId \<Rightarrow> string \<Rightarrow> int \<Rightarrow> MemoryState \<Rightarrow> OAuthStateRecord option \<times> MemoryState" where
  "consumeOAuthState tenantId hash now st =
     (let key = scoped tenantId hash in
      (case jsget (oauthStates st) key of
         None \<Rightarrow> None
       | Some rec \<Rightarrow> if stateExpiresAt rec \<le> now then None else Some rec,
       st\<lparr>oauthStates := jsdelete key (oauthStates st)\<rparr>))"

definition findOAuthIdentity :: "TenantId \<Rightarrow> OAuthProviderId \<Rightarrow> string \<Rightarrow> MemoryState \<Rightarrow> OAuthIdentity option" where
  "findOAuthIdentity tenantId provider subject st = jsget (oauthIdentities st) (oauthKey tenantId provider subject)"

definition addOAuthIdentity :: "OAuthIdentity \<Rightarrow> MemoryState \<Rightarrow> (AuthError, unit) result \<times> MemoryState" where
  "addOAuthIdentity identity st =
     (let key = oauthKey (oauthTenant identity) (oauthProvider identity) (oauthSubject identity) in
      if has_key (oauthIdentities st) key
      then (Inl (IdentityConflict (oauthTenant identity) ''oauth''), st)
      else (Inr (), st\<lparr>oauthIdentities := jsset key identity (oauthIdentities st)\<rparr>))"

definition removeOAuthIdentity :: "TenantId \<Rightarrow> UserId \<Rightarrow> OAuthProviderId \<Rightarrow> MemoryState \<Rightarrow> MemoryState" where
  "removeOAuthIdentity tenantId uid provider st =
     st\<lparr>oauthIdentities := filter (\<lambda>(key, identity). \<not> (oauthTenant identity = tenantId \<and> oauthUser identity = uid
          \<and> oauthProvider identity = provider)) (oauthIdentities st)\<rparr>"

subsection \<open>Passkeys\<close>

definition putPasskeyChallenge :: "PasskeyChallengeRecord \<Rightarrow> MemoryState \<Rightarrow> MemoryState" where
  "putPasskeyChallenge rec st =
     st\<lparr>passkeyChallenges := jsset (tokenKey (challengeTenant rec) (challenge_name (challengePurpose rec)) (challengeHash rec)) rec
          (passkeyChallenges st)\<rparr>"

definition consumePasskeyChallenge ::
  "TenantId \<Rightarrow> PasskeyChallengePurpose \<Rightarrow> string \<Rightarrow> int \<Rightarrow> MemoryState \<Rightarrow> PasskeyChallengeRecord option \<times> MemoryState" where
  "consumePasskeyChallenge tenantId purpose hash now st =
     (let key = tokenKey tenantId (challenge_name purpose) hash in
      (case jsget (passkeyChallenges st) key of
         None \<Rightarrow> None
       | Some rec \<Rightarrow> if challengeExpiresAt rec \<le> now then None else Some rec,
       st\<lparr>passkeyChallenges := jsdelete key (passkeyChallenges st)\<rparr>))"

definition addPasskey :: "PasskeyRecord \<Rightarrow> MemoryState \<Rightarrow> (AuthError, unit) result \<times> MemoryState" where
  "addPasskey rec st =
     (let key = scoped (passkeyTenant rec) (credentialId rec) in
      if has_key (passkeys st) key
      then (Inl (IdentityConflict (passkeyTenant rec) ''passkey''), st)
      else (Inr (), st\<lparr>passkeys := jsset key rec (passkeys st)\<rparr>))"

definition findPasskey :: "TenantId \<Rightarrow> string \<Rightarrow> MemoryState \<Rightarrow> PasskeyRecord option" where
  "findPasskey tenantId cid st = jsget (passkeys st) (scoped tenantId cid)"

definition listPasskeys :: "TenantId \<Rightarrow> UserId \<Rightarrow> MemoryState \<Rightarrow> PasskeyRecord list" where
  "listPasskeys tenantId uid st =
     filter (\<lambda>passkey. passkeyTenant passkey = tenantId \<and> passkeyUser passkey = uid) (map snd (passkeys st))"

definition renamePasskey :: "TenantId \<Rightarrow> UserId \<Rightarrow> string \<Rightarrow> string option \<Rightarrow> MemoryState \<Rightarrow> bool \<times> MemoryState" where
  "renamePasskey tenantId uid cid label st =
     (let key = scoped tenantId cid in
      case jsget (passkeys st) key of
        None \<Rightarrow> (False, st)
      | Some current \<Rightarrow>
          if passkeyUser current \<noteq> uid then (False, st)
          else (True, st\<lparr>passkeys := jsset key (current\<lparr>passkeyLabel := label\<rparr>) (passkeys st)\<rparr>))"

definition removePasskey :: "TenantId \<Rightarrow> UserId \<Rightarrow> string \<Rightarrow> MemoryState \<Rightarrow> bool \<times> MemoryState" where
  "removePasskey tenantId uid cid st =
     (let key = scoped tenantId cid in
      case jsget (passkeys st) key of
        None \<Rightarrow> (False, st)
      | Some current \<Rightarrow>
          if passkeyUser current = uid then (True, st\<lparr>passkeys := jsdelete key (passkeys st)\<rparr>) else (False, st))"

definition updatePasskeyCounter ::
  "TenantId \<Rightarrow> string \<Rightarrow> int \<Rightarrow> int \<Rightarrow> MemoryState \<Rightarrow> (AuthError, unit) result \<times> MemoryState" where
  "updatePasskeyCounter tenantId cid expectedCounter counter st =
     (let key = scoped tenantId cid in
      case jsget (passkeys st) key of
        None \<Rightarrow> (Inl (IdentityConflict tenantId ''passkey-counter''), st)
      | Some current \<Rightarrow>
          if passkeyCounter current \<noteq> expectedCounter
          then (Inl (IdentityConflict tenantId ''passkey-counter''), st)
          else (Inr (), st\<lparr>passkeys := jsset key (current\<lparr>passkeyCounter := counter\<rparr>) (passkeys st)\<rparr>))"

subsection \<open>The second factor\<close>

definition putTotpSecret :: "TotpRecord \<Rightarrow> MemoryState \<Rightarrow> MemoryState" where
  "putTotpSecret rec st = st\<lparr>totp := jsset (scoped (totpTenant rec) (totpUser rec)) rec (totp st)\<rparr>"

definition findTotp :: "TenantId \<Rightarrow> UserId \<Rightarrow> MemoryState \<Rightarrow> TotpRecord option" where
  "findTotp tenantId uid st = jsget (totp st) (scoped tenantId uid)"

definition confirmTotp :: "TenantId \<Rightarrow> UserId \<Rightarrow> string list \<Rightarrow> int \<Rightarrow> MemoryState \<Rightarrow> TotpRecord option \<times> MemoryState" where
  "confirmTotp tenantId uid hashes now st =
     (let key = scoped tenantId uid in
      case jsget (totp st) key of
        None \<Rightarrow> (None, st)
      | Some current \<Rightarrow>
          if confirmed current then (None, st)
          else (let updated = current\<lparr>confirmed := True, recoveryCodeHashes := hashes, failedAttempts := 0, enrolledAt := now\<rparr> in
            (Some updated, st\<lparr>totp := jsset key updated (totp st)\<rparr>)))"

definition removeTotp :: "TenantId \<Rightarrow> UserId \<Rightarrow> MemoryState \<Rightarrow> MemoryState" where
  "removeTotp tenantId uid st = st\<lparr>totp := jsdelete (scoped tenantId uid) (totp st)\<rparr>"

definition replaceTotpSecret :: "TenantId \<Rightarrow> UserId \<Rightarrow> string \<Rightarrow> MemoryState \<Rightarrow> MemoryState" where
  "replaceTotpSecret tenantId uid secret st =
     (let key = scoped tenantId uid in
      case jsget (totp st) key of
        None \<Rightarrow> st
      | Some current \<Rightarrow> st\<lparr>totp := jsset key (current\<lparr>secretBase32 := secret\<rparr>) (totp st)\<rparr>)"

definition recordTotpFailure ::
  "TenantId \<Rightarrow> UserId \<Rightarrow> int \<Rightarrow> int \<Rightarrow> int \<Rightarrow> MemoryState \<Rightarrow> (bool \<times> int option) \<times> MemoryState" where
  "recordTotpFailure tenantId uid threshold cooldownMillis now st =
     (let key = scoped tenantId uid in
      case jsget (totp st) key of
        None \<Rightarrow> ((False, None), st)
      | Some current \<Rightarrow>
          (let attempts = failedAttempts current + 1;
               locked = (threshold \<le> attempts);
               until = (if locked then Some (now + cooldownMillis) else lockedUntil current) in
           ((locked, if locked then until else None),
            st\<lparr>totp := jsset key (current\<lparr>failedAttempts := attempts,
                 lockedUntil := (case until of None \<Rightarrow> lockedUntil current | Some t \<Rightarrow> Some t)\<rparr>) (totp st)\<rparr>)))"

definition resetTotpFailures :: "TenantId \<Rightarrow> UserId \<Rightarrow> MemoryState \<Rightarrow> MemoryState" where
  "resetTotpFailures tenantId uid st =
     (let key = scoped tenantId uid in
      case jsget (totp st) key of
        None \<Rightarrow> st
      | Some current \<Rightarrow> st\<lparr>totp := jsset key (current\<lparr>lockedUntil := None, failedAttempts := 0\<rparr>) (totp st)\<rparr>)"

definition markTotpStepUsed :: "TenantId \<Rightarrow> UserId \<Rightarrow> int \<Rightarrow> MemoryState \<Rightarrow> bool \<times> MemoryState" where
  "markTotpStepUsed tenantId uid step st =
     (let key = scoped tenantId uid in
      case jsget (totp st) key of
        None \<Rightarrow> (False, st)
      | Some current \<Rightarrow>
          if (case lastUsedStep current of None \<Rightarrow> False | Some used \<Rightarrow> step \<le> used) then (False, st)
          else (True, st\<lparr>totp := jsset key (current\<lparr>lastUsedStep := Some step\<rparr>) (totp st)\<rparr>))"

definition consumeRecoveryCode :: "TenantId \<Rightarrow> UserId \<Rightarrow> string \<Rightarrow> MemoryState \<Rightarrow> bool \<times> MemoryState" where
  "consumeRecoveryCode tenantId uid codeHash st =
     (let key = scoped tenantId uid in
      case jsget (totp st) key of
        None \<Rightarrow> (False, st)
      | Some current \<Rightarrow>
          if codeHash \<notin> set (recoveryCodeHashes current) then (False, st)
          else (True, st\<lparr>totp := jsset key (current\<lparr>recoveryCodeHashes :=
                 filter (\<lambda>hash. hash \<noteq> codeHash) (recoveryCodeHashes current)\<rparr>) (totp st)\<rparr>))"

definition elevateSession :: "TenantId \<Rightarrow> string \<Rightarrow> int \<Rightarrow> MemoryState \<Rightarrow> MemoryState" where
  "elevateSession tenantId hash now st =
     (let key = scoped tenantId hash in
      case jsget (sessions st) key of
        None \<Rightarrow> st
      | Some session \<Rightarrow> st\<lparr>sessions := jsset key (session\<lparr>elevatedAt := Some now\<rparr>) (sessions st)\<rparr>)"

subsection \<open>Calls and histories\<close>

text \<open>
  The calls of the port, so that what many requests do to the store in whatever order is a list of calls. Every call
  names one tenant; records handed over carry the tenant of the call.
\<close>

datatype AuthCall =
    CreatePasswordUser AuthUser PasswordCredential
  | CreateOAuthUser AuthUser OAuthIdentity
  | CreateMagicLinkUser AuthUser
  | FindUserById TenantId UserId
  | FindUserByEmail TenantId string
  | FindPassword TenantId string
  | SetEmailVerified TenantId UserId int
  | ReplacePasswordAndRevokeSessions TenantId UserId string int
  | PutOneTimeToken OneTimeTokenRecord
  | ConsumeOneTimeToken TenantId OneTimeTokenPurpose string int
  | CreateSession SessionRecord
  | FindSession TenantId string int
  | RevokeSession TenantId string
  | RevokeUserSessions TenantId UserId
  | PutOAuthState OAuthStateRecord
  | ConsumeOAuthState TenantId string int
  | FindOAuthIdentity TenantId OAuthProviderId string
  | AddOAuthIdentity OAuthIdentity
  | RemoveOAuthIdentity TenantId UserId OAuthProviderId
  | PutPasskeyChallenge PasskeyChallengeRecord
  | ConsumePasskeyChallenge TenantId PasskeyChallengePurpose string int
  | AddPasskey PasskeyRecord
  | FindPasskey TenantId string
  | ListPasskeys TenantId UserId
  | RenamePasskey TenantId UserId string "string option"
  | RemovePasskey TenantId UserId string
  | UpdatePasskeyCounter TenantId string int int
  | PutTotpSecret TotpRecord
  | FindTotp TenantId UserId
  | ConfirmTotp TenantId UserId "string list" int
  | RemoveTotp TenantId UserId
  | ReplaceTotpSecret TenantId UserId string
  | RecordTotpFailure TenantId UserId int int int
  | ResetTotpFailures TenantId UserId
  | MarkTotpStepUsed TenantId UserId int
  | ConsumeRecoveryCode TenantId UserId string
  | ElevateSession TenantId string int

datatype AuthResponse =
    Done
  | RefusedBy AuthError
  | UserIs "AuthUser option"
  | PasswordIs "PasswordCredential option"
  | TokenIs "OneTimeTokenRecord option"
  | SessionIs "SessionRecord option"
  | StateIs "OAuthStateRecord option"
  | IdentityIs "OAuthIdentity option"
  | ChallengeIs "PasskeyChallengeRecord option"
  | PasskeyIs "PasskeyRecord option"
  | PasskeysAre "PasskeyRecord list"
  | TotpIs "TotpRecord option"
  | Answer bool
  | LockedIs bool "int option"

definition unit_response :: "(AuthError, unit) result \<times> MemoryState \<Rightarrow> AuthResponse \<times> MemoryState" where
  "unit_response r = ((case fst r of Inl e \<Rightarrow> RefusedBy e | Inr _ \<Rightarrow> Done), snd r)"

fun call :: "AuthCall \<Rightarrow> MemoryState \<Rightarrow> AuthResponse \<times> MemoryState" where
  "call (CreatePasswordUser user credential) st = unit_response (createPasswordUser user credential st)"
| "call (CreateOAuthUser user identity) st = unit_response (createOAuthUser user identity st)"
| "call (CreateMagicLinkUser user) st = unit_response (createMagicLinkUser user st)"
| "call (FindUserById t uid) st = (UserIs (findUserById t uid st), st)"
| "call (FindUserByEmail t email) st = (UserIs (findUserByEmail t email st), st)"
| "call (FindPassword t email) st = (PasswordIs (findPassword t email st), st)"
| "call (SetEmailVerified t uid now) st = apfst UserIs (setEmailVerified t uid now st)"
| "call (ReplacePasswordAndRevokeSessions t uid hash now) st = (Done, replacePasswordAndRevokeSessions t uid hash now st)"
| "call (PutOneTimeToken rec) st = (Done, putOneTimeToken rec st)"
| "call (ConsumeOneTimeToken t purpose hash now) st = apfst TokenIs (consumeOneTimeToken t purpose hash now st)"
| "call (CreateSession rec) st = unit_response (createSession rec st)"
| "call (FindSession t hash now) st = apfst SessionIs (findSession t hash now st)"
| "call (RevokeSession t hash) st = (Done, revokeSession t hash st)"
| "call (RevokeUserSessions t uid) st = (Done, revokeUserSessions t uid st)"
| "call (PutOAuthState rec) st = (Done, putOAuthState rec st)"
| "call (ConsumeOAuthState t hash now) st = apfst StateIs (consumeOAuthState t hash now st)"
| "call (FindOAuthIdentity t provider subject) st = (IdentityIs (findOAuthIdentity t provider subject st), st)"
| "call (AddOAuthIdentity identity) st = unit_response (addOAuthIdentity identity st)"
| "call (RemoveOAuthIdentity t uid provider) st = (Done, removeOAuthIdentity t uid provider st)"
| "call (PutPasskeyChallenge rec) st = (Done, putPasskeyChallenge rec st)"
| "call (ConsumePasskeyChallenge t purpose hash now) st = apfst ChallengeIs (consumePasskeyChallenge t purpose hash now st)"
| "call (AddPasskey rec) st = unit_response (addPasskey rec st)"
| "call (FindPasskey t cid) st = (PasskeyIs (findPasskey t cid st), st)"
| "call (ListPasskeys t uid) st = (PasskeysAre (listPasskeys t uid st), st)"
| "call (RenamePasskey t uid cid label) st = apfst Answer (renamePasskey t uid cid label st)"
| "call (RemovePasskey t uid cid) st = apfst Answer (removePasskey t uid cid st)"
| "call (UpdatePasskeyCounter t cid expected counter) st = unit_response (updatePasskeyCounter t cid expected counter st)"
| "call (PutTotpSecret rec) st = (Done, putTotpSecret rec st)"
| "call (FindTotp t uid) st = (TotpIs (findTotp t uid st), st)"
| "call (ConfirmTotp t uid hashes now) st = apfst TotpIs (confirmTotp t uid hashes now st)"
| "call (RemoveTotp t uid) st = (Done, removeTotp t uid st)"
| "call (ReplaceTotpSecret t uid secret) st = (Done, replaceTotpSecret t uid secret st)"
| "call (RecordTotpFailure t uid threshold cooldown now) st =
     apfst (\<lambda>(locked, until). LockedIs locked until) (recordTotpFailure t uid threshold cooldown now st)"
| "call (ResetTotpFailures t uid) st = (Done, resetTotpFailures t uid st)"
| "call (MarkTotpStepUsed t uid step) st = apfst Answer (markTotpStepUsed t uid step st)"
| "call (ConsumeRecoveryCode t uid hash) st = apfst Answer (consumeRecoveryCode t uid hash st)"
| "call (ElevateSession t hash now) st = (Done, elevateSession t hash now st)"

fun call_tenant :: "AuthCall \<Rightarrow> TenantId" where
  "call_tenant (CreatePasswordUser user credential) = userTenant user"
| "call_tenant (CreateOAuthUser user identity) = userTenant user"
| "call_tenant (CreateMagicLinkUser user) = userTenant user"
| "call_tenant (FindUserById t uid) = t"
| "call_tenant (FindUserByEmail t email) = t"
| "call_tenant (FindPassword t email) = t"
| "call_tenant (SetEmailVerified t uid now) = t"
| "call_tenant (ReplacePasswordAndRevokeSessions t uid hash now) = t"
| "call_tenant (PutOneTimeToken rec) = ottTenant rec"
| "call_tenant (ConsumeOneTimeToken t purpose hash now) = t"
| "call_tenant (CreateSession rec) = sessionTenant rec"
| "call_tenant (FindSession t hash now) = t"
| "call_tenant (RevokeSession t hash) = t"
| "call_tenant (RevokeUserSessions t uid) = t"
| "call_tenant (PutOAuthState rec) = stateTenant rec"
| "call_tenant (ConsumeOAuthState t hash now) = t"
| "call_tenant (FindOAuthIdentity t provider subject) = t"
| "call_tenant (AddOAuthIdentity identity) = oauthTenant identity"
| "call_tenant (RemoveOAuthIdentity t uid provider) = t"
| "call_tenant (PutPasskeyChallenge rec) = challengeTenant rec"
| "call_tenant (ConsumePasskeyChallenge t purpose hash now) = t"
| "call_tenant (AddPasskey rec) = passkeyTenant rec"
| "call_tenant (FindPasskey t cid) = t"
| "call_tenant (ListPasskeys t uid) = t"
| "call_tenant (RenamePasskey t uid cid label) = t"
| "call_tenant (RemovePasskey t uid cid) = t"
| "call_tenant (UpdatePasskeyCounter t cid expected counter) = t"
| "call_tenant (PutTotpSecret rec) = totpTenant rec"
| "call_tenant (FindTotp t uid) = t"
| "call_tenant (ConfirmTotp t uid hashes now) = t"
| "call_tenant (RemoveTotp t uid) = t"
| "call_tenant (ReplaceTotpSecret t uid secret) = t"
| "call_tenant (RecordTotpFailure t uid threshold cooldown now) = t"
| "call_tenant (ResetTotpFailures t uid) = t"
| "call_tenant (MarkTotpStepUsed t uid step) = t"
| "call_tenant (ConsumeRecoveryCode t uid hash) = t"
| "call_tenant (ElevateSession t hash now) = t"

text \<open>Tenant ids hold no NUL, and a user is created together with a credential or an identity of its own tenant.\<close>

fun one_tenant :: "AuthCall \<Rightarrow> bool" where
  "one_tenant (CreatePasswordUser user credential) \<longleftrightarrow> credTenant credential = userTenant user"
| "one_tenant (CreateOAuthUser user identity) \<longleftrightarrow> oauthTenant identity = userTenant user"
| "one_tenant c \<longleftrightarrow> True"

definition call_ok :: "AuthCall \<Rightarrow> bool" where
  "call_ok c \<longleftrightarrow> NUL \<notin> set (call_tenant c) \<and> one_tenant c"

fun run_calls :: "AuthCall list \<Rightarrow> MemoryState \<Rightarrow> (AuthCall \<times> AuthResponse) list \<times> MemoryState" where
  "run_calls [] st = ([], st)"
| "run_calls (c # cs) st =
     (let (r, st1) = call c st; (log, st2) = run_calls cs st1 in ((c, r) # log, st2))"

lemmas auth_op_defs =
  createPasswordUser_def createOAuthUser_def createMagicLinkUser_def findUserById_def findUserByEmail_def findPassword_def
  setEmailVerified_def replacePasswordAndRevokeSessions_def putOneTimeToken_def consumeOneTimeToken_def createSession_def
  findSession_def revokeSession_def revokeUserSessions_def putOAuthState_def consumeOAuthState_def findOAuthIdentity_def
  addOAuthIdentity_def removeOAuthIdentity_def putPasskeyChallenge_def consumePasskeyChallenge_def addPasskey_def findPasskey_def
  listPasskeys_def renamePasskey_def removePasskey_def updatePasskeyCounter_def putTotpSecret_def findTotp_def confirmTotp_def
  removeTotp_def replaceTotpSecret_def recordTotpFailure_def resetTotpFailures_def markTotpStepUsed_def consumeRecoveryCode_def
  elevateSession_def assertUserUnique_def insertUser_def

subsection \<open>Tenants do not see each other\<close>

definition key_tenant :: "string \<Rightarrow> TenantId" where
  "key_tenant k = takeWhile (\<lambda>c. c \<noteq> NUL) k"

lemma key_tenant_scoped [simp]: "NUL \<notin> set t \<Longrightarrow> key_tenant (scoped t v) = t"
  by (auto simp: key_tenant_def scoped_def takeWhile_append2 intro!: trans [OF takeWhile_append2])

lemma key_tenant_tokenKey [simp]: "NUL \<notin> set t \<Longrightarrow> key_tenant (tokenKey t p h) = t"
  by (auto simp: key_tenant_def tokenKey_def takeWhile_append2 intro!: trans [OF takeWhile_append2])

lemma key_tenant_oauthKey [simp]: "NUL \<notin> set t \<Longrightarrow> key_tenant (oauthKey t p h) = t"
  by (auto simp: key_tenant_def oauthKey_def takeWhile_append2 intro!: trans [OF takeWhile_append2])

definition slice :: "TenantId \<Rightarrow> (string, 'v) jsmap \<Rightarrow> (string, 'v) jsmap" where
  "slice t m = filter (\<lambda>kv. key_tenant (fst kv) = t) m"

lemma slice_Nil [simp]: "slice t [] = []"
  by (simp add: slice_def)

lemma jsget_slice [simp]: "key_tenant k = t \<Longrightarrow> jsget (slice t m) k = jsget m k"
  by (induction m) (auto simp: slice_def)

lemma slice_jsset_same [simp]: "key_tenant k = t \<Longrightarrow> slice t (jsset k v m) = jsset k v (slice t m)"
  by (induction m) (auto simp: slice_def)

lemma slice_jsset_other [simp]: "key_tenant k \<noteq> t \<Longrightarrow> slice t (jsset k v m) = slice t m"
  by (induction m) (auto simp: slice_def)

lemma slice_jsdelete_same: "slice t (jsdelete k m) = jsdelete k (slice t m)"
  by (auto simp: slice_def AList.delete_eq intro!: filter_cong)

lemma slice_jsdelete_other [simp]: "key_tenant k \<noteq> t \<Longrightarrow> slice t (jsdelete k m) = slice t m"
  by (auto simp: slice_def AList.delete_eq intro!: filter_cong)

lemma slice_filter: "slice t (filter P m) = filter P (slice t m)"
  by (auto simp: slice_def intro!: filter_cong)

lemma slice_filter_other:
  "(\<And>k v. (k, v) \<in> set m \<Longrightarrow> key_tenant k = t \<Longrightarrow> P (k, v)) \<Longrightarrow> slice t (filter P m) = slice t m"
  by (auto simp: slice_def intro!: filter_cong)

lemma slice_map: "slice t (map (\<lambda>(k, v). (k, f v)) m) = map (\<lambda>(k, v). (k, f v)) (slice t m)"
  by (induction m) (auto simp: slice_def)

lemma slice_map_other:
  "(\<And>k v. (k, v) \<in> set m \<Longrightarrow> key_tenant k = t \<Longrightarrow> f v = v) \<Longrightarrow> slice t (map (\<lambda>(k, v). (k, f v)) m) = slice t m"
  by (induction m) (fastforce simp: slice_def)+

definition tenant_view :: "TenantId \<Rightarrow> MemoryState \<Rightarrow> MemoryState" where
  "tenant_view t st =
     \<lparr>users = slice t (users st), usersByEmail = slice t (usersByEmail st), passwords = slice t (passwords st),
      tokens = slice t (tokens st), sessions = slice t (sessions st), oauthStates = slice t (oauthStates st),
      oauthIdentities = slice t (oauthIdentities st), passkeyChallenges = slice t (passkeyChallenges st),
      passkeys = slice t (passkeys st), totp = slice t (totp st)\<rparr>"

lemma slice_values_same:
  "(\<And>k v. (k, v) \<in> set m \<Longrightarrow> P v \<Longrightarrow> key_tenant k = t) \<Longrightarrow> filter P (map snd (slice t m)) = filter P (map snd m)"
  by (induction m) (fastforce simp: slice_def)+

lemma in_set_jsset: "(k', v') \<in> set (jsset k v m) \<Longrightarrow> k' = k \<and> v' = v \<or> (k', v') \<in> set m"
  by (induction m) (auto split: if_splits)

definition keyed :: "('v \<Rightarrow> string) \<Rightarrow> ('v \<Rightarrow> TenantId) \<Rightarrow> (string, 'v) jsmap \<Rightarrow> bool" where
  "keyed key tenant m \<longleftrightarrow> distinct (jskeys m) \<and> (\<forall>k v. (k, v) \<in> set m \<longrightarrow> k = key v \<and> key_tenant k = tenant v)"

lemma keyed_Nil [simp]: "keyed key tenant []"
  by (simp add: keyed_def)

lemma keyed_jsset [intro]:
  "keyed key tenant m \<Longrightarrow> k = key v \<Longrightarrow> key_tenant k = tenant v \<Longrightarrow> keyed key tenant (jsset k v m)"
  unfolding keyed_def by (auto simp del: AList.update_Some_unfold dest!: in_set_jsset intro: AList.distinct_update)

lemma keyed_jsdelete [intro]: "keyed key tenant m \<Longrightarrow> keyed key tenant (jsdelete k m)"
  by (auto simp: keyed_def AList.delete_eq distinct_map inj_on_def)

lemma keyed_filter [intro]: "keyed key tenant m \<Longrightarrow> keyed key tenant (filter P m)"
  by (auto simp: keyed_def distinct_map inj_on_def)

lemma keyed_map [intro]:
  assumes "keyed key tenant m" and "\<And>v. key (f v) = key v \<and> tenant (f v) = tenant v"
  shows "keyed key tenant (map (\<lambda>(k, v). (k, f v)) m)"
proof -
  have "jskeys (map (\<lambda>(k, v). (k, f v)) m) = jskeys m" by (induction m) auto
  moreover have "k = key v \<and> key_tenant k = tenant v" if kv: "(k, v) \<in> set (map (\<lambda>(k, v). (k, f v)) m)" for k v
  proof -
    from kv obtain w where "(k, w) \<in> set m" "v = f w" by auto
    with assms show ?thesis by (auto simp: keyed_def)
  qed
  ultimately show ?thesis using assms(1) unfolding keyed_def by presburger
qed

lemma keyed_get: "keyed key tenant m \<Longrightarrow> jsget m k = Some v \<Longrightarrow> k = key v \<and> key_tenant k = tenant v"
  by (auto simp: keyed_def dest: map_of_SomeD)

lemma keyed_update:
  "keyed key tenant m \<Longrightarrow> jsget m k = Some v \<Longrightarrow> key v' = key v \<Longrightarrow> tenant v' = tenant v \<Longrightarrow> keyed key tenant (jsset k v' m)"
  by (frule (1) keyed_get) (auto intro: keyed_jsset)

abbreviation "user_key u \<equiv> scoped (userTenant u) (userId u)"
abbreviation "cred_key c \<equiv> scoped (credTenant c) (credEmail c)"
abbreviation "ott_key r \<equiv> tokenKey (ottTenant r) (purpose_name (ottPurpose r)) (ottHash r)"
abbreviation "session_key r \<equiv> scoped (sessionTenant r) (sessionHash r)"
abbreviation "state_key r \<equiv> scoped (stateTenant r) (stateHash r)"
abbreviation "identity_key i \<equiv> oauthKey (oauthTenant i) (oauthProvider i) (oauthSubject i)"
abbreviation "challenge_key r \<equiv> tokenKey (challengeTenant r) (challenge_name (challengePurpose r)) (challengeHash r)"
abbreviation "passkey_key r \<equiv> scoped (passkeyTenant r) (credentialId r)"
abbreviation "totp_key r \<equiv> scoped (totpTenant r) (totpUser r)"

text \<open>
  The invariant: every record stands under its own key, the index of emails and the users agree, and one token at most is
  outstanding for a tenant, purpose and email.
\<close>

definition user_set :: "MemoryState \<Rightarrow> AuthUser set" where
  "user_set st = {u. jsget (users st) (user_key u) = Some u}"

definition email_entries :: "AuthUser set \<Rightarrow> (string \<times> UserId) set" where
  "email_entries us = {(scoped (userTenant u) e, userId u) | u e. u \<in> us \<and> userEmail u = Some e}"

definition index_ok :: "MemoryState \<Rightarrow> bool" where
  "index_ok st \<longleftrightarrow> (\<forall>k uid. jsget (usersByEmail st) k = Some uid \<longleftrightarrow> (k, uid) \<in> email_entries (user_set st))"

definition ott_subject :: "OneTimeTokenRecord \<Rightarrow> TenantId \<times> OneTimeTokenPurpose \<times> string" where
  "ott_subject r = (ottTenant r, ottPurpose r, ottEmail r)"

definition one_token :: "MemoryState \<Rightarrow> bool" where
  "one_token st \<longleftrightarrow> inj_on (\<lambda>kr. ott_subject (snd kr)) (set (tokens st))"

definition tables_ok :: "MemoryState \<Rightarrow> bool" where
  "tables_ok st \<longleftrightarrow> keyed user_key userTenant (users st) \<and> keyed cred_key credTenant (passwords st)
     \<and> keyed ott_key ottTenant (tokens st) \<and> keyed session_key sessionTenant (sessions st)
     \<and> keyed state_key stateTenant (oauthStates st) \<and> keyed identity_key oauthTenant (oauthIdentities st)
     \<and> keyed challenge_key challengeTenant (passkeyChallenges st) \<and> keyed passkey_key passkeyTenant (passkeys st)
     \<and> keyed totp_key totpTenant (totp st)"

definition auth_inv :: "MemoryState \<Rightarrow> bool" where
  "auth_inv st \<longleftrightarrow> tables_ok st \<and> index_ok st \<and> one_token st"

lemma tables_ok_call: "tables_ok st \<Longrightarrow> call_ok c \<Longrightarrow> tables_ok (snd (call c st))"
  by (cases c)
    (auto simp: tables_ok_def call_ok_def auth_op_defs unit_response_def Let_def split: option.splits
      intro: keyed_update)

lemma index_ok_cong: "users st' = users st \<Longrightarrow> usersByEmail st' = usersByEmail st \<Longrightarrow> index_ok st' = index_ok st"
  by (simp add: index_ok_def user_set_def)

lemma scoped_inject: "NUL \<notin> set t \<Longrightarrow> NUL \<notin> set t' \<Longrightarrow> scoped t v = scoped t' v' \<longleftrightarrow> t = t' \<and> v = v'"
  by (auto simp: scoped_def dest: append_sep_inject)

lemma email_entries_insert:
  "email_entries (insert u us) = (case userEmail u of None \<Rightarrow> {} | Some e \<Rightarrow> {(scoped (userTenant u) e, userId u)}) \<union> email_entries us"
  by (auto simp: email_entries_def split: option.splits)

lemma user_set_insert: "jsget (users st) (user_key u) = None \<Longrightarrow> user_set (insertUser u st) = insert u (user_set st)"
  by (auto simp: user_set_def insertUser_def)

lemma index_ok_insert:
  assumes "index_ok st" and "assertUserUnique u st = None"
  shows "index_ok (insertUser u st)"
proof -
  have fresh: "jsget (users st) (user_key u) = None"
    and fresh_email: "userEmail u = Some e \<Longrightarrow> jsget (usersByEmail st) (scoped (userTenant u) e) = None" for e
    using assms(2) by (auto simp: assertUserUnique_def split: if_splits option.splits)
  show ?thesis
  proof (cases "userEmail u")
    case None
    with assms(1) show ?thesis by (simp add: index_ok_def user_set_insert fresh email_entries_insert) (simp add: insertUser_def)
  next
    case (Some e)
    have "(scoped (userTenant u) e, uid) \<notin> email_entries (user_set st)" for uid
      using assms(1) fresh_email [OF Some] by (metis index_ok_def option.distinct(1))
    with Some assms(1) show ?thesis
      by (auto simp: index_ok_def user_set_insert fresh email_entries_insert) (auto simp: insertUser_def split: if_splits)
  qed
qed

lemma index_ok_verified:
  assumes "index_ok st" and "tables_ok st" and "jsget (users st) k = Some u" and "v = u\<lparr>emailVerified := True, userUpdatedAt := now\<rparr>"
  shows "index_ok (st\<lparr>users := jsset k v (users st)\<rparr>)"
proof -
  have k: "k = user_key u" using assms(2,3) by (auto simp: tables_ok_def dest: keyed_get)
  have v: "user_key v = user_key u" by (simp add: assms(4))
  have "user_set (st\<lparr>users := jsset k v (users st)\<rparr>) = insert v (user_set st - {u})"
    using assms(3) k v by (auto simp: user_set_def)
  moreover have "insert u (user_set st - {u}) = user_set st" using assms(3) k by (auto simp: user_set_def)
  moreover have "email_entries (insert v us) = email_entries (insert u us)" for us
    unfolding email_entries_insert by (cases "userEmail u") (simp_all add: assms(4))
  ultimately have "email_entries (user_set (st\<lparr>users := jsset k v (users st)\<rparr>)) = email_entries (user_set st)" by simp
  with assms(1) show ?thesis by (simp add: index_ok_def)
qed

lemma index_ok_call:
  assumes "index_ok st" and "tables_ok st"
  shows "index_ok (snd (call c st))"
proof (cases c)
  case (SetEmailVerified t uid now)
  with assms show ?thesis
    by (cases "jsget (users st) (scoped t uid)") (auto simp: setEmailVerified_def Let_def intro: index_ok_verified)
next
  case (CreatePasswordUser u cred)
  with assms show ?thesis
    by (auto simp: createPasswordUser_def unit_response_def Let_def split: option.splits
        intro: index_ok_cong [THEN iffD2, OF _ _ index_ok_insert])
next
  case (CreateOAuthUser u identity)
  with assms show ?thesis
    by (auto simp: createOAuthUser_def unit_response_def Let_def split: option.splits
        intro: index_ok_cong [THEN iffD2, OF _ _ index_ok_insert])
next
  case (CreateMagicLinkUser u)
  with assms show ?thesis
    by (auto simp: createMagicLinkUser_def unit_response_def split: option.splits intro: index_ok_insert)
qed (use assms in \<open>auto simp: auth_op_defs unit_response_def Let_def split: option.splits
    elim: index_ok_cong [THEN iffD2, rotated 2]\<close>)

lemma one_token_cong: "tokens st' = tokens st \<Longrightarrow> one_token st' = one_token st"
  by (simp add: one_token_def)

lemma one_token_put: "one_token st \<Longrightarrow> one_token (putOneTimeToken r st)"
proof -
  assume inj: "one_token st"
  let ?T = "filter (\<lambda>(key, existing). \<not> (ottTenant existing = ottTenant r \<and> ottPurpose existing = ottPurpose r
             \<and> ottEmail existing = ottEmail r)) (tokens st)"
  have "set (jsset (ott_key r) r ?T) \<subseteq> insert (ott_key r, r) (set ?T)" by (auto dest: in_set_jsset)
  moreover have "inj_on (\<lambda>kr. ott_subject (snd kr)) (insert (ott_key r, r) (set ?T))"
    using inj unfolding one_token_def inj_on_insert by (auto simp: ott_subject_def elim: inj_on_subset)
  ultimately have "inj_on (\<lambda>kr. ott_subject (snd kr)) (set (jsset (ott_key r) r ?T))" by (rule inj_on_subset [rotated])
  then show ?thesis by (simp add: one_token_def putOneTimeToken_def)
qed

lemma one_token_consume: "one_token st \<Longrightarrow> one_token (snd (consumeOneTimeToken t p h now st))"
  by (auto simp: one_token_def consumeOneTimeToken_def Let_def AList.delete_eq elim: inj_on_subset)

lemma one_token_call:
  assumes "one_token st"
  shows "one_token (snd (call c st))"
proof (cases c)
  case (PutOneTimeToken r)
  with assms show ?thesis by (simp add: one_token_put)
next
  case (ConsumeOneTimeToken t p h now)
  with assms show ?thesis by (simp add: one_token_consume)
qed (use assms in \<open>auto simp: auth_op_defs unit_response_def Let_def split: option.splits
    elim: one_token_cong [THEN iffD2, rotated]\<close>)

theorem auth_inv_call: "auth_inv st \<Longrightarrow> call_ok c \<Longrightarrow> auth_inv (snd (call c st))"
  by (simp add: auth_inv_def tables_ok_call index_ok_call one_token_call)

lemma auth_inv_new: "auth_inv newState"
  by (auto simp: auth_inv_def tables_ok_def index_ok_def one_token_def newState_def user_set_def email_entries_def)

lemma run_calls_Cons [simp]:
  "fst (run_calls (c # cs) st) = (c, fst (call c st)) # fst (run_calls cs (snd (call c st)))"
  "snd (run_calls (c # cs) st) = snd (run_calls cs (snd (call c st)))"
  by (simp_all add: Let_def split: prod.splits)

declare run_calls.simps(2) [simp del]

lemma auth_inv_run: "auth_inv st \<Longrightarrow> list_all call_ok cs \<Longrightarrow> auth_inv (snd (run_calls cs st))"
  by (induction cs arbitrary: st) (simp_all add: auth_inv_call)

lemma keyed_other: "keyed key tenant m \<Longrightarrow> (k, v) \<in> set m \<Longrightarrow> key_tenant k = tenant v"
  by (simp add: keyed_def)

lemma tenant_view_other:
  assumes "tables_ok st" and "call_ok c" and "call_tenant c \<noteq> t"
  shows "tenant_view t (snd (call c st)) = tenant_view t st"
proof (cases c)
  case (ReplacePasswordAndRevokeSessions t' uid hash now)
  with assms have "t' \<noteq> t" by simp
  with assms(1) have "slice t (map (\<lambda>(key, credential). (key, if credTenant credential = t' \<and> credUser credential = uid
      then credential\<lparr>passwordHash := hash, credUpdatedAt := now\<rparr> else credential)) (passwords st)) = slice t (passwords st)"
    by (intro slice_map_other) (auto simp: tables_ok_def dest: keyed_other)
  moreover have "slice t (filter (\<lambda>(key, session). \<not> of_user t' uid session) (sessions st)) = slice t (sessions st)"
    using \<open>t' \<noteq> t\<close> assms(1) by (intro slice_filter_other) (auto simp: tables_ok_def of_user_def dest: keyed_other)
  ultimately show ?thesis using ReplacePasswordAndRevokeSessions by (simp add: replacePasswordAndRevokeSessions_def tenant_view_def)
next
  case (RevokeUserSessions t' uid)
  with assms show ?thesis
    by (auto simp: revokeUserSessions_def tenant_view_def tables_ok_def of_user_def intro!: slice_filter_other dest: keyed_other)
next
  case (PutOneTimeToken r)
  with assms have "slice t (filter (\<lambda>(key, existing). \<not> (ottTenant existing = ottTenant r \<and> ottPurpose existing = ottPurpose r
             \<and> ottEmail existing = ottEmail r)) (tokens st)) = slice t (tokens st)"
    by (intro slice_filter_other) (auto simp: tables_ok_def dest: keyed_other)
  with PutOneTimeToken assms show ?thesis by (simp add: putOneTimeToken_def tenant_view_def call_ok_def)
next
  case (RemoveOAuthIdentity t' uid provider)
  with assms show ?thesis
    by (auto simp: removeOAuthIdentity_def tenant_view_def tables_ok_def intro!: slice_filter_other dest: keyed_other)
qed (use assms(2,3) in \<open>auto simp: call_ok_def tenant_view_def auth_op_defs unit_response_def Let_def split: option.splits\<close>)

lemma tenant_view_new: "tenant_view t newState = newState"
  by (simp add: tenant_view_def newState_def)

lemma tenant_view_simps [simp]:
  "users (tenant_view t st) = slice t (users st)" "usersByEmail (tenant_view t st) = slice t (usersByEmail st)"
  "passwords (tenant_view t st) = slice t (passwords st)" "tokens (tenant_view t st) = slice t (tokens st)"
  "sessions (tenant_view t st) = slice t (sessions st)" "oauthStates (tenant_view t st) = slice t (oauthStates st)"
  "oauthIdentities (tenant_view t st) = slice t (oauthIdentities st)"
  "passkeyChallenges (tenant_view t st) = slice t (passkeyChallenges st)" "passkeys (tenant_view t st) = slice t (passkeys st)"
  "totp (tenant_view t st) = slice t (totp st)"
  by (simp_all add: tenant_view_def)

lemma slice_if_map:
  "slice t (map (\<lambda>(k, v). (k, if P v then g v else v)) m) = map (\<lambda>(k, v). (k, if P v then g v else v)) (slice t m)"
  by (rule slice_map)

lemma call_in_view:
  assumes "tables_ok st" and "call_ok c"
  shows "call c (tenant_view (call_tenant c) st) = (fst (call c st), tenant_view (call_tenant c) (snd (call c st)))"
proof (cases c)
  case (ListPasskeys t uid)
  with assms have "filter (\<lambda>p. passkeyTenant p = t \<and> passkeyUser p = uid) (map snd (slice t (passkeys st)))
      = filter (\<lambda>p. passkeyTenant p = t \<and> passkeyUser p = uid) (map snd (passkeys st))"
    by (intro slice_values_same) (auto simp: tables_ok_def dest: keyed_other)
  with ListPasskeys show ?thesis by (simp add: listPasskeys_def)
qed (use assms(2) in \<open>simp_all add: call_ok_def tenant_view_def auth_op_defs unit_response_def Let_def slice_jsdelete_same slice_filter slice_if_map
      split: option.splits\<close>)

theorem tenant_noninterference:
  assumes "auth_inv st" and "list_all call_ok cs"
  shows "filter (\<lambda>cr. call_tenant (fst cr) = t) (fst (run_calls cs st))
      = fst (run_calls (filter (\<lambda>c. call_tenant c = t) cs) (tenant_view t st))"
  using assms
proof (induction cs arbitrary: st)
  case Nil
  then show ?case by simp
next
  case (Cons c cs)
  from Cons.prems have ok: "call_ok c" "list_all call_ok cs" and tables: "tables_ok st" by (simp_all add: auth_inv_def)
  have inv: "auth_inv (snd (call c st))" using Cons.prems(1) ok(1) by (rule auth_inv_call)
  show ?case
  proof (cases "call_tenant c = t")
    case True
    with call_in_view [OF tables ok(1)] Cons.IH [OF inv ok(2)] show ?thesis by simp
  next
    case False
    with tenant_view_other [OF tables ok(1) False] Cons.IH [OF inv ok(2)] show ?thesis by simp
  qed
qed

subsection \<open>What a history can contain\<close>

text \<open>Email addresses identify users within a tenant.\<close>

lemma findUserByEmail_sound:
  assumes "auth_inv st" and "NUL \<notin> set t" and "findUserByEmail t email st = Some u"
  shows "userTenant u = t \<and> userEmail u = Some email"
proof -
  obtain uid where uid: "jsget (usersByEmail st) (scoped t email) = Some uid" "jsget (users st) (scoped t uid) = Some u"
    using assms(3) by (auto simp: findUserByEmail_def split: option.splits)
  then obtain v e where v: "v \<in> user_set st" "userId v = uid" "userEmail v = Some e" "scoped t email = scoped (userTenant v) e"
    using assms(1) by (auto simp: auth_inv_def index_ok_def email_entries_def)
  have keyed: "keyed user_key userTenant (users st)" using assms(1) by (simp add: auth_inv_def tables_ok_def)
  have "key_tenant (user_key v) = userTenant v" using keyed_get [OF keyed, of "user_key v" v] v(1) by (simp add: user_set_def)
  then have free: "NUL \<notin> set (userTenant v)" by (metis key_tenant_def set_takeWhileD)
  have te: "userTenant v = t" "e = email" using v(4) scoped_inject [OF assms(2) free, of email e] by simp_all
  with v(1,2) uid(2) have "v = u" by (simp add: user_set_def)
  with te v(3) show ?thesis by simp
qed

text \<open>A key of a table that no call sets stays absent.\<close>

lemma token_absent_call:
  assumes "jsget (tokens st) k = None" and "\<And>r. c = PutOneTimeToken r \<Longrightarrow> ott_key r \<noteq> k"
  shows "jsget (tokens (snd (call c st))) k = None"
proof (cases c)
  case (PutOneTimeToken r)
  have "jsget (filter P (tokens st)) k = None" for P
    using assms(1) by (auto simp: map_of_eq_None_iff)
  with PutOneTimeToken assms(2) show ?thesis by (auto simp: putOneTimeToken_def)
qed (use assms(1) in \<open>auto simp: auth_op_defs unit_response_def Let_def split: option.splits\<close>)

lemma token_absent_run:
  assumes "jsget (tokens st) k = None" and "\<And>r. PutOneTimeToken r \<in> set cs \<Longrightarrow> ott_key r \<noteq> k"
  shows "jsget (tokens (snd (run_calls cs st))) k = None"
  using assms
proof (induction cs arbitrary: st)
  case (Cons c cs)
  have "jsget (tokens (snd (call c st))) k = None" by (rule token_absent_call) (use Cons.prems in auto)
  with Cons show ?case by simp
qed simp

lemma token_superseded:
  assumes "one_token st" and "(k, old) \<in> set (tokens st)" and "ott_subject old = ott_subject r" and "ott_key r \<noteq> k" and "distinct (jskeys (tokens st))"
  shows "jsget (tokens (putOneTimeToken r st)) k = None"
proof -
  let ?T = "filter (\<lambda>(key, existing). \<not> (ottTenant existing = ottTenant r \<and> ottPurpose existing = ottPurpose r
             \<and> ottEmail existing = ottEmail r)) (tokens st)"
  have "k \<notin> set (jskeys ?T)"
  proof
    assume "k \<in> set (jskeys ?T)"
    then obtain v where "(k, v) \<in> set (tokens st)" "ott_subject v \<noteq> ott_subject r" by (auto simp: ott_subject_def)
    with assms(2,3,5) show False by (metis eq_key_imp_eq_value)
  qed
  then have "jsget ?T k = None" using jsget_None_iff [of ?T k] by blast
  with assms(4) show ?thesis by (simp add: putOneTimeToken_def)
qed

text \<open>Without a new session for the user, a user without sessions has none.\<close>

definition session_free :: "TenantId \<Rightarrow> UserId \<Rightarrow> MemoryState \<Rightarrow> bool" where
  "session_free t uid st \<longleftrightarrow> (\<forall>k r. (k, r) \<in> set (sessions st) \<longrightarrow> \<not> of_user t uid r)"

lemma session_free_call:
  assumes "session_free t uid st" and "\<And>r. c = CreateSession r \<Longrightarrow> \<not> of_user t uid r"
  shows "session_free t uid (snd (call c st))"
proof (cases c)
  case (CreateSession r)
  with assms show ?thesis
    by (auto simp: createSession_def session_free_def Let_def unit_response_def dest!: in_set_jsset)
next
  case (ElevateSession t' hash now)
  with assms(1) show ?thesis
    by (fastforce simp: elevateSession_def session_free_def of_user_def Let_def dest!: in_set_jsset map_of_SomeD split: option.splits)
qed (use assms(1) in \<open>auto simp: session_free_def auth_op_defs unit_response_def Let_def AList.delete_eq split: option.splits\<close>)

lemma session_free_run:
  assumes "session_free t uid st" and "\<And>r. CreateSession r \<in> set cs \<Longrightarrow> \<not> of_user t uid r"
  shows "session_free t uid (snd (run_calls cs st))"
  using assms
proof (induction cs arbitrary: st)
  case (Cons c cs)
  have "session_free t uid (snd (call c st))" by (rule session_free_call) (use Cons.prems in auto)
  with Cons show ?case by simp
qed simp

lemma session_free_replace: "session_free t uid (replacePasswordAndRevokeSessions t uid hash now st)"
  and session_free_revoke: "session_free t uid (revokeUserSessions t uid st)"
  by (auto simp: session_free_def replacePasswordAndRevokeSessions_def revokeUserSessions_def)

text \<open>
  The second factor. An enrollment is left alone by a history that neither puts, confirms nor removes it; within such a history the
  accepted time steps only grow and a recovery code is accepted once.
\<close>

fun reenrolls :: "TenantId \<Rightarrow> UserId \<Rightarrow> AuthCall \<Rightarrow> bool" where
  "reenrolls t uid (PutTotpSecret rec) \<longleftrightarrow> totpTenant rec = t \<and> totpUser rec = uid"
| "reenrolls t uid (ConfirmTotp t' uid' hashes now) \<longleftrightarrow> t' = t \<and> uid' = uid"
| "reenrolls t uid (RemoveTotp t' uid') \<longleftrightarrow> t' = t \<and> uid' = uid"
| "reenrolls t uid c \<longleftrightarrow> False"

definition accepted_steps :: "TenantId \<Rightarrow> UserId \<Rightarrow> (AuthCall \<times> AuthResponse) list \<Rightarrow> int list" where
  "accepted_steps t uid log = concat (map (\<lambda>cr. case cr of
     (MarkTotpStepUsed t' uid' step, Answer True) \<Rightarrow> if t' = t \<and> uid' = uid then [step] else []
   | _ \<Rightarrow> []) log)"

definition spent_codes :: "TenantId \<Rightarrow> UserId \<Rightarrow> (AuthCall \<times> AuthResponse) list \<Rightarrow> string list" where
  "spent_codes t uid log = concat (map (\<lambda>cr. case cr of
     (ConsumeRecoveryCode t' uid' hash, Answer True) \<Rightarrow> if t' = t \<and> uid' = uid then [hash] else []
   | _ \<Rightarrow> []) log)"

definition step_of :: "TenantId \<Rightarrow> UserId \<Rightarrow> MemoryState \<Rightarrow> int option" where
  "step_of t uid st = (case findTotp t uid st of None \<Rightarrow> None | Some r \<Rightarrow> lastUsedStep r)"

definition codes_of :: "TenantId \<Rightarrow> UserId \<Rightarrow> MemoryState \<Rightarrow> string set" where
  "codes_of t uid st = (case findTotp t uid st of None \<Rightarrow> {} | Some r \<Rightarrow> set (recoveryCodeHashes r))"

lemma totp_call:
  assumes "call_ok c" and "NUL \<notin> set t" and "\<not> reenrolls t uid c"
  shows "(case accepted_steps t uid [(c, fst (call c st))] of
      [] \<Rightarrow> step_of t uid (snd (call c st)) = step_of t uid st
    | step # _ \<Rightarrow> step_of t uid (snd (call c st)) = Some step \<and> (\<forall>used. step_of t uid st = Some used \<longrightarrow> used < step))
    \<and> (case spent_codes t uid [(c, fst (call c st))] of
      [] \<Rightarrow> codes_of t uid (snd (call c st)) = codes_of t uid st
    | hash # _ \<Rightarrow> hash \<in> codes_of t uid st \<and> codes_of t uid (snd (call c st)) = codes_of t uid st - {hash})"
  using assms
  by (cases c)
    (auto simp: accepted_steps_def spent_codes_def step_of_def codes_of_def call_ok_def auth_op_defs unit_response_def Let_def scoped_inject
      split: option.splits if_splits)

lemma history_Cons:
  "accepted_steps t uid (cr # log) = accepted_steps t uid [cr] @ accepted_steps t uid log"
  "spent_codes t uid (cr # log) = spent_codes t uid [cr] @ spent_codes t uid log"
  by (simp_all add: accepted_steps_def spent_codes_def)

lemma history_single:
  "accepted_steps t uid [cr] = [] \<or> (\<exists>step. accepted_steps t uid [cr] = [step])"
  "spent_codes t uid [cr] = [] \<or> (\<exists>hash. spent_codes t uid [cr] = [hash])"
  by (auto simp: accepted_steps_def spent_codes_def split: prod.splits AuthCall.splits AuthResponse.splits bool.splits if_splits)

theorem second_factor_history:
  assumes "list_all call_ok cs" and "NUL \<notin> set t" and "list_all (\<lambda>c. \<not> reenrolls t uid c) cs"
  shows "sorted_wrt (<) (accepted_steps t uid (fst (run_calls cs st)))
    \<and> (\<forall>used \<in> set_option (step_of t uid st). \<forall>step \<in> set (accepted_steps t uid (fst (run_calls cs st))). used < step)
    \<and> distinct (spent_codes t uid (fst (run_calls cs st)))
    \<and> set (spent_codes t uid (fst (run_calls cs st))) \<subseteq> codes_of t uid st"
  using assms(1,3)
proof (induction cs arbitrary: st)
  case Nil
  then show ?case by (simp add: accepted_steps_def spent_codes_def)
next
  case (Cons c cs)
  let ?cr = "(c, fst (call c st))" and ?st = "snd (call c st)"
  have IH: "sorted_wrt (<) (accepted_steps t uid (fst (run_calls cs ?st)))"
    "\<forall>used \<in> set_option (step_of t uid ?st). \<forall>step \<in> set (accepted_steps t uid (fst (run_calls cs ?st))). used < step"
    "distinct (spent_codes t uid (fst (run_calls cs ?st)))"
    "set (spent_codes t uid (fst (run_calls cs ?st))) \<subseteq> codes_of t uid ?st"
    using Cons.IH [of ?st] Cons.prems by simp_all
  have c: "call_ok c" "\<not> reenrolls t uid c" using Cons.prems by simp_all
  note one = totp_call [OF c(1) assms(2) c(2), of st]
  have "sorted_wrt (<) (accepted_steps t uid [?cr] @ accepted_steps t uid (fst (run_calls cs ?st)))
    \<and> (\<forall>used \<in> set_option (step_of t uid st). \<forall>step \<in> set (accepted_steps t uid [?cr] @ accepted_steps t uid (fst (run_calls cs ?st))). used < step)"
    using history_single(1) [of t uid ?cr] one IH(1,2) by (auto intro: less_trans)
  moreover have "distinct (spent_codes t uid [?cr] @ spent_codes t uid (fst (run_calls cs ?st)))
    \<and> set (spent_codes t uid [?cr] @ spent_codes t uid (fst (run_calls cs ?st))) \<subseteq> codes_of t uid st"
    using history_single(2) [of t uid ?cr] one IH(3,4) by auto
  ultimately show ?case
    unfolding run_calls_Cons(1) history_Cons [of t uid ?cr "fst (run_calls cs ?st)"] by blast
qed

end
