(* ===== verification/Bytes.thy ===== *)
theory Bytes
  imports Prelude "HOL-Library.Word"
begin

unbundle bit_operations_syntax

section \<open>Bytes and their bits\<close>

text \<open>
  Bytes as \<open>8 word\<close> and the 32-bit values that JavaScript's bitwise operators work on as \<open>32 word\<close>. The bits of a
  word, the most significant first, are what the encoders of the sources move about; the lemmas here say how shifting
  and masking split and join them.
\<close>

type_synonym byte = "8 word"
type_synonym u32 = "32 word"

named_theorems bits_simps \<open>how shifts and masks act on the bits of a word\<close>

definition bits_of :: "nat \<Rightarrow> 'a::len word \<Rightarrow> bool list" where
  "bits_of n w = map (\<lambda>i. bit w (n - 1 - i)) [0..<n]"

lemma length_bits_of [simp]: "length (bits_of n w) = n"
  by (simp add: bits_of_def)

lemma bits_of_0 [simp]: "bits_of 0 w = []"
  by (simp add: bits_of_def)

lemma nth_bits_of [simp]: "i < n \<Longrightarrow> bits_of n w ! i = bit w (n - 1 - i)"
  by (simp add: bits_of_def)

lemma bits_of_eqI:
  assumes "\<And>i. i < n \<Longrightarrow> bit v i = bit w i"
  shows "bits_of n v = bits_of n w"
  using assms by (auto simp: bits_of_def)


lemma bits_of_push:
  fixes v w :: "'a::len word"
  assumes "m + n \<le> LENGTH('a)" and "\<And>i. n \<le> i \<Longrightarrow> \<not> bit w i"
  shows "bits_of (m + n) (push_bit n v OR w) = bits_of m v @ bits_of n w"
proof (rule nth_equalityI)
  fix i assume "i < length (bits_of (m + n) (push_bit n v OR w))"
  then have i: "i < m + n" by simp
  show "bits_of (m + n) (push_bit n v OR w) ! i = (bits_of m v @ bits_of n w) ! i"
  proof (cases "i < m")
    case True
    then have "\<not> bit w (m + n - 1 - i)" using assms(2) by simp
    with True assms(1) show ?thesis
      by (auto simp: nth_append bit_or_iff bit_push_bit_iff diff_diff_eq)
  next
    case False
    with i have "m + n - 1 - i < n" "m + n - 1 - i = n - 1 - (i - m)" by linarith+
    with False i show ?thesis by (simp add: nth_append bit_or_iff bit_push_bit_iff)
  qed
qed simp

lemma bits_of_split:
  assumes "k \<le> n"
  shows "bits_of n w = bits_of (n - k) (drop_bit k w) @ bits_of k w"
proof (rule nth_equalityI)
  fix i assume "i < length (bits_of n w)"
  then have i: "i < n" by simp
  show "bits_of n w ! i = (bits_of (n - k) (drop_bit k w) @ bits_of k w) ! i"
  proof (cases "i < n - k")
    case True
    then have "k + (n - k - 1 - i) = n - 1 - i" using assms by linarith
    with True i show ?thesis by (simp add: nth_append bit_drop_bit_eq)
  next
    case False
    with i assms have "k - 1 - (i - (n - k)) = n - 1 - i" by linarith
    with False i show ?thesis by (simp add: nth_append)
  qed
qed (simp add: assms)

lemma bits_of_inject:
  assumes "bits_of n v = bits_of n w" and "\<And>i. n \<le> i \<Longrightarrow> bit v i = bit w i"
  shows "v = w"
proof (rule bit_eqI)
  fix i show "bit v i = bit w i"
  proof (cases "i < n")
    case True
    then have "n - 1 - (n - 1 - i) = i" "n - 1 - i < n" by linarith+
    then show ?thesis using arg_cong [OF assms(1), of "\<lambda>bs. bs ! (n - 1 - i)"] by simp
  next
    case False
    then show ?thesis by (simp add: assms(2))
  qed
qed

text \<open>Regrouping: strings of bits cut into groups of one width determine the groups.\<close>

lemma concat_bits_inject:
  assumes "concat (map (bits_of n) vs) @ rest = concat (map (bits_of n) ws) @ rest'" and "length rest < n" and "length rest' < n"
    and "\<And>v i. v \<in> set vs \<union> set ws \<Longrightarrow> n \<le> i \<Longrightarrow> \<not> bit v i"
  shows "vs = ws \<and> rest = rest'"
  using assms
proof (induction vs arbitrary: ws)
  case Nil
  then show ?case by (cases ws) (auto dest!: arg_cong [where f = length])
next
  case (Cons v vs)
  show ?case
  proof (cases ws)
    case Nil
    with Cons.prems show ?thesis by (auto dest!: arg_cong [where f = length])
  next
    case (Cons w ws')
    with Cons.prems(1) have "bits_of n v = bits_of n w"
      and "concat (map (bits_of n) vs) @ rest = concat (map (bits_of n) ws') @ rest'" by simp_all
    moreover have "v = w" using bits_of_inject [OF \<open>bits_of n v = bits_of n w\<close>] Cons.prems(4) Cons by simp
    ultimately show ?thesis using Cons.IH [of ws'] Cons.prems Cons by simp
  qed
qed

subsection \<open>Searching and comparing\<close>

text \<open>\<open>indexOf\<close> of one element, and the comparison that accumulates the differences of all positions.\<close>

fun index_of :: "'a \<Rightarrow> 'a list \<Rightarrow> nat option" where
  "index_of x [] = None"
| "index_of x (y # ys) = (if x = y then Some 0 else map_option Suc (index_of x ys))"

definition all_differences :: "('a \<Rightarrow> 'b::semiring_bit_operations) \<Rightarrow> 'a list \<Rightarrow> 'a list \<Rightarrow> 'b" where
  "all_differences code a b = foldl (\<lambda>diff (x, y). diff OR (code x XOR code y)) 0 (zip a b)"

lemma xor_eq_0: "(x XOR y :: 'b::semiring_bit_operations) = 0 \<longleftrightarrow> x = y"
  by (simp add: bit_eq_iff bit_xor_iff)

lemma foldl_differences:
  "foldl (\<lambda>diff (x, y). diff OR (code x XOR code y)) (d :: 'b::semiring_bit_operations) ps = 0 \<longleftrightarrow>
     d = 0 \<and> (\<forall>(x, y) \<in> set ps. code x = code y)"
proof (induction ps arbitrary: d)
  case (Cons p ps)
  then show ?case by (cases p) (simp add: or_eq_0_iff xor_eq_0)
qed simp

lemma all_differences_zero:
  assumes "inj code" and "length a = length b"
  shows "all_differences code a b = 0 \<longleftrightarrow> a = b"
  using assms(2) unfolding all_differences_def foldl_differences
  by (induction a b rule: list_induct2) (auto dest: injD [OF assms(1)])

end
