(* ===== verification/AuthWorld.thy ===== *)
theory AuthWorld
  imports AuthStore Bytes
begin

section \<open>The world of the authentication services\<close>

text \<open>
  The services of the authentication package run many store calls per request, and requests of other fibers run in between.
  A service is a function of an environment and a world. The world holds the store, the log of every call made on it,
  the audit events, the mails and the limiter's requests; a tick counts the points at which other fibers run or time passes.
  The environment says what the other fibers call before each store call, what the clock shows and the random source yields
  at each tick, and how the parameters of the services answer (hashing, rate limiter, mail, tenant configuration).
\<close>

subsection \<open>Tenant configuration\<close>

text \<open>
  \<open>URL\<close> as its parts; parsing one is the platform's, and so is resolving a page against the base address with the token as
  its query (\<open>tokenUrl\<close>). The credentials of the OAuth providers are left out: external sign-in is not modelled.
\<close>

record Url =
  protocol :: string
  hostname :: string
  username :: string
  urlPassword :: string
  origin :: string

record PasskeyTenantConfig =
  rpId :: string
  rpName :: string
  origins :: "string list"
  requireUserVerification :: "bool option"

record TenantAuthConfig =
  baseUrl :: Url
  emailVerificationLink :: "string option"
  magicLinkLink :: "string option"
  passwordResetLink :: "string option"
  minLength :: "int option"
  maxLength :: "int option"
  ttlMillis :: "int option"
  cookieName :: "string option"
  cookieDomain :: "string option"
  cookiePath :: "string option"
  cookieSameSite :: "string option"
  emailVerificationTtlMillis :: "int option"
  magicLinkTtlMillis :: "int option"
  passwordResetTtlMillis :: "int option"
  oauthStateTtlMillis :: "int option"
  passkeyChallengeTtlMillis :: "int option"
  passkeyConfig :: "PasskeyTenantConfig option"

record AuthAuditEvent =
  auditTenant :: TenantId
  auditAction :: string
  auditUser :: "UserId option"
  auditActor :: "string option"

record AuthEmail =
  mailKind :: OneTimeTokenPurpose
  mailTenant :: TenantId
  mailTo :: string
  mailUrl :: string
  mailToken :: string
  mailExpiresAt :: int

datatype LimiterCall = Charged TenantId string string | Peeked TenantId string string

record AuthWorld =
  wStore :: MemoryState
  wLog :: "(AuthCall \<times> AuthResponse) list"
  wAudit :: "AuthAuditEvent list"
  wMails :: "AuthEmail list"
  wLimiter :: "LimiterCall list"
  wTick :: nat

record AuthEnv =
  others :: "nat \<Rightarrow> AuthCall list"
  clock :: "nat \<Rightarrow> int"
  randomSource :: "nat \<Rightarrow> nat \<Rightarrow> byte list"
  randomTokens :: "nat \<Rightarrow> nat \<Rightarrow> string"
  hashToken :: "string \<Rightarrow> (AuthError, string) result"
  limiterCheck :: "nat \<Rightarrow> TenantId \<Rightarrow> string \<Rightarrow> string \<Rightarrow> (AuthError, unit) result"
  limiterPeek :: "(nat \<Rightarrow> TenantId \<Rightarrow> string \<Rightarrow> string \<Rightarrow> (AuthError, unit) result) option"
  sendMail :: "nat \<Rightarrow> AuthEmail \<Rightarrow> (AuthError, unit) result"
  hashPassword :: "nat \<Rightarrow> string \<Rightarrow> (AuthError, string) result"
  verifyPassword :: "string \<Rightarrow> string \<Rightarrow> (AuthError, bool) result"
  tenantConfig :: "TenantId \<Rightarrow> (AuthError, TenantAuthConfig) result"
  parseUrl :: "string \<Rightarrow> Url option"
  tokenUrl :: "string \<Rightarrow> Url \<Rightarrow> string \<Rightarrow> string"

subsection \<open>Effects\<close>

type_synonym 'a auth = "AuthEnv \<Rightarrow> AuthWorld \<Rightarrow> (AuthError, 'a) result \<times> AuthWorld"

definition succeed :: "'a \<Rightarrow> 'a auth" where
  "succeed a env w = (Inr a, w)"

definition fail_with :: "AuthError \<Rightarrow> 'a auth" where
  "fail_with e env w = (Inl e, w)"

definition and_then :: "'a auth \<Rightarrow> ('a \<Rightarrow> 'b auth) \<Rightarrow> 'b auth" where
  "and_then m f env w = (case m env w of (Inl e, w1) \<Rightarrow> (Inl e, w1) | (Inr a, w1) \<Rightarrow> f a env w1)"

definition lift :: "(AuthEnv \<Rightarrow> (AuthError, 'a) result) \<Rightarrow> 'a auth" where
  "lift r env w = (r env, w)"

text \<open>One call on the store, after whatever the other fibers call before it.\<close>

definition perform :: "AuthCall \<Rightarrow> AuthResponse auth" where
  "perform c env w =
     (let (log, st) = run_calls (others env (wTick w) @ [c]) (wStore w) in
      (Inr (snd (last log)), w\<lparr>wStore := st, wLog := wLog w @ log, wTick := Suc (wTick w)\<rparr>))"

definition current_time :: "int auth" where
  "current_time env w = (Inr (clock env (wTick w)), w\<lparr>wTick := Suc (wTick w)\<rparr>)"

definition randomBytes :: "nat \<Rightarrow> byte list auth" where
  "randomBytes n env w = (Inr (randomSource env (wTick w) n), w\<lparr>wTick := Suc (wTick w)\<rparr>)"

definition randomToken :: "nat \<Rightarrow> string auth" where
  "randomToken n env w = (Inr (randomTokens env (wTick w) n), w\<lparr>wTick := Suc (wTick w)\<rparr>)"

definition charge_limiter :: "TenantId \<Rightarrow> string \<Rightarrow> string \<Rightarrow> unit auth" where
  "charge_limiter t action keyHash env w =
     (limiterCheck env (wTick w) t action keyHash,
      w\<lparr>wLimiter := wLimiter w @ [Charged t action keyHash], wTick := Suc (wTick w)\<rparr>)"

definition limit_rate :: "TenantId \<Rightarrow> string \<Rightarrow> string \<Rightarrow> unit auth" where
  "limit_rate t action key = and_then (lift (\<lambda>env. hashToken env key)) (charge_limiter t action)"

definition record_audit :: "TenantId \<Rightarrow> string \<Rightarrow> UserId option \<Rightarrow> string option \<Rightarrow> unit auth" where
  "record_audit t action uid actor env w =
     (Inr (), w\<lparr>wAudit := wAudit w @ [\<lparr>auditTenant = t, auditAction = action, auditUser = uid, auditActor = actor\<rparr>]\<rparr>)"

definition send_mail :: "AuthEmail \<Rightarrow> unit auth" where
  "send_mail mail env w = (sendMail env (wTick w) mail, w\<lparr>wMails := wMails w @ [mail], wTick := Suc (wTick w)\<rparr>)"

text \<open>What a call answers, read at the type the caller expects.\<close>

fun user_in :: "AuthResponse \<Rightarrow> AuthUser option" where
  "user_in (UserIs u) = u" | "user_in _ = None"

fun password_in :: "AuthResponse \<Rightarrow> PasswordCredential option" where
  "password_in (PasswordIs p) = p" | "password_in _ = None"

fun token_in :: "AuthResponse \<Rightarrow> OneTimeTokenRecord option" where
  "token_in (TokenIs r) = r" | "token_in _ = None"

fun session_in :: "AuthResponse \<Rightarrow> SessionRecord option" where
  "session_in (SessionIs s) = s" | "session_in _ = None"

fun totp_in :: "AuthResponse \<Rightarrow> TotpRecord option" where
  "totp_in (TotpIs r) = r" | "totp_in _ = None"

fun answer_in :: "AuthResponse \<Rightarrow> bool" where
  "answer_in (Answer b) = b" | "answer_in _ = False"

fun locked_in :: "AuthResponse \<Rightarrow> bool \<times> int option" where
  "locked_in (LockedIs b until) = (b, until)" | "locked_in _ = (False, None)"

definition ask :: "(AuthResponse \<Rightarrow> 'a) \<Rightarrow> AuthCall \<Rightarrow> 'a auth" where
  "ask read c = and_then (perform c) (\<lambda>r. succeed (read r))"

definition store_command :: "AuthCall \<Rightarrow> unit auth" where
  "store_command c = and_then (perform c) (\<lambda>r. case r of RefusedBy e \<Rightarrow> fail_with e | _ \<Rightarrow> succeed ())"

subsection \<open>Histories\<close>

text \<open>Whatever a service does, the log records a history of calls from the world it started in.\<close>

definition extends :: "AuthWorld \<Rightarrow> AuthWorld \<Rightarrow> bool" where
  "extends w w' \<longleftrightarrow> (\<exists>cs. wStore w' = snd (run_calls cs (wStore w)) \<and> wLog w' = wLog w @ fst (run_calls cs (wStore w)))"

definition logs :: "'a auth \<Rightarrow> bool" where
  "logs m \<longleftrightarrow> (\<forall>env w. extends w (snd (m env w)))"

lemma run_calls_append:
  "fst (run_calls (cs @ ds) st) = fst (run_calls cs st) @ fst (run_calls ds (snd (run_calls cs st)))"
  "snd (run_calls (cs @ ds) st) = snd (run_calls ds (snd (run_calls cs st)))"
  by (induction cs arbitrary: st) simp_all

lemma extends_refl: "extends w w"
  by (auto simp: extends_def intro: exI [of _ "[]"])

lemma extends_trans: "extends w w1 \<Longrightarrow> extends w1 w2 \<Longrightarrow> extends w w2"
  unfolding extends_def by (metis append_assoc run_calls_append)

lemma logs_and_then [intro]: "logs m \<Longrightarrow> (\<And>a. logs (f a)) \<Longrightarrow> logs (and_then m f)"
  unfolding logs_def and_then_def
  by (auto split: prod.splits sum.splits intro: extends_trans) (metis extends_trans snd_conv)+

lemma perform_eq:
  "perform c env w =
     (let st = snd (run_calls (others env (wTick w)) (wStore w)) in
      (Inr (fst (call c st)), w\<lparr>wStore := snd (call c st),
         wLog := wLog w @ fst (run_calls (others env (wTick w)) (wStore w)) @ [(c, fst (call c st))], wTick := Suc (wTick w)\<rparr>))"
  by (simp add: perform_def Let_def run_calls_append split_beta)

lemma logs_perform [intro!]: "logs (perform c)"
  unfolding logs_def extends_def perform_def by (auto simp: split_beta Let_def)

lemma logs_simple [intro!]:
  "logs (succeed a)" "logs (fail_with e)" "logs (lift r)" "logs current_time" "logs (randomBytes n)" "logs (randomToken n)"
  "logs (charge_limiter t action h)" "logs (record_audit t action u actor)" "logs (send_mail mail)"
  by (auto simp: logs_def extends_def succeed_def fail_with_def lift_def current_time_def randomBytes_def randomToken_def charge_limiter_def
      record_audit_def send_mail_def intro: exI [of _ "[]"])

lemma logs_limit_rate [intro!]: "logs (limit_rate t action key)"
  unfolding limit_rate_def by (intro logs_and_then logs_simple)

lemma logs_ask [intro!]: "logs (ask read c)"
  unfolding ask_def by (intro logs_and_then logs_perform logs_simple)

lemma logs_store_command [intro!]: "logs (store_command c)"
  unfolding store_command_def by (intro logs_and_then logs_perform) (auto split: AuthResponse.split)

end
