(* ===== verification/SessionSlots.thy ===== *)
theory SessionSlots
  imports Bytes
begin

section \<open>Session slots\<close>

text \<open>
  \<open>packages/auth/src/session-slots.ts\<close>: several session cookies in one browser, and which of them a request names. The
  values of a query parameter, which \<open>URLSearchParams\<close> decodes, are a parameter of the model.
\<close>

definition SESSION_SLOT_HEADER :: string where "SESSION_SLOT_HEADER = ''x-session-slot''"

definition SESSION_SLOT_QUERY :: string where "SESSION_SLOT_QUERY = ''session_slot''"

definition slot_char :: "char \<Rightarrow> bool" where
  "slot_char c \<longleftrightarrow> (let n = of_char c :: nat in
     65 \<le> n \<and> n \<le> 90 \<or> 97 \<le> n \<and> n \<le> 122 \<or> 48 \<le> n \<and> n \<le> 57 \<or> n = 95 \<or> n = 45)"

definition SLOT_PATTERN :: "string \<Rightarrow> bool" where
  "SLOT_PATTERN s \<longleftrightarrow> 1 \<le> length s \<and> length s \<le> 128 \<and> list_all slot_char s"

datatype SessionSlotSelection = NoSlot | Slot string | InvalidSlot

record SessionSlotRequest =
  slotMethod :: string
  slotHeaders :: "string \<Rightarrow> string option"
  slotUrl :: string

definition slotCookieName :: "string \<Rightarrow> string \<Rightarrow> string" where
  "slotCookieName cookieName slot = cookieName @ ''.'' @ slot"

text \<open>The query of an address: what follows the first question mark before the first hash.\<close>

definition query_text :: "string \<Rightarrow> string" where
  "query_text url =
     (let target = takeWhile (\<lambda>c. c \<noteq> CHR ''#'') url in
      case dropWhile (\<lambda>c. c \<noteq> CHR ''?'') target of [] \<Rightarrow> [] | q # rest \<Rightarrow> rest)"

definition upper_ascii :: "char \<Rightarrow> char" where
  "upper_ascii c = (let n = of_char c :: nat in if 97 \<le> n \<and> n \<le> 122 then char_of (n - 32) else c)"

definition requestedSlot :: "(string \<Rightarrow> string \<Rightarrow> string list) \<Rightarrow> SessionSlotRequest \<Rightarrow> SessionSlotSelection" where
  "requestedSlot getAll request =
     (let header = (case slotHeaders request SESSION_SLOT_HEADER of None \<Rightarrow> [] | Some h \<Rightarrow> trim h);
          verb = map upper_ascii (slotMethod request);
          queried = (if verb = ''GET'' \<or> verb = ''HEAD''
            then remdups (filter (\<lambda>v. v \<noteq> []) (map trim (getAll (query_text (slotUrl request)) SESSION_SLOT_QUERY)))
            else []) in
      if 1 < length queried then InvalidSlot
      else
        let query = (case queried of [] \<Rightarrow> [] | q # qs \<Rightarrow> q) in
        if header \<noteq> [] \<and> query \<noteq> [] \<and> header \<noteq> query then InvalidSlot
        else
          let slot = (if header \<noteq> [] then header else query) in
          if slot = [] then NoSlot else if SLOT_PATTERN slot then Slot slot else InvalidSlot)"

definition slotOf :: "string \<Rightarrow> string \<Rightarrow> string option" where
  "slotOf cookieName name =
     (let prefix = cookieName @ ''.'' in
      if take (length prefix) name \<noteq> prefix then None
      else let slot = drop (length prefix) name in if SLOT_PATTERN slot then Some slot else None)"

text \<open>A cookie segment at its first equals sign: the trimmed name and value.\<close>

definition cookie_pair :: "string \<Rightarrow> (string \<times> string) option" where
  "cookie_pair segment =
     (case dropWhile (\<lambda>c. c \<noteq> CHR ''='') segment of
        [] \<Rightarrow> None
      | e # rest \<Rightarrow> Some (trim (takeWhile (\<lambda>c. c \<noteq> CHR ''='') segment), trim rest))"

definition isSlotCookie :: "string \<Rightarrow> string \<Rightarrow> bool" where
  "isSlotCookie cookieName segment \<longleftrightarrow>
     (case cookie_pair segment of None \<Rightarrow> False | Some (name, v) \<Rightarrow> slotOf cookieName name \<noteq> None)"

fun slot_loop :: "string \<Rightarrow> string list \<Rightarrow> (string, string) jsmap \<Rightarrow> (string, string) jsmap" where
  "slot_loop cookieName [] found = found"
| "slot_loop cookieName (segment # rest) found =
     (case cookie_pair segment of
        None \<Rightarrow> slot_loop cookieName rest found
      | Some (name, v) \<Rightarrow>
          (case slotOf cookieName name of
             None \<Rightarrow> slot_loop cookieName rest found
           | Some slot \<Rightarrow>
               if v = [] \<or> jsget found slot \<noteq> None then slot_loop cookieName rest found
               else slot_loop cookieName rest (jsset slot v found)))"

definition slotCookiesOf :: "string \<Rightarrow> string option \<Rightarrow> (string \<times> string) list" where
  "slotCookiesOf cookieName cookieHeader =
     (case cookieHeader of None \<Rightarrow> [] | Some h \<Rightarrow> slot_loop cookieName (split_char (CHR '';'') h) [])"

definition lengthWithoutSlotCookies :: "string \<Rightarrow> string \<Rightarrow> nat" where
  "lengthWithoutSlotCookies cookieName cookieHeader =
     length (join '';'' (filter (\<lambda>segment. \<not> isSlotCookie cookieName segment) (split_char (CHR '';'') cookieHeader)))"

text \<open>The first pair of a name that carries a value.\<close>

fun first_cookie :: "string \<Rightarrow> string list \<Rightarrow> string option" where
  "first_cookie name [] = None"
| "first_cookie name (segment # rest) =
     (case cookie_pair segment of
        None \<Rightarrow> first_cookie name rest
      | Some (key, v) \<Rightarrow> if key = name \<and> v \<noteq> [] then Some v else first_cookie name rest)"

subsection \<open>A request is served by the slot it names\<close>

lemma slotOf_name [simp]: "SLOT_PATTERN slot \<Longrightarrow> slotOf cookieName (slotCookieName cookieName slot) = Some slot"
  by (simp add: slotOf_def slotCookieName_def)

lemma slotOf_Some: "slotOf cookieName name = Some slot \<longleftrightarrow> name = slotCookieName cookieName slot \<and> SLOT_PATTERN slot"
proof -
  have "take (length p) s = p \<longleftrightarrow> s = p @ drop (length p) s" for p s :: string
    by (metis append_take_drop_id append_eq_conv_conj)
  then show ?thesis by (auto simp: slotOf_def slotCookieName_def Let_def split: if_splits)
qed

lemma slotCookieName_inject [simp]: "slotCookieName cookieName s = slotCookieName cookieName s' \<longleftrightarrow> s = s'"
  by (simp add: slotCookieName_def)

lemma slot_loop_get:
  assumes "SLOT_PATTERN slot"
  shows "jsget (slot_loop cookieName segments found) slot =
     (case jsget found slot of Some v \<Rightarrow> Some v | None \<Rightarrow> first_cookie (slotCookieName cookieName slot) segments)"
proof (induction segments arbitrary: found)
  case Nil
  then show ?case by (simp split: option.splits)
next
  case (Cons segment rest)
  show ?case
  proof (cases "cookie_pair segment")
    case None
    with Cons.IH show ?thesis by (simp split: option.splits)
  next
    case (Some nv)
    obtain name v where nv: "nv = (name, v)" by force
    show ?thesis
    proof (cases "slotOf cookieName name")
      case None
      then have "name \<noteq> slotCookieName cookieName slot" using assms by auto
      with None Some nv Cons.IH show ?thesis by (simp split: option.splits)
    next
      case slot': (Some slot')
      then have "name = slotCookieName cookieName slot'" by (simp add: slotOf_Some)
      with slot' Some nv Cons.IH show ?thesis by (auto split: option.splits)
    qed
  qed
qed

lemma requestedSlot_named:
  assumes "requestedSlot getAll request = Slot slot"
  shows "SLOT_PATTERN slot \<and>
    (\<forall>h. slotHeaders request SESSION_SLOT_HEADER = Some h \<longrightarrow> trim h \<in> {[], slot}) \<and>
    (map upper_ascii (slotMethod request) \<in> {''GET'', ''HEAD''} \<longrightarrow>
       (\<forall>v \<in> set (getAll (query_text (slotUrl request)) SESSION_SLOT_QUERY). trim v \<in> {[], slot}))"
proof -
  let ?q = "filter (\<lambda>v. v \<noteq> []) (map trim (getAll (query_text (slotUrl request)) SESSION_SLOT_QUERY))"
  have one: "remdups ?q = [trim x]"
    if "length (remdups ?q) \<le> 1" "x \<in> set (getAll (query_text (slotUrl request)) SESSION_SLOT_QUERY)" "trim x \<noteq> []" for x
  proof -
    from that(2,3) have "trim x \<in> set (remdups ?q)" by simp
    with that(1) show ?thesis by (cases "remdups ?q") auto
  qed
  define header where "header = (case slotHeaders request SESSION_SLOT_HEADER of None \<Rightarrow> [] | Some h \<Rightarrow> trim h)"
  define reads where "reads \<longleftrightarrow> map upper_ascii (slotMethod request) \<in> {''GET'', ''HEAD''}"
  define queried where "queried = (if reads then remdups ?q else [])"
  have run: "requestedSlot getAll request = (if 1 < length queried then InvalidSlot
     else let query = (case queried of [] \<Rightarrow> [] | q # qs \<Rightarrow> q) in
       if header \<noteq> [] \<and> query \<noteq> [] \<and> header \<noteq> query then InvalidSlot
       else let slot = (if header \<noteq> [] then header else query) in
         if slot = [] then NoSlot else if SLOT_PATTERN slot then Slot slot else InvalidSlot)"
    unfolding requestedSlot_def header_def queried_def reads_def by (simp add: Let_def disj_commute)
  from assms have len: "length queried \<le> 1" and ok: "SLOT_PATTERN slot" and head: "header \<in> {[], slot}"
    and query: "queried = [q] \<Longrightarrow> q \<in> {[], slot}" for q
    unfolding run by (auto simp: Let_def split: if_splits list.splits)
  have "trim x \<in> {[], slot}" if "reads" "x \<in> set (getAll (query_text (slotUrl request)) SESSION_SLOT_QUERY)" for x
  proof (cases "trim x = []")
    case False
    with one that len have "queried = [trim x]" by (simp add: queried_def)
    then show ?thesis by (rule query)
  qed simp
  with ok head show ?thesis unfolding header_def reads_def by (auto split: option.splits)
qed

end
