(* ===== verification/Accounts.thy ===== *)
theory Accounts
  imports AuthWorld SessionSlots
begin

section \<open>Accounts and sessions\<close>

text \<open>
  \<open>packages/auth/src/service.ts\<close>: tenant configuration, sessions, passwords, email tokens, magic links and cookies. External
  sign-in and passkeys are not modelled. The hook that reports whether a user has a second factor is an argument.
\<close>

definition DEFAULT_SESSION_TTL :: int where "DEFAULT_SESSION_TTL = 30 * 24 * 60 * 60 * 1000"
definition DEFAULT_VERIFY_TTL :: int where "DEFAULT_VERIFY_TTL = 24 * 60 * 60 * 1000"
definition DEFAULT_MAGIC_TTL :: int where "DEFAULT_MAGIC_TTL = 15 * 60 * 1000"
definition DEFAULT_RESET_TTL :: int where "DEFAULT_RESET_TTL = 60 * 60 * 1000"
definition MAX_COOKIE_HEADER_LENGTH :: nat where "MAX_COOKIE_HEADER_LENGTH = 16384"

record AuthOptions =
  secondFactor :: "(TenantId \<Rightarrow> UserId \<Rightarrow> bool auth) option"

record RegisterPasswordInput =
  regTenant :: TenantId
  regEmail :: string
  regPassword :: string
  regDisplayName :: "string option"

subsection \<open>Validation\<close>

text \<open>\<open>toLowerCase\<close> on code units below 256.\<close>

definition to_lower :: "char \<Rightarrow> char" where
  "to_lower c = (let n = of_char c :: nat in
     if 65 \<le> n \<and> n \<le> 90 \<or> 192 \<le> n \<and> n \<le> 222 \<and> n \<noteq> 215 then char_of (n + 32) else c)"

definition normalizeEmail :: "string \<Rightarrow> (AuthError, string) result" where
  "normalizeEmail v =
     (let email = map to_lower (trim v);
          local = takeWhile (\<lambda>c. c \<noteq> CHR ''@'') email; at = length local in
      if 320 < length email \<or> CHR ''@'' \<notin> set email \<or> at = 0 \<or> CHR ''@'' \<in> set (drop (at + 1) email) \<or> 64 < at
         \<or> 255 < length email - at - 1 \<or> at = length email - 1
         \<or> (\<exists>c \<in> set email. (of_char c :: nat) \<le> 32 \<or> (of_char c :: nat) = 127)
      then Inl (AuthValidationError ''email'' ''must be valid'')
      else Inr email)"

definition validatePassword :: "string \<Rightarrow> TenantAuthConfig \<Rightarrow> (AuthError, unit) result" where
  "validatePassword password config =
     (let mn = getOr 12 (minLength config); mx = getOr 256 (maxLength config) in
      if int (length password) < mn
      then Inl (AuthValidationError ''password'' (''must contain at least '' @ show_int mn @ '' characters''))
      else if mx < int (length password)
      then Inl (AuthValidationError ''password'' (''must contain at most '' @ show_int mx @ '' characters''))
      else Inr ())"

definition ends_with :: "string \<Rightarrow> string \<Rightarrow> bool" where
  "ends_with s suffix \<longleftrightarrow> length suffix \<le> length s \<and> drop (length s - length suffix) s = suffix"

definition isLocalHostname :: "string \<Rightarrow> bool" where
  "isLocalHostname host =
     (let name = (if ends_with host ''.'' then butlast host else host) in
      name = ''localhost'' \<or> ends_with name ''.localhost'' \<or> name = ''127.0.0.1'' \<or> name = ''::1'' \<or> name = ''[::1]'')"

definition cookie_name_char :: "char \<Rightarrow> bool" where
  "cookie_name_char c \<longleftrightarrow>
     c \<in> set (CHR 0x27 # ''!#$%&*+.^_`|~-'') \<or>
     (let n = of_char c :: nat in 48 \<le> n \<and> n \<le> 57 \<or> 65 \<le> n \<and> n \<le> 90 \<or> 97 \<le> n \<and> n \<le> 122)"

fun valid_origins :: "(string \<Rightarrow> Url option) \<Rightarrow> string \<Rightarrow> string list \<Rightarrow> AuthError option" where
  "valid_origins parse rp [] = None"
| "valid_origins parse rp (originValue # rest) =
     (case parse originValue of
        None \<Rightarrow> Some (AuthValidationError ''passkey.origins'' ''must contain valid URLs'')
      | Some o' \<Rightarrow>
          if origin o' \<noteq> originValue
             \<or> (protocol o' \<noteq> ''https:'' \<and> \<not> (isLocalHostname (hostname o') \<and> protocol o' = ''http:''))
             \<or> (hostname o' \<noteq> rp \<and> \<not> ends_with (hostname o') (''.'' @ rp))
          then Some (AuthValidationError ''passkey.origins'' ''must be exact HTTPS origins within the RP ID'')
          else valid_origins parse rp rest)"

definition validateTenantConfig :: "(string \<Rightarrow> Url option) \<Rightarrow> TenantAuthConfig \<Rightarrow> (AuthError, TenantAuthConfig) result" where
  "validateTenantConfig parse config =
     (let url = baseUrl config;
          name = getOr ''structure_session'' (cookieName config);
          path = getOr ''/'' (cookiePath config) in
      if protocol url \<noteq> ''https:'' \<and> \<not> (isLocalHostname (hostname url) \<and> protocol url = ''http:'')
      then Inl (AuthValidationError ''baseUrl'' ''must use HTTPS except on localhost'')
      else if username url \<noteq> [] \<or> urlPassword url \<noteq> []
      then Inl (AuthValidationError ''baseUrl'' ''must not contain credentials'')
      else if name = [] \<or> \<not> list_all cookie_name_char name
      then Inl (AuthValidationError ''session.cookieName'' ''is not a valid cookie name'')
      else if take 1 path \<noteq> ''/'' \<or> (\<exists>c \<in> set path. c = CHR '';'' \<or> (of_char c :: nat) \<in> {10, 13})
      then Inl (AuthValidationError ''session.cookiePath'' ''is not a safe path'')
      else if (case cookieDomain config of None \<Rightarrow> False | Some d \<Rightarrow> \<exists>c \<in> set d. c = CHR '';'' \<or> js_space c)
      then Inl (AuthValidationError ''session.cookieDomain'' ''is not a safe domain'')
      else if cookieSameSite config = Some ''None'' \<and> protocol url \<noteq> ''https:''
      then Inl (AuthValidationError ''session.cookieSameSite'' ''None requires HTTPS'')
      else case passkeyConfig config of
        None \<Rightarrow> Inr config
      | Some pk \<Rightarrow>
          if rpId pk = [] \<or> origins pk = []
          then Inl (AuthValidationError ''passkey'' ''requires an RP ID and origins'')
          else case valid_origins parse (rpId pk) (origins pk) of Some e \<Rightarrow> Inl e | None \<Rightarrow> Inr config)"

definition validSlot :: "string option \<Rightarrow> (AuthError, string option) result" where
  "validSlot slot =
     (case slot of
        None \<Rightarrow> Inr None
      | Some s \<Rightarrow> if SLOT_PATTERN s then Inr slot else Inl (AuthValidationError ''slot'' ''is not a valid session slot''))"

definition configFor :: "TenantId \<Rightarrow> TenantAuthConfig auth" where
  "configFor t = and_then (lift (\<lambda>env. tenantConfig env t)) (\<lambda>config. lift (\<lambda>env. validateTenantConfig (parseUrl env) config))"

subsection \<open>Rate-limit walls\<close>

definition wall_before :: "TenantId \<Rightarrow> string \<Rightarrow> string \<Rightarrow> unit auth" where
  "wall_before t action key env w =
     (case limiterPeek env of
        None \<Rightarrow> limit_rate t action key env w
      | Some peek \<Rightarrow>
          and_then (lift (\<lambda>env. hashToken env key)) (\<lambda>h env w.
            (peek (wTick w) t action h, w\<lparr>wLimiter := wLimiter w @ [Peeked t action h], wTick := Suc (wTick w)\<rparr>)) env w)"

definition wall_onFailure :: "TenantId \<Rightarrow> string \<Rightarrow> string \<Rightarrow> unit auth" where
  "wall_onFailure t action key env w = (case limiterPeek env of None \<Rightarrow> (Inr (), w) | Some _ \<Rightarrow> limit_rate t action key env w)"

fun for_each :: "('x \<Rightarrow> unit auth) \<Rightarrow> 'x list \<Rightarrow> unit auth" where
  "for_each f [] = succeed ()"
| "for_each f (x # xs) = and_then (f x) (\<lambda>_. for_each f xs)"

subsection \<open>Sessions and tokens\<close>

definition open_session :: "AuthOptions \<Rightarrow> TenantId \<Rightarrow> AuthUser \<Rightarrow> TenantAuthConfig \<Rightarrow> AuthSession auth" where
  "open_session opts t user config =
     and_then (randomToken 32) (\<lambda>raw.
     and_then (lift (\<lambda>env. hashToken env raw)) (\<lambda>hash.
     and_then current_time (\<lambda>at.
     (let expires = at + getOr DEFAULT_SESSION_TTL (ttlMillis config) in
      and_then (case secondFactor opts of None \<Rightarrow> succeed False | Some isEnrolled \<Rightarrow> isEnrolled t (userId user)) (\<lambda>pending.
      and_then (randomToken 18) (\<lambda>sid.
      and_then (store_command (CreateSession \<lparr>sessionId = sid, sessionTenant = t, sessionUser = userId user, sessionHash = hash,
          sessionCreatedAt = at, sessionExpiresAt = expires, elevatedAt = (if pending then None else Some at)\<rparr>)) (\<lambda>_.
      succeed \<lparr>authToken = raw, authUser = user, authExpiresAt = expires\<rparr>)))))))"

definition token_ttl :: "OneTimeTokenPurpose \<Rightarrow> TenantAuthConfig \<Rightarrow> int" where
  "token_ttl purpose config =
     (case purpose of
        EmailVerification \<Rightarrow> getOr DEFAULT_VERIFY_TTL (emailVerificationTtlMillis config)
      | MagicLink \<Rightarrow> getOr DEFAULT_MAGIC_TTL (magicLinkTtlMillis config)
      | PasswordReset \<Rightarrow> getOr DEFAULT_RESET_TTL (passwordResetTtlMillis config))"

definition token_page :: "OneTimeTokenPurpose \<Rightarrow> TenantAuthConfig \<Rightarrow> string" where
  "token_page purpose config =
     (case purpose of
        EmailVerification \<Rightarrow> getOr ''/auth/verify-email'' (emailVerificationLink config)
      | MagicLink \<Rightarrow> getOr ''/auth/magic-link'' (magicLinkLink config)
      | PasswordReset \<Rightarrow> getOr ''/auth/reset-password'' (passwordResetLink config))"

definition issueEmailToken ::
  "TenantId \<Rightarrow> TenantAuthConfig \<Rightarrow> OneTimeTokenPurpose \<Rightarrow> string \<Rightarrow> UserId option \<Rightarrow> unit auth" where
  "issueEmailToken t config purpose email uid =
     and_then (randomToken 32) (\<lambda>raw.
     and_then (lift (\<lambda>env. hashToken env raw)) (\<lambda>hash.
     and_then current_time (\<lambda>at.
     (let expires = at + token_ttl purpose config in
      and_then (store_command (PutOneTimeToken \<lparr>ottTenant = t, ottPurpose = purpose, ottHash = hash, ottEmail = email, ottUser = uid,
          ottExpiresAt = expires\<rparr>)) (\<lambda>_.
      and_then (lift (\<lambda>env. Inr (tokenUrl env (token_page purpose config) (baseUrl config) raw))) (\<lambda>url.
      send_mail \<lparr>mailKind = purpose, mailTenant = t, mailTo = email, mailUrl = url, mailToken = raw,
        mailExpiresAt = expires\<rparr>))))))"

definition consumeToken :: "TenantId \<Rightarrow> OneTimeTokenPurpose \<Rightarrow> string \<Rightarrow> OneTimeTokenRecord auth" where
  "consumeToken t purpose token =
     and_then (lift (\<lambda>env. hashToken env token)) (\<lambda>hash.
     and_then current_time (\<lambda>at.
     and_then (ask token_in (ConsumeOneTimeToken t purpose hash at)) (\<lambda>rec.
     case rec of None \<Rightarrow> fail_with (InvalidAuthToken (purpose_name purpose)) | Some r \<Rightarrow> succeed r)))"

definition resolveSession :: "TenantId \<Rightarrow> string \<Rightarrow> (AuthSession \<times> int option) auth" where
  "resolveSession t token =
     and_then (lift (\<lambda>env. hashToken env token)) (\<lambda>hash.
     and_then current_time (\<lambda>at.
     and_then (ask session_in (FindSession t hash at)) (\<lambda>rec.
     case rec of
       None \<Rightarrow> fail_with (InvalidCredentials (Some ''session''))
     | Some session \<Rightarrow>
         and_then (ask user_in (FindUserById t (sessionUser session))) (\<lambda>found.
         case found of
           None \<Rightarrow> fail_with (InvalidCredentials (Some ''session-user''))
         | Some user \<Rightarrow>
             succeed (\<lparr>authToken = token, authUser = user, authExpiresAt = sessionExpiresAt session\<rparr>, elevatedAt session)))))"

definition getSession :: "TenantId \<Rightarrow> string \<Rightarrow> AuthSession auth" where
  "getSession t token = and_then (resolveSession t token) (\<lambda>(session, elevated). succeed session)"

definition requireElevatedSession :: "AuthOptions \<Rightarrow> TenantId \<Rightarrow> string \<Rightarrow> AuthSession auth" where
  "requireElevatedSession opts t token =
     and_then (resolveSession t token) (\<lambda>(session, elevated).
       if secondFactor opts \<noteq> None \<and> elevated = None
       then fail_with (SecondFactorRequired (userId (authUser session))) else succeed session)"

subsection \<open>Passwords\<close>

definition hash_password :: "string \<Rightarrow> string auth" where
  "hash_password password env w = (hashPassword env (wTick w) password, w\<lparr>wTick := Suc (wTick w)\<rparr>)"

definition registerPassword :: "RegisterPasswordInput \<Rightarrow> AuthUser auth" where
  "registerPassword input =
     (let t = regTenant input in
      and_then (configFor t) (\<lambda>config.
      and_then (lift (\<lambda>env. normalizeEmail (regEmail input))) (\<lambda>email.
      and_then (limit_rate t ''password-register'' email) (\<lambda>_.
      and_then (lift (\<lambda>env. validatePassword (regPassword input) config)) (\<lambda>_.
      and_then (hash_password (regPassword input)) (\<lambda>hash.
      and_then current_time (\<lambda>at.
      and_then (randomToken 18) (\<lambda>uid.
      (let user = \<lparr>userId = uid, userTenant = t, userEmail = Some email, emailVerified = False,
             displayName = regDisplayName input, userCreatedAt = at, userUpdatedAt = at\<rparr> in
       and_then (store_command (CreatePasswordUser user \<lparr>credTenant = t, credUser = uid, credEmail = email, passwordHash = hash,
           credUpdatedAt = at\<rparr>)) (\<lambda>_.
       and_then (issueEmailToken t config EmailVerification email (Some uid)) (\<lambda>_.
       and_then (record_audit t ''password-register'' (Some uid) None) (\<lambda>_.
       succeed user))))))))))))"

definition requestEmailVerification :: "TenantId \<Rightarrow> string \<Rightarrow> unit auth" where
  "requestEmailVerification t inputEmail =
     and_then (configFor t) (\<lambda>config.
     and_then (lift (\<lambda>env. normalizeEmail inputEmail)) (\<lambda>email.
     and_then (limit_rate t ''email-verify'' email) (\<lambda>_.
     and_then (ask user_in (FindUserByEmail t email)) (\<lambda>found.
     case found of
       None \<Rightarrow> succeed ()
     | Some user \<Rightarrow>
         if emailVerified user then succeed () else issueEmailToken t config EmailVerification email (Some (userId user))))))"

definition verifyEmail :: "TenantId \<Rightarrow> string \<Rightarrow> AuthUser auth" where
  "verifyEmail t token =
     and_then (configFor t) (\<lambda>_.
     and_then (limit_rate t ''email-verify'' token) (\<lambda>_.
     and_then (consumeToken t EmailVerification token) (\<lambda>rec.
     case ottUser rec of
       None \<Rightarrow> fail_with (InvalidAuthToken ''email-verification'')
     | Some uid \<Rightarrow>
         and_then current_time (\<lambda>at.
         and_then (ask user_in (SetEmailVerified t uid at)) (\<lambda>found.
         case found of
           None \<Rightarrow> fail_with (InvalidAuthToken ''email-verification'')
         | Some user \<Rightarrow>
             and_then (record_audit t ''email-verify'' (Some (userId user)) None) (\<lambda>_. succeed user))))))"

definition refused :: "TenantId \<Rightarrow> string list \<Rightarrow> string \<Rightarrow> 'a auth" where
  "refused t walls reason =
     and_then (for_each (wall_onFailure t ''password-sign-in'') walls) (\<lambda>_. fail_with (InvalidCredentials (Some reason)))"

definition sign_in_walls :: "string \<Rightarrow> string option \<Rightarrow> string list" where
  "sign_in_walls email caller =
     (case caller of None \<Rightarrow> [email] | Some subject \<Rightarrow> [email @ NUL # subject, subject])"

definition signInPassword :: "AuthOptions \<Rightarrow> TenantId \<Rightarrow> string \<Rightarrow> string \<Rightarrow> string option \<Rightarrow> AuthSession auth" where
  "signInPassword opts t inputEmail password caller =
     and_then (configFor t) (\<lambda>config.
     and_then (lift (\<lambda>env. normalizeEmail inputEmail)) (\<lambda>email.
     (let walls = sign_in_walls email caller in
      and_then (for_each (wall_before t ''password-sign-in'') walls) (\<lambda>_.
      if password = [] \<or> getOr 256 (maxLength config) < int (length password) then refused t walls ''password''
      else
        and_then (ask password_in (FindPassword t email)) (\<lambda>cred.
        case cred of
          None \<Rightarrow> and_then (hash_password ''structure-auth-dummy-password'') (\<lambda>_. refused t walls ''password'')
        | Some credential \<Rightarrow>
            and_then (lift (\<lambda>env. verifyPassword env password (passwordHash credential))) (\<lambda>matches.
            if \<not> matches then refused t walls ''password''
            else
              and_then (ask user_in (FindUserById t (credUser credential))) (\<lambda>found.
              case found of
                None \<Rightarrow> refused t walls ''password-user''
              | Some user \<Rightarrow>
                  if \<not> emailVerified user
                  then and_then (for_each (wall_onFailure t ''password-sign-in'') walls) (\<lambda>_. fail_with (EmailNotVerified (userId user)))
                  else
                    and_then (open_session opts t user config) (\<lambda>session.
                    and_then (record_audit t ''password-sign-in'' (Some (userId user)) None) (\<lambda>_. succeed session)))))))))"

definition requestPasswordReset :: "TenantId \<Rightarrow> string \<Rightarrow> unit auth" where
  "requestPasswordReset t inputEmail =
     and_then (configFor t) (\<lambda>config.
     and_then (lift (\<lambda>env. normalizeEmail inputEmail)) (\<lambda>email.
     and_then (limit_rate t ''password-reset-request'' email) (\<lambda>_.
     and_then (ask password_in (FindPassword t email)) (\<lambda>cred.
     case cred of
       None \<Rightarrow> succeed ()
     | Some credential \<Rightarrow> issueEmailToken t config PasswordReset email (Some (credUser credential))))))"

definition resetPassword :: "AuthOptions \<Rightarrow> TenantId \<Rightarrow> string \<Rightarrow> string \<Rightarrow> AuthSession auth" where
  "resetPassword opts t token newPassword =
     and_then (configFor t) (\<lambda>config.
     and_then (limit_rate t ''password-reset-complete'' token) (\<lambda>_.
     and_then (lift (\<lambda>env. validatePassword newPassword config)) (\<lambda>_.
     and_then (consumeToken t PasswordReset token) (\<lambda>rec.
     case ottUser rec of
       None \<Rightarrow> fail_with (InvalidAuthToken ''password-reset'')
     | Some uid \<Rightarrow>
         and_then (hash_password newPassword) (\<lambda>hash.
         and_then current_time (\<lambda>at.
         and_then (store_command (ReplacePasswordAndRevokeSessions t uid hash at)) (\<lambda>_.
         and_then (ask user_in (FindUserById t uid)) (\<lambda>found.
         case found of
           None \<Rightarrow> fail_with (InvalidAuthToken ''password-reset'')
         | Some user \<Rightarrow>
             and_then (open_session opts t user config) (\<lambda>session.
             and_then (record_audit t ''password-reset-complete'' (Some (userId user)) None) (\<lambda>_. succeed session))))))))))"

definition changePassword :: "AuthOptions \<Rightarrow> TenantId \<Rightarrow> string \<Rightarrow> string \<Rightarrow> string \<Rightarrow> AuthSession auth" where
  "changePassword opts t sessionToken currentPassword newPassword =
     and_then (configFor t) (\<lambda>config.
     and_then (limit_rate t ''password-change'' sessionToken) (\<lambda>_.
     and_then (requireElevatedSession opts t sessionToken) (\<lambda>session.
     and_then (lift (\<lambda>env. validatePassword newPassword config)) (\<lambda>_.
     case userEmail (authUser session) of
       None \<Rightarrow> fail_with (InvalidCredentials (Some ''password-identity''))
     | Some email \<Rightarrow>
         and_then (ask password_in (FindPassword t email)) (\<lambda>cred.
         case cred of
           None \<Rightarrow> fail_with (InvalidCredentials (Some ''password-identity''))
         | Some credential \<Rightarrow>
             and_then (lift (\<lambda>env. verifyPassword env currentPassword (passwordHash credential))) (\<lambda>matches.
             if \<not> matches then fail_with (InvalidCredentials (Some ''password''))
             else
               and_then (hash_password newPassword) (\<lambda>hash.
               and_then current_time (\<lambda>at.
               and_then (store_command (ReplacePasswordAndRevokeSessions t (userId (authUser session)) hash at)) (\<lambda>_.
               and_then (open_session opts t (authUser session) config) (\<lambda>changed.
               and_then (record_audit t ''password-change'' (Some (userId (authUser session))) None) (\<lambda>_. succeed changed)))))))))))"

subsection \<open>Magic links, sign-out\<close>

definition requestMagicLink :: "TenantId \<Rightarrow> string \<Rightarrow> unit auth" where
  "requestMagicLink t inputEmail =
     and_then (configFor t) (\<lambda>config.
     and_then (lift (\<lambda>env. normalizeEmail inputEmail)) (\<lambda>email.
     and_then (limit_rate t ''magic-link-request'' email) (\<lambda>_.
     and_then (ask user_in (FindUserByEmail t email)) (\<lambda>found.
     issueEmailToken t config MagicLink email (map_option userId found)))))"

definition insert_magic_user :: "AuthUser \<Rightarrow> bool auth" where
  "insert_magic_user created =
     and_then (perform (CreateMagicLinkUser created)) (\<lambda>r.
       case r of
         RefusedBy e \<Rightarrow> (case e of IdentityConflict t i \<Rightarrow> succeed False | _ \<Rightarrow> fail_with e)
       | _ \<Rightarrow> succeed True)"

definition verified_user :: "TenantId \<Rightarrow> AuthUser option \<Rightarrow> AuthUser option auth" where
  "verified_user t found =
     (case found of
        None \<Rightarrow> succeed None
      | Some user \<Rightarrow>
          if emailVerified user then succeed (Some user)
          else and_then current_time (\<lambda>at. ask user_in (SetEmailVerified t (userId user) at)))"

definition magic_link_user :: "TenantId \<Rightarrow> string \<Rightarrow> AuthUser option auth" where
  "magic_link_user t email =
     and_then (ask user_in (FindUserByEmail t email)) (\<lambda>found.
     case found of
       Some user \<Rightarrow> verified_user t (Some user)
     | None \<Rightarrow>
         and_then current_time (\<lambda>at.
         and_then (randomToken 18) (\<lambda>uid.
         (let created = \<lparr>userId = uid, userTenant = t, userEmail = Some email, emailVerified = True, displayName = None,
                userCreatedAt = at, userUpdatedAt = at\<rparr> in
          and_then (insert_magic_user created) (\<lambda>inserted.
          and_then (if inserted then succeed (Some created) else ask user_in (FindUserByEmail t email)) (\<lambda>user.
          verified_user t user))))))"

definition consumeMagicLink :: "AuthOptions \<Rightarrow> TenantId \<Rightarrow> string \<Rightarrow> AuthSession auth" where
  "consumeMagicLink opts t token =
     and_then (configFor t) (\<lambda>config.
     and_then (limit_rate t ''magic-link-consume'' token) (\<lambda>_.
     and_then (consumeToken t MagicLink token) (\<lambda>rec.
     and_then (magic_link_user t (ottEmail rec)) (\<lambda>found.
     case found of
       None \<Rightarrow> fail_with (InvalidAuthToken ''magic-link'')
     | Some user \<Rightarrow>
         and_then (open_session opts t user config) (\<lambda>session.
         and_then (record_audit t ''magic-link-consume'' (Some (userId user)) None) (\<lambda>_. succeed session))))))"

definition signOut :: "TenantId \<Rightarrow> string \<Rightarrow> unit auth" where
  "signOut t token =
     and_then (configFor t) (\<lambda>_.
     and_then (lift (\<lambda>env. hashToken env token)) (\<lambda>hash.
     and_then (store_command (RevokeSession t hash)) (\<lambda>_.
     record_audit t ''session-sign-out'' None None)))"

definition revokeAllSessions :: "TenantId \<Rightarrow> UserId \<Rightarrow> unit auth" where
  "revokeAllSessions t uid =
     and_then (configFor t) (\<lambda>_.
     and_then (store_command (RevokeUserSessions t uid)) (\<lambda>_.
     record_audit t ''sessions-revoked'' (Some uid) None))"

subsection \<open>Cookies\<close>

definition session_cookie_name :: "TenantAuthConfig \<Rightarrow> string option \<Rightarrow> string" where
  "session_cookie_name config slot =
     (let name = getOr ''structure_session'' (cookieName config) in
      case slot of None \<Rightarrow> name | Some s \<Rightarrow> slotCookieName name s)"

definition cookie_text :: "TenantAuthConfig \<Rightarrow> string \<Rightarrow> string \<Rightarrow> int \<Rightarrow> string" where
  "cookie_text config name v maxAge =
     name @ ''='' @ v @ ''; Path='' @ getOr ''/'' (cookiePath config) @ ''; HttpOnly; SameSite='' @ getOr ''Lax'' (cookieSameSite config)
       @ (if protocol (baseUrl config) = ''https:'' then ''; Secure'' else []) @ ''; Max-Age='' @ show_int maxAge
       @ (case cookieDomain config of None \<Rightarrow> [] | Some d \<Rightarrow> ''; Domain='' @ d)"

definition sessionCookie :: "TenantId \<Rightarrow> AuthSession option \<Rightarrow> string option \<Rightarrow> string auth" where
  "sessionCookie t session slotOption =
     and_then (configFor t) (\<lambda>config.
     and_then (lift (\<lambda>env. validSlot slotOption)) (\<lambda>slot.
     (let name = session_cookie_name config slot in
      case session of
        None \<Rightarrow> succeed (cookie_text config name [] 0)
      | Some s \<Rightarrow>
          and_then current_time (\<lambda>at. succeed (cookie_text config name (authToken s) (max 0 ((authExpiresAt s - at) div 1000)))))))"

definition sessionTokenFromCookie :: "TenantId \<Rightarrow> string option \<Rightarrow> string option \<Rightarrow> string option auth" where
  "sessionTokenFromCookie t cookieHeader slotOption =
     and_then (configFor t) (\<lambda>config.
     and_then (lift (\<lambda>env. validSlot slotOption)) (\<lambda>slot.
     case cookieHeader of
       None \<Rightarrow> succeed None
     | Some header \<Rightarrow>
         if MAX_COOKIE_HEADER_LENGTH < length header
            \<and> MAX_COOKIE_HEADER_LENGTH < lengthWithoutSlotCookies (getOr ''structure_session'' (cookieName config)) header
         then succeed None
         else succeed (first_cookie (session_cookie_name config slot) (split_char (CHR '';'') header))))"

subsection \<open>Every service records its calls\<close>

lemma logs_if [intro]: "logs a \<Longrightarrow> logs b \<Longrightarrow> logs (if c then a else b)"
  by simp

lemma logs_for_each [intro!]: "(\<And>x. logs (f x)) \<Longrightarrow> logs (for_each f xs)"
  by (induction xs) auto

lemma logs_walls [intro!]: "logs (wall_before t action key)" "logs (wall_onFailure t action key)"
proof -
  have "logs (\<lambda>env w. (peek (wTick w) t action h, w\<lparr>wLimiter := wLimiter w @ [Peeked t action h], wTick := Suc (wTick w)\<rparr>))" for peek h
    by (auto simp: logs_def extends_def intro: exI [of _ "[]"])
  then have "logs (and_then (lift (\<lambda>env. hashToken env key)) (\<lambda>h env w.
      (peek (wTick w) t action h, w\<lparr>wLimiter := wLimiter w @ [Peeked t action h], wTick := Suc (wTick w)\<rparr>)))" for peek
    by (intro logs_and_then) auto
  then show "logs (wall_before t action key)"
    using logs_limit_rate unfolding logs_def wall_before_def by (auto split: option.splits)
  show "logs (wall_onFailure t action key)"
    using logs_limit_rate unfolding logs_def wall_onFailure_def by (auto split: option.splits simp: extends_refl)
qed

lemma logs_hash_password [intro!]: "logs (hash_password p)"
  by (auto simp: logs_def hash_password_def extends_def intro: exI [of _ "[]"])

definition hook_logs :: "AuthOptions \<Rightarrow> bool" where
  "hook_logs opts \<longleftrightarrow> (\<forall>isEnrolled t uid. secondFactor opts = Some isEnrolled \<longrightarrow> logs (isEnrolled t uid))"

lemma logs_sessions:
  "logs (configFor t)" "logs (issueEmailToken t config purpose email uid)" "logs (consumeToken t purpose token)"
  "logs (resolveSession t token)" "logs (getSession t token)" "logs (requireElevatedSession opts t token)"
  unfolding configFor_def issueEmailToken_def consumeToken_def resolveSession_def getSession_def requireElevatedSession_def Let_def
  by (auto intro!: logs_and_then split: option.split prod.split)

lemma logs_open_session: "hook_logs opts \<Longrightarrow> logs (open_session opts t user config)"
  unfolding open_session_def Let_def hook_logs_def by (auto intro!: logs_and_then split: option.split)

theorem services_log:
  assumes "hook_logs opts"
  shows "logs (registerPassword input)" "logs (requestEmailVerification t email)" "logs (verifyEmail t token)"
    "logs (signInPassword opts t email password caller)" "logs (requestPasswordReset t email)" "logs (resetPassword opts t token new)"
    "logs (changePassword opts t token cur new)" "logs (requestMagicLink t email)" "logs (consumeMagicLink opts t token)"
    "logs (signOut t token)" "logs (revokeAllSessions t uid)"
  unfolding registerPassword_def requestEmailVerification_def verifyEmail_def signInPassword_def requestPasswordReset_def resetPassword_def
    changePassword_def requestMagicLink_def consumeMagicLink_def signOut_def revokeAllSessions_def refused_def magic_link_user_def
    insert_magic_user_def verified_user_def Let_def
  by (auto intro!: logs_and_then logs_sessions logs_open_session assms split: option.split AuthResponse.split AuthError.split)

end
