(* ===== verification/Totp.thy ===== *)
theory Totp
  imports AuthModel Bytes
begin

section \<open>Time-based one-time passwords\<close>

text \<open>
  \<open>packages/auth/src/totp.ts\<close>: base32, HOTP and the matching of a code against the steps around the current one. The
  accumulators of the base32 loops are 32-bit values whose high bits fall off at every shift, as in JavaScript.
  HMAC-SHA-1 is the platform's and a parameter: \<open>None\<close> is a rejected promise.
\<close>

subsection \<open>Base32\<close>

definition BASE32_ALPHABET :: string where
  "BASE32_ALPHABET = ''ABCDEFGHIJKLMNOPQRSTUVWXYZ234567''"

definition base32_symbol :: "u32 \<Rightarrow> char" where
  "base32_symbol v = BASE32_ALPHABET ! unat (v AND 31)"

fun emit_groups :: "u32 \<Rightarrow> nat \<Rightarrow> string \<Rightarrow> string \<times> nat" where
  "emit_groups v bits out =
     (if 5 \<le> bits then emit_groups v (bits - 5) (out @ [base32_symbol (drop_bit (bits - 5) v)]) else (out, bits))"

declare emit_groups.simps [simp del]

fun encode_loop :: "byte list \<Rightarrow> u32 \<Rightarrow> nat \<Rightarrow> string \<Rightarrow> string" where
  "encode_loop [] v bits out = (if 0 < bits then out @ [base32_symbol (push_bit (5 - bits) v)] else out)"
| "encode_loop (b # bs) v bits out =
     (let v' = push_bit 8 v OR ucast b; (out', bits') = emit_groups v' (bits + 8) out in encode_loop bs v' bits' out')"

definition base32Encode :: "byte list \<Rightarrow> string" where
  "base32Encode bytes = encode_loop bytes 0 0 []"

text \<open>
  \<open>toUpperCase\<close> on code units below 256. The sharp s becomes \<open>SS\<close>; the two letters whose capital lies above 255 stay as
  they are, which like their capitals are no base32 symbols.
\<close>

definition upper_chars :: "char \<Rightarrow> string" where
  "upper_chars c = (let n = of_char c :: nat in
     if n = 223 then ''SS''
     else if 97 \<le> n \<and> n \<le> 122 \<or> 224 \<le> n \<and> n \<le> 254 \<and> n \<noteq> 247 then [char_of (n - 32)] else [c])"

definition toUpperCase :: "string \<Rightarrow> string" where
  "toUpperCase s = concat (map upper_chars s)"

fun decode_loop :: "string \<Rightarrow> u32 \<Rightarrow> nat \<Rightarrow> byte list \<Rightarrow> byte list option" where
  "decode_loop [] v bits out = Some out"
| "decode_loop (c # cs) v bits out =
     (case index_of c BASE32_ALPHABET of
        None \<Rightarrow> None
      | Some i \<Rightarrow>
          (let v' = push_bit 5 v OR of_nat i; bits' = bits + 5 in
           if 8 \<le> bits' then decode_loop cs v' (bits' - 8) (out @ [ucast (drop_bit (bits' - 8) v')])
           else decode_loop cs v' bits' out))"

definition cleaned :: "string \<Rightarrow> string" where
  "cleaned input = toUpperCase (filter (\<lambda>c. c \<noteq> CHR ''='' \<and> \<not> js_space c) input)"

definition base32Decode :: "string \<Rightarrow> (AuthError, byte list) result" where
  "base32Decode input =
     (case decode_loop (cleaned input) 0 0 [] of
        None \<Rightarrow> Inl (AuthValidationError ''secret'' ''must be valid base32'')
      | Some bytes \<Rightarrow> Inr bytes)"

subsection \<open>HOTP and TOTP\<close>

text \<open>\<open>DataView.setUint32\<close> writes the most significant byte first, modulo \<open>2\<^sup>3\<^sup>2\<close>; \<open>%\<close> keeps the sign of its left operand.\<close>

definition be32 :: "u32 \<Rightarrow> byte list" where
  "be32 w = map (\<lambda>k. ucast (drop_bit k w)) [24, 16, 8, 0]"

definition js_rem :: "int \<Rightarrow> int \<Rightarrow> int" where
  "js_rem a b = sgn a * (\<bar>a\<bar> mod \<bar>b\<bar>)"

definition counterBytes :: "int \<Rightarrow> byte list" where
  "counterBytes counter = be32 (word_of_int (counter div 2 ^ 32)) @ be32 (word_of_int (js_rem counter (2 ^ 32)))"

definition byte_at :: "byte list \<Rightarrow> nat \<Rightarrow> byte" where
  "byte_at d i = (if i < length d then d ! i else 0)"

definition truncated :: "byte list \<Rightarrow> u32" where
  "truncated digest =
     (let offset = unat (byte_at digest (length digest - 1) AND 0x0f) in
      push_bit 24 (ucast (byte_at digest offset) AND 0x7f) OR push_bit 16 (ucast (byte_at digest (offset + 1)) AND 0xff)
        OR push_bit 8 (ucast (byte_at digest (offset + 2)) AND 0xff) OR (ucast (byte_at digest (offset + 3)) AND 0xff))"

type_synonym hmac = "byte list \<Rightarrow> byte list \<Rightarrow> byte list option"

definition hotp :: "hmac \<Rightarrow> byte list \<Rightarrow> int \<Rightarrow> (AuthError, string) result" where
  "hotp hmacSha1 secret counter =
     (case hmacSha1 secret (counterBytes counter) of
        None \<Rightarrow> Inl (AuthDependencyError ''hmac-sha1'' ''hotp'')
      | Some digest \<Rightarrow> Inr (pad_start 6 (show_nat (unat (truncated digest) mod 1000000))))"

definition TOTP_STEP_SECONDS :: int where "TOTP_STEP_SECONDS = 30"

definition timeCounter :: "int \<Rightarrow> int" where
  "timeCounter at = at div (1000 * TOTP_STEP_SECONDS)"

definition totpCode :: "hmac \<Rightarrow> string \<Rightarrow> int \<Rightarrow> (AuthError, string) result" where
  "totpCode hmacSha1 secret at = bind_result (base32Decode secret) (\<lambda>s. hotp hmacSha1 s (timeCounter at))"

definition timingSafeEqual :: "string \<Rightarrow> string \<Rightarrow> bool" where
  "timingSafeEqual a b \<longleftrightarrow> length a = length b \<and> all_differences (of_char :: char \<Rightarrow> nat) a b = 0"

definition six_digits :: "string \<Rightarrow> bool" where
  "six_digits code \<longleftrightarrow> length code = 6 \<and> list_all is_digit code"

fun all_results :: "('e, 'a) result list \<Rightarrow> ('e, 'a list) result" where
  "all_results [] = Inr []"
| "all_results (r # rs) = bind_result r (\<lambda>a. map_sum id (\<lambda>as. a # as) (all_results rs))"

fun last_match :: "string \<Rightarrow> (int \<times> string) list \<Rightarrow> int option \<Rightarrow> int option" where
  "last_match code [] matched = matched"
| "last_match code ((step, candidate) # cs) matched =
     last_match code cs (if timingSafeEqual candidate code then Some step else matched)"

definition matchTotpCode :: "hmac \<Rightarrow> string \<Rightarrow> string \<Rightarrow> int \<Rightarrow> (AuthError, int option) result" where
  "matchTotpCode hmacSha1 secret code at =
     (if \<not> six_digits code then Inr None
      else bind_result (base32Decode secret) (\<lambda>s.
        (let current = timeCounter at; steps = [current - 1, current, current + 1] in
         bind_result (all_results (map (hotp hmacSha1 s) steps)) (\<lambda>candidates.
           Inr (last_match code (zip steps candidates) None)))))"

definition verifyTotpCode :: "hmac \<Rightarrow> string \<Rightarrow> string \<Rightarrow> int \<Rightarrow> (AuthError, bool) result" where
  "verifyTotpCode hmacSha1 secret code at = map_sum id (\<lambda>step. step \<noteq> None) (matchTotpCode hmacSha1 secret code at)"

text \<open>\<open>encodeURIComponent\<close> on code units below 256: the UTF-8 bytes of a character outside the unreserved set as \<open>%XX\<close>.\<close>

definition hex_digit :: "nat \<Rightarrow> char" where
  "hex_digit n = ''0123456789ABCDEF'' ! n"

definition percent :: "nat \<Rightarrow> string" where
  "percent n = [CHR ''%'', hex_digit (n div 16), hex_digit (n mod 16)]"

definition encode_char :: "char \<Rightarrow> string" where
  "encode_char c = (let n = of_char c :: nat in
     if 48 \<le> n \<and> n \<le> 57 \<or> 65 \<le> n \<and> n \<le> 90 \<or> 97 \<le> n \<and> n \<le> 122 \<or> n \<in> {33, 39, 40, 41, 42, 45, 46, 95, 126} then [c]
     else if n < 128 then percent n else percent (192 + n div 64) @ percent (128 + n mod 64))"

definition encodeURIComponent :: "string \<Rightarrow> string" where
  "encodeURIComponent s = concat (map encode_char s)"

definition totpQrPayload :: "string \<Rightarrow> string \<Rightarrow> string \<Rightarrow> string" where
  "totpQrPayload secret account issuer =
     ''otpauth://totp/'' @ encodeURIComponent issuer @ '':'' @ encodeURIComponent account @ ''?secret='' @ secret @ ''&issuer=''
       @ encodeURIComponent issuer @ ''&algorithm=SHA1&digits=6&period='' @ show_int TOTP_STEP_SECONDS"

definition recovery_code :: "byte list \<Rightarrow> string" where
  "recovery_code bytes =
     (let txt = map lower_char (base32Encode bytes) in take 5 txt @ ''-'' @ take 5 (drop 5 txt))"

definition generateRecoveryCodes :: "byte list list \<Rightarrow> string list" where
  "generateRecoveryCodes randoms = map recovery_code randoms"

definition generateTotpSecret :: "byte list \<Rightarrow> string" where
  "generateTotpSecret random = base32Encode random"

subsection \<open>Base32 loses nothing\<close>

lemma index_alphabet: "i < 32 \<Longrightarrow> index_of (BASE32_ALPHABET ! i) BASE32_ALPHABET = Some i"
proof -
  have "list_all (\<lambda>i. index_of (BASE32_ALPHABET ! i) BASE32_ALPHABET = Some i) [0..<32]" by code_simp
  then show "i < 32 \<Longrightarrow> ?thesis" by (simp add: list_all_iff)
qed

definition symbol_index :: "char \<Rightarrow> u32" where
  "symbol_index c = of_nat (the (index_of c BASE32_ALPHABET))"

lemma unat_and_31: "unat (v AND 31 :: u32) < 32"
proof -
  have "unat (v AND 31) \<le> unat (31 :: u32)" by (rule word_and_le1 [THEN word_le_nat_alt [THEN iffD1]])
  then show ?thesis by simp
qed

lemma index_base32_symbol: "index_of (base32_symbol v) BASE32_ALPHABET = Some (unat (v AND 31))"
  by (simp add: base32_symbol_def index_alphabet unat_and_31)

lemma and_31: "(v AND 31 :: u32) = take_bit 5 v"
proof -
  have "(31 :: u32) = mask 5" by (simp add: mask_eq_exp_minus_1)
  then show ?thesis by (simp only: take_bit_eq_mask)
qed

lemma bits_of_take_bit [bits_simps, simp]: "n \<le> k \<Longrightarrow> bits_of n (take_bit k v) = bits_of n v"
  by (rule bits_of_eqI) (simp add: bit_take_bit_iff)

lemma symbol_index_base32_symbol [simp]: "symbol_index (base32_symbol v) = take_bit 5 v"
  by (simp add: symbol_index_def index_base32_symbol and_31)

abbreviation symbol_bits :: "string \<Rightarrow> bool list" where
  "symbol_bits s \<equiv> concat (map (\<lambda>c. bits_of 5 (symbol_index c)) s)"

abbreviation byte_bits :: "byte list \<Rightarrow> bool list" where
  "byte_bits bs \<equiv> concat (map (bits_of 8) bs)"

lemma emit_groups_bits:
  "emit_groups v n out = (out', n') \<Longrightarrow>
     n' < 5 \<and> symbol_bits out' @ bits_of n' v = symbol_bits out @ bits_of n v \<and> (\<forall>c \<in> set out'. c \<in> set out \<or> c \<in> range base32_symbol)"
proof (induction v n out rule: emit_groups.induct)
  case (1 v n out)
  show ?case
  proof (cases "5 \<le> n")
    case True
    then have "bits_of n v = bits_of 5 (drop_bit (n - 5) v) @ bits_of (n - 5) v"
      using bits_of_split [of "n - 5" n v] by simp
    with 1 True show ?thesis by (auto simp: emit_groups.simps [of v n])
  next
    case False
    with 1(2) show ?thesis by (auto simp: emit_groups.simps [of v n])
  qed
qed

lemma bit_ucast_byte: "8 \<le> i \<Longrightarrow> \<not> bit (ucast (b :: byte) :: u32) i"
  by (auto simp: bit_simps dest: bit_imp_le_length)

lemma bits_of_ucast [simp]: "bits_of 8 (ucast (b :: byte) :: u32) = bits_of 8 b"
  by (rule bits_of_eqI) (simp add: bit_simps)

lemma base32_pad: 
  assumes "n < 5"
  shows "bits_of 5 (push_bit (5 - n) v :: u32) = bits_of n v @ replicate (5 - n) False"
proof -
  have "bits_of 5 (push_bit (5 - n) v) = bits_of (n + (5 - n)) (push_bit (5 - n) v OR 0)" using assms by simp
  also have "\<dots> = bits_of n v @ bits_of (5 - n) (0 :: u32)" by (rule bits_of_push) (use assms in simp_all)
  also have "bits_of (5 - n) (0 :: u32) = replicate (5 - n) False" by (simp add: bits_of_def map_replicate_const)
  finally show ?thesis .
qed

lemma encode_loop_bits:
  "n < 5 \<Longrightarrow> \<exists>k < 5. symbol_bits (encode_loop bs v n out) = symbol_bits out @ bits_of n v @ byte_bits bs @ replicate k False
     \<and> (\<forall>c \<in> set (encode_loop bs v n out). c \<in> set out \<or> c \<in> range base32_symbol)"
proof (induction bs arbitrary: v n out)
  case Nil
  then show ?case
    by (cases "n = 0") (auto simp: base32_pad intro: exI [of _ 0] exI [of _ "5 - n"])
next
  case (Cons b bs)
  let ?v = "push_bit 8 v OR ucast b"
  obtain out' n' where e: "emit_groups ?v (n + 8) out = (out', n')" by force
  from emit_groups_bits [OF e] have n': "n' < 5"
    and eq: "symbol_bits out' @ bits_of n' ?v = symbol_bits out @ bits_of (n + 8) ?v"
    and sub: "\<forall>c \<in> set out'. c \<in> set out \<or> c \<in> range base32_symbol" by blast+
  have "bits_of (n + 8) ?v = bits_of n v @ bits_of 8 (ucast b :: u32)"
    by (rule bits_of_push) (use Cons.prems in \<open>simp_all add: bit_ucast_byte\<close>)
  with eq have eq: "symbol_bits out' @ bits_of n' ?v = symbol_bits out @ bits_of n v @ bits_of 8 b" by simp
  obtain k where "k < 5" and "symbol_bits (encode_loop bs ?v n' out') = (symbol_bits out' @ bits_of n' ?v) @ byte_bits bs @ replicate k False"
    and "\<forall>c \<in> set (encode_loop bs ?v n' out'). c \<in> set out' \<or> c \<in> range base32_symbol"
    using Cons.IH [OF n', of ?v out'] by (auto simp: append_assoc)
  then show ?case unfolding eq using sub by (auto simp: e Let_def intro!: exI [of _ k])
qed

lemma decode_loop_bits:
  assumes "n < 8" and "\<forall>c \<in> set s. c \<in> range base32_symbol"
  shows "\<exists>bs n' v'. decode_loop s v n out = Some (out @ bs) \<and> n' < 8 \<and>
    byte_bits bs @ bits_of n' (v' :: u32) = bits_of n v @ symbol_bits s"
  using assms
proof (induction s arbitrary: v n out)
  case Nil
  then show ?case by auto
next
  case (Cons c s)
  then obtain x where c: "c = base32_symbol x" by auto
  let ?i = "take_bit 5 x"
  define v2 where "v2 = push_bit 5 v OR take_bit 5 x"
  have step: "decode_loop (c # s) v n out =
     (if 8 \<le> n + 5 then decode_loop s v2 (n + 5 - 8) (out @ [ucast (drop_bit (n + 5 - 8) v2)]) else decode_loop s v2 (n + 5) out)"
    by (simp add: c index_base32_symbol and_31 Let_def v2_def)
  have eq: "bits_of (n + 5) v2 = bits_of n v @ bits_of 5 x"
    using bits_of_push [of n 5 ?i v] Cons.prems by (simp add: bit_take_bit_iff v2_def)
  have rest: "\<forall>c \<in> set s. c \<in> range base32_symbol" using Cons.prems by simp
  show ?case
  proof (cases "8 \<le> n + 5")
    case True
    define b :: byte where "b = ucast (drop_bit (n + 5 - 8) v2)"
    have "bits_of (n + 5) v2 = bits_of (n + 5 - (n + 5 - 8)) (drop_bit (n + 5 - 8) v2) @ bits_of (n + 5 - 8) v2"
      by (rule bits_of_split) simp
    also have "n + 5 - (n + 5 - 8) = 8" using True by simp
    also have "bits_of 8 (drop_bit (n + 5 - 8) v2) = bits_of 8 b" by (rule bits_of_eqI) (simp add: bit_simps b_def)
    finally have split: "bits_of (n + 5) v2 = bits_of 8 b @ bits_of (n + 5 - 8) v2" .
    have "n + 5 - 8 < 8" using Cons.prems by simp
    from Cons.IH [OF this rest, of v2 "out @ [b]"]
    obtain bs n' v' where "decode_loop s v2 (n + 5 - 8) (out @ [b]) = Some ((out @ [b]) @ bs)" "n' < 8"
      "byte_bits bs @ bits_of n' (v' :: u32) = bits_of (n + 5 - 8) v2 @ symbol_bits s" by blast
    then show ?thesis unfolding step using True eq split
      by (intro exI [of _ "b # bs"] exI [of _ n'] exI [of _ v']) (simp add: b_def c)
  next
    case False
    then have "n + 5 < 8" by simp
    from Cons.IH [OF this rest, of v2 out] False show ?thesis unfolding step by (simp add: eq c)
  qed
qed

theorem base32_decodes:
  assumes "cleaned s = base32Encode bytes"
  shows "base32Decode s = Inr bytes"
proof -
  obtain k where k: "k < 5" "symbol_bits (base32Encode bytes) = byte_bits bytes @ replicate k False"
    "\<forall>c \<in> set (base32Encode bytes). c \<in> range base32_symbol"
    using encode_loop_bits [of 0 bytes 0 "[]"] by (auto simp: base32Encode_def)
  obtain bs n' v' where d: "decode_loop (base32Encode bytes) 0 0 [] = Some bs" "n' < 8"
    "byte_bits bs @ bits_of n' (v' :: u32) = byte_bits bytes @ replicate k False"
    using decode_loop_bits [of 0 "base32Encode bytes" 0 "[]"] k(2,3) by auto
  have "bs = bytes"
    using concat_bits_inject [OF d(3)] d(2) k(1) by (force dest: bit_imp_le_length)
  with d(1) assms show ?thesis by (simp add: base32Decode_def)
qed

lemma upper_symbol: "c \<in> range base32_symbol \<Longrightarrow> upper_chars c = [c] \<and> upper_chars (lower_char c) = [c] \<and> c \<noteq> CHR ''='' \<and> \<not> js_space c
    \<and> lower_char c \<noteq> CHR ''='' \<and> \<not> js_space (lower_char c)"
proof -
  have "list_all (\<lambda>c. upper_chars c = [c] \<and> upper_chars (lower_char c) = [c] \<and> c \<noteq> CHR ''='' \<and> \<not> js_space c
    \<and> lower_char c \<noteq> CHR ''='' \<and> \<not> js_space (lower_char c)) BASE32_ALPHABET" by code_simp
  moreover have "base32_symbol v \<in> set BASE32_ALPHABET" for v
  proof -
    have "length BASE32_ALPHABET = 32" by code_simp
    then show ?thesis using nth_mem [of "unat (v AND 31)" BASE32_ALPHABET] unat_and_31 [of v] by (simp add: base32_symbol_def)
  qed
  ultimately show "c \<in> range base32_symbol \<Longrightarrow> ?thesis" by (auto simp: list_all_iff)
qed

lemma base32_range: "set (base32Encode bytes) \<subseteq> range base32_symbol"
  using encode_loop_bits [of 0 bytes 0 "[]"] by (auto simp: base32Encode_def)

lemma cleaned_symbols:
  assumes "set s \<subseteq> range base32_symbol"
  shows "cleaned (map lower_char s @ replicate n (CHR ''='')) = s" and "cleaned s = s"
  using assms by (induction s) (auto simp: cleaned_def toUpperCase_def dest!: upper_symbol)

lemma length_base32Encode: "5 * length (base32Encode bytes) < 8 * length bytes + 5 \<and> 8 * length bytes \<le> 5 * length (base32Encode bytes)"
proof -
  obtain k where k: "k < 5" "symbol_bits (base32Encode bytes) = byte_bits bytes @ replicate k False"
    using encode_loop_bits [of 0 bytes 0 "[]"] by (auto simp: base32Encode_def)
  have "length (symbol_bits cs) = 5 * length cs" for cs by (induction cs) auto
  moreover have "length (byte_bits bs) = 8 * length bs" for bs by (induction bs) auto
  ultimately show ?thesis using arg_cong [OF k(2), of length] k(1) by simp
qed

subsection \<open>Codes\<close>

lemma timingSafeEqual_iff [simp]: "timingSafeEqual a b \<longleftrightarrow> a = b"
proof -
  have "inj (of_char :: char \<Rightarrow> nat)" by (simp add: inj_on_def)
  then show ?thesis by (auto simp: timingSafeEqual_def all_differences_zero)
qed

lemma length_show_nat: "n < 10 ^ k \<Longrightarrow> 0 < k \<Longrightarrow> length (show_nat n) \<le> k"
proof (induction k arbitrary: n)
  case 0
  then show ?case by simp
next
  case (Suc k)
  show ?case
  proof (cases "n < 10")
    case True
    then show ?thesis by (simp add: show_nat.simps [of n])
  next
    case False
    with Suc.prems have "n div 10 < 10 ^ k" "0 < k" by (auto simp: div_less_iff_less_mult mult.commute intro!: Nat.gr0I)
    with Suc.IH False show ?thesis by (simp add: show_nat.simps [of n])
  qed
qed

lemma hotp_six_digits: "hotp hmacSha1 secret counter = Inr code \<Longrightarrow> six_digits code"
proof -
  have "length (show_nat (n mod 1000000)) \<le> 6" for n by (rule length_show_nat) simp_all
  moreover have "is_digit (CHR ''0'')" by (simp add: is_digit_def)
  ultimately show "hotp hmacSha1 secret counter = Inr code \<Longrightarrow> ?thesis"
    using show_nat_digits by (auto simp: hotp_def six_digits_def pad_start_def list_all_iff split: option.splits)
qed

lemma all_results_Inr: "all_results rs = Inr as \<longleftrightarrow> rs = map Inr as"
proof (induction rs arbitrary: as)
  case (Cons r rs)
  then show ?case by (cases as; cases r; cases "all_results rs") auto
qed auto

text \<open>The candidate codes are those of the steps around the current one; the latest that agrees with the code is the match.\<close>

lemma matchTotpCode_window:
  assumes "base32Decode secret = Inr s" and "\<And>step. \<exists>c. hotp hmacSha1 s step = Inr c"
  shows "\<exists>m. matchTotpCode hmacSha1 secret code at = Inr m \<and>
    (case m of
       None \<Rightarrow> \<forall>step \<in> {timeCounter at - 1..timeCounter at + 1}. hotp hmacSha1 s step \<noteq> Inr code
     | Some step \<Rightarrow> step \<in> {timeCounter at - 1..timeCounter at + 1} \<and> hotp hmacSha1 s step = Inr code
         \<and> (\<forall>later \<in> {step<..timeCounter at + 1}. hotp hmacSha1 s later \<noteq> Inr code))"
proof (cases "six_digits code")
  case False
  then have "hotp hmacSha1 s step \<noteq> Inr code" for step using hotp_six_digits by blast
  with False show ?thesis by (simp add: matchTotpCode_def)
next
  case True
  let ?c = "timeCounter at"
  obtain c0 c1 c2 where c: "hotp hmacSha1 s (?c - 1) = Inr c0" "hotp hmacSha1 s ?c = Inr c1" "hotp hmacSha1 s (?c + 1) = Inr c2"
    using assms(2) by metis
  have window: "{?c - 1..?c + 1} = {?c - 1, ?c, ?c + 1}" by auto
  have run: "matchTotpCode hmacSha1 secret code at =
      Inr (if c2 = code then Some (?c + 1) else if c1 = code then Some ?c else if c0 = code then Some (?c - 1) else None)"
    using True assms(1) c by (simp add: matchTotpCode_def Let_def)
  have later: "{?c<..?c + 1} = {?c + 1}" "{?c + 1<..?c + 1} = {}" "{?c - 1<..?c + 1} = {?c, ?c + 1}" by auto
  show ?thesis unfolding run using c by (auto simp: window later)
qed

end
