(* ===== verification/Sealing.thy ===== *)
theory Sealing
  imports AuthModel Bytes
begin

section \<open>Base64url and the sealing of second factors\<close>

text \<open>
  The base64url functions of \<open>packages/auth/src/crypto.ts\<close> and \<open>packages/auth/src/sealing.ts\<close>. \<open>btoa\<close> and \<open>atob\<close> are
  written out as the platform specifies them. AES-GCM, HMAC and HKDF of Web Crypto and the UTF-8 codecs are parameters;
  \<open>None\<close> is a rejected promise. Random bytes are arguments.
\<close>

subsection \<open>Base64url\<close>

definition BASE64 :: string where
  "BASE64 = ''ABCDEFGHIJKLMNOPQRSTUVWXYZabcdefghijklmnopqrstuvwxyz0123456789+/''"

definition b64 :: "nat \<Rightarrow> char" where
  "b64 n = BASE64 ! n"

fun btoa :: "byte list \<Rightarrow> string" where
  "btoa [] = []"
| "btoa [a] = [b64 (unat a div 4), b64 (unat a mod 4 * 16), CHR ''='', CHR ''='']"
| "btoa [a, b] = [b64 (unat a div 4), b64 (unat a mod 4 * 16 + unat b div 16), b64 (unat b mod 16 * 4), CHR ''='']"
| "btoa (a # b # c # rest) =
     b64 (unat a div 4) # b64 (unat a mod 4 * 16 + unat b div 16) # b64 (unat b mod 16 * 4 + unat c div 64) # b64 (unat c mod 64)
       # btoa rest"

fun atob_groups :: "nat list \<Rightarrow> byte list" where
  "atob_groups [] = []"
| "atob_groups [w] = []"
| "atob_groups [w, x] = [of_nat (w * 4 + x div 16)]"
| "atob_groups [w, x, y] = [of_nat (w * 4 + x div 16), of_nat (x mod 16 * 16 + y div 4)]"
| "atob_groups (w # x # y # z # rest) =
     of_nat (w * 4 + x div 16) # of_nat (x mod 16 * 16 + y div 4) # of_nat (y mod 4 * 64 + z) # atob_groups rest"

definition ascii_space :: "char \<Rightarrow> bool" where
  "ascii_space c \<longleftrightarrow> (of_char c :: nat) \<in> {9, 10, 12, 13, 32}"

definition drop_last_if :: "char \<Rightarrow> string \<Rightarrow> string" where
  "drop_last_if c s = (if s \<noteq> [] \<and> last s = c then butlast s else s)"

definition strip_padding :: "string \<Rightarrow> string" where
  "strip_padding s =
     (if length s mod 4 = 0
      then (let s1 = drop_last_if (CHR ''='') s in if length s1 < length s then drop_last_if (CHR ''='') s1 else s) else s)"

definition atob :: "string \<Rightarrow> byte list option" where
  "atob input =
     (let d = strip_padding (filter (\<lambda>c. \<not> ascii_space c) input) in
      if length d mod 4 = 1 \<or> (\<exists>c \<in> set d. index_of c BASE64 = None) then None
      else Some (atob_groups (map (\<lambda>c. the (index_of c BASE64)) d)))"

definition replace_char :: "char \<Rightarrow> char \<Rightarrow> string \<Rightarrow> string" where
  "replace_char a b s = map (\<lambda>c. if c = a then b else c) s"

definition encodeBase64Url :: "byte list \<Rightarrow> string" where
  "encodeBase64Url bytes =
     rev (dropWhile (\<lambda>c. c = CHR ''='') (rev (replace_char (CHR ''/'') (CHR ''_'') (replace_char (CHR ''+'') (CHR ''-'') (btoa bytes)))))"

definition pad_end :: "nat \<Rightarrow> char \<Rightarrow> string \<Rightarrow> string" where
  "pad_end n c s = s @ replicate (n - length s) c"

definition decodeBase64Url :: "string \<Rightarrow> byte list option" where
  "decodeBase64Url v =
     (let base64 = replace_char (CHR ''_'') (CHR ''/'') (replace_char (CHR ''-'') (CHR ''+'') v) in
      atob (pad_end ((length base64 + 3) div 4 * 4) (CHR ''='') base64))"

subsection \<open>The sealer\<close>

record WebCrypto =
  deriveKeys :: "string \<Rightarrow> (byte list \<times> byte list) option"
  aesEncrypt :: "byte list \<Rightarrow> byte list \<Rightarrow> byte list \<Rightarrow> byte list option"
  aesDecrypt :: "byte list \<Rightarrow> byte list \<Rightarrow> byte list \<Rightarrow> byte list option"
  hmacSign :: "byte list \<Rightarrow> byte list \<Rightarrow> byte list option"
  textEncode :: "string \<Rightarrow> byte list"
  textDecode :: "byte list \<Rightarrow> string"

definition VERSION :: string where "VERSION = ''v1''"

definition constantTimeEqual :: "byte list \<Rightarrow> byte list \<Rightarrow> bool" where
  "constantTimeEqual a b \<longleftrightarrow> length a = length b \<and> all_differences (\<lambda>byte. byte) a b = 0"

definition sealed_parse :: "string \<Rightarrow> (AuthError, byte list \<times> byte list) result" where
  "sealed_parse stored =
     (let malformed = Inl (AuthValidationError ''sealed-value'' ''is malformed'') in
      case split_char (CHR '':'') stored of
        [version, first, second] \<Rightarrow>
          if version \<noteq> VERSION \<or> first = [] \<or> second = [] then malformed
          else (case (decodeBase64Url first, decodeBase64Url second) of
            (Some a, Some b) \<Rightarrow> Inr (a, b) | _ \<Rightarrow> malformed)
      | _ \<Rightarrow> malformed)"

definition saltedCode :: "WebCrypto \<Rightarrow> byte list \<Rightarrow> string \<Rightarrow> byte list" where
  "saltedCode wc salt code = salt @ textEncode wc code"

definition sealing_failure :: "string \<Rightarrow> AuthError" where
  "sealing_failure operation = AuthDependencyError ''second-factor-sealing'' operation"

definition sealing_keys :: "WebCrypto \<Rightarrow> string \<Rightarrow> (AuthError, byte list \<times> byte list) result" where
  "sealing_keys wc secret =
     (if secret = [] then Inl (AuthValidationError ''secret'' ''must not be empty'')
      else case deriveKeys wc secret of None \<Rightarrow> Inl (sealing_failure ''derive-keys'') | Some ks \<Rightarrow> Inr ks)"

definition isSealed :: "string \<Rightarrow> bool" where
  "isSealed stored \<longleftrightarrow> take (length VERSION + 1) stored = VERSION @ '':''"

definition sealed_text :: "byte list \<Rightarrow> byte list \<Rightarrow> string" where
  "sealed_text first second = VERSION @ '':'' @ encodeBase64Url first @ '':'' @ encodeBase64Url second"

definition seal :: "WebCrypto \<Rightarrow> string \<Rightarrow> byte list \<Rightarrow> string \<Rightarrow> (AuthError, string) result" where
  "seal wc secret iv plain =
     bind_result (sealing_keys wc secret) (\<lambda>(aes, mac).
       case aesEncrypt wc aes iv (textEncode wc plain) of
         None \<Rightarrow> Inl (sealing_failure ''seal-totp-secret'')
       | Some ciphertext \<Rightarrow> Inr (sealed_text iv ciphertext))"

definition open_sealed :: "WebCrypto \<Rightarrow> string \<Rightarrow> string \<Rightarrow> (AuthError, string) result" where
  "open_sealed wc secret stored =
     (if isSealed stored
      then bind_result (sealing_keys wc secret) (\<lambda>(aes, mac).
        bind_result (sealed_parse stored) (\<lambda>(iv, ciphertext).
          case aesDecrypt wc aes iv ciphertext of
            None \<Rightarrow> Inl (sealing_failure ''open-totp-secret'')
          | Some plaintext \<Rightarrow> Inr (textDecode wc plaintext)))
      else Inr stored)"

definition hashRecoveryCode :: "WebCrypto \<Rightarrow> string \<Rightarrow> byte list \<Rightarrow> string \<Rightarrow> (AuthError, string) result" where
  "hashRecoveryCode wc secret salt code =
     bind_result (sealing_keys wc secret) (\<lambda>(aes, mac).
       case hmacSign wc mac (saltedCode wc salt code) of
         None \<Rightarrow> Inl (sealing_failure ''hash-recovery-code'')
       | Some digest \<Rightarrow> Inr (sealed_text salt digest))"

definition matchRecoveryCode ::
  "WebCrypto \<Rightarrow> string \<Rightarrow> string \<Rightarrow> string \<Rightarrow> (string \<Rightarrow> (AuthError, string) result) \<Rightarrow> (AuthError, bool) result" where
  "matchRecoveryCode wc secret code stored legacyHash =
     (if isSealed stored
      then (case bind_result (sealing_keys wc secret) (\<lambda>(aes, mac).
              bind_result (sealed_parse stored) (\<lambda>(salt, expected).
                case hmacSign wc mac (saltedCode wc salt code) of
                  None \<Rightarrow> Inl (sealing_failure ''match-recovery-code'')
                | Some digest \<Rightarrow> Inr (constantTimeEqual digest expected))) of
              Inl (AuthValidationError field reason) \<Rightarrow> Inr False
            | r \<Rightarrow> r)
      else map_sum id (\<lambda>digest. constantTimeEqual (textEncode wc digest) (textEncode wc stored)) (legacyHash code))"

subsection \<open>Base64url loses nothing\<close>

lemma b64_facts:
  "n < 64 \<Longrightarrow> index_of (b64 n) BASE64 = Some n \<and> b64 n \<noteq> CHR ''='' \<and> \<not> ascii_space (b64 n) \<and> b64 n \<noteq> CHR ''-'' \<and> b64 n \<noteq> CHR ''_'' \<and> b64 n \<noteq> CHR '':''"
proof -
  have "list_all (\<lambda>n. index_of (b64 n) BASE64 = Some n \<and> b64 n \<noteq> CHR ''='' \<and> \<not> ascii_space (b64 n) \<and> b64 n \<noteq> CHR ''-''
      \<and> b64 n \<noteq> CHR ''_'' \<and> b64 n \<noteq> CHR '':'') [0..<64]" by code_simp
  then show "n < 64 \<Longrightarrow> ?thesis" by (simp add: list_all_iff)
qed

text \<open>The six-bit groups that \<open>btoa\<close> writes before its padding.\<close>

fun sextets :: "byte list \<Rightarrow> nat list" where
  "sextets [] = []"
| "sextets [a] = [unat a div 4, unat a mod 4 * 16]"
| "sextets [a, b] = [unat a div 4, unat a mod 4 * 16 + unat b div 16, unat b mod 16 * 4]"
| "sextets (a # b # c # rest) =
     unat a div 4 # (unat a mod 4 * 16 + unat b div 16) # (unat b mod 16 * 4 + unat c div 64) # unat c mod 64 # sextets rest"

lemma unat_byte: "unat (b :: byte) < 256"
proof -
  have "unat b < 2 ^ LENGTH(8)" by (rule unsigned_less)
  then show ?thesis by simp
qed

lemma sextets_bound: "\<forall>n \<in> set (sextets bs). n < 64"
proof (induction bs rule: sextets.induct)
  case (2 a)
  then show ?case using unat_byte [of a] by simp
next
  case (3 a b)
  then show ?case using unat_byte [of a] unat_byte [of b] by simp linarith
next
  case (4 a b c rest)
  then show ?case using unat_byte [of a] unat_byte [of b] unat_byte [of c] by simp linarith
qed simp

lemma sextets_length: "length (sextets bs) mod 4 \<noteq> 1"
  by (induction bs rule: sextets.induct) simp_all

lemma btoa_sextets:
  "btoa bs = map b64 (sextets bs) @ replicate ((4 - length (sextets bs) mod 4) mod 4) (CHR ''='')"
  by (induction bs rule: sextets.induct) (simp_all add: numeral_2_eq_2)

lemma byte_of_nat_eq: "n = unat b \<Longrightarrow> (of_nat n :: byte) = b"
  by simp

lemma field_split: "y < m \<Longrightarrow> (x * m + y) div m = (x :: nat) \<and> (x * m + y) mod m = y"
  by (simp add: div_add1_eq)

lemma byte_fields: "unat (a :: byte) div 16 < 16" "unat a div 64 < 4"
  using unat_byte [of a] by linarith+

lemma atob_groups_sextets: "atob_groups (sextets bs) = bs"
proof (induction bs rule: sextets.induct)
  case (2 a)
  show ?case by (simp add: byte_of_nat_eq)
next
  case (3 a b)
  have "unat a div 4 * 4 + (unat a mod 4 * 16 + unat b div 16) div 16 = unat a"
    by (simp add: field_split byte_fields div_mult_mod_eq)
  moreover have "(unat a mod 4 * 16 + unat b div 16) mod 16 * 16 + unat b mod 16 * 4 div 4 = unat b"
    by (simp add: field_split byte_fields div_mult_mod_eq)
  ultimately show ?case by (simp add: byte_of_nat_eq del: of_nat_add of_nat_mult of_nat_div)
next
  case (4 a b c rest)
  have "unat a div 4 * 4 + (unat a mod 4 * 16 + unat b div 16) div 16 = unat a"
    by (simp add: field_split byte_fields div_mult_mod_eq)
  moreover have "(unat a mod 4 * 16 + unat b div 16) mod 16 * 16 + (unat b mod 16 * 4 + unat c div 64) div 4 = unat b"
    by (simp add: field_split byte_fields div_mult_mod_eq)
  moreover have "(unat b mod 16 * 4 + unat c div 64) mod 4 * 64 + unat c mod 64 = unat c"
    by (simp add: field_split byte_fields div_mult_mod_eq)
  ultimately show ?case using 4 by (simp add: byte_of_nat_eq del: of_nat_add of_nat_mult of_nat_div)
qed simp

definition url_char :: "nat \<Rightarrow> char" where
  "url_char n = (if n = 62 then CHR ''-'' else if n = 63 then CHR ''_'' else b64 n)"

lemma url_char_facts:
  "n < 64 \<Longrightarrow> (let c = b64 n; c1 = (if c = CHR ''+'' then CHR ''-'' else c); c2 = (if c1 = CHR ''/'' then CHR ''_'' else c1);
       d1 = (if url_char n = CHR ''-'' then CHR ''+'' else url_char n) in
     c2 = url_char n \<and> (if d1 = CHR ''_'' then CHR ''/'' else d1) = b64 n \<and> url_char n \<noteq> CHR ''='' \<and> url_char n \<noteq> CHR '':'')"
proof -
  have "list_all (\<lambda>n. let c = b64 n; c1 = (if c = CHR ''+'' then CHR ''-'' else c); c2 = (if c1 = CHR ''/'' then CHR ''_'' else c1);
       d1 = (if url_char n = CHR ''-'' then CHR ''+'' else url_char n) in
     c2 = url_char n \<and> (if d1 = CHR ''_'' then CHR ''/'' else d1) = b64 n \<and> url_char n \<noteq> CHR ''='' \<and> url_char n \<noteq> CHR '':'') [0..<64]"
    by code_simp
  then show "n < 64 \<Longrightarrow> ?thesis" by (simp add: list_all_iff)
qed

lemma encodeBase64Url_sextets: "encodeBase64Url bs = map url_char (sextets bs)"
proof -
  have "replace_char (CHR ''/'') (CHR ''_'') (replace_char (CHR ''+'') (CHR ''-'') (map b64 ns)) = map url_char ns"
    if "\<forall>n \<in> set ns. n < 64" for ns
    using that by (induction ns) (auto simp: replace_char_def Let_def dest!: url_char_facts)
  moreover have "dropWhile (\<lambda>c. c = CHR ''='') (rev (map url_char ns)) = rev (map url_char ns)" if "\<forall>n \<in> set ns. n < 64" for ns
    using that url_char_facts by (cases ns rule: rev_cases) (auto simp: Let_def)
  moreover have "replace_char a b (xs @ replicate k (CHR ''='')) = replace_char a b xs @ replicate k (CHR ''='')" if "a \<noteq> CHR ''=''" for a b xs k
    using that by (simp add: replace_char_def)
  ultimately show ?thesis using sextets_bound [of bs]
    by (simp add: encodeBase64Url_def btoa_sextets dropWhile_append)
qed

lemma decode_sextets:
  assumes "\<forall>n \<in> set ns. n < 64" and "length ns mod 4 \<noteq> 1"
  shows "decodeBase64Url (map url_char ns) = Some (atob_groups ns)"
proof -
  have raw: "replace_char (CHR ''_'') (CHR ''/'') (replace_char (CHR ''-'') (CHR ''+'') (map url_char ns)) = map b64 ns"
    using assms(1) by (induction ns) (auto simp: replace_char_def Let_def dest!: url_char_facts)
  let ?k = "(length ns + 3) div 4 * 4 - length ns"
  have k: "?k = (if length ns mod 4 = 0 then 0 else if length ns mod 4 = 2 then 2 else 1)" and four: "(length ns + ?k) mod 4 = 0"
    using assms(2) by presburger+
  have filter_ns: "filter (\<lambda>c. \<not> ascii_space c) (map b64 ns @ replicate ?k (CHR ''='')) = map b64 ns @ replicate ?k (CHR ''='')"
  proof -
    have "\<not> ascii_space (CHR ''='')" by code_simp
    moreover have "\<forall>c \<in> set (map b64 ns). \<not> ascii_space c" using assms(1) b64_facts by auto
    ultimately show ?thesis by (auto simp: filter_id_conv)
  qed
  have ends: "ns = [] \<or> last (map b64 ns) \<noteq> CHR ''=''"
    using assms(1) b64_facts last_in_set [of ns] by (auto simp: last_map)
  have strip: "strip_padding (map b64 ns @ replicate ?k (CHR ''='')) = map b64 ns"
    using ends assms(2) unfolding strip_padding_def length_append length_map length_replicate four
    unfolding k by (auto simp: Let_def numeral_2_eq_2 butlast_append drop_last_if_def)
  have known: "\<not> (\<exists>c \<in> set (map b64 ns). index_of c BASE64 = None)" using assms(1) b64_facts by auto
  have "map (\<lambda>c. the (index_of c BASE64)) (map b64 ns) = ns" using assms(1) b64_facts by (auto simp: map_idI)
  then show ?thesis
    unfolding decodeBase64Url_def raw Let_def pad_end_def atob_def length_map filter_ns strip
    using known assms(2) by simp
qed

theorem base64url_roundtrip: "decodeBase64Url (encodeBase64Url bs) = Some bs"
  using decode_sextets [OF sextets_bound sextets_length, of bs] by (simp add: encodeBase64Url_sextets atob_groups_sextets)

subsection \<open>What is sealed can be opened\<close>

lemma constantTimeEqual_iff [simp]: "constantTimeEqual a b \<longleftrightarrow> a = b"
  by (auto simp: constantTimeEqual_def all_differences_zero inj_on_def)

lemma split_char_append: "c \<notin> set a \<Longrightarrow> split_char c (a @ c # rest) = a # split_char c rest"
  by (induction a) auto

lemma encodeBase64Url_no_colon: "CHR '':'' \<notin> set (encodeBase64Url bs)"
proof -
  have "url_char n \<noteq> CHR '':''" if "n < 64" for n using url_char_facts [OF that] by (simp add: Let_def)
  then show ?thesis using sextets_bound [of bs] by (force simp: encodeBase64Url_sextets)
qed

lemma encodeBase64Url_Nil [simp]: "encodeBase64Url bs = [] \<longleftrightarrow> bs = []"
  by (cases bs rule: sextets.cases) (simp_all add: encodeBase64Url_sextets)

lemma sealed_parse_text: "first \<noteq> [] \<Longrightarrow> second \<noteq> [] \<Longrightarrow> sealed_parse (sealed_text first second) = Inr (first, second)"
proof -
  assume ne: "first \<noteq> []" "second \<noteq> []"
  have "split_char (CHR '':'') (VERSION @ CHR '':'' # encodeBase64Url first @ CHR '':'' # encodeBase64Url second)
      = [VERSION, encodeBase64Url first, encodeBase64Url second]"
    by (simp add: split_char_append split_char_none encodeBase64Url_no_colon VERSION_def)
  with ne show ?thesis by (simp add: sealed_parse_def sealed_text_def base64url_roundtrip Let_def)
qed

lemma isSealed_text [simp]: "isSealed (sealed_text first second)"
  by (simp add: isSealed_def sealed_text_def VERSION_def)

text \<open>What the code relies on: decryption inverts encryption under the same key and vector, no output is empty, and decoding inverts encoding.\<close>

definition crypto_lawful :: "WebCrypto \<Rightarrow> bool" where
  "crypto_lawful wc \<longleftrightarrow>
     (\<forall>k iv p c. aesEncrypt wc k iv p = Some c \<longrightarrow> c \<noteq> [] \<and> aesDecrypt wc k iv c = Some p)
     \<and> (\<forall>k m d. hmacSign wc k m = Some d \<longrightarrow> d \<noteq> [])
     \<and> (\<forall>s. textDecode wc (textEncode wc s) = s)"

lemma open_seal:
  assumes "crypto_lawful wc" and "iv \<noteq> []" and "seal wc secret iv plain = Inr stored"
  shows "isSealed stored \<and> open_sealed wc secret stored = Inr plain"
proof -
  obtain aes mac c where k: "sealing_keys wc secret = Inr (aes, mac)" "aesEncrypt wc aes iv (textEncode wc plain) = Some c"
    "stored = sealed_text iv c"
    using assms(3) by (auto simp: seal_def split: option.splits)
  have "c \<noteq> []" "aesDecrypt wc aes iv c = Some (textEncode wc plain)" using assms(1) k(2) by (auto simp: crypto_lawful_def)
  with k assms(1,2) show ?thesis by (simp add: open_sealed_def sealed_parse_text crypto_lawful_def)
qed

lemma match_hash:
  assumes "crypto_lawful wc" and "salt \<noteq> []" and "hashRecoveryCode wc secret salt code = Inr stored"
  shows "\<exists>mac. hmacSign wc mac (saltedCode wc salt code) \<noteq> None \<and>
    (\<forall>code'. hmacSign wc mac (saltedCode wc salt code') \<noteq> None \<longrightarrow>
       matchRecoveryCode wc secret code' stored legacyHash =
         Inr (hmacSign wc mac (saltedCode wc salt code') = hmacSign wc mac (saltedCode wc salt code)))"
proof -
  obtain aes mac digest where k: "sealing_keys wc secret = Inr (aes, mac)" "hmacSign wc mac (saltedCode wc salt code) = Some digest"
    "stored = sealed_text salt digest"
    using assms(3) by (auto simp: hashRecoveryCode_def split: option.splits)
  have "digest \<noteq> []" using assms(1) k(2) by (auto simp: crypto_lawful_def)
  with k assms(2) show ?thesis
    by (intro exI [of _ mac]) (auto simp: matchRecoveryCode_def sealed_parse_text)
qed

end
