(* ===== verification/TwoFactor.thy ===== *)
theory TwoFactor
  imports Accounts Totp Sealing
begin

section \<open>The second factor\<close>

text \<open>
  \<open>packages/auth/src/twofactor.ts\<close>: enrollment, verification with lockout, recovery codes and the elevation of sessions, over the
  store of \<open>AuthStore\<close> and the sessions of \<open>Accounts\<close>, with the calls of other fibers between any two store calls.
\<close>

definition DEFAULT_LOCKOUT_THRESHOLD :: int where "DEFAULT_LOCKOUT_THRESHOLD = 5"
definition DEFAULT_LOCKOUT_COOLDOWN :: int where "DEFAULT_LOCKOUT_COOLDOWN = 15 * 60 * 1000"
definition MIN_SECRET_LENGTH :: nat where "MIN_SECRET_LENGTH = 32"

record TotpServiceOptions =
  sealingSecret :: string
  lockoutThreshold :: "int option"
  lockoutCooldownMillis :: "int option"
  webCrypto :: WebCrypto
  hmacSha1 :: hmac

definition makeTotp :: "TotpServiceOptions \<Rightarrow> (AuthError, TotpServiceOptions) result" where
  "makeTotp opts =
     (if length (sealingSecret opts) < MIN_SECRET_LENGTH
      then Inl (AuthValidationError ''secret'' (''must be at least '' @ show_nat MIN_SECRET_LENGTH @ '' characters''))
      else Inr opts)"

definition threshold :: "TotpServiceOptions \<Rightarrow> int" where
  "threshold opts = getOr DEFAULT_LOCKOUT_THRESHOLD (lockoutThreshold opts)"

definition cooldown :: "TotpServiceOptions \<Rightarrow> int" where
  "cooldown opts = getOr DEFAULT_LOCKOUT_COOLDOWN (lockoutCooldownMillis opts)"

definition recovery_char :: "char \<Rightarrow> bool" where
  "recovery_char c \<longleftrightarrow> (let n = of_char c :: nat in 97 \<le> n \<and> n \<le> 122 \<or> 50 \<le> n \<and> n \<le> 55)"

definition isRecoveryCode :: "string \<Rightarrow> bool" where
  "isRecoveryCode code \<longleftrightarrow> length code = 11 \<and> list_all recovery_char (take 5 code) \<and> code ! 5 = CHR ''-''
     \<and> list_all recovery_char (drop 6 code)"

definition recoveryEntryFor :: "TotpServiceOptions \<Rightarrow> string list \<Rightarrow> string \<Rightarrow> string option auth" where
  "recoveryEntryFor opts hashes code =
     lift (\<lambda>env. map_sum id (\<lambda>matches. map_option fst (find snd (zip hashes matches)))
       (all_results (map (\<lambda>stored. matchRecoveryCode (webCrypto opts) (sealingSecret opts) code stored (hashToken env)) hashes)))"

fun consume_attempts :: "nat \<Rightarrow> TotpServiceOptions \<Rightarrow> TenantId \<Rightarrow> UserId \<Rightarrow> string list \<Rightarrow> string \<Rightarrow> bool auth" where
  "consume_attempts 0 opts t uid entries code = succeed False"
| "consume_attempts (Suc n) opts t uid entries code =
     and_then (recoveryEntryFor opts entries code) (\<lambda>found.
     case found of
       None \<Rightarrow> succeed False
     | Some entry \<Rightarrow>
         and_then (ask answer_in (ConsumeRecoveryCode t uid entry)) (\<lambda>consumed.
         if consumed then succeed True
         else
           and_then (ask totp_in (FindTotp t uid)) (\<lambda>current.
           case current of
             None \<Rightarrow> succeed False
           | Some rec \<Rightarrow>
               if entry \<notin> set (recoveryCodeHashes rec) then succeed False
               else consume_attempts n opts t uid (recoveryCodeHashes rec) code)))"

definition consume_recovery_code :: "TotpServiceOptions \<Rightarrow> TenantId \<Rightarrow> UserId \<Rightarrow> string list \<Rightarrow> string \<Rightarrow> bool auth" where
  "consume_recovery_code = consume_attempts 3"

definition sealLegacySecret :: "TotpServiceOptions \<Rightarrow> TenantId \<Rightarrow> UserId \<Rightarrow> string \<Rightarrow> unit auth" where
  "sealLegacySecret opts t uid stored =
     (if isSealed stored then succeed ()
      else and_then (randomBytes 12) (\<lambda>iv.
        and_then (lift (\<lambda>env. seal (webCrypto opts) (sealingSecret opts) iv stored)) (\<lambda>sealed.
        store_command (ReplaceTotpSecret t uid sealed))))"

definition sessionUserOf :: "TenantId \<Rightarrow> string \<Rightarrow> AuthUser auth" where
  "sessionUserOf t token = and_then (getSession t token) (\<lambda>session. succeed (authUser session))"

definition anyEnrollment :: "TenantId \<Rightarrow> UserId \<Rightarrow> TotpRecord option auth" where
  "anyEnrollment t uid = ask totp_in (FindTotp t uid)"

definition confirmedEnrollmentOrNone :: "TenantId \<Rightarrow> UserId \<Rightarrow> TotpRecord option auth" where
  "confirmedEnrollmentOrNone t uid =
     and_then (anyEnrollment t uid) (\<lambda>rec. succeed (case rec of None \<Rightarrow> None | Some r \<Rightarrow> if confirmed r then Some r else None))"

definition lockoutError :: "int \<Rightarrow> 'a auth" where
  "lockoutError until =
     and_then current_time (\<lambda>at. fail_with (RateLimitExceeded ''totp-verify'' (Some (max 1 (- ((at - until) div 1000))))))"

definition resolveTenant :: "TenantId \<Rightarrow> TenantAuthConfig auth" where
  "resolveTenant t = lift (\<lambda>env. tenantConfig env t)"

definition elevate :: "TenantId \<Rightarrow> string \<Rightarrow> UserId \<Rightarrow> unit auth" where
  "elevate t token uid =
     and_then (lift (\<lambda>env. hashToken env token)) (\<lambda>hash.
     and_then current_time (\<lambda>at.
     and_then (store_command (ElevateSession t hash at)) (\<lambda>_.
     record_audit t ''totp-verify'' (Some uid) None)))"

subsection \<open>Enrollment\<close>

definition beginEnrollment :: "TotpServiceOptions \<Rightarrow> TenantId \<Rightarrow> string \<Rightarrow> (string \<times> string) auth" where
  "beginEnrollment opts t token =
     and_then (resolveTenant t) (\<lambda>_.
     and_then (limit_rate t ''totp-enroll'' token) (\<lambda>_.
     and_then (sessionUserOf t token) (\<lambda>user.
     and_then (confirmedEnrollmentOrNone t (userId user)) (\<lambda>existing.
     if existing \<noteq> None
     then fail_with (AuthValidationError ''totp'' ''is already enrolled; unenroll first to re-enroll'')
     else
       and_then (randomBytes 20) (\<lambda>bytes.
       and_then (randomBytes 12) (\<lambda>iv.
       and_then (lift (\<lambda>env. seal (webCrypto opts) (sealingSecret opts) iv (generateTotpSecret bytes))) (\<lambda>sealed.
       and_then current_time (\<lambda>at.
       and_then (store_command (PutTotpSecret \<lparr>totpTenant = t, totpUser = userId user, secretBase32 = sealed, confirmed = False,
           recoveryCodeHashes = [], failedAttempts = 0, lockedUntil = None, lastUsedStep = None, enrolledAt = at\<rparr>)) (\<lambda>_.
       and_then (resolveTenant t) (\<lambda>config.
       succeed (generateTotpSecret bytes,
         totpQrPayload (generateTotpSecret bytes) (getOr (userId user) (userEmail user)) (hostname (baseUrl config)))))))))))))"

fun draw_bytes :: "nat \<Rightarrow> nat \<Rightarrow> byte list list auth" where
  "draw_bytes 0 n8 = succeed []"
| "draw_bytes (Suc n) n8 =
     and_then (randomBytes n8) (\<lambda>b. and_then (draw_bytes n n8) (\<lambda>bs. succeed (b # bs)))"

fun hash_codes :: "TotpServiceOptions \<Rightarrow> string list \<Rightarrow> string list auth" where
  "hash_codes opts [] = succeed []"
| "hash_codes opts (c # cs) =
     and_then (randomBytes 16) (\<lambda>salt.
     and_then (lift (\<lambda>env. hashRecoveryCode (webCrypto opts) (sealingSecret opts) salt c)) (\<lambda>h.
     and_then (hash_codes opts cs) (\<lambda>hs. succeed (h # hs))))"

definition confirmEnrollment :: "TotpServiceOptions \<Rightarrow> TenantId \<Rightarrow> string \<Rightarrow> string \<Rightarrow> string list auth" where
  "confirmEnrollment opts t token code =
     and_then (resolveTenant t) (\<lambda>_.
     and_then (limit_rate t ''totp-confirm'' token) (\<lambda>_.
     and_then (sessionUserOf t token) (\<lambda>user.
     and_then (anyEnrollment t (userId user)) (\<lambda>found.
     case found of
       None \<Rightarrow> fail_with (InvalidAuthToken ''totp-enrollment'')
     | Some pending \<Rightarrow>
         if confirmed pending then fail_with (InvalidAuthToken ''totp-enrollment'')
         else
           and_then (lift (\<lambda>env. open_sealed (webCrypto opts) (sealingSecret opts) (secretBase32 pending))) (\<lambda>secret.
           and_then current_time (\<lambda>at.
           and_then (lift (\<lambda>env. matchTotpCode (hmacSha1 opts) secret code at)) (\<lambda>matched.
           case matched of
             None \<Rightarrow> fail_with (InvalidCredentials (Some ''totp''))
           | Some step \<Rightarrow>
               and_then (draw_bytes 10 8) (\<lambda>randoms.
               (let codes = generateRecoveryCodes randoms in
                and_then (hash_codes opts codes) (\<lambda>hashes.
                and_then current_time (\<lambda>at2.
                and_then (ask totp_in (ConfirmTotp t (userId user) hashes at2)) (\<lambda>_.
                and_then (ask answer_in (MarkTotpStepUsed t (userId user) step)) (\<lambda>_.
                and_then (record_audit t ''totp-confirm'' (Some (userId user)) None) (\<lambda>_.
                succeed codes))))))))))))))"

subsection \<open>Verification\<close>

definition locked_now :: "TotpRecord \<Rightarrow> bool auth" where
  "locked_now rec =
     (case lockedUntil rec of None \<Rightarrow> succeed False | Some until \<Rightarrow> and_then current_time (\<lambda>at. succeed (at < until)))"

definition totp_failure :: "TotpServiceOptions \<Rightarrow> TenantId \<Rightarrow> UserId \<Rightarrow> 'a auth" where
  "totp_failure opts t uid =
     and_then current_time (\<lambda>at.
     and_then (ask locked_in (RecordTotpFailure t uid (threshold opts) (cooldown opts) at)) (\<lambda>(locked, until).
     case until of
       Some u \<Rightarrow> if locked then and_then (record_audit t ''totp-locked'' (Some uid) None) (\<lambda>_. lockoutError u)
                 else fail_with (InvalidCredentials (Some ''totp''))
     | None \<Rightarrow> fail_with (InvalidCredentials (Some ''totp''))))"

definition totp_success :: "TotpServiceOptions \<Rightarrow> TenantId \<Rightarrow> string \<Rightarrow> UserId \<Rightarrow> string \<Rightarrow> unit auth" where
  "totp_success opts t token uid stored =
     and_then (sealLegacySecret opts t uid stored) (\<lambda>_.
     and_then (store_command (ResetTotpFailures t uid)) (\<lambda>_.
     elevate t token uid))"

definition verify_enrolled :: "TotpServiceOptions \<Rightarrow> TenantId \<Rightarrow> string \<Rightarrow> string \<Rightarrow> UserId \<Rightarrow> TotpRecord \<Rightarrow> unit auth" where
  "verify_enrolled opts t token code uid enrollment =
     and_then (lift (\<lambda>env. open_sealed (webCrypto opts) (sealingSecret opts) (secretBase32 enrollment))) (\<lambda>secret.
     and_then current_time (\<lambda>at.
     and_then (lift (\<lambda>env. matchTotpCode (hmacSha1 opts) secret code at)) (\<lambda>matched.
     and_then (case matched of None \<Rightarrow> succeed False | Some step \<Rightarrow> ask answer_in (MarkTotpStepUsed t uid step)) (\<lambda>claimed.
     if claimed then totp_success opts t token uid (secretBase32 enrollment)
     else
       and_then (if isRecoveryCode code then consume_recovery_code opts t uid (recoveryCodeHashes enrollment) code else succeed False)
         (\<lambda>spent.
       if spent then totp_success opts t token uid (secretBase32 enrollment)
       else totp_failure opts t uid)))))"

definition verify :: "TotpServiceOptions \<Rightarrow> TenantId \<Rightarrow> string \<Rightarrow> string \<Rightarrow> unit auth" where
  "verify opts t token code =
     and_then (resolveTenant t) (\<lambda>_.
     and_then (limit_rate t ''totp-verify'' token) (\<lambda>_.
     and_then (sessionUserOf t token) (\<lambda>user.
     and_then (confirmedEnrollmentOrNone t (userId user)) (\<lambda>found.
     case found of
       None \<Rightarrow> fail_with (InvalidAuthToken ''totp-enrollment'')
     | Some enrollment \<Rightarrow>
         and_then (locked_now enrollment) (\<lambda>locked.
         if locked then lockoutError (the (lockedUntil enrollment))
         else verify_enrolled opts t token code (userId user) enrollment)))))"

definition unenroll :: "TotpServiceOptions \<Rightarrow> TenantId \<Rightarrow> string \<Rightarrow> string \<Rightarrow> unit auth" where
  "unenroll opts t token code =
     and_then (resolveTenant t) (\<lambda>_.
     and_then (limit_rate t ''totp-unenroll'' token) (\<lambda>_.
     and_then (sessionUserOf t token) (\<lambda>user.
     and_then (confirmedEnrollmentOrNone t (userId user)) (\<lambda>found.
     case found of
       None \<Rightarrow> fail_with (InvalidAuthToken ''totp-enrollment'')
     | Some enrollment \<Rightarrow>
         and_then (locked_now enrollment) (\<lambda>locked.
         if locked then lockoutError (the (lockedUntil enrollment))
         else
           and_then (lift (\<lambda>env. open_sealed (webCrypto opts) (sealingSecret opts) (secretBase32 enrollment))) (\<lambda>secret.
           and_then current_time (\<lambda>at.
           and_then (lift (\<lambda>env. matchTotpCode (hmacSha1 opts) secret code at)) (\<lambda>matched.
           and_then (case matched of
               Some step \<Rightarrow> ask answer_in (MarkTotpStepUsed t (userId user) step)
             | None \<Rightarrow> if isRecoveryCode code
                 then consume_recovery_code opts t (userId user) (recoveryCodeHashes enrollment) code else succeed False) (\<lambda>accepted.
           if \<not> accepted then totp_failure opts t (userId user)
           else
             and_then (store_command (RemoveTotp t (userId user))) (\<lambda>_.
             record_audit t ''totp-unenroll'' (Some (userId user)) None))))))))))"

definition resetSecondFactor :: "TenantId \<Rightarrow> UserId \<Rightarrow> string \<Rightarrow> unit auth" where
  "resetSecondFactor t uid actor =
     and_then (resolveTenant t) (\<lambda>_.
     and_then (anyEnrollment t uid) (\<lambda>found.
     case found of
       None \<Rightarrow> succeed ()
     | Some _ \<Rightarrow>
         and_then (store_command (RemoveTotp t uid)) (\<lambda>_.
         record_audit t ''totp-reset'' (Some uid) (Some actor))))"

definition sessionRequiresElevation :: "TenantId \<Rightarrow> string \<Rightarrow> bool auth" where
  "sessionRequiresElevation t token =
     and_then (resolveTenant t) (\<lambda>_.
     and_then (lift (\<lambda>env. hashToken env token)) (\<lambda>hash.
     and_then current_time (\<lambda>at.
     and_then (ask session_in (FindSession t hash at)) (\<lambda>found.
     case found of
       None \<Rightarrow> fail_with (InvalidCredentials (Some ''session''))
     | Some session \<Rightarrow>
         if elevatedAt session \<noteq> None then succeed False
         else and_then (confirmedEnrollmentOrNone t (sessionUser session)) (\<lambda>enrollment. succeed (enrollment \<noteq> None))))))"

definition isEnrolled :: "TenantId \<Rightarrow> UserId \<Rightarrow> bool auth" where
  "isEnrolled t uid = and_then (confirmedEnrollmentOrNone t uid) (\<lambda>rec. succeed (rec \<noteq> None))"

end
