(* ===== verification/AccountProofs.thy ===== *)
theory AccountProofs
  imports Accounts
begin

section \<open>What the account services do to the store\<close>

text \<open>
  Inversion of the effects, the calls a service makes between two worlds, and what they give: sign-in, password changes,
  one-time tokens and pending sessions. Other fibers may call the store before any call of a service.
\<close>

subsection \<open>Inversion\<close>

lemma and_then_Inr: "and_then m f env w = (Inr b, w2) \<longleftrightarrow> (\<exists>a w1. m env w = (Inr a, w1) \<and> f a env w1 = (Inr b, w2))"
  by (auto simp: and_then_def split: prod.splits sum.splits)

lemma effect_Inr:
  "succeed a env w = (Inr b, w') \<longleftrightarrow> b = a \<and> w' = w"
  "fail_with e env w = (Inr b, w') \<longleftrightarrow> False"
  "lift r env w = (Inr b, w') \<longleftrightarrow> r env = Inr b \<and> w' = w"
  "current_time env w = (Inr at, w') \<longleftrightarrow> at = clock env (wTick w) \<and> w' = w\<lparr>wTick := Suc (wTick w)\<rparr>"
  "randomToken n env w = (Inr s, w') \<longleftrightarrow> s = randomTokens env (wTick w) n \<and> w' = w\<lparr>wTick := Suc (wTick w)\<rparr>"
  "record_audit t action u actor env w = (Inr x, w') \<longleftrightarrow>
     w' = w\<lparr>wAudit := wAudit w @ [\<lparr>auditTenant = t, auditAction = action, auditUser = u, auditActor = actor\<rparr>]\<rparr>"
  by (auto simp: succeed_def fail_with_def lift_def current_time_def randomToken_def record_audit_def)

text \<open>A call made between two worlds, with its answer.\<close>

definition calls_between :: "AuthWorld \<Rightarrow> AuthWorld \<Rightarrow> (AuthCall \<times> AuthResponse) list" where
  "calls_between w w' = drop (length (wLog w)) (wLog w')"

definition made :: "AuthCall \<Rightarrow> AuthResponse \<Rightarrow> AuthWorld \<Rightarrow> AuthWorld \<Rightarrow> bool" where
  "made c r w w' \<longleftrightarrow> (c, r) \<in> set (calls_between w w')"

lemma extends_calls: "extends w w' \<Longrightarrow> \<exists>cs. wStore w' = snd (run_calls cs (wStore w)) \<and> calls_between w w' = fst (run_calls cs (wStore w))"
  by (auto simp: extends_def calls_between_def)

lemma extends_log: "extends w w' \<Longrightarrow> wLog w' = wLog w @ calls_between w w'"
  by (auto simp: extends_def calls_between_def)

lemma calls_append: "extends w w1 \<Longrightarrow> extends w1 w2 \<Longrightarrow> calls_between w w2 = calls_between w w1 @ calls_between w1 w2"
  by (auto simp: extends_def calls_between_def)

lemma made_before: "extends w w1 \<Longrightarrow> made c r w1 w2 \<Longrightarrow> extends w1 w2 \<Longrightarrow> made c r w w2"
  and made_after: "made c r w w1 \<Longrightarrow> extends w w1 \<Longrightarrow> extends w1 w2 \<Longrightarrow> made c r w w2"
  by (auto simp: made_def calls_append)

lemma logsD: "logs m \<Longrightarrow> m env w = (r, w') \<Longrightarrow> extends w w'"
  unfolding logs_def by (metis snd_conv)

lemma fst_run_calls [simp]: "map fst (fst (run_calls cs st)) = cs"
  by (induction cs arbitrary: st) simp_all

lemma perform_made:
  assumes "perform c env w = (r, w')"
  shows "\<exists>st. r = Inr (fst (call c st)) \<and> made c (fst (call c st)) w w' \<and> wStore w' = snd (call c st)
    \<and> st = snd (run_calls (others env (wTick w)) (wStore w))"
  using assms by (auto simp: perform_eq Let_def made_def calls_between_def)

lemma ask_Inr:
  assumes "ask read c env w = (Inr a, w')"
  shows "\<exists>st. a = read (fst (call c st)) \<and> made c (fst (call c st)) w w' \<and> wStore w' = snd (call c st)
    \<and> st = snd (run_calls (others env (wTick w)) (wStore w))"
  using assms perform_made [of c env w] by (fastforce simp: ask_def and_then_Inr effect_Inr)

lemma store_command_Inr:
  assumes "store_command c env w = (Inr a, w')"
  shows "\<exists>st. made c (fst (call c st)) w w' \<and> wStore w' = snd (call c st) \<and> (\<forall>e. fst (call c st) \<noteq> RefusedBy e)
    \<and> st = snd (run_calls (others env (wTick w)) (wStore w))"
proof -
  obtain r w1 where 1: "perform c env w = (Inr r, w1)"
    and 2: "(case r of RefusedBy e \<Rightarrow> fail_with e | _ \<Rightarrow> succeed ()) env w1 = (Inr a, w')"
    using assms by (auto simp: store_command_def and_then_Inr)
  have "w' = w1 \<and> (\<forall>e. r \<noteq> RefusedBy e)" using 2 by (cases r) (auto simp: effect_Inr)
  with perform_made [OF 1] show ?thesis by fastforce
qed

lemma answers:
  "user_in r = Some u \<longleftrightarrow> r = UserIs (Some u)" "password_in r = Some p \<longleftrightarrow> r = PasswordIs (Some p)"
  "token_in r = Some k \<longleftrightarrow> r = TokenIs (Some k)" "session_in r = Some s \<longleftrightarrow> r = SessionIs (Some s)"
  "totp_in r = Some x \<longleftrightarrow> r = TotpIs (Some x)" "answer_in r \<longleftrightarrow> r = Answer True"
  by (cases r; auto)+

lemma made_within: "made c r w1 w2 \<Longrightarrow> extends w w1 \<Longrightarrow> extends w1 w2 \<Longrightarrow> extends w2 w' \<Longrightarrow> made c r w w'"
  by (meson extends_trans made_after made_before)

lemmas logs_services = logs_and_then logs_sessions logs_simple logs_ask logs_store_command logs_limit_rate logs_walls logs_hash_password

subsection \<open>Sessions\<close>

definition hook_answer :: "AuthOptions \<Rightarrow> TenantId \<Rightarrow> UserId \<Rightarrow> bool auth" where
  "hook_answer opts t uid = (case secondFactor opts of None \<Rightarrow> succeed False | Some isEnrolled \<Rightarrow> isEnrolled t uid)"

lemma logs_hook_answer: "hook_logs opts \<Longrightarrow> logs (hook_answer opts t uid)"
  unfolding hook_logs_def hook_answer_def by (auto split: option.split)

lemma open_session_made:
  assumes "hook_logs opts" and "open_session opts t user config env w = (Inr session, w')"
  shows "\<exists>s pending w1 w2. authUser session = user \<and> hashToken env (authToken session) = Inr (sessionHash s)
    \<and> sessionTenant s = t \<and> sessionUser s = userId user \<and> sessionExpiresAt s = authExpiresAt session
    \<and> hook_answer opts t (userId user) env w1 = (Inr pending, w2) \<and> (elevatedAt s = None \<longleftrightarrow> pending)
    \<and> made (CreateSession s) Done w w' \<and> (\<forall>x. (scoped t (sessionHash s), x) \<in> set (sessions (wStore w')) \<longrightarrow> x = s)
    \<and> extends w w1 \<and> extends w1 w2 \<and> extends w2 w'"
proof -
  define raw where "raw = randomTokens env (wTick w) 32"
  define at where "at = clock env (wTick (w\<lparr>wTick := Suc (wTick w)\<rparr>))"
  define w2 where "w2 = w\<lparr>wTick := Suc (Suc (wTick w))\<rparr>"
  obtain hash pending w3 where hash: "hashToken env raw = Inr hash"
    and hook: "hook_answer opts t (userId user) env w2 = (Inr pending, w3)"
    and rest: "and_then (randomToken 18) (\<lambda>sid.
      and_then (store_command (CreateSession \<lparr>sessionId = sid, sessionTenant = t, sessionUser = userId user, sessionHash = hash,
          sessionCreatedAt = at, sessionExpiresAt = at + getOr DEFAULT_SESSION_TTL (ttlMillis config),
          elevatedAt = (if pending then None else Some at)\<rparr>)) (\<lambda>_.
      succeed \<lparr>authToken = raw, authUser = user, authExpiresAt = at + getOr DEFAULT_SESSION_TTL (ttlMillis config)\<rparr>)) env w3 = (Inr session, w')"
    using assms(2) by (auto simp: open_session_def and_then_Inr effect_Inr Let_def hook_answer_def raw_def w2_def at_def cong: if_cong)
  define s where "s = \<lparr>sessionId = randomTokens env (wTick w3) 18, sessionTenant = t, sessionUser = userId user, sessionHash = hash,
          sessionCreatedAt = at, sessionExpiresAt = at + getOr DEFAULT_SESSION_TTL (ttlMillis config),
          elevatedAt = (if pending then None else Some at)\<rparr>"
  have cmd: "store_command (CreateSession s) env (w3\<lparr>wTick := Suc (wTick w3)\<rparr>) = (Inr (), w')"
    and session: "session = \<lparr>authToken = raw, authUser = user, authExpiresAt = at + getOr DEFAULT_SESSION_TTL (ttlMillis config)\<rparr>"
    using rest by (auto simp: and_then_Inr effect_Inr s_def)
  have e: "extends w w3" "extends w3 (w3\<lparr>wTick := Suc (wTick w3)\<rparr>)" "extends (w3\<lparr>wTick := Suc (wTick w3)\<rparr>) w'"
    using logsD [OF logs_hook_answer [OF assms(1)] hook] logsD [OF logs_store_command cmd]
    by (auto simp: extends_def w2_def intro: exI [of _ "[]"])
  obtain st where st: "made (CreateSession s) (fst (call (CreateSession s) st)) (w3\<lparr>wTick := Suc (wTick w3)\<rparr>) w'"
    "wStore w' = snd (call (CreateSession s) st)" "\<forall>e. fst (call (CreateSession s) st) \<noteq> RefusedBy e"
    using store_command_Inr [OF cmd] by auto
  then have "fst (call (CreateSession s) st) = Done" and only: "\<forall>x. (scoped t (sessionHash s), x) \<in> set (sessions (wStore w')) \<longrightarrow> x = s"
    by (auto simp: createSession_def unit_response_def Let_def s_def map_of_eq_None_iff rev_image_eqI dest!: in_set_jsset split: if_splits)
  with st(1) e have "made (CreateSession s) Done w w'" by (metis extends_trans made_before)
  moreover have "extends w w2" "extends w2 w3" "extends w3 w'"
    using logsD [OF logs_hook_answer [OF assms(1)] hook] e by (auto simp: extends_def w2_def intro: exI [of _ "[]"])
  ultimately show ?thesis using hash hook session only
    by (intro exI [of _ s] exI [of _ pending] exI [of _ w2] exI [of _ w3]) (simp add: s_def raw_def)
qed

subsection \<open>Password sign-in\<close>

theorem sign_in_made:
  assumes "hook_logs opts" and "signInPassword opts t inputEmail password caller env w = (Inr session, w')"
  shows "\<exists>email cred user s pending w1 w2. normalizeEmail inputEmail = Inr email
    \<and> made (FindPassword t email) (PasswordIs (Some cred)) w w' \<and> verifyPassword env password (passwordHash cred) = Inr True
    \<and> made (FindUserById t (credUser cred)) (UserIs (Some user)) w w' \<and> emailVerified user \<and> authUser session = user
    \<and> made (CreateSession s) Done w w' \<and> hashToken env (authToken session) = Inr (sessionHash s)
    \<and> sessionTenant s = t \<and> sessionUser s = userId user \<and> sessionExpiresAt s = authExpiresAt session
    \<and> hook_answer opts t (userId user) env w1 = (Inr pending, w2) \<and> (elevatedAt s = None \<longleftrightarrow> pending)
    \<and> (\<forall>x. (scoped t (sessionHash s), x) \<in> set (sessions (wStore w')) \<longrightarrow> x = s) \<and> extends w w1 \<and> extends w1 w2 \<and> extends w2 w'"
proof -
  obtain config email w1 w2 w3 w4 w5 w6 cred user x y where
    1: "configFor t env w = (Inr config, w1)" "normalizeEmail inputEmail = Inr email" and
    2: "for_each (wall_before t ''password-sign-in'') (sign_in_walls email caller) env w1 = (Inr x, w2)" and
    3: "ask password_in (FindPassword t email) env w2 = (Inr (Some cred), w3)" and
    4: "verifyPassword env password (passwordHash cred) = Inr True" and
    5: "ask user_in (FindUserById t (credUser cred)) env w3 = (Inr (Some user), w4)" and
    6: "emailVerified user" and
    7: "open_session opts t user config env w4 = (Inr session, w5)" and
    8: "record_audit t ''password-sign-in'' (Some (userId user)) None env w5 = (Inr y, w')"
    using assms(2)
    by (auto simp: signInPassword_def refused_def and_then_Inr effect_Inr(1-3) Let_def split: if_splits option.splits)
  note e = logsD [OF logs_sessions(1) 1(1)] logsD [OF logs_for_each [OF logs_walls(1)] 2] logsD [OF logs_ask 3] logsD [OF logs_ask 5]
    logsD [OF logs_open_session [OF assms(1)] 7] logsD [OF logs_simple(8) 8]
  have "made (FindPassword t email) (PasswordIs (Some cred)) w2 w3" using ask_Inr [OF 3] by (auto simp: answers)
  then have A: "made (FindPassword t email) (PasswordIs (Some cred)) w w'" by (rule made_within) (use e in \<open>meson extends_trans\<close>)+
  have "made (FindUserById t (credUser cred)) (UserIs (Some user)) w3 w4" using ask_Inr [OF 5] by (auto simp: answers)
  then have B: "made (FindUserById t (credUser cred)) (UserIs (Some user)) w w'" by (rule made_within) (use e in \<open>meson extends_trans\<close>)+
  from open_session_made [OF assms(1) 7] obtain s pending v1 v2 where s: "authUser session = user"
    "hashToken env (authToken session) = Inr (sessionHash s)" "sessionTenant s = t" "sessionUser s = userId user"
    "sessionExpiresAt s = authExpiresAt session" "hook_answer opts t (userId user) env v1 = (Inr pending, v2)"
    "elevatedAt s = None \<longleftrightarrow> pending" "made (CreateSession s) Done w4 w5"
    "\<forall>x. (scoped t (sessionHash s), x) \<in> set (sessions (wStore w5)) \<longrightarrow> x = s" "extends w4 v1" "extends v1 v2" "extends v2 w5" by blast
  have "wStore w' = wStore w5" using 8 by (auto simp: effect_Inr)
  then have only: "\<forall>x. (scoped t (sessionHash s), x) \<in> set (sessions (wStore w')) \<longrightarrow> x = s" using s(9) by simp
  have "extends w v1" "extends v2 w'" using e s(10,12) by (meson extends_trans)+
  from s(8) have "made (CreateSession s) Done w w'" by (rule made_within) (use e in \<open>meson extends_trans\<close>)+
  with A B s(1-7,11) only \<open>extends w v1\<close> \<open>extends v2 w'\<close> 1(2) 4 6 show ?thesis by blast
qed

subsection \<open>What a sign-in charges\<close>

text \<open>
  Refusals are the two errors a rejected sign-in answers. None of the parameters of the services fails with one: their
  declared errors are those of a dependency, of validation and of the rate limiter.
\<close>

fun refusal :: "AuthError \<Rightarrow> bool" where
  "refusal (InvalidCredentials reason) = True"
| "refusal (EmailNotVerified uid) = True"
| "refusal _ = False"

definition never_refuses :: "('e, 'a) result \<Rightarrow> ('e \<Rightarrow> bool) \<Rightarrow> bool" where
  "never_refuses r P \<longleftrightarrow> (case r of Inl e \<Rightarrow> \<not> P e | Inr a \<Rightarrow> True)"

definition silent :: "AuthEnv \<Rightarrow> 'a auth \<Rightarrow> bool" where
  "silent env m \<longleftrightarrow> (\<forall>w. wLimiter (snd (m env w)) = wLimiter w \<and> never_refuses (fst (m env w)) refusal)"

definition dependencies_ok :: "AuthOptions \<Rightarrow> AuthEnv \<Rightarrow> bool" where
  "dependencies_ok opts env \<longleftrightarrow>
     (\<forall>x. never_refuses (hashToken env x) refusal) \<and> (\<forall>n t a h. never_refuses (limiterCheck env n t a h) refusal)
     \<and> (\<forall>peek n t a h. limiterPeek env = Some peek \<longrightarrow> never_refuses (peek n t a h) refusal)
     \<and> (\<forall>n p. never_refuses (hashPassword env n p) refusal) \<and> (\<forall>p h. never_refuses (verifyPassword env p h) refusal)
     \<and> (\<forall>t. never_refuses (tenantConfig env t) refusal) \<and> (\<forall>t uid. silent env (hook_answer opts t uid))"

text \<open>A step that adds \<open>C\<close> to the limiter's requests and never refuses; a step that adds \<open>C\<close> or, refusing, \<open>D\<close>.\<close>

definition passes :: "AuthEnv \<Rightarrow> LimiterCall list \<Rightarrow> 'a auth \<Rightarrow> bool" where
  "passes env C m \<longleftrightarrow> (\<forall>w r w'. m env w = (r, w') \<longrightarrow>
     (case r of Inl e \<Rightarrow> \<not> refusal e | Inr a \<Rightarrow> wLimiter w' = wLimiter w @ C))"

definition charges :: "AuthEnv \<Rightarrow> LimiterCall list \<Rightarrow> LimiterCall list \<Rightarrow> 'a auth \<Rightarrow> bool" where
  "charges env C D m \<longleftrightarrow> (\<forall>w r w'. m env w = (r, w') \<longrightarrow>
     (case r of Inl e \<Rightarrow> refusal e \<longrightarrow> wLimiter w' = wLimiter w @ D | Inr a \<Rightarrow> wLimiter w' = wLimiter w @ C))"

lemma silent_passes: "silent env m \<Longrightarrow> passes env [] m"
  unfolding silent_def passes_def never_refuses_def by (metis append_Nil2 fst_conv snd_conv)

lemma passes_charges: "passes env C m \<Longrightarrow> charges env C D m"
  by (auto simp: passes_def charges_def split: sum.splits)

lemma passes_and_then: "passes env C m \<Longrightarrow> (\<And>a. passes env C' (f a)) \<Longrightarrow> passes env (C @ C') (and_then m f)"
  by (fastforce simp: passes_def and_then_def split: sum.splits prod.splits)

lemma charges_and_then: "passes env C m \<Longrightarrow> (\<And>a. charges env C' D (f a)) \<Longrightarrow> charges env (C @ C') (C @ D) (and_then m f)"
  by (fastforce simp: passes_def charges_def and_then_def split: sum.splits prod.splits)

lemma charges_silent_then: "silent env m \<Longrightarrow> (\<And>a. charges env C D (f a)) \<Longrightarrow> charges env C D (and_then m f)"
  using charges_and_then [OF silent_passes, where f = f and C' = C and D = D] by fastforce

lemma passes_for_each: "list_all2 (\<lambda>x C. passes env C (f x)) xs Cs \<Longrightarrow> passes env (concat Cs) (for_each f xs)"
  by (induction rule: list_all2_induct) (auto simp: passes_def [of env "[]"] succeed_def intro: passes_and_then)

lemma silent_and_then:
  assumes "silent env m" and "\<And>a. silent env (f a)"
  shows "silent env (and_then m f)"
  unfolding silent_def
proof (intro allI)
  fix w
  obtain x w1 where run: "m env w = (x, w1)" by force
  with assms(1) have "wLimiter w1 = wLimiter w" "never_refuses x refusal" unfolding silent_def by (metis fst_conv snd_conv)+
  with run show "wLimiter (snd (and_then m f env w)) = wLimiter w \<and> never_refuses (fst (and_then m f env w)) refusal"
    using assms(2) by (cases x) (auto simp: and_then_def silent_def never_refuses_def)
qed

lemma silent_simple:
  "silent env (succeed a)" "silent env current_time" "silent env (randomToken n)" "silent env (record_audit t action u actor)"
  "silent env (ask read c)" "never_refuses (r env) refusal \<Longrightarrow> silent env (lift r)"
  by (auto simp: silent_def succeed_def current_time_def randomToken_def record_audit_def ask_def and_then_def perform_eq Let_def
      lift_def never_refuses_def)

lemma call_never_refuses: "fst (call (CreateSession s) st) = RefusedBy e \<Longrightarrow> \<not> refusal e"
  by (auto simp: createSession_def unit_response_def Let_def split: if_splits)

lemma silent_create_session: "silent env (store_command (CreateSession s))"
  unfolding silent_def
  by (auto simp: store_command_def and_then_def perform_eq Let_def succeed_def fail_with_def never_refuses_def
      split: AuthResponse.split dest!: call_never_refuses [simplified])

lemma silent_services:
  assumes "dependencies_ok opts env"
  shows "silent env (configFor t)" "silent env (lift (\<lambda>env. normalizeEmail e))" "silent env (hash_password p)"
    "silent env (lift (\<lambda>env. verifyPassword env p h))" "silent env (open_session opts t user config)"
    "silent env (lift (\<lambda>env. hashToken env x))"
proof -
  have "never_refuses (validateTenantConfig parse config) refusal" for parse config
  proof -
    have "valid_origins parse rp os = Some e \<Longrightarrow> \<not> refusal e" for rp os e
      by (induction parse rp os rule: valid_origins.induct) (auto split: option.splits if_splits)
    then show ?thesis
      by (auto simp: validateTenantConfig_def never_refuses_def Let_def split: option.split)
  qed
  with assms show config: "silent env (configFor t)"
    unfolding configFor_def dependencies_ok_def by (intro silent_and_then silent_simple) simp_all
  show "silent env (lift (\<lambda>env. normalizeEmail e))"
    by (rule silent_simple) (simp add: normalizeEmail_def never_refuses_def Let_def)
  show "silent env (hash_password p)"
    using assms by (auto simp: silent_def hash_password_def dependencies_ok_def)
  show "silent env (lift (\<lambda>env. verifyPassword env p h))"
    using assms by (auto intro!: silent_simple simp: dependencies_ok_def)
  have hash: "silent env (lift (\<lambda>env. hashToken env x))" for x
    using assms by (auto intro!: silent_simple simp: dependencies_ok_def)
  then show "silent env (lift (\<lambda>env. hashToken env x))" .
  have "silent env (hook_answer opts t (userId user))" using assms by (simp add: dependencies_ok_def)
  then show "silent env (open_session opts t user config)"
    unfolding open_session_def Let_def hook_answer_def by (intro silent_and_then hash silent_create_session silent_simple(1-5))
qed

definition peeked_walls :: "TenantId \<Rightarrow> string list \<Rightarrow> LimiterCall list" where
  "peeked_walls t = map (Peeked t ''password-sign-in'')"

definition charged_walls :: "TenantId \<Rightarrow> string list \<Rightarrow> LimiterCall list" where
  "charged_walls t = map (Charged t ''password-sign-in'')"

lemma passes_walls:
  assumes "dependencies_ok opts env" and "map (hashToken env) walls = map Inr hashes"
  shows "passes env (if limiterPeek env = None then charged_walls t hashes else peeked_walls t hashes) (for_each (wall_before t ''password-sign-in'') walls)"
    and "passes env (if limiterPeek env = None then [] else charged_walls t hashes) (for_each (wall_onFailure t ''password-sign-in'') walls)"
proof -
  have check: "limiterCheck env n t a h = Inl e \<Longrightarrow> \<not> refusal e" for n t a h e
    using assms(1) unfolding dependencies_ok_def never_refuses_def by (metis sum.simps(5))
  have peek: "limiterPeek env = Some peek \<Longrightarrow> peek n t a h = Inl e \<Longrightarrow> \<not> refusal e" for peek n t a h e
    using assms(1) unfolding dependencies_ok_def never_refuses_def by (metis sum.simps(5))
  have one: "passes env (if limiterPeek env = None then charged_walls t [h] else peeked_walls t [h]) (wall_before t ''password-sign-in'' wall)"
    "passes env (if limiterPeek env = None then [] else charged_walls t [h]) (wall_onFailure t ''password-sign-in'' wall)"
    if "hashToken env wall = Inr h" for h wall
    using that check peek
    by (auto simp: passes_def wall_before_def wall_onFailure_def limit_rate_def and_then_def lift_def charge_limiter_def charged_walls_def peeked_walls_def
        split: option.splits sum.splits)
  have pairs: "list_all2 (\<lambda>wall h. hashToken env wall = Inr h) walls hashes"
    using assms(2) by (auto simp: list_eq_iff_nth_eq list_all2_conv_all_nth)
  have lists: "list_all2 (\<lambda>wall C. passes env C (wall_before t ''password-sign-in'' wall)) walls
      (map (\<lambda>h. if limiterPeek env = None then charged_walls t [h] else peeked_walls t [h]) hashes)"
    "list_all2 (\<lambda>wall C. passes env C (wall_onFailure t ''password-sign-in'' wall)) walls
      (map (\<lambda>h. if limiterPeek env = None then [] else charged_walls t [h]) hashes)"
    unfolding list.rel_map by (rule list.rel_mono_strong [OF pairs], erule one)+
  have nil: "concat (map (\<lambda>h. []) hashes) = ([] :: LimiterCall list)" by simp
  from lists [THEN passes_for_each]
  show "passes env (if limiterPeek env = None then charged_walls t hashes else peeked_walls t hashes) (for_each (wall_before t ''password-sign-in'') walls)"
    "passes env (if limiterPeek env = None then [] else charged_walls t hashes) (for_each (wall_onFailure t ''password-sign-in'') walls)"
    by (auto simp: charged_walls_def peeked_walls_def o_def concat_map_singleton simp: nil)
qed
theorem sign_in_charges:
  assumes "dependencies_ok opts env" and "normalizeEmail inputEmail = Inr email"
    and "map (hashToken env) (sign_in_walls email caller) = map Inr hashes"
  shows "charges env (if limiterPeek env = None then charged_walls t hashes else peeked_walls t hashes)
    (if limiterPeek env = None then charged_walls t hashes else peeked_walls t hashes @ charged_walls t hashes)
    (signInPassword opts t inputEmail password caller)"
proof -
  define C where "C = (if limiterPeek env = None then charged_walls t hashes else peeked_walls t hashes)"
  define D where "D = (if limiterPeek env = None then [] else charged_walls t hashes)"
  note before = passes_walls(1) [OF assms(1,3), of t, folded C_def] and fails = passes_walls(2) [OF assms(1,3), of t, folded D_def]
  note silent = silent_services [OF assms(1)]
  have success: "charges env [] D (and_then (open_session opts t user config) (\<lambda>session.
      and_then (record_audit t ''password-sign-in'' u None) (\<lambda>_. succeed session)))" for user config u
    by (intro passes_charges silent_passes silent_and_then silent silent_simple)
  have charge_then: "charges env [] D (and_then (for_each (wall_onFailure t ''password-sign-in'') (sign_in_walls email caller)) (\<lambda>_. fail_with e))" for e
  proof -
    have "charges env (D @ []) (D @ []) (and_then (for_each (wall_onFailure t ''password-sign-in'') (sign_in_walls email caller)) (\<lambda>_. fail_with e))"
      by (rule charges_and_then [OF fails]) (auto simp: charges_def fail_with_def)
    then show ?thesis by (auto simp: charges_def and_then_def fail_with_def split: prod.splits sum.splits)
  qed
  have "charges env (C @ []) (C @ D) (signInPassword opts t inputEmail password caller)"
    unfolding signInPassword_def Let_def
  proof (rule charges_silent_then [OF silent(1)], goal_cases)
    case (1 config)
    have "charges env (C @ []) (C @ D)
      (and_then (for_each (wall_before t ''password-sign-in'') (sign_in_walls email caller)) (\<lambda>_.
        if password = [] \<or> getOr 256 (maxLength config) < int (length password)
        then refused t (sign_in_walls email caller) ''password''
        else and_then (ask password_in (FindPassword t email)) (\<lambda>cred. case cred of
          None \<Rightarrow> and_then (hash_password ''structure-auth-dummy-password'') (\<lambda>_. refused t (sign_in_walls email caller) ''password'')
        | Some credential \<Rightarrow>
            and_then (lift (\<lambda>env. verifyPassword env password (passwordHash credential))) (\<lambda>matches.
            if \<not> matches then refused t (sign_in_walls email caller) ''password''
            else and_then (ask user_in (FindUserById t (credUser credential))) (\<lambda>found. case found of
                None \<Rightarrow> refused t (sign_in_walls email caller) ''password-user''
              | Some user \<Rightarrow>
                  if \<not> emailVerified user
                  then and_then (for_each (wall_onFailure t ''password-sign-in'') (sign_in_walls email caller)) (\<lambda>_. fail_with (EmailNotVerified (userId user)))
                  else and_then (open_session opts t user config) (\<lambda>session.
                    and_then (record_audit t ''password-sign-in'' (Some (userId user)) None) (\<lambda>_. succeed session)))))))"
      by (rule charges_and_then [OF before])
        (auto intro!: charges_silent_then silent silent_simple charge_then success simp: refused_def split: option.split)
    then show ?case by (simp add: and_then_def lift_def assms(2) charges_def)
  qed
  then show ?thesis by (cases "limiterPeek env") (simp_all add: C_def D_def)
qed

subsection \<open>One-time tokens are used once\<close>

definition reissues :: "string \<Rightarrow> AuthCall \<Rightarrow> bool" where
  "reissues k c \<longleftrightarrow> (\<exists>r. c = PutOneTimeToken r \<and> ott_key r = k)"

lemma token_stays_absent:
  assumes "extends w w'" and "jsget (tokens (wStore w)) k = None" and "\<forall>cr \<in> set (calls_between w w'). \<not> reissues k (fst cr)"
  shows "jsget (tokens (wStore w')) k = None"
proof -
  obtain cs where cs: "wStore w' = snd (run_calls cs (wStore w))" "calls_between w w' = fst (run_calls cs (wStore w))"
    using extends_calls [OF assms(1)] by blast
  have "set cs = fst ` set (calls_between w w')" unfolding cs(2) by (metis fst_run_calls set_map)
  with assms(3) have "PutOneTimeToken r \<in> set cs \<Longrightarrow> ott_key r \<noteq> k" for r by (fastforce simp: reissues_def)
  with assms(2) show ?thesis unfolding cs(1) by (intro token_absent_run)
qed

lemma consumeToken_Inr:
  assumes "consumeToken t purpose token env w = (Inr r, w')" and "hashToken env token = Inr hash"
  shows "jsget (tokens (wStore w')) (tokenKey t (purpose_name purpose) hash) = None"
proof -
  define at where "at = clock env (wTick w)"
  define v where "v = w\<lparr>wTick := Suc (wTick w)\<rparr>"
  obtain v' rec where 1: "ask token_in (ConsumeOneTimeToken t purpose hash at) env v = (Inr (Some rec), v')" "v' = w'"
    using assms by (auto simp: consumeToken_def and_then_Inr effect_Inr at_def v_def split: option.splits)
  from ask_Inr [OF 1(1)] 1(2) show ?thesis by (auto simp: consumeOneTimeToken_def Let_def AList.delete_eq map_of_eq_None_iff)
qed

lemma consumeToken_absent:
  assumes "hashToken env token = Inr hash" and "jsget (tokens (wStore w)) (tokenKey t (purpose_name purpose) hash) = None"
    and "consumeToken t purpose token env w = (r, w')"
    and "\<forall>cr \<in> set (calls_between w w'). \<not> reissues (tokenKey t (purpose_name purpose) hash) (fst cr)"
  shows "r = Inl (InvalidAuthToken (purpose_name purpose))"
proof -
  let ?k = "tokenKey t (purpose_name purpose) hash"
  define at where "at = clock env (wTick w)"
  let ?c = "ConsumeOneTimeToken t purpose hash at" and ?os = "others env (Suc (wTick w))"
  let ?st = "snd (run_calls ?os (wStore w))"
  have run: "ask token_in ?c env (w\<lparr>wTick := Suc (wTick w)\<rparr>) = (Inr (token_in (fst (call ?c ?st))),
     w\<lparr>wStore := snd (call ?c ?st), wLog := wLog w @ fst (run_calls ?os (wStore w)) @ [(?c, fst (call ?c ?st))], wTick := Suc (Suc (wTick w))\<rparr>)"
    by (simp add: ask_def and_then_def succeed_def perform_eq Let_def)
  have w': "calls_between w w' = fst (run_calls ?os (wStore w)) @ [(?c, fst (call ?c ?st))]"
    using assms(1,3) run
    by (auto simp: consumeToken_def and_then_def lift_def current_time_def at_def calls_between_def succeed_def fail_with_def split: option.splits)
  have "set ?os \<subseteq> fst ` set (calls_between w w')"
    unfolding w' using fst_run_calls [of ?os "wStore w"] by (metis Un_iff image_Un set_append set_map subsetI)
  with assms(4) have "PutOneTimeToken x \<in> set ?os \<Longrightarrow> ott_key x \<noteq> ?k" for x by (fastforce simp: reissues_def)
  then have "jsget (tokens ?st) ?k = None" using assms(2) by (intro token_absent_run) auto
  then have "token_in (fst (call ?c ?st)) = None" by (simp add: consumeOneTimeToken_def Let_def)
  with assms(1,3) run show ?thesis
    by (auto simp: consumeToken_def and_then_def lift_def current_time_def at_def fail_with_def)
qed

text \<open>The services that accept a token of each purpose.\<close>

fun redeemed :: "OneTimeTokenPurpose \<Rightarrow> TenantId \<Rightarrow> string \<Rightarrow> AuthEnv \<Rightarrow> AuthWorld \<Rightarrow> AuthWorld \<Rightarrow> bool" where
  "redeemed EmailVerification t token env w w' \<longleftrightarrow> (\<exists>u. verifyEmail t token env w = (Inr u, w'))"
| "redeemed MagicLink t token env w w' \<longleftrightarrow>
     (\<exists>opts s. hook_logs opts \<and> consumeMagicLink opts t token env w = (Inr s, w'))"
| "redeemed PasswordReset t token env w w' \<longleftrightarrow>
     (\<exists>opts new s. hook_logs opts \<and> resetPassword opts t token new env w = (Inr s, w'))"

lemma logs_magic_user [intro!]: "logs (magic_link_user t email)"
  unfolding magic_link_user_def insert_magic_user_def verified_user_def Let_def
  by (auto intro!: logs_and_then split: option.split AuthResponse.split AuthError.split)

lemma peel:
  assumes "and_then m f env v = (Inr b, w')" and "extends w v" and "logs m"
    and "\<And>a v1. f a env v1 = (Inr b, w') \<Longrightarrow> extends w v1 \<Longrightarrow> thesis"
  shows thesis
  using assms unfolding and_then_Inr by (meson extends_trans logsD)

lemma extends_and_then: "and_then m f env v = (r, w') \<Longrightarrow> logs m \<Longrightarrow> (\<And>a. logs (f a)) \<Longrightarrow> extends v w'"
  by (rule logsD [where m = "and_then m f"]) (auto intro!: logs_and_then)

lemma consumed_within:
  assumes "and_then (consumeToken t purpose token) f env v = (Inr b, w')" and "extends w v" and "\<And>rec. logs (f rec)"
  shows "\<exists>rec w1 w2. extends w w1 \<and> consumeToken t purpose token env w1 = (Inr rec, w2) \<and> extends w2 w'"
  using assms unfolding and_then_Inr by (meson logsD)

lemma redeemed_consumed:
  assumes "redeemed purpose t token env w w'"
  shows "\<exists>rec w1 w2. extends w w1 \<and> consumeToken t purpose token env w1 = (Inr rec, w2) \<and> extends w2 w'"
proof (cases purpose)
  case EmailVerification
  with assms obtain u where run: "verifyEmail t token env w = (Inr u, w')" by auto
  have "\<exists>rec w1 w2. extends w w1 \<and> consumeToken t EmailVerification token env w1 = (Inr rec, w2) \<and> extends w2 w'"
    by (rule peel [OF run [unfolded verifyEmail_def] extends_refl logs_sessions(1)], erule peel [OF _ _ logs_limit_rate], assumption,
        erule consumed_within, assumption) (auto intro!: logs_and_then split: option.split)
  with EmailVerification show ?thesis by simp
next
  case MagicLink
  with assms obtain opts s where hook: "hook_logs opts" and run: "consumeMagicLink opts t token env w = (Inr s, w')" by auto
  have "\<exists>rec w1 w2. extends w w1 \<and> consumeToken t MagicLink token env w1 = (Inr rec, w2) \<and> extends w2 w'"
    by (rule peel [OF run [unfolded consumeMagicLink_def] extends_refl logs_sessions(1)], erule peel [OF _ _ logs_limit_rate], assumption,
        erule consumed_within, assumption) (auto intro!: logs_and_then logs_open_session hook split: option.split)
  with MagicLink show ?thesis by simp
next
  case PasswordReset
  with assms obtain opts new s where hook: "hook_logs opts" and run: "resetPassword opts t token new env w = (Inr s, w')" by auto
  have "\<exists>rec w1 w2. extends w w1 \<and> consumeToken t PasswordReset token env w1 = (Inr rec, w2) \<and> extends w2 w'"
    by (rule peel [OF run [unfolded resetPassword_def] extends_refl logs_sessions(1)], erule peel [OF _ _ logs_limit_rate], assumption,
        erule peel [OF _ _ logs_simple(3)], assumption, erule consumed_within, assumption)
      (auto intro!: logs_and_then logs_open_session hook split: option.split)
  with PasswordReset show ?thesis by simp
qed

theorem token_redeemed_once:
  assumes "redeemed purpose t token env w0 w1" and "extends w1 w2" and "hashToken env token = Inr hash"
    and "\<forall>cr \<in> set (calls_between w0 w3). \<not> reissues (tokenKey t (purpose_name purpose) hash) (fst cr)" and "extends w2 w3"
  shows "\<not> redeemed purpose t token env w2 w3"
proof
  assume again: "redeemed purpose t token env w2 w3"
  obtain rec v1 v2 where first: "extends w0 v1" "consumeToken t purpose token env v1 = (Inr rec, v2)" "extends v2 w1"
    using redeemed_consumed [OF assms(1)] by blast
  obtain rec' u1 u2 where second: "extends w2 u1" "consumeToken t purpose token env u1 = (Inr rec', u2)" "extends u2 w3"
    using redeemed_consumed [OF again] by blast
  note ext = first(1,3) second(1,3) assms(2) logsD [OF logs_sessions(3) first(2)] logsD [OF logs_sessions(3) second(2)]
  have "calls_between w0 w3 = calls_between w0 v2 @ calls_between v2 u1 @ calls_between u1 u2 @ calls_between u2 w3"
    using ext by (metis (no_types) append.assoc calls_append extends_trans)
  with assms(4) have no: "\<forall>cr \<in> set (calls_between v2 u1). \<not> reissues (tokenKey t (purpose_name purpose) hash) (fst cr)"
    "\<forall>cr \<in> set (calls_between u1 u2). \<not> reissues (tokenKey t (purpose_name purpose) hash) (fst cr)" by auto
  have "extends v2 u1" using ext by (meson extends_trans)
  then have "jsget (tokens (wStore u1)) (tokenKey t (purpose_name purpose) hash) = None"
    using consumeToken_Inr [OF first(2) assms(3)] no(1) by (rule token_stays_absent)
  from consumeToken_absent [OF assms(3) this second(2) no(2)] show False by simp
qed

subsection \<open>What a history can make of the sessions under a key\<close>

definition under :: "string \<Rightarrow> (SessionRecord \<Rightarrow> bool) \<Rightarrow> MemoryState \<Rightarrow> bool" where
  "under k P st \<longleftrightarrow> (\<forall>s. (k, s) \<in> set (sessions st) \<longrightarrow> P s)"

definition breaks :: "string \<Rightarrow> (SessionRecord \<Rightarrow> bool) \<Rightarrow> AuthCall \<Rightarrow> bool" where
  "breaks k P c \<longleftrightarrow> (\<exists>s. c = CreateSession s \<and> session_key s = k \<and> \<not> P s)
     \<or> (\<exists>t hash now s. c = ElevateSession t hash now \<and> scoped t hash = k \<and> P s \<and> \<not> P (s\<lparr>elevatedAt := Some now\<rparr>))"

lemma under_call:
  assumes "under k P st" and "\<not> breaks k P c"
  shows "under k P (snd (call c st))"
proof (cases c)
  case (CreateSession r)
  with assms show ?thesis
    by (auto simp: createSession_def under_def breaks_def Let_def unit_response_def dest!: in_set_jsset)
next
  case (ElevateSession t' hash now)
  with assms show ?thesis
    by (fastforce simp: elevateSession_def under_def breaks_def Let_def dest!: in_set_jsset map_of_SomeD split: option.splits)
qed (use assms(1) in \<open>auto simp: under_def auth_op_defs unit_response_def Let_def AList.delete_eq split: option.splits\<close>)

lemma under_run: "under k P st \<Longrightarrow> \<forall>c \<in> set cs. \<not> breaks k P c \<Longrightarrow> under k P (snd (run_calls cs st))"
proof (induction cs arbitrary: st)
  case (Cons c cs)
  then have "under k P (snd (call c st))" by (intro under_call) auto
  with Cons show ?case by simp
qed simp

lemma under_extends:
  assumes "extends w w'" and "under k P (wStore w)" and "\<forall>cr \<in> set (calls_between w w'). \<not> breaks k P (fst cr)"
  shows "under k P (wStore w')"
proof -
  obtain cs where cs: "wStore w' = snd (run_calls cs (wStore w))" "calls_between w w' = fst (run_calls cs (wStore w))"
    using extends_calls [OF assms(1)] by blast
  have "set cs = fst ` set (calls_between w w')" unfolding cs(2) by (metis fst_run_calls set_map)
  with assms(2,3) show ?thesis unfolding cs(1) by (intro under_run) auto
qed

subsection \<open>A new password ends the earlier sessions\<close>

definition creates :: "string \<Rightarrow> TenantId \<Rightarrow> UserId \<Rightarrow> AuthCall \<Rightarrow> bool" where
  "creates k t uid c \<longleftrightarrow> (\<exists>s. c = CreateSession s \<and> session_key s = k \<and> of_user t uid s)"

text \<open>A step of a service replaced the password of a user, and the user's sessions after it are those created after it.\<close>

definition replaced :: "TenantId \<Rightarrow> UserId \<Rightarrow> AuthWorld \<Rightarrow> AuthWorld \<Rightarrow> bool" where
  "replaced t uid w w' \<longleftrightarrow> (\<exists>hash at before after.
     calls_between w w' = before @ (ReplacePasswordAndRevokeSessions t uid hash at, Done) # after
     \<and> (\<forall>k r. (k, r) \<in> set (sessions (wStore w')) \<and> of_user t uid r \<longrightarrow> (\<exists>cr \<in> set after. creates k t uid (fst cr))))"

lemma replaced_by:
  assumes "store_command (ReplacePasswordAndRevokeSessions t uid hash at) env w1 = (Inr x, w2)" and "extends w w1" and "extends w2 w'"
  shows "replaced t uid w w'"
proof -
  let ?c = "ReplacePasswordAndRevokeSessions t uid hash at" and ?os = "others env (wTick w1)"
  let ?st = "snd (run_calls ?os (wStore w1))"
  have step: "w2 = w1\<lparr>wStore := replacePasswordAndRevokeSessions t uid hash at ?st,
      wLog := wLog w1 @ fst (run_calls ?os (wStore w1)) @ [(?c, Done)], wTick := Suc (wTick w1)\<rparr>"
    using assms(1) by (simp add: store_command_def and_then_def perform_eq Let_def succeed_def)
  have "calls_between w1 w2 = fst (run_calls ?os (wStore w1)) @ [(?c, Done)]" by (simp add: step calls_between_def)
  moreover have "extends w1 w2" using assms(1) by (rule logsD [OF logs_store_command])
  ultimately have sec: "calls_between w w' = (calls_between w w1 @ fst (run_calls ?os (wStore w1))) @ (?c, Done) # calls_between w2 w'"
    using assms(2,3) by (simp add: calls_append [of w w1] calls_append [of w1 w2] extends_trans)
  have origin: "\<exists>cr \<in> set (calls_between w2 w'). creates k t uid (fst cr)" if "(k, r) \<in> set (sessions (wStore w'))" "of_user t uid r" for k r
  proof (rule ccontr)
    assume "\<not> ?thesis"
    then have no: "\<forall>cr \<in> set (calls_between w2 w'). \<not> breaks k (\<lambda>r. \<not> of_user t uid r) (fst cr)"
      by (auto simp: breaks_def creates_def of_user_def)
    have "under k (\<lambda>r. \<not> of_user t uid r) (wStore w2)"
      using session_free_replace [of t uid hash at ?st] by (auto simp: step session_free_def under_def)
    from under_extends [OF assms(3) this no] have "under k (\<lambda>r. \<not> of_user t uid r) (wStore w')" .
    with that show False by (auto simp: under_def)
  qed
  show ?thesis unfolding replaced_def
    by (rule exI [of _ hash], rule exI [of _ at], rule exI, rule exI, rule conjI [OF sec]) (use origin in blast)
qed

lemma replaced_within:
  assumes "and_then (store_command (ReplacePasswordAndRevokeSessions t uid hash at)) f env v = (Inr b, w')" and "extends w v"
    and "\<And>x. logs (f x)"
  shows "replaced t uid w w'"
proof -
  obtain x w2 where "store_command (ReplacePasswordAndRevokeSessions t uid hash at) env v = (Inr x, w2)" "f x env w2 = (Inr b, w')"
    using assms(1) by (auto simp: and_then_Inr)
  with assms(2) show ?thesis by (blast intro: replaced_by logsD [OF assms(3)])
qed

lemma consumeToken_made:
  assumes "consumeToken t purpose token env w = (Inr rec, w')"
  shows "\<exists>hash at. hashToken env token = Inr hash \<and> made (ConsumeOneTimeToken t purpose hash at) (TokenIs (Some rec)) w w'"
proof -
  obtain hash v where hash: "hashToken env token = Inr hash" and v: "v = w\<lparr>wTick := Suc (wTick w)\<rparr>"
    and ask: "ask token_in (ConsumeOneTimeToken t purpose hash (clock env (wTick w))) env v = (Inr (Some rec), w')"
    using assms by (auto simp: consumeToken_def and_then_Inr effect_Inr split: option.splits)
  from ask_Inr [OF ask] have "made (ConsumeOneTimeToken t purpose hash (clock env (wTick w))) (TokenIs (Some rec)) v w'"
    by (auto simp: answers)
  with hash v show ?thesis by (auto simp: made_def calls_between_def)
qed

theorem reset_replaces:
  assumes "hook_logs opts" and "resetPassword opts t token new env w = (Inr session, w')"
  shows "\<exists>hash at rec uid. hashToken env token = Inr hash
    \<and> made (ConsumeOneTimeToken t PasswordReset hash at) (TokenIs (Some rec)) w w' \<and> ottUser rec = Some uid \<and> replaced t uid w w'"
proof (rule peel [OF assms(2) [unfolded resetPassword_def] extends_refl logs_sessions(1)],
    erule peel [OF _ _ logs_limit_rate], assumption, erule peel [OF _ _ logs_simple(3)], assumption, goal_cases)
  case (1 config w1 _ w2 _ w3)
  from 1(3) obtain rec w4 where consume: "consumeToken t PasswordReset token env w3 = (Inr rec, w4)"
    and rest: "(case ottUser rec of
       None \<Rightarrow> fail_with (InvalidAuthToken ''password-reset'')
     | Some uid \<Rightarrow>
         and_then (hash_password new) (\<lambda>hash.
         and_then current_time (\<lambda>at.
         and_then (store_command (ReplacePasswordAndRevokeSessions t uid hash at)) (\<lambda>_.
         and_then (ask user_in (FindUserById t uid)) (\<lambda>found.
         case found of
           None \<Rightarrow> fail_with (InvalidAuthToken ''password-reset'')
         | Some user \<Rightarrow>
             and_then (open_session opts t user config) (\<lambda>session.
             and_then (record_audit t ''password-reset-complete'' (Some (userId user)) None) (\<lambda>_. succeed session))))))) env w4 = (Inr session, w')"
    unfolding and_then_Inr by blast
  then obtain uid where uid: "ottUser rec = Some uid" by (cases "ottUser rec") (auto simp: effect_Inr)
  have e4: "extends w w4" "extends w3 w4" using 1(4) logsD [OF logs_sessions(3) consume] by (blast intro: extends_trans)+
  have rep: "replaced t uid w w'"
    by (rule peel [OF rest [unfolded uid option.case] e4(1) logs_hash_password], erule peel [OF _ _ logs_simple(4)], assumption,
        erule replaced_within, assumption) (auto intro!: logs_and_then logs_open_session assms(1) split: option.split)
  have "extends w4 w'"
    by (rule extends_and_then [OF rest [unfolded uid option.case]]) (auto intro!: logs_and_then logs_open_session assms(1) split: option.split)
  with consumeToken_made [OF consume] 1(4) e4(2) uid rep show ?case by (blast intro: made_within)
qed

theorem change_replaces:
  assumes "hook_logs opts" and "changePassword opts t token cur new env w = (Inr session, w')"
  shows "replaced t (userId (authUser session)) w w'"
proof (rule peel [OF assms(2) [unfolded changePassword_def] extends_refl logs_sessions(1)],
    erule peel [OF _ _ logs_limit_rate], assumption, erule peel [OF _ _ logs_sessions(6)], assumption,
    erule peel [OF _ _ logs_simple(3)], assumption, goal_cases)
  case (1 config w1 _ w2 s w3 _ w4)
  then obtain email where "userEmail (authUser s) = Some email" by (cases "userEmail (authUser s)") (auto simp: effect_Inr)
  note step = 1(4) [unfolded this option.case]
  show ?case
  proof (rule peel [OF step 1(5) logs_ask], goal_cases)
    case (1 cred v)
    then obtain credential where cred: "cred = Some credential" by (cases cred) (auto simp: effect_Inr)
    show ?case
    proof (rule peel [OF 1(1) [unfolded cred option.case] 1(2) logs_simple(3)], goal_cases)
      case (1 matches v')
      then have matches: "(\<not> matches) = False" by (cases matches) (auto simp: effect_Inr)
      have "replaced t (userId (authUser s)) w w'"
        by (rule peel [OF 1(1) [unfolded matches if_False] 1(2) logs_hash_password], erule peel [OF _ _ logs_simple(4)], assumption,
            erule replaced_within, assumption) (auto intro!: logs_and_then logs_open_session assms(1))
      moreover have "authUser session = authUser s"
        using 1(1) open_session_made [OF assms(1)] by (fastforce simp: and_then_Inr effect_Inr matches)
      ultimately show ?case by simp
    qed
  qed
qed

subsection \<open>A pending session is refused until it is elevated\<close>

definition pending_session :: "string \<Rightarrow> MemoryState \<Rightarrow> bool" where
  "pending_session k = under k (\<lambda>s. elevatedAt s = None)"

text \<open>A call that elevates the session under a key, or creates one there that needs no second factor.\<close>

definition elevates :: "string \<Rightarrow> AuthCall \<Rightarrow> bool" where
  "elevates k c \<longleftrightarrow> (\<exists>t hash now. c = ElevateSession t hash now \<and> scoped t hash = k)
     \<or> (\<exists>s. c = CreateSession s \<and> session_key s = k \<and> elevatedAt s \<noteq> None)"

lemma elevates_breaks: "breaks k (\<lambda>s. elevatedAt s = None) c \<Longrightarrow> elevates k c"
  by (auto simp: breaks_def elevates_def)

lemma pending_run: "pending_session k st \<Longrightarrow> \<forall>c \<in> set cs. \<not> elevates k c \<Longrightarrow> pending_session k (snd (run_calls cs st))"
  unfolding pending_session_def by (rule under_run) (auto dest: elevates_breaks)

lemma pending_refused:
  assumes "secondFactor opts \<noteq> None" and "hashToken env token = Inr hash" and "pending_session (scoped t hash) (wStore w)"
    and "\<forall>c \<in> set (others env (Suc (wTick w))). \<not> elevates (scoped t hash) c"
  shows "\<exists>e. fst (requireElevatedSession opts t token env w) = Inl e"
proof (rule ccontr)
  assume "\<not> ?thesis"
  then obtain session w' where run: "requireElevatedSession opts t token env w = (Inr session, w')"
    by (cases "requireElevatedSession opts t token env w"; cases "fst (requireElevatedSession opts t token env w)") auto
  define v where "v = w\<lparr>wTick := Suc (wTick w)\<rparr>"
  from run obtain elevated w1 where resolve: "resolveSession t token env w = (Inr (session, elevated), w1)" and "elevated \<noteq> None"
    using assms(1) by (auto simp: requireElevatedSession_def and_then_Inr effect_Inr split: if_splits)
  then obtain s w2 where found: "ask session_in (FindSession t hash (clock env (wTick w))) env v = (Inr (Some s), w2)"
    and s: "elevatedAt s = elevated"
    using assms(2) by (auto simp: resolveSession_def and_then_Inr effect_Inr v_def split: option.splits)
  let ?st = "snd (run_calls (others env (Suc (wTick w))) (wStore w))"
  have "session_in (fst (call (FindSession t hash (clock env (wTick w))) ?st)) = Some s"
    using ask_Inr [OF found] by (auto simp: v_def)
  then have "jsget (sessions ?st) (scoped t hash) = Some s"
    by (auto simp: findSession_def Let_def split: option.splits if_splits)
  moreover have "pending_session (scoped t hash) ?st" using assms(3,4) by (intro pending_run)
  ultimately show False using s \<open>elevated \<noteq> None\<close> by (auto simp: pending_session_def under_def dest: map_of_SomeD)
qed

subsection \<open>Session cookies\<close>

lemma first_cookie_plain: "first_cookie name (filter (\<lambda>segment. \<not> isSlotCookie name segment) segments) = first_cookie name segments"
proof (induction segments)
  case (Cons segment rest)
  have "slotOf name name = None" by (simp add: slotOf_def Let_def)
  with Cons show ?case by (auto simp: isSlotCookie_def split: option.split prod.split)
qed simp

text \<open>The cookies of a header short enough to be read.\<close>

definition readable :: "string \<Rightarrow> string \<Rightarrow> bool" where
  "readable cookie header \<longleftrightarrow> length header \<le> MAX_COOKIE_HEADER_LENGTH \<or> lengthWithoutSlotCookies cookie header \<le> MAX_COOKIE_HEADER_LENGTH"

theorem cookie_of_slot:
  assumes "configFor t env w = (Inr config, w1)" and "readable (session_cookie_name config None) header"
  shows "SLOT_PATTERN slot \<Longrightarrow> sessionTokenFromCookie t (Some header) (Some slot) env w
      = (Inr (jsget (slotCookiesOf (session_cookie_name config None) (Some header)) slot), w1)"
    and "sessionTokenFromCookie t (Some header) None env w
      = (Inr (first_cookie (session_cookie_name config None)
          (filter (\<lambda>segment. \<not> isSlotCookie (session_cookie_name config None) segment) (split_char (CHR '';'') header))), w1)"
proof -
  let ?c = "session_cookie_name config None"
  have short: "\<not> (MAX_COOKIE_HEADER_LENGTH < length header \<and> MAX_COOKIE_HEADER_LENGTH < lengthWithoutSlotCookies ?c header)"
    using assms(2) by (auto simp: readable_def)
  have names: "getOr ''structure_session'' (cookieName config) = ?c" "session_cookie_name config (Some s) = slotCookieName ?c s" for s
    by (simp_all add: session_cookie_name_def Let_def)
  show "sessionTokenFromCookie t (Some header) (Some slot) env w = (Inr (jsget (slotCookiesOf ?c (Some header)) slot), w1)"
    if "SLOT_PATTERN slot"
    using that short
    by (auto simp: sessionTokenFromCookie_def and_then_def assms(1) lift_def validSlot_def succeed_def names slotCookiesOf_def slot_loop_get)
  show "sessionTokenFromCookie t (Some header) None env w
      = (Inr (first_cookie ?c (filter (\<lambda>segment. \<not> isSlotCookie ?c segment) (split_char (CHR '';'') header))), w1)"
    using short by (auto simp: sessionTokenFromCookie_def and_then_def assms(1) lift_def validSlot_def succeed_def names first_cookie_plain)
qed

end
