(* ===== verification/TwoFactorProofs.thy ===== *)
theory TwoFactorProofs
  imports TwoFactor AccountProofs
begin

unbundle bit_operations_syntax

section \<open>What the second factor accepts\<close>

text \<open>
  A verification that elevates a session has spent a proof, no proof is spent twice, a locked factor accepts nothing and failures
  lock it. Other fibers may call the store before any call of the services.
\<close>

subsection \<open>An elevation spends a proof\<close>

text \<open>What a code proves: the step of a time code, or an entry of the list of recovery codes.\<close>

datatype proof_of = TimeStep int | RecoveryEntry string

fun proves :: "TotpServiceOptions \<Rightarrow> AuthEnv \<Rightarrow> TotpRecord \<Rightarrow> string \<Rightarrow> proof_of \<Rightarrow> bool" where
  "proves opts env rec code (TimeStep step) \<longleftrightarrow> (\<exists>secret n. open_sealed (webCrypto opts) (sealingSecret opts) (secretBase32 rec) = Inr secret
     \<and> matchTotpCode (hmacSha1 opts) secret code (clock env n) = Inr (Some step))"
| "proves opts env rec code (RecoveryEntry entry) \<longleftrightarrow> isRecoveryCode code
     \<and> matchRecoveryCode (webCrypto opts) (sealingSecret opts) code entry (hashToken env) = Inr True"

definition proofs_spent :: "TenantId \<Rightarrow> UserId \<Rightarrow> (AuthCall \<times> AuthResponse) list \<Rightarrow> proof_of list" where
  "proofs_spent t uid log = map TimeStep (accepted_steps t uid log) @ map RecoveryEntry (spent_codes t uid log)"

lemma in_concat_map: "x \<in> set xs \<Longrightarrow> y \<in> set (f x) \<Longrightarrow> y \<in> set (concat (map f xs))"
  by auto

lemma spent_append:
  "accepted_steps t uid (l @ l') = accepted_steps t uid l @ accepted_steps t uid l'"
  "spent_codes t uid (l @ l') = spent_codes t uid l @ spent_codes t uid l'"
  by (simp_all only: accepted_steps_def spent_codes_def map_append concat_append)

lemma proofs_spent_append: "set (proofs_spent t uid (l @ l')) = set (proofs_spent t uid l) \<union> set (proofs_spent t uid l')"
  by (auto simp: proofs_spent_def spent_append)

lemma made_spent:
  "made (MarkTotpStepUsed t uid step) (Answer True) w w' \<Longrightarrow> TimeStep step \<in> set (proofs_spent t uid (calls_between w w'))"
  "made (ConsumeRecoveryCode t uid entry) (Answer True) w w' \<Longrightarrow> RecoveryEntry entry \<in> set (proofs_spent t uid (calls_between w w'))"
proof -
  assume "made (MarkTotpStepUsed t uid step) (Answer True) w w'"
  then have "step \<in> set (accepted_steps t uid (calls_between w w'))"
    unfolding accepted_steps_def made_def by (rule in_concat_map) simp
  then show "TimeStep step \<in> set (proofs_spent t uid (calls_between w w'))" by (simp add: proofs_spent_def)
next
  assume "made (ConsumeRecoveryCode t uid entry) (Answer True) w w'"
  then have "entry \<in> set (spent_codes t uid (calls_between w w'))"
    unfolding spent_codes_def made_def by (rule in_concat_map) simp
  then show "RecoveryEntry entry \<in> set (proofs_spent t uid (calls_between w w'))" by (simp add: proofs_spent_def)
qed

lemma ask_answer:
  assumes "ask answer_in c env w = (Inr True, w')"
  shows "made c (Answer True) w w'"
  using ask_Inr [OF assms] by (auto simp: answers)

lemma logs_recoveryEntryFor [intro!]: "logs (recoveryEntryFor opts hashes code)"
  by (simp add: recoveryEntryFor_def logs_simple)

lemma logs_consume_attempts [intro!]: "logs (consume_attempts n opts t uid entries code)"
  by (induction n arbitrary: entries) (auto intro!: logs_and_then split: option.split)

lemma recoveryEntryFor_matches:
  assumes "recoveryEntryFor opts hashes code env w = (Inr (Some entry), w')"
  shows "entry \<in> set hashes \<and> matchRecoveryCode (webCrypto opts) (sealingSecret opts) code entry (hashToken env) = Inr True \<and> w' = w"
proof -
  let ?m = "\<lambda>stored. matchRecoveryCode (webCrypto opts) (sealingSecret opts) code stored (hashToken env)"
  obtain bs where bs: "map ?m hashes = map Inr bs" and find: "map_option fst (find snd (zip hashes bs)) = Some entry" and "w' = w"
    using assms by (auto simp: recoveryEntryFor_def effect_Inr map_sum_def all_results_Inr split: sum.splits)
  from find obtain i where "i < length hashes" "i < length bs" "hashes ! i = entry" "bs ! i" by (auto simp: find_Some_iff)
  moreover from this bs have "?m (hashes ! i) = Inr (bs ! i)" by (metis nth_map)
  ultimately show ?thesis using \<open>w' = w\<close> by auto
qed

lemma consume_attempts_made:
  assumes "consume_attempts n opts t uid entries code env w = (Inr True, w')"
  shows "\<exists>entry. made (ConsumeRecoveryCode t uid entry) (Answer True) w w'
    \<and> matchRecoveryCode (webCrypto opts) (sealingSecret opts) code entry (hashToken env) = Inr True"
  using assms
proof (induction n arbitrary: entries w)
  case 0
  then show ?case by (simp add: effect_Inr)
next
  case (Suc n)
  from Suc.prems obtain entry w1 where entry: "recoveryEntryFor opts entries code env w = (Inr (Some entry), w1)"
    and rest: "and_then (ask answer_in (ConsumeRecoveryCode t uid entry)) (\<lambda>consumed.
         if consumed then succeed True
         else
           and_then (ask totp_in (FindTotp t uid)) (\<lambda>current.
           case current of
             None \<Rightarrow> succeed False
           | Some rec \<Rightarrow>
               if entry \<notin> set (recoveryCodeHashes rec) then succeed False
               else consume_attempts n opts t uid (recoveryCodeHashes rec) code)) env w1 = (Inr True, w')"
    by (auto simp: and_then_Inr effect_Inr split: option.splits)
  have match: "matchRecoveryCode (webCrypto opts) (sealingSecret opts) code entry (hashToken env) = Inr True" and "w1 = w"
    using recoveryEntryFor_matches [OF entry] by auto
  from rest obtain consumed w2 where ask: "ask answer_in (ConsumeRecoveryCode t uid entry) env w = (Inr consumed, w2)"
    and w2: "(if consumed then succeed True
         else
           and_then (ask totp_in (FindTotp t uid)) (\<lambda>current.
           case current of
             None \<Rightarrow> succeed False
           | Some rec \<Rightarrow>
               if entry \<notin> set (recoveryCodeHashes rec) then succeed False
               else consume_attempts n opts t uid (recoveryCodeHashes rec) code)) env w2 = (Inr True, w')"
    by (auto simp: and_then_Inr \<open>w1 = w\<close>)
  show ?case
  proof (cases consumed)
    case True
    with ask w2 match show ?thesis by (auto simp: effect_Inr dest: ask_answer)
  next
    case False
    with w2 obtain rec w3 where find: "ask totp_in (FindTotp t uid) env w2 = (Inr (Some rec), w3)"
      and again: "consume_attempts n opts t uid (recoveryCodeHashes rec) code env w3 = (Inr True, w')"
      by (auto simp: and_then_Inr effect_Inr split: option.splits if_splits)
    have "extends w w3" using logsD [OF logs_ask ask] logsD [OF logs_ask find] by (rule extends_trans)
    moreover have "extends w3 w'" using again by (rule logsD [OF logs_consume_attempts])
    ultimately show ?thesis using Suc.IH [OF again] by (blast intro: made_before)
  qed
qed

lemma logs_twofactor [intro!]:
  "logs (sealLegacySecret opts t uid stored)" "logs (elevate t token uid)" "logs (anyEnrollment t uid)" "logs (confirmedEnrollmentOrNone t uid)"
  "logs (sessionUserOf t token)" "logs (resolveTenant t)" "logs (locked_now rec)" "logs (lockoutError until)"
  unfolding sealLegacySecret_def elevate_def anyEnrollment_def confirmedEnrollmentOrNone_def sessionUserOf_def resolveTenant_def locked_now_def
    lockoutError_def
  by (auto intro!: logs_and_then logs_sessions split: option.split)

lemma logs_verify_enrolled [intro!]: "logs (verify_enrolled opts t token code uid enrollment)"
  unfolding verify_enrolled_def totp_success_def totp_failure_def consume_recovery_code_def
  by (auto intro!: logs_and_then split: option.split)

lemma logs_verify: "logs (verify opts t token code)"
  unfolding verify_def by (auto intro!: logs_and_then split: option.split)

lemma totp_failure_fails: "totp_failure opts t uid env w \<noteq> (Inr x, w')" "lockoutError until env w \<noteq> (Inr x, w')"
  by (auto simp: totp_failure_def lockoutError_def and_then_Inr effect_Inr split: option.splits if_splits)

text \<open>A store call made at the head of the rest of a service.\<close>

lemma peel_step:
  assumes "and_then m f env v = (Inr b, w')" and "extends w v" and "logs m"
    and "\<And>a v1. m env v = (Inr a, v1) \<Longrightarrow> f a env v1 = (Inr b, w') \<Longrightarrow> extends w v1 \<Longrightarrow> thesis"
  shows thesis
  using assms unfolding and_then_Inr by (meson extends_trans logsD)

lemma command_within:
  assumes "and_then (store_command c) f env v = (Inr b, w')" and "extends w v" and "\<And>x. logs (f x)"
  shows "\<exists>st. made c (fst (call c st)) w w'"
proof -
  obtain x v1 where run: "store_command c env v = (Inr x, v1)" and rest: "f x env v1 = (Inr b, w')" using assms(1) by (auto simp: and_then_Inr)
  obtain st where "made c (fst (call c st)) v v1" using store_command_Inr [OF run] by blast
  from made_within [OF this assms(2) logsD [OF logs_store_command run] logsD [OF assms(3) rest]] show ?thesis by blast
qed

lemma ask_within:
  assumes "and_then (ask read c) f env v = (Inr b, w')" and "extends w v" and "\<And>x. logs (f x)"
  shows "\<exists>st v1. made c (fst (call c st)) w w' \<and> f (read (fst (call c st))) env v1 = (Inr b, w') \<and> extends w v1"
proof -
  obtain x v1 where run: "ask read c env v = (Inr x, v1)" and rest: "f x env v1 = (Inr b, w')" using assms(1) by (auto simp: and_then_Inr)
  obtain st where "x = read (fst (call c st))" "made c (fst (call c st)) v v1" using ask_Inr [OF run] by blast
  moreover from this(2) assms(2) have "made c (fst (call c st)) w w'"
    by (rule made_within) (use logsD [OF assms(3) rest] logsD [OF logs_ask run] in auto)
  ultimately show ?thesis using rest assms(2) logsD [OF logs_ask run] by (blast intro: extends_trans)
qed

lemma totp_success_made:
  assumes "totp_success opts t token uid stored env w = (Inr x, w')"
  shows "\<exists>hash at. hashToken env token = Inr hash \<and> made (ElevateSession t hash at) Done w w'"
proof (rule peel_step [OF assms [unfolded totp_success_def] extends_refl logs_twofactor(1)],
    erule peel_step [OF _ _ logs_store_command], assumption, unfold elevate_def, erule peel_step [OF _ _ logs_simple(3)], assumption,
    erule peel_step [OF _ _ logs_simple(4)], assumption, drule command_within, assumption, rule logs_simple, goal_cases)
  case 1
  then show ?case by (auto simp: effect_Inr)
qed

lemma resolveSession_made:
  assumes "resolveSession t token env w = (Inr (session, elevated), w')"
  shows "\<exists>hash at s. hashToken env token = Inr hash \<and> made (FindSession t hash at) (SessionIs (Some s)) w w'
    \<and> made (FindUserById t (sessionUser s)) (UserIs (Some (authUser session))) w w' \<and> elevated = elevatedAt s"
proof -
  define v where "v = w\<lparr>wTick := Suc (wTick w)\<rparr>"
  obtain hash s w1 u where hash: "hashToken env token = Inr hash"
    and find: "ask session_in (FindSession t hash (clock env (wTick w))) env v = (Inr (Some s), w1)"
    and user: "ask user_in (FindUserById t (sessionUser s)) env w1 = (Inr (Some u), w')"
    and eq: "authUser session = u" "elevated = elevatedAt s"
    using assms by (auto simp: resolveSession_def and_then_Inr effect_Inr v_def split: option.splits)
  have "made (FindSession t hash (clock env (wTick w))) (SessionIs (Some s)) v w1" using ask_Inr [OF find] by (auto simp: answers)
  moreover have "made (FindUserById t (sessionUser s)) (UserIs (Some u)) w1 w'" using ask_Inr [OF user] by (auto simp: answers)
  moreover have "extends w v" by (auto simp: extends_def v_def intro: exI [of _ "[]"])
  ultimately show ?thesis using hash eq logsD [OF logs_ask find] logsD [OF logs_ask user]
    by (blast intro: made_within extends_trans extends_refl)
qed

lemma verify_enrolled_made:
  assumes "verify_enrolled opts t token code uid enrollment env w = (Inr x, w')"
  shows "(\<exists>p. proves opts env enrollment code p \<and> p \<in> set (proofs_spent t uid (calls_between w w')))
    \<and> (\<exists>hash at. hashToken env token = Inr hash \<and> made (ElevateSession t hash at) Done w w')"
proof (rule peel_step [OF assms [unfolded verify_enrolled_def] extends_refl logs_simple(3)],
    erule peel_step [OF _ _ logs_simple(4)], assumption, erule peel_step [OF _ _ logs_simple(3)], assumption, goal_cases)
  case (1 secret w1 at w2 matched w3)
  have opened: "open_sealed (webCrypto opts) (sealingSecret opts) (secretBase32 enrollment) = Inr secret"
    and match: "matchTotpCode (hmacSha1 opts) secret code (clock env (wTick w1)) = Inr matched"
    using 1 by (auto simp: effect_Inr)
  have claim_logs: "logs (case matched of None \<Rightarrow> succeed False | Some step \<Rightarrow> ask answer_in (MarkTotpStepUsed t uid step))"
    by (auto split: option.split)
  from 1 obtain claimed w4 where
    claim: "(case matched of None \<Rightarrow> succeed False | Some step \<Rightarrow> ask answer_in (MarkTotpStepUsed t uid step)) env w3 = (Inr claimed, w4)"
    and rest: "(if claimed then totp_success opts t token uid (secretBase32 enrollment)
     else
       and_then (if isRecoveryCode code then consume_recovery_code opts t uid (recoveryCodeHashes enrollment) code else succeed False)
         (\<lambda>spent.
       if spent then totp_success opts t token uid (secretBase32 enrollment)
       else totp_failure opts t uid)) env w4 = (Inr x, w')"
    unfolding and_then_Inr by blast
  have w4: "extends w w3" "extends w3 w4" using 1 logsD [OF claim_logs claim] by auto
  have success: "(\<exists>hash at. hashToken env token = Inr hash \<and> made (ElevateSession t hash at) Done w w') \<and> extends v w'"
    if "totp_success opts t token uid (secretBase32 enrollment) env v = (Inr x, w')" "extends w v" for v
  proof -
    have "extends v w'" using that(1) unfolding totp_success_def by (rule extends_and_then) (auto intro!: logs_and_then)
    with totp_success_made [OF that(1)] that(2) show ?thesis by (blast intro: made_before)
  qed
  show ?case
  proof (cases claimed)
    case True
    then obtain step where step: "matched = Some step" "ask answer_in (MarkTotpStepUsed t uid step) env w3 = (Inr True, w4)"
      using claim by (cases matched) (auto simp: effect_Inr)
    from rest True have run: "totp_success opts t token uid (secretBase32 enrollment) env w4 = (Inr x, w')" by simp
    note ok = success [OF run extends_trans [OF w4]]
    have "made (MarkTotpStepUsed t uid step) (Answer True) w w'"
      using made_within [OF ask_answer [OF step(2)] w4] ok by blast
    then have "TimeStep step \<in> set (proofs_spent t uid (calls_between w w'))" by (rule made_spent)
    moreover have "proves opts env enrollment code (TimeStep step)" using opened match step(1) by auto
    ultimately show ?thesis using ok by blast
  next
    case False
    with rest obtain spent w5 where
      spend: "(if isRecoveryCode code then consume_recovery_code opts t uid (recoveryCodeHashes enrollment) code else succeed False) env w4 = (Inr spent, w5)"
      and rest5: "(if spent then totp_success opts t token uid (secretBase32 enrollment) else totp_failure opts t uid) env w5 = (Inr x, w')"
      by (auto simp: and_then_Inr)
    from rest5 have spent: spent and run: "totp_success opts t token uid (secretBase32 enrollment) env w5 = (Inr x, w')"
      by (auto simp: totp_failure_fails split: if_splits)
    from spend spent have code: "isRecoveryCode code"
      and attempts: "consume_attempts 3 opts t uid (recoveryCodeHashes enrollment) code env w4 = (Inr True, w5)"
      by (auto simp: effect_Inr consume_recovery_code_def split: if_splits)
    note w5 = extends_trans [OF w4] logsD [OF logs_consume_attempts attempts]
    note ok = success [OF run extends_trans [OF w5]]
    from consume_attempts_made [OF attempts] obtain entry where entry: "made (ConsumeRecoveryCode t uid entry) (Answer True) w4 w5"
      and matches: "matchRecoveryCode (webCrypto opts) (sealingSecret opts) code entry (hashToken env) = Inr True" by blast
    have "made (ConsumeRecoveryCode t uid entry) (Answer True) w w'" using made_within [OF entry w5] ok by blast
    then have "RecoveryEntry entry \<in> set (proofs_spent t uid (calls_between w w'))" by (rule made_spent)
    moreover have "proves opts env enrollment code (RecoveryEntry entry)" using code matches by simp
    ultimately show ?thesis using ok by blast
  qed
qed

text \<open>What a successful verification did, for the user it did it for.\<close>

definition verified :: "TotpServiceOptions \<Rightarrow> AuthEnv \<Rightarrow> TenantId \<Rightarrow> string \<Rightarrow> string \<Rightarrow> UserId \<Rightarrow> proof_of \<Rightarrow> AuthWorld \<Rightarrow> AuthWorld \<Rightarrow> bool" where
  "verified opts env t token code uid p w w' \<longleftrightarrow>
     (\<exists>hash at s u enrollment. hashToken env token = Inr hash \<and> made (FindSession t hash at) (SessionIs (Some s)) w w'
        \<and> made (FindUserById t (sessionUser s)) (UserIs (Some u)) w w' \<and> userId u = uid
        \<and> made (FindTotp t uid) (TotpIs (Some enrollment)) w w' \<and> confirmed enrollment \<and> proves opts env enrollment code p
        \<and> (\<forall>until. lockedUntil enrollment = Some until \<longrightarrow> (\<exists>n. until \<le> clock env n)))
     \<and> p \<in> set (proofs_spent t uid (calls_between w w'))
     \<and> (\<exists>hash at. hashToken env token = Inr hash \<and> made (ElevateSession t hash at) Done w w')"

lemma confirmedEnrollment_made:
  assumes "confirmedEnrollmentOrNone t uid env w = (Inr (Some enrollment), w')"
  shows "made (FindTotp t uid) (TotpIs (Some enrollment)) w w' \<and> confirmed enrollment"
proof -
  obtain r where ask: "ask totp_in (FindTotp t uid) env w = (Inr r, w')"
    and "(case r of None \<Rightarrow> None | Some r \<Rightarrow> if confirmed r then Some r else None) = Some enrollment"
    using assms by (auto simp: confirmedEnrollmentOrNone_def anyEnrollment_def and_then_Inr effect_Inr)
  then have "r = Some enrollment" "confirmed enrollment" by (auto split: option.splits if_splits)
  with ask_Inr [OF ask] show ?thesis by (auto simp: answers)
qed

theorem verify_verified:
  assumes "verify opts t token code env w = (Inr x, w')"
  shows "\<exists>uid p. verified opts env t token code uid p w w'"
proof (rule peel_step [OF assms [unfolded verify_def] extends_refl logs_twofactor(6)], erule peel_step [OF _ _ logs_limit_rate], assumption,
    goal_cases)
  case (1 config w1 y w2)
  note e2 = 1(5)
  show ?case
  proof (rule peel_step [OF 1(4) e2 logs_twofactor(5)], goal_cases)
    case (1 user w3)
    then obtain session elevated where "authUser session = user" "resolveSession t token env w2 = (Inr (session, elevated), w3)"
      by (auto simp: sessionUserOf_def getSession_def and_then_Inr effect_Inr)
    then obtain hash at s where hash: "hashToken env token = Inr hash" and found: "made (FindSession t hash at) (SessionIs (Some s)) w2 w3"
      "made (FindUserById t (sessionUser s)) (UserIs (Some user)) w2 w3" using resolveSession_made by blast
    have e3: "extends w2 w3" "extends w w3" using 1(3) logsD [OF logs_twofactor(5) 1(1)] by auto
    from 1(2) obtain enrollment w4 where enrolled: "confirmedEnrollmentOrNone t (userId user) env w3 = (Inr (Some enrollment), w4)"
      and rest: "and_then (locked_now enrollment) (\<lambda>locked.
         if locked then lockoutError (the (lockedUntil enrollment))
         else verify_enrolled opts t token code (userId user) enrollment) env w4 = (Inr x, w')"
      by (auto simp: and_then_Inr [of "confirmedEnrollmentOrNone t (userId user)"] effect_Inr split: option.splits)
    have e4: "extends w3 w4" using enrolled by (rule logsD [OF logs_twofactor(4)])
    from rest obtain w5 where locked: "locked_now enrollment env w4 = (Inr False, w5)"
      and run: "verify_enrolled opts t token code (userId user) enrollment env w5 = (Inr x, w')"
      by (auto simp: and_then_Inr totp_failure_fails split: if_splits)
    have e5: "extends w4 w5" "extends w5 w'" using logsD [OF logs_twofactor(7) locked] logsD [OF logs_verify_enrolled run] by auto
    have e': "extends w w5" "extends w3 w'" "extends w4 w'" using e3 e4 e5 by (blast intro: extends_trans)+
    from verify_enrolled_made [OF run] obtain p hash' at' where p: "proves opts env enrollment code p"
      "p \<in> set (proofs_spent t (userId user) (calls_between w5 w'))" "hashToken env token = Inr hash'"
      "made (ElevateSession t hash' at') Done w5 w'" by blast
    have "p \<in> set (proofs_spent t (userId user) (calls_between w w'))"
      using p(2) unfolding calls_append [OF e'(1) e5(2)] by (simp add: proofs_spent_append)
    moreover have "made (ElevateSession t hash' at') Done w w'" using p(4) e'(1) e5(2) by (blast intro: made_before)
    moreover have "made (FindSession t hash at) (SessionIs (Some s)) w w'" "made (FindUserById t (sessionUser s)) (UserIs (Some user)) w w'"
      using made_within [OF found(1) e2 e3(1) e'(2)] made_within [OF found(2) e2 e3(1) e'(2)] by auto
    moreover have "made (FindTotp t (userId user)) (TotpIs (Some enrollment)) w w'" "confirmed enrollment"
      using made_within [OF _ e3(2) e4 e'(3)] confirmedEnrollment_made [OF enrolled] by auto
    moreover have "\<forall>until. lockedUntil enrollment = Some until \<longrightarrow> (\<exists>n. until \<le> clock env n)"
      using locked by (auto simp: locked_now_def and_then_Inr effect_Inr not_less)
    ultimately show ?case using hash p(1,3) unfolding verified_def by blast
  qed
qed

subsection \<open>No proof is spent twice\<close>

theorem proofs_distinct:
  assumes "extends w w'" and "NUL \<notin> set t" and "\<forall>cr \<in> set (calls_between w w'). call_ok (fst cr) \<and> \<not> reenrolls t uid (fst cr)"
  shows "distinct (proofs_spent t uid (calls_between w w'))"
proof -
  obtain cs where cs: "calls_between w w' = fst (run_calls cs (wStore w))" using extends_calls [OF assms(1)] by blast
  have "set cs = fst ` set (calls_between w w')" unfolding cs by (metis fst_run_calls set_map)
  with assms(3) have "list_all call_ok cs" "list_all (\<lambda>c. \<not> reenrolls t uid c) cs" by (auto simp: list_all_iff)
  from second_factor_history [OF this(1) assms(2) this(2), of "wStore w"] show ?thesis
    unfolding proofs_spent_def cs by (auto simp: distinct_map inj_on_def strict_sorted_iff)
qed

theorem proofs_disjoint:
  assumes "extends w0 w1" and "extends w1 w2" and "extends w2 w3" and "NUL \<notin> set t"
    and "\<forall>cr \<in> set (calls_between w0 w3). call_ok (fst cr) \<and> \<not> reenrolls t uid (fst cr)"
  shows "set (proofs_spent t uid (calls_between w0 w1)) \<inter> set (proofs_spent t uid (calls_between w2 w3)) = {}"
proof -
  have all: "calls_between w0 w3 = calls_between w0 w1 @ calls_between w1 w2 @ calls_between w2 w3"
    using assms(1-3) by (metis calls_append extends_trans)
  have "distinct (proofs_spent t uid (calls_between w0 w3))"
    using assms(1-3) by (intro proofs_distinct assms(4,5)) (meson extends_trans)
  then show ?thesis
    unfolding all by (auto simp: proofs_spent_def spent_append)
qed

subsection \<open>A locked factor waits\<close>

definition undisturbed :: "AuthEnv \<Rightarrow> bool" where
  "undisturbed env \<longleftrightarrow> (\<forall>n. others env n = [])"

text \<open>A session of a user with a locked enrollment, and an environment in which the checks before the lock pass.\<close>

definition locked_out :: "AuthEnv \<Rightarrow> TenantId \<Rightarrow> string \<Rightarrow> MemoryState \<Rightarrow> bool" where
  "locked_out env t token st \<longleftrightarrow> (\<exists>config hash s u rec until.
     tenantConfig env t = Inr config \<and> hashToken env token = Inr hash \<and> (\<forall>n a h. limiterCheck env n t a h = Inr ())
     \<and> jsget (sessions st) (scoped t hash) = Some s \<and> (\<forall>n. clock env n < sessionExpiresAt s)
     \<and> jsget (users st) (scoped t (sessionUser s)) = Some u \<and> findTotp t (userId u) st = Some rec \<and> confirmed rec
     \<and> lockedUntil rec = Some until \<and> (\<forall>n. clock env n < until))"

lemma ask_undisturbed:
  "undisturbed env \<Longrightarrow> ask read c env w = (Inr (read (fst (call c (wStore w)))), w\<lparr>wStore := snd (call c (wStore w)),
     wLog := wLog w @ [(c, fst (call c (wStore w)))], wTick := Suc (wTick w)\<rparr>)"
  by (simp add: ask_def and_then_def succeed_def perform_eq Let_def undisturbed_def)

theorem locked_out_waits:
  assumes "undisturbed env" and "locked_out env t token (wStore w)"
  shows "\<exists>seconds w'. verify opts t token code env w = (Inl (RateLimitExceeded ''totp-verify'' (Some seconds)), w')
      \<and> 1 \<le> seconds \<and> wStore w' = wStore w"
    and "\<exists>seconds w'. unenroll opts t token code env w = (Inl (RateLimitExceeded ''totp-verify'' (Some seconds)), w')
      \<and> 1 \<le> seconds \<and> wStore w' = wStore w"
  using assms(2)
  by (auto simp: locked_out_def verify_def unenroll_def resolveTenant_def limit_rate_def charge_limiter_def sessionUserOf_def getSession_def
      resolveSession_def confirmedEnrollmentOrNone_def anyEnrollment_def locked_now_def lockoutError_def and_then_def lift_def succeed_def
      fail_with_def current_time_def ask_undisturbed [OF assms(1)] findSession_def findUserById_def Let_def not_le [symmetric])

subsection \<open>Failures lock the factor\<close>

text \<open>The lock as a fold over the failures: the attempt that reaches its threshold, and every one after it, locks anew.\<close>

fun lock_after :: "int \<Rightarrow> int option \<Rightarrow> (int \<times> int \<times> int) list \<Rightarrow> int option" where
  "lock_after n lock [] = lock"
| "lock_after n lock ((limit, pause, at) # fs) = lock_after (n + 1) (if limit \<le> n + 1 then Some (at + pause) else lock) fs"

fun failure_in :: "TenantId \<Rightarrow> UserId \<Rightarrow> AuthCall \<Rightarrow> (int \<times> int \<times> int) list" where
  "failure_in t uid (RecordTotpFailure t' uid' limit pause at) = (if t' = t \<and> uid' = uid then [(limit, pause, at)] else [])"
| "failure_in t uid c = []"

definition failures :: "TenantId \<Rightarrow> UserId \<Rightarrow> AuthCall list \<Rightarrow> (int \<times> int \<times> int) list" where
  "failures t uid cs = concat (map (failure_in t uid) cs)"

fun resets :: "TenantId \<Rightarrow> UserId \<Rightarrow> AuthCall \<Rightarrow> bool" where
  "resets t uid (ResetTotpFailures t' uid') \<longleftrightarrow> t' = t \<and> uid' = uid"
| "resets t uid c \<longleftrightarrow> reenrolls t uid c"

lemma failure_call:
  assumes "call_ok c" and "NUL \<notin> set t" and "\<not> resets t uid c" and "findTotp t uid st = Some rec"
  shows "\<exists>rec'. findTotp t uid (snd (call c st)) = Some rec'
    \<and> failedAttempts rec' = failedAttempts rec + int (length (failure_in t uid c))
    \<and> lockedUntil rec' = lock_after (failedAttempts rec) (lockedUntil rec) (failure_in t uid c)"
  using assms
  by (cases c)
    (auto simp: call_ok_def auth_op_defs unit_response_def Let_def scoped_inject split: option.splits if_splits)

theorem failures_lock:
  assumes "list_all call_ok cs" and "NUL \<notin> set t" and "list_all (\<lambda>c. \<not> resets t uid c) cs" and "findTotp t uid st = Some rec"
  shows "\<exists>rec'. findTotp t uid (snd (run_calls cs st)) = Some rec'
    \<and> failedAttempts rec' = failedAttempts rec + int (length (failures t uid cs))
    \<and> lockedUntil rec' = lock_after (failedAttempts rec) (lockedUntil rec) (failures t uid cs)"
  using assms(1,3,4)
proof (induction cs arbitrary: st rec)
  case Nil
  then show ?case by (simp add: failures_def)
next
  case (Cons c cs)
  obtain rec1 where one: "findTotp t uid (snd (call c st)) = Some rec1"
    "failedAttempts rec1 = failedAttempts rec + int (length (failure_in t uid c))"
    "lockedUntil rec1 = lock_after (failedAttempts rec) (lockedUntil rec) (failure_in t uid c)"
    using failure_call [of c t uid st rec] Cons.prems assms(2) by auto
  have "lock_after n l (fs @ fs') = lock_after (n + int (length fs)) (lock_after n l fs) fs'" for n l fs fs'
    by (induction n l fs rule: lock_after.induct) (simp_all add: add.assoc)
  with Cons.IH [of "snd (call c st)" rec1] Cons.prems one show ?case by (auto simp: failures_def)
qed

lemma lock_after_reached:
  assumes "fs \<noteq> []" and "\<forall>f \<in> set fs. fst f = limit" and "limit \<le> n + int (length fs)"
  shows "lock_after n lock fs = Some (snd (snd (last fs)) + fst (snd (last fs)))"
  using assms
proof (induction fs arbitrary: n lock)
  case (Cons f fs)
  obtain pause at where f: "f = (limit, pause, at)" using Cons.prems(2) by (cases f) auto
  show ?case
  proof (cases "fs = []")
    case False
    with Cons.IH [of "n + 1"] Cons.prems f show ?thesis by simp
  qed (use Cons.prems f in simp)
qed simp

subsection \<open>The shape of the codes\<close>

lemma recovery_char_lower: "c \<in> range base32_symbol \<Longrightarrow> recovery_char (lower_char c)"
proof -
  have all: "list_all (\<lambda>c. recovery_char (lower_char c)) BASE32_ALPHABET" by (simp add: BASE32_ALPHABET_def recovery_char_def lower_char_def Let_def)
  assume "c \<in> range base32_symbol"
  then obtain v :: u32 where v: "c = BASE32_ALPHABET ! unat (v AND 31)" by (auto simp: base32_symbol_def)
  have "length BASE32_ALPHABET = 32" by (simp add: BASE32_ALPHABET_def)
  then have "c \<in> set BASE32_ALPHABET" unfolding v using unat_and_31 [of v] by (intro nth_mem) simp
  with all show ?thesis by (simp add: list_all_iff)
qed

theorem recovery_codes_recognised:
  assumes "list_all (\<lambda>random. length random = 8) randoms" and "code \<in> set (generateRecoveryCodes randoms)"
  shows "isRecoveryCode code"
proof -
  from assms obtain random where random: "length random = 8" "code = recovery_code random"
    by (auto simp: generateRecoveryCodes_def list_all_iff)
  define letters where "letters = map lower_char (base32Encode random)"
  have len: "10 \<le> length letters" using length_base32Encode [of random] random(1) by (simp add: letters_def)
  have chars: "list_all recovery_char letters"
    using base32_range [of random] recovery_char_lower by (fastforce simp: letters_def list_all_iff)
  have shape: "code = take 5 letters @ ''-'' @ take 5 (drop 5 letters)" by (simp add: random(2) recovery_code_def letters_def Let_def)
  have "list_all recovery_char (take 5 letters)" "list_all recovery_char (take 5 (drop 5 letters))"
    using chars by (auto simp: list_all_iff dest: in_set_takeD in_set_dropD)
  with len show ?thesis unfolding isRecoveryCode_def shape by (simp add: nth_append)
qed

end
