(* ===== verification/AuthSamples.thy ===== *)
theory AuthSamples
  imports TwoFactorProofs
begin

section \<open>A tenant with one user\<close>

text \<open>Concrete data on which the properties of the authentication package are instantiated.\<close>

definition auth_config :: TenantAuthConfig where
  "auth_config = \<lparr>baseUrl = \<lparr>protocol = ''https:'', hostname = ''app.example'', username = [], urlPassword = [],
       origin = ''https://app.example''\<rparr>,
     emailVerificationLink = None, magicLinkLink = None, passwordResetLink = None, minLength = None, maxLength = None, ttlMillis = None,
     cookieName = None, cookieDomain = None, cookiePath = None, cookieSameSite = None, emailVerificationTtlMillis = None,
     magicLinkTtlMillis = None, passwordResetTtlMillis = None, oauthStateTtlMillis = None, passkeyChallengeTtlMillis = None,
     passkeyConfig = None\<rparr>"

definition auth_env :: AuthEnv where
  "auth_env = \<lparr>others = (\<lambda>n. []), clock = (\<lambda>n. 60000 * int n), randomSource = (\<lambda>n k. replicate k (word_of_nat n)),
     randomTokens = (\<lambda>n k. replicate n (CHR ''t'')), hashToken = (\<lambda>s. Inr (CHR ''h'' # s)), limiterCheck = (\<lambda>n t a h. Inr ()),
     limiterPeek = Some (\<lambda>n t a h. Inr ()), sendMail = (\<lambda>n m. Inr ()), hashPassword = (\<lambda>n p. Inr (CHR ''#'' # p)),
     verifyPassword = (\<lambda>p h. Inr (h = CHR ''#'' # p)), tenantConfig = (\<lambda>t. Inr auth_config), parseUrl = (\<lambda>u. None),
     tokenUrl = (\<lambda>page base tok. page @ ''?token='' @ tok)\<rparr>"

definition ann :: AuthUser where
  "ann = \<lparr>userId = ''u1'', userTenant = ''a'', userEmail = Some ''ann@x.org'', emailVerified = True, displayName = None,
     userCreatedAt = 0, userUpdatedAt = 0\<rparr>"

definition ann_credential :: PasswordCredential where
  "ann_credential = \<lparr>credTenant = ''a'', credUser = ''u1'', credEmail = ''ann@x.org'', passwordHash = ''#correct horse'', credUpdatedAt = 0\<rparr>"

definition ann_totp :: TotpRecord where
  "ann_totp = \<lparr>totpTenant = ''a'', totpUser = ''u1'', secretBase32 = ''MFRGG'', confirmed = True, recoveryCodeHashes = [],
     failedAttempts = 0, lockedUntil = None, lastUsedStep = None, enrolledAt = 0\<rparr>"

definition world_of :: "MemoryState \<Rightarrow> AuthWorld" where
  "world_of st = \<lparr>wStore = st, wLog = [], wAudit = [], wMails = [], wLimiter = [], wTick = 0\<rparr>"

definition ann_calls :: "AuthCall list" where
  "ann_calls = [CreatePasswordUser ann ann_credential, PutTotpSecret ann_totp]"

definition ann_world :: AuthWorld where
  "ann_world = world_of (snd (run_calls ann_calls newState))"

text \<open>A toy platform: the MAC of every message is the same twenty bytes and encryption prepends a byte.\<close>

definition sample_crypto :: WebCrypto where
  "sample_crypto = \<lparr>deriveKeys = (\<lambda>s. Some ([1], [2])), aesEncrypt = (\<lambda>k iv p. Some (7 # p)), aesDecrypt = (\<lambda>k iv c. Some (tl c)),
     hmacSign = (\<lambda>k m. Some [9]), textEncode = map (\<lambda>c. word_of_nat (of_char c)), textDecode = map (\<lambda>b. char_of (unat b))\<rparr>"

definition sample_totp :: TotpServiceOptions where
  "sample_totp = \<lparr>sealingSecret = replicate 32 (CHR ''s''), lockoutThreshold = None, lockoutCooldownMillis = None,
     webCrypto = sample_crypto, hmacSha1 = (\<lambda>k m. Some (replicate 20 0))\<rparr>"

definition with_factor :: AuthOptions where
  "with_factor = \<lparr>secondFactor = Some isEnrolled\<rparr>"

lemma auth_env_simps [simp]:
  "others auth_env n = []" "clock auth_env n = 60000 * int n" "randomSource auth_env n k = replicate k (word_of_nat n)"
  "randomTokens auth_env n k = replicate n (CHR ''t'')" "hashToken auth_env s = Inr (CHR ''h'' # s)" "limiterCheck auth_env n t a h = Inr ()"
  "limiterPeek auth_env = Some (\<lambda>n t a h. Inr ())" "sendMail auth_env n m = Inr ()" "hashPassword auth_env n p = Inr (CHR ''#'' # p)"
  "verifyPassword auth_env p h = Inr (h = CHR ''#'' # p)" "tenantConfig auth_env t = Inr auth_config"
  by (simp_all add: auth_env_def)

lemma auth_config_simps [simp]:
  "maxLength auth_config = None" "minLength auth_config = None" "ttlMillis auth_config = None" "passwordResetTtlMillis auth_config = None"
  by (simp_all add: auth_config_def)

lemma ann_simps [simp]:
  "userId ann = ''u1''" "userTenant ann = ''a''" "userEmail ann = Some ''ann@x.org''" "emailVerified ann"
  "lockedUntil ann_totp = None" "lastUsedStep ann_totp = None" "secretBase32 ann_totp = ''MFRGG''" "recoveryCodeHashes ann_totp = []"
  "credUser ann_credential = ''u1''" "passwordHash ann_credential = ''#correct horse''" "confirmed ann_totp"
  by (simp_all add: ann_def ann_credential_def ann_totp_def)

lemmas effect_simps = and_then_def succeed_def fail_with_def lift_def current_time_def randomToken_def randomBytes_def record_audit_def
  charge_limiter_def limit_rate_def ask_def store_command_def perform_eq Let_def

lemma ann_world_eq: "ann_world = world_of (newState\<lparr>users := [(scoped ''a'' ''u1'', ann)], usersByEmail := [(scoped ''a'' ''ann@x.org'', ''u1'')],
    passwords := [(scoped ''a'' ''ann@x.org'', ann_credential)], totp := [(scoped ''a'' ''u1'', ann_totp)]\<rparr>)"
  by (simp add: ann_world_def ann_calls_def createPasswordUser_def assertUserUnique_def insertUser_def putTotpSecret_def newState_def
      unit_response_def Let_def ann_def ann_credential_def ann_totp_def)

lemma ann_email: "normalizeEmail '' ann@x.org '' = Inr ''ann@x.org''"
  by (simp add: normalizeEmail_def to_lower_def trim_def js_space_def Let_def)

lemma auth_config_valid [simp]: "configFor ''a'' auth_env w = (Inr auth_config, w)"
  by (simp add: configFor_def effect_simps validateTenantConfig_def cookie_name_char_def auth_config_def)

definition ann_sign_in :: "(AuthError, AuthSession) result \<times> AuthWorld" where
  "ann_sign_in = signInPassword with_factor ''a'' '' ann@x.org '' ''correct horse'' None auth_env ann_world"

lemmas ann_defs = ann_world_eq world_of_def newState_def ann_email

lemmas account_simps = effect_simps wall_before_def sign_in_walls_def open_session_def with_factor_def isEnrolled_def
  confirmedEnrollmentOrNone_def anyEnrollment_def findPassword_def findUserById_def findTotp_def createSession_def unit_response_def
  issueEmailToken_def token_ttl_def putOneTimeToken_def consumeToken_def consumeOneTimeToken_def send_mail_def validatePassword_def hash_password_def
  replacePasswordAndRevokeSessions_def of_user_def resolveSession_def getSession_def requireElevatedSession_def findSession_def

lemma ann_signs_in:
  "ann_sign_in = (Inr \<lparr>authToken = ''ttt'', authUser = ann, authExpiresAt = 60000 * 4 + DEFAULT_SESSION_TTL\<rparr>, snd ann_sign_in)"
  by (simp add: ann_sign_in_def signInPassword_def account_simps ann_defs)

text \<open>A password reset: the token the request mails, redeemed.\<close>

definition reset_request :: "(AuthError, unit) result \<times> AuthWorld" where
  "reset_request = requestPasswordReset ''a'' '' ann@x.org '' auth_env ann_world"

lemma reset_mailed: "map mailToken (wMails (snd reset_request)) = [''tt'']"
  by (simp add: reset_request_def requestPasswordReset_def account_simps ann_defs)

definition ann_reset :: "(AuthError, AuthSession) result \<times> AuthWorld" where
  "ann_reset = resetPassword with_factor ''a'' ''tt'' ''battery staple'' auth_env (snd reset_request)"

lemma ann_resets: "ann_reset = (Inr (projr (fst ann_reset)), snd ann_reset)"
  by (simp add: ann_reset_def reset_request_def requestPasswordReset_def resetPassword_def account_simps ann_defs DEFAULT_RESET_TTL_def)

text \<open>The second factor of the session just opened. The platform's MAC makes every time code zero.\<close>

lemma sample_hotp: "hotp (hmacSha1 sample_totp) k n = Inr ''000000''"
proof -
  have "truncated (replicate 20 0) = 0" by code_simp
  moreover have "pad_start 6 (show_nat 0) = ''000000''" by code_simp
  ultimately show ?thesis by (simp add: hotp_def sample_totp_def)
qed

lemma sample_match: "matchTotpCode (hmacSha1 sample_totp) ''MFRGG'' ''000000'' at = Inr (Some (timeCounter at + 1))"
proof -
  have "base32Decode ''MFRGG'' = Inr [97, 98, 99]" by code_simp
  then show ?thesis by (simp add: matchTotpCode_def six_digits_def is_digit_def sample_hotp Let_def)
qed

lemma sample_open: "open_sealed (webCrypto sample_totp) secret ''MFRGG'' = Inr ''MFRGG''"
  by (simp add: open_sealed_def isSealed_def VERSION_def)

lemma sample_seal: "seal (webCrypto sample_totp) (sealingSecret sample_totp) iv plain = Inr (sealed_text iv (7 # textEncode sample_crypto plain))"
  by (simp add: seal_def sealing_keys_def sample_totp_def sample_crypto_def)

lemmas factor_simps = account_simps verify_def resolveTenant_def sessionUserOf_def locked_now_def verify_enrolled_def sample_match sample_open sample_seal
  markTotpStepUsed_def totp_success_def sealLegacySecret_def resetTotpFailures_def replaceTotpSecret_def elevate_def elevateSession_def

definition ann_verify :: "(AuthError, unit) result \<times> AuthWorld" where
  "ann_verify = verify sample_totp ''a'' ''ttt'' ''000000'' auth_env (snd ann_sign_in)"

lemma ann_verifies: "ann_verify = (Inr (), snd ann_verify)"
  by (simp add: ann_verify_def ann_sign_in_def signInPassword_def factor_simps ann_defs DEFAULT_SESSION_TTL_def isSealed_def VERSION_def)

end
