(* ===== verification/AuthProperties.thy ===== *)
theory AuthProperties
  imports AuthSamples
begin

section \<open>Properties of the authentication package\<close>

text \<open>
  The store under any history of calls, the account services and the second factor, with the calls of other fibers between any
  two store calls of a service.
\<close>

subsection \<open>The store\<close>

text \<open>
  C18. Whatever calls reach the in-memory store, in whatever order, every record stands under its own key, the email index and the
  users agree, and at most one token is outstanding for a tenant, purpose and email. So a lookup by email finds a user of that
  tenant with that email, and two users of a tenant never share one.
\<close>

theorem auth_store_sound:
  assumes "list_all call_ok cs" and "st = snd (run_calls cs newState)" and "NUL \<notin> set t"
  shows "auth_inv st \<and> (\<forall>email u. findUserByEmail t email st = Some u \<longrightarrow> userTenant u = t \<and> userEmail u = Some email)"
proof -
  have "auth_inv st" unfolding assms(2) using assms(1) by (rule auth_inv_run [OF auth_inv_new])
  with findUserByEmail_sound [OF _ assms(3)] show ?thesis by blast
qed

theorem auth_store_sound_witness:
  "auth_inv (wStore ann_world) \<and> findUserByEmail ''a'' ''ann@x.org'' (wStore ann_world) = Some ann \<and> userEmail ann = Some ''ann@x.org''"
proof -
  have "list_all call_ok ann_calls" by (simp add: ann_calls_def call_ok_def NUL_def ann_def ann_credential_def ann_totp_def)
  moreover have "wStore ann_world = snd (run_calls ann_calls newState)" by (simp add: ann_world_def world_of_def)
  moreover have found: "findUserByEmail ''a'' ''ann@x.org'' (wStore ann_world) = Some ann" by (simp add: ann_defs findUserByEmail_def)
  ultimately show ?thesis using auth_store_sound [of ann_calls "wStore ann_world" "''a''"] by (simp add: NUL_def)
qed

text \<open>
  C19. Tenants do not see each other: what the calls of one tenant are answered, among the calls of all tenants in any order, is
  what they are answered when only they run, on the part of the store that is the tenant's.
\<close>

theorem tenants_do_not_interfere:
  assumes "list_all call_ok (earlier @ cs)" and "st = snd (run_calls earlier newState)"
  shows "filter (\<lambda>cr. call_tenant (fst cr) = t) (fst (run_calls cs st))
      = fst (run_calls (filter (\<lambda>c. call_tenant c = t) cs) (tenant_view t st))"
  using assms(1) unfolding assms(2) by (intro tenant_noninterference auth_inv_run [OF auth_inv_new]) simp_all

theorem tenants_do_not_interfere_witness:
  "let cs = [FindUserByEmail ''a'' ''ann@x.org'', PutTotpSecret (ann_totp\<lparr>totpTenant := ''b''\<rparr>), FindTotp ''a'' ''u1'']; st = snd (run_calls ann_calls newState) in
   filter (\<lambda>cr. call_tenant (fst cr) = ''b'') (fst (run_calls cs st))
      = fst (run_calls (filter (\<lambda>c. call_tenant c = ''b'') cs) (tenant_view ''b'' st))"
  unfolding Let_def
  by (rule tenants_do_not_interfere [of ann_calls]) (simp_all add: ann_calls_def call_ok_def NUL_def ann_def ann_credential_def ann_totp_def)

subsection \<open>Accounts and sessions\<close>

text \<open>
  C20. A password sign-in that succeeds has found the credential of the normalised email, verified the password against it, found
  its user with a verified email, and created the session it returns: under the hash of the token, for that tenant and user, with
  the announced expiry, and pending exactly when the second-factor hook reported an enrolled user.
\<close>

theorem sign_in_sound:
  assumes "hook_logs opts" and "signInPassword opts t inputEmail password caller env w = (Inr session, w')"
  shows "\<exists>email cred user s pending w1 w2. normalizeEmail inputEmail = Inr email
    \<and> made (FindPassword t email) (PasswordIs (Some cred)) w w' \<and> verifyPassword env password (passwordHash cred) = Inr True
    \<and> made (FindUserById t (credUser cred)) (UserIs (Some user)) w w' \<and> emailVerified user \<and> authUser session = user
    \<and> made (CreateSession s) Done w w' \<and> hashToken env (authToken session) = Inr (sessionHash s)
    \<and> sessionTenant s = t \<and> sessionUser s = userId user \<and> sessionExpiresAt s = authExpiresAt session
    \<and> hook_answer opts t (userId user) env w1 = (Inr pending, w2) \<and> (elevatedAt s = None \<longleftrightarrow> pending)"
  using sign_in_made [OF assms] by blast

lemma hook_logs_sample: "hook_logs with_factor"
  by (auto simp: hook_logs_def with_factor_def isEnrolled_def intro!: logs_and_then)

theorem sign_in_sound_witness:
  "\<exists>session email cred s. fst ann_sign_in = Inr session \<and> normalizeEmail '' ann@x.org '' = Inr email
    \<and> made (FindPassword ''a'' email) (PasswordIs (Some cred)) ann_world (snd ann_sign_in)
    \<and> made (CreateSession s) Done ann_world (snd ann_sign_in) \<and> hashToken auth_env (authToken session) = Inr (sessionHash s)"
proof -
  obtain session where session: "ann_sign_in = (Inr session, snd ann_sign_in)" using ann_signs_in by blast
  from sign_in_sound [OF hook_logs_sample session [unfolded ann_sign_in_def], folded ann_sign_in_def] session show ?thesis
    by (metis fst_conv)
qed

text \<open>
  What a sign-in charges. With a limiter that can peek, a sign-in that succeeds has only peeked at its buckets, and one that is
  refused (wrong or missing password, unknown user, unverified email) has charged each of them once; without, each bucket is charged
  on arrival and never again.
\<close>

theorem sign_in_charges_failures:
  assumes "dependencies_ok opts env" and "normalizeEmail inputEmail = Inr email"
    and "map (hashToken env) (sign_in_walls email caller) = map Inr hashes"
    and "signInPassword opts t inputEmail password caller env w = (r, w')"
  shows "case r of
      Inr session \<Rightarrow> wLimiter w' = wLimiter w @ (if limiterPeek env = None then charged_walls t hashes else peeked_walls t hashes)
    | Inl e \<Rightarrow> refusal e \<longrightarrow> wLimiter w' = wLimiter w @ (if limiterPeek env = None then charged_walls t hashes else peeked_walls t hashes @ charged_walls t hashes)"
  using sign_in_charges [OF assms(1-3), of t password] assms(4) by (auto simp: charges_def split: sum.splits)

lemma dependencies_ok_sample: "dependencies_ok with_factor auth_env"
  by (auto simp: dependencies_ok_def never_refuses_def hook_answer_def with_factor_def isEnrolled_def confirmedEnrollmentOrNone_def
      anyEnrollment_def intro!: silent_and_then silent_simple)

theorem sign_in_charges_failures_witness:
  "wLimiter (snd ann_sign_in) = [Peeked ''a'' ''password-sign-in'' ''hann@x.org'']"
proof -
  note run = ann_signs_in [unfolded ann_sign_in_def]
  from sign_in_charges_failures [OF dependencies_ok_sample ann_email _ run, of "[''hann@x.org'']"] show ?thesis
    by (simp add: sign_in_walls_def peeked_walls_def ann_world_def world_of_def ann_sign_in_def)
qed

text \<open>
  C21. An emailed token is redeemed once: after an email verification, a magic-link or a password reset succeeded with it, no
  later one does, whatever calls others make in between and meanwhile, unless a token with the same hash is issued again.
\<close>

theorem token_works_once:
  assumes "redeemed purpose t token env w0 w1" and "extends w1 w2" and "hashToken env token = Inr hash" and "extends w2 w3"
    and "\<forall>cr \<in> set (calls_between w0 w3). \<not> reissues (tokenKey t (purpose_name purpose) hash) (fst cr)"
  shows "\<not> redeemed purpose t token env w2 w3"
  using assms by (intro token_redeemed_once)

theorem token_works_once_witness:
  "redeemed PasswordReset ''a'' ''tt'' auth_env (snd reset_request) (snd ann_reset)
    \<and> \<not> redeemed PasswordReset ''a'' ''tt'' auth_env (snd ann_reset) (snd ann_reset)"
proof -
  have first: "redeemed PasswordReset ''a'' ''tt'' auth_env (snd reset_request) (snd ann_reset)"
    using hook_logs_sample ann_resets unfolding ann_reset_def by fastforce
  have "\<forall>cr \<in> set (calls_between (snd reset_request) (snd ann_reset)). \<not> reissues k (fst cr)" for k
    by (simp add: ann_reset_def reset_request_def requestPasswordReset_def resetPassword_def account_simps ann_defs DEFAULT_RESET_TTL_def
        calls_between_def reissues_def)
  then have "\<not> redeemed PasswordReset ''a'' ''tt'' auth_env (snd ann_reset) (snd ann_reset)"
    by (intro token_works_once [OF first extends_refl _ extends_refl, of "''htt''"]) simp_all
  with first show ?thesis by simp
qed

text \<open>
  C22. A new password ends the earlier sessions: when a reset or a change succeeds, the password of the token's owner, or of the
  session's user, was replaced, and every session of that user in the store afterwards was created after the replacement.
\<close>

theorem new_password_ends_sessions:
  assumes "hook_logs opts"
  shows "(\<forall>new session. resetPassword opts t token new env w = (Inr session, w') \<longrightarrow>
      (\<exists>hash at rec uid. hashToken env token = Inr hash \<and> made (ConsumeOneTimeToken t PasswordReset hash at) (TokenIs (Some rec)) w w'
        \<and> ottUser rec = Some uid \<and> replaced t uid w w'))
    \<and> (\<forall>cur new session. changePassword opts t token cur new env w = (Inr session, w') \<longrightarrow> replaced t (userId (authUser session)) w w')"
  using reset_replaces [OF assms] change_replaces [OF assms] by blast

theorem new_password_ends_sessions_witness:
  "\<exists>hash at rec uid. made (ConsumeOneTimeToken ''a'' PasswordReset hash at) (TokenIs (Some rec)) (snd reset_request) (snd ann_reset)
    \<and> ottUser rec = Some uid \<and> replaced ''a'' uid (snd reset_request) (snd ann_reset)"
  using new_password_ends_sessions [OF hook_logs_sample] ann_resets unfolding ann_reset_def by blast

text \<open>
  C23. A sign-in never bypasses the second factor: the hook of the second factor has looked up the user's enrollment, and when it
  found a confirmed one, the new session is refused wherever an elevated session is required, whatever calls follow, until one
  elevates it or creates an elevated session under the same token hash.
\<close>

theorem pending_until_elevated:
  assumes "signInPassword \<lparr>secondFactor = Some isEnrolled\<rparr> t email password caller env w = (Inr session, w1)"
    and "hashToken env (authToken session) = Inr hash" and "extends w1 w2"
    and "\<forall>cr \<in> set (calls_between w1 w2). \<not> elevates (scoped t hash) (fst cr)"
    and "\<forall>c \<in> set (others env (Suc (wTick w2))). \<not> elevates (scoped t hash) c"
  shows "\<exists>enrollment. made (FindTotp t (userId (authUser session))) (TotpIs enrollment) w w1
    \<and> (\<forall>rec. enrollment = Some rec \<and> confirmed rec \<longrightarrow>
        (\<exists>e. fst (requireElevatedSession \<lparr>secondFactor = Some isEnrolled\<rparr> t (authToken session) env w2) = Inl e))"
proof -
  let ?opts = "\<lparr>secondFactor = Some isEnrolled\<rparr>"
  have hook: "hook_logs ?opts" using hook_logs_sample by (simp add: with_factor_def)
  obtain s pending v1 v2 where s: "hashToken env (authToken session) = Inr (sessionHash s)"
    "hook_answer ?opts t (userId (authUser session)) env v1 = (Inr pending, v2)" "elevatedAt s = None \<longleftrightarrow> pending"
    "\<forall>x. (scoped t (sessionHash s), x) \<in> set (sessions (wStore w1)) \<longrightarrow> x = s" "extends w v1" "extends v1 v2" "extends v2 w1"
    using sign_in_made [OF hook assms(1)] by blast
  obtain enrollment where look: "ask totp_in (FindTotp t (userId (authUser session))) env v1 = (Inr enrollment, v2)"
    and pending: "pending \<longleftrightarrow> (\<exists>rec. enrollment = Some rec \<and> confirmed rec)"
    using s(2) by (auto simp: hook_answer_def isEnrolled_def confirmedEnrollmentOrNone_def anyEnrollment_def and_then_Inr effect_Inr
        split: option.splits if_splits)
  obtain st where "enrollment = totp_in (fst (call (FindTotp t (userId (authUser session))) st))"
    "made (FindTotp t (userId (authUser session))) (fst (call (FindTotp t (userId (authUser session))) st)) v1 v2"
    using ask_Inr [OF look] by blast
  then have "made (FindTotp t (userId (authUser session))) (TotpIs enrollment) v1 v2" by simp
  with s(5-7) have found: "made (FindTotp t (userId (authUser session))) (TotpIs enrollment) w w1" by (blast intro: made_within)
  have "\<exists>e. fst (requireElevatedSession ?opts t (authToken session) env w2) = Inl e" if "enrollment = Some rec" "confirmed rec" for rec
  proof (rule pending_refused [OF _ assms(2)])
    have "pending_session (scoped t hash) (wStore w1)"
      using s(1,3,4) pending that assms(2) by (auto simp: pending_session_def under_def)
    then show "pending_session (scoped t hash) (wStore w2)"
      using under_extends [OF assms(3)] assms(4) elevates_breaks unfolding pending_session_def by blast
  qed (use assms(5) in simp_all)
  with found show ?thesis by blast
qed

theorem pending_until_elevated_witness:
  "\<exists>rec. made (FindTotp ''a'' ''u1'') (TotpIs (Some rec)) ann_world (snd ann_sign_in) \<and> confirmed rec
    \<and> (\<exists>e. fst (requireElevatedSession with_factor ''a'' ''ttt'' auth_env (snd ann_sign_in)) = Inl e)"
proof -
  from pending_until_elevated [OF ann_signs_in [unfolded ann_sign_in_def with_factor_def], of "''httt''" "snd ann_sign_in"]
  obtain enrollment where looked: "made (FindTotp ''a'' ''u1'') (TotpIs enrollment) ann_world (snd ann_sign_in)"
    and waits: "\<forall>rec. enrollment = Some rec \<and> confirmed rec \<longrightarrow>
        (\<exists>e. fst (requireElevatedSession with_factor ''a'' ''ttt'' auth_env (snd ann_sign_in)) = Inl e)"
    by (auto simp: extends_refl calls_between_def with_factor_def ann_sign_in_def)
  have "enrollment = Some ann_totp"
    using looked by (simp add: made_def calls_between_def ann_sign_in_def signInPassword_def account_simps ann_defs)
  with looked waits show ?thesis by auto
qed

subsection \<open>The second factor\<close>

text \<open>
  C24. Two verifications never elevate sessions on the same proof. Each that succeeds found a confirmed enrollment of the session's
  user whose lock, if any, had passed, elevated that session, and spent the time step or the recovery code that the given code
  proves; and while nobody enrolls anew, the proof of an earlier and of a later verification are different, whatever other requests
  run in between and meanwhile.
\<close>

theorem second_factor_once:
  assumes "verify opts t token code env w0 = (Inr x, w1)" and "extends w1 w2" and "verify opts t token' code' env w2 = (Inr y, w3)"
    and "NUL \<notin> set t" and "\<forall>cr \<in> set (calls_between w0 w3). call_ok (fst cr) \<and> (\<forall>uid. \<not> reenrolls t uid (fst cr))"
  shows "\<exists>uid p uid' p'. verified opts env t token code uid p w0 w1 \<and> verified opts env t token' code' uid' p' w2 w3
    \<and> (uid, p) \<noteq> (uid', p')"
proof -
  obtain uid p uid' p' where v: "verified opts env t token code uid p w0 w1" "verified opts env t token' code' uid' p' w2 w3"
    using verify_verified [OF assms(1)] verify_verified [OF assms(3)] by blast
  have "set (proofs_spent t uid (calls_between w0 w1)) \<inter> set (proofs_spent t uid (calls_between w2 w3)) = {}"
    using logsD [OF logs_verify assms(1)] assms(2) logsD [OF logs_verify assms(3)] assms(4) by (rule proofs_disjoint) (use assms(5) in blast)
  moreover have "p \<in> set (proofs_spent t uid (calls_between w0 w1))" "p' \<in> set (proofs_spent t uid' (calls_between w2 w3))"
    using v by (simp_all add: verified_def)
  ultimately have "(uid, p) \<noteq> (uid', p')" by auto
  with v show ?thesis by (intro exI conjI)
qed

definition ann_verify_again :: "(AuthError, unit) result \<times> AuthWorld" where
  "ann_verify_again = verify sample_totp ''a'' ''ttt'' ''000000'' auth_env (snd ann_verify)"

lemma sample_lawful: "crypto_lawful sample_crypto"
proof -
  have "of_char c < (256 :: nat)" for c :: char using of_char_mod_256 [of c, where 'a = nat] by (metis mod_less_divisor zero_less_numeral)
  then have "char_of (unat (word_of_nat (of_char c) :: byte)) = c" for c by (simp add: unat_of_nat)
  then show ?thesis by (simp add: crypto_lawful_def sample_crypto_def o_def)
qed

lemma sample_open_sealed:
  "iv \<noteq> [] \<Longrightarrow> open_sealed (webCrypto sample_totp) (sealingSecret sample_totp) (sealed_text iv (7 # textEncode sample_crypto plain)) = Inr plain"
proof -
  assume "iv \<noteq> []"
  moreover have "crypto_lawful (webCrypto sample_totp)" using sample_lawful by (simp add: sample_totp_def)
  ultimately show ?thesis using open_seal [OF _ _ sample_seal] by blast
qed

theorem second_factor_once_witness:
  "\<exists>uid p uid' p'. verified sample_totp auth_env ''a'' ''ttt'' ''000000'' uid p (snd ann_sign_in) (snd ann_verify)
    \<and> verified sample_totp auth_env ''a'' ''ttt'' ''000000'' uid' p' (snd ann_verify) (snd ann_verify_again) \<and> (uid, p) \<noteq> (uid', p')"
proof -
  have again: "verify sample_totp ''a'' ''ttt'' ''000000'' auth_env (snd ann_verify) = (Inr (), snd ann_verify_again)"
    by (simp add: ann_verify_again_def ann_verify_def ann_sign_in_def signInPassword_def factor_simps ann_defs DEFAULT_SESSION_TTL_def
        sample_open_sealed isSealed_def VERSION_def timeCounter_def TOTP_STEP_SECONDS_def)
  have first: "verify sample_totp ''a'' ''ttt'' ''000000'' auth_env (snd ann_sign_in) = (Inr (), snd ann_verify)"
    using ann_verifies unfolding ann_verify_def by simp
  have calls: "\<forall>cr \<in> set (calls_between (snd ann_sign_in) (snd ann_verify_again)). call_ok (fst cr) \<and> (\<forall>uid. \<not> reenrolls ''a'' uid (fst cr))"
    by (simp add: ann_verify_again_def ann_verify_def ann_sign_in_def signInPassword_def factor_simps ann_defs DEFAULT_SESSION_TTL_def
        sample_open_sealed isSealed_def VERSION_def timeCounter_def TOTP_STEP_SECONDS_def calls_between_def call_ok_def NUL_def)
  show ?thesis by (rule second_factor_once [OF first extends_refl again _ calls]) (simp add: NUL_def)
qed

text \<open>
  A locked second factor waits, and no code opens it: while nobody else runs, a verification and a removal by a session of a
  user whose lock lasts answer that the rate limit is exceeded, with at least a second to wait, and leave the store as it is.
\<close>

theorem locked_factor_waits:
  assumes "undisturbed env" and "locked_out env t token (wStore w)"
  shows "(\<exists>seconds w'. verify opts t token code env w = (Inl (RateLimitExceeded ''totp-verify'' (Some seconds)), w')
      \<and> 1 \<le> seconds \<and> wStore w' = wStore w)
    \<and> (\<exists>seconds w'. unenroll opts t token code env w = (Inl (RateLimitExceeded ''totp-verify'' (Some seconds)), w')
      \<and> 1 \<le> seconds \<and> wStore w' = wStore w)"
  using locked_out_waits [OF assms] by blast

definition locked_env :: AuthEnv where
  "locked_env = auth_env\<lparr>clock := (\<lambda>n. 0)\<rparr>"

definition locked_store :: MemoryState where
  "locked_store = newState\<lparr>users := [(scoped ''a'' ''u1'', ann)], totp := [(scoped ''a'' ''u1'', ann_totp\<lparr>lockedUntil := Some 5000\<rparr>)],
     sessions := [(scoped ''a'' ''hs'', \<lparr>sessionId = ''i'', sessionTenant = ''a'', sessionUser = ''u1'', sessionHash = ''hs'',
       sessionCreatedAt = 0, sessionExpiresAt = 9000, elevatedAt = None\<rparr>)]\<rparr>"

theorem locked_factor_waits_witness:
  "\<exists>seconds w'. verify sample_totp ''a'' ''s'' ''000000'' locked_env (world_of locked_store)
    = (Inl (RateLimitExceeded ''totp-verify'' (Some seconds)), w') \<and> 1 \<le> seconds \<and> wStore w' = locked_store"
proof -
  have "undisturbed locked_env" by (simp add: undisturbed_def locked_env_def)
  moreover have "locked_out locked_env ''a'' ''s'' (wStore (world_of locked_store))"
    unfolding locked_out_def
    by (rule exI [of _ auth_config], rule exI [of _ "''hs''"])
      (simp add: locked_env_def locked_store_def world_of_def findTotp_def ann_totp_def)
  ultimately show ?thesis
    using locked_factor_waits [of locked_env "''a''" "''s''" "world_of locked_store" sample_totp "''000000''"] by (simp add: world_of_def)
qed

text \<open>
  C25. Failures lock the second factor, across any history without a success, a reset or a new enrollment of the user: the counter
  counts the recorded failures, and once it reaches the threshold, the lock lasts from the latest failure for the cooldown. Failures
  of other users and tenants do not count.
\<close>

theorem failures_lock_factor:
  assumes "list_all call_ok cs" and "NUL \<notin> set t" and "list_all (\<lambda>c. \<not> resets t uid c) cs" and "findTotp t uid st = Some rec"
    and "failures t uid cs \<noteq> []" and "\<forall>f \<in> set (failures t uid cs). fst f = limit" and "limit \<le> failedAttempts rec + int (length (failures t uid cs))"
  shows "\<exists>rec'. findTotp t uid (snd (run_calls cs st)) = Some rec'
    \<and> failedAttempts rec' = failedAttempts rec + int (length (failures t uid cs))
    \<and> lockedUntil rec' = Some (snd (snd (last (failures t uid cs))) + fst (snd (last (failures t uid cs))))"
  using failures_lock [OF assms(1-4)] lock_after_reached [OF assms(5-7)] by force

definition ann_failures :: "AuthCall list" where
  "ann_failures = [RecordTotpFailure ''a'' ''u1'' 2 900 100, RecordTotpFailure ''a'' ''u2'' 2 900 150, RecordTotpFailure ''a'' ''u1'' 2 900 200]"

theorem failures_lock_factor_witness:
  "\<exists>rec. findTotp ''a'' ''u1'' (snd (run_calls ann_failures (wStore ann_world))) = Some rec \<and> failedAttempts rec = 2 \<and> lockedUntil rec = Some 1100"
proof -
  have found: "findTotp ''a'' ''u1'' (wStore ann_world) = Some ann_totp" by (simp add: ann_defs findTotp_def)
  have fs: "failures ''a'' ''u1'' ann_failures = [(2, 900, 100), (2, 900, 200)]" by (simp add: failures_def ann_failures_def)
  have "list_all call_ok ann_failures" "list_all (\<lambda>c. \<not> resets ''a'' ''u1'' c) ann_failures"
    by (simp_all add: ann_failures_def call_ok_def NUL_def)
  from failures_lock_factor [OF this(1) _ this(2) found, of 2] show ?thesis
    by (simp add: fs NUL_def) (simp add: ann_totp_def)
qed

text \<open>
  Base32 loses nothing: a text whose cleaned form (upper-cased, without padding and white space) is the encoding of some bytes
  decodes to them, so every generated secret, also printed in lower case, spaced and padded, decodes to the drawn bytes.
\<close>

theorem totp_secret_roundtrip:
  assumes "cleaned s = generateTotpSecret bytes"
  shows "base32Decode s = Inr bytes \<and> base32Decode (generateTotpSecret bytes) = Inr bytes
    \<and> base32Decode (map lower_char (generateTotpSecret bytes) @ replicate n (CHR ''='')) = Inr bytes"
  using assms base32_decodes cleaned_symbols [OF base32_range] by (simp add: generateTotpSecret_def)

theorem totp_secret_roundtrip_witness: "base32Decode ''mf RGg='' = Inr [97, 98, 99]"
proof -
  have "cleaned ''mf RGg='' = generateTotpSecret [97, 98, 99]" by code_simp
  then show ?thesis using totp_secret_roundtrip by blast
qed

text \<open>
  What is sealed can be opened: with a lawful cipher, a sealed secret is recognised as sealed and opens to the secret under the
  same sealing secret, and a hashed recovery code is matched by the very code.
\<close>

theorem sealed_secret_opens:
  assumes "crypto_lawful wc" and "iv \<noteq> []" and "seal wc secret iv plain = Inr stored"
    and "salt \<noteq> []" and "hashRecoveryCode wc secret salt code = Inr hashed"
  shows "isSealed stored \<and> open_sealed wc secret stored = Inr plain \<and> matchRecoveryCode wc secret code hashed hashing = Inr True"
proof -
  obtain mac where "hmacSign wc mac (saltedCode wc salt code) \<noteq> None"
    "\<forall>code'. hmacSign wc mac (saltedCode wc salt code') \<noteq> None \<longrightarrow>
      matchRecoveryCode wc secret code' hashed hashing = Inr (hmacSign wc mac (saltedCode wc salt code') = hmacSign wc mac (saltedCode wc salt code))"
    using match_hash [OF assms(1,4,5)] by blast
  with open_seal [OF assms(1-3)] show ?thesis by simp
qed

theorem sealed_secret_opens_witness:
  "\<exists>stored hashed. open_sealed sample_crypto ''k'' stored = Inr ''MFRGG'' \<and> matchRecoveryCode sample_crypto ''k'' ''abcde-fghij'' hashed Inr = Inr True"
proof -
  have "seal sample_crypto ''k'' [1] ''MFRGG'' = Inr (sealed_text [1] (7 # textEncode sample_crypto ''MFRGG''))"
    by (simp add: seal_def sealing_keys_def sample_crypto_def)
  moreover have "\<exists>hashed. hashRecoveryCode sample_crypto ''k'' [3] ''abcde-fghij'' = Inr hashed"
    by (simp add: hashRecoveryCode_def sealing_keys_def sample_crypto_def)
  ultimately show ?thesis using sealed_secret_opens [OF sample_lawful, of "[1]" "''k''" "''MFRGG''" _ "[3]" "''abcde-fghij''"] by blast
qed

text \<open>
  The codes have the shape the services recognise: every time code is six digits, and every generated recovery code is one
  that a verification reads as a recovery code and never as a time code.
\<close>

theorem codes_are_recognised:
  assumes "list_all (\<lambda>random. length random = 8) randoms"
  shows "(\<forall>code \<in> set (generateRecoveryCodes randoms). isRecoveryCode code \<and> \<not> six_digits code)
    \<and> (\<forall>hmac secret at code. totpCode hmac secret at = Inr code \<longrightarrow> six_digits code \<and> \<not> isRecoveryCode code)"
proof -
  have exclusive: "isRecoveryCode code \<Longrightarrow> \<not> six_digits code" for code by (auto simp: isRecoveryCode_def six_digits_def)
  have "totpCode hmac secret at = Inr code \<Longrightarrow> six_digits code" for hmac secret at code
    by (auto simp: totpCode_def intro: hotp_six_digits)
  with exclusive recovery_codes_recognised [OF assms] show ?thesis by blast
qed

theorem codes_are_recognised_witness: "isRecoveryCode (recovery_code (replicate 8 0))"
  using codes_are_recognised [of "[replicate 8 0]"] by (simp add: generateRecoveryCodes_def)

subsection \<open>Session cookies\<close>

text \<open>
  A request that names a slot is served by that slot's cookie alone, the one listed among the slot cookies, and a request that
  names none by the usual cookie alone, as if the header had no slot cookies; a header is read whenever it is short without them.
\<close>

theorem slots_do_not_mix:
  assumes "requestedSlot getAll request = selection" and "configFor t env w = (Inr config, w1)"
    and "readable (session_cookie_name config None) header"
  shows "case selection of
      Slot slot \<Rightarrow> sessionTokenFromCookie t (Some header) (Some slot) env w
        = (Inr (jsget (slotCookiesOf (session_cookie_name config None) (Some header)) slot), w1)
    | NoSlot \<Rightarrow> sessionTokenFromCookie t (Some header) None env w
        = (Inr (first_cookie (session_cookie_name config None)
            (filter (\<lambda>segment. \<not> isSlotCookie (session_cookie_name config None) segment) (split_char (CHR '';'') header))), w1)
    | InvalidSlot \<Rightarrow> True"
  using cookie_of_slot [OF assms(2,3)] requestedSlot_named [of getAll request] assms(1) by (auto split: SessionSlotSelection.split)

definition slot_header :: string where
  "slot_header = ''structure_session=main; structure_session.u2=other''"

definition slot_request :: SessionSlotRequest where
  "slot_request = \<lparr>slotMethod = ''GET'', slotHeaders = (\<lambda>h. if h = SESSION_SLOT_HEADER then Some '' u2'' else None), slotUrl = ''/inbox''\<rparr>"

theorem slots_do_not_mix_witness:
  "sessionTokenFromCookie ''a'' (Some slot_header) (Some ''u2'') auth_env ann_world = (Inr (Some ''other''), ann_world)"
proof -
  have name: "session_cookie_name auth_config None = ''structure_session''" by (simp add: session_cookie_name_def auth_config_def)
  have "requestedSlot (\<lambda>q n. []) slot_request = Slot ''u2''" by code_simp
  moreover have "readable ''structure_session'' slot_header" by (simp add: readable_def slot_header_def MAX_COOKIE_HEADER_LENGTH_def)
  moreover have "jsget (slotCookiesOf ''structure_session'' (Some slot_header)) ''u2'' = Some ''other''" by code_simp
  ultimately show ?thesis
    using slots_do_not_mix [OF _ auth_config_valid, of "\<lambda>q n. []" slot_request "Slot ''u2''" slot_header ann_world] by (simp add: name)
qed

end
