(* ===== verification/Scheduler.thy ===== *)
theory Scheduler
  imports Cron Json Complex_Main
begin

section \<open>The job scheduler\<close>

text \<open>
  \<open>packages/jobs/src/scheduler.ts\<close>: the queue of delayed and recurring jobs, the statements the scheduler and its workers
  run on it, and what a worker does with a job it claimed. The database runs each statement on its own, so a statement is a
  function on the tables; what it does when the database does not answer is a branch of the operation that sends it. Of the
  two tables \<open>queue\<close> is kept in the order the rows were inserted. Times are milliseconds since the epoch. Logging is left out;
  the counters are those of all workers together. Handlers, payload codecs, clocks, random sources and the zone formatter are
  parameters.
\<close>

subsection \<open>Jobs, handlers and failures\<close>

datatype JobClassification = TransientFailure | PermanentFailure

record JobFailure =
  failureReason :: string
  failureClass :: JobClassification

datatype JobError =
    InvalidJobPayload string string
  | JobQueueError string
  | BadCron InvalidCronExpression

text \<open>How a handler ends: a value, one expected failure, or any other cause (a defect, an interruption, a compound cause).\<close>

datatype HandlerExit = HandlerSucceeds | HandlerFails JobFailure | HandlerBreaks string

datatype WorkerError = QueueFailed JobError | HandlerCause string

record JobRef =
  refName :: string
  encodesPayload :: "json \<Rightarrow> (string, string) result"

record JobContext =
  contextJobId :: string
  contextAttempt :: nat
  scheduledFor :: int

record StoredJobHandler =
  handlerName :: string
  decodesPayload :: "string \<Rightarrow> (string, json) result"
  handles :: "json \<Rightarrow> JobContext \<Rightarrow> HandlerExit"
  handlerMaxAttempts :: "int option"

type_synonym JobHandlers = "(string, StoredJobHandler) jsmap"

record ScheduleOptions =
  delayMillis :: "int option"
  scheduleCorrelation :: "string option"

record RecurOptions =
  recurCron :: string
  recurTimezone :: "string option"
  scheduleKey :: "string option"
  recurCorrelation :: "string option"

subsection \<open>The tables\<close>

datatype JobStatus = Queued | Running

record JobRow =
  rowId :: string
  rowJob :: string
  rowPayload :: string
  rowStatus :: JobStatus
  rowRunAt :: int
  rowCron :: "string option"
  rowTimezone :: "string option"
  rowAttempt :: nat
  rowMaxAttempts :: int
  rowLeaseExpires :: "int option"
  rowLeaseOwner :: "string option"
  rowLastError :: "string option"
  rowCorrelation :: "string option"
  rowCreatedAt :: int
  rowUpdatedAt :: int

record DeadLetter =
  deadId :: string
  deadJob :: string
  deadPayload :: string
  deadAttempts :: nat
  deadError :: string
  deadCorrelation :: "string option"
  deadAt :: int

record JobTables =
  queue :: "JobRow list"
  deadJobs :: "DeadLetter list"
  dispatchedTotal :: nat
  succeededTotal :: nat
  retriedTotal :: nat
  deadLetteredTotal :: nat

definition no_jobs :: JobTables where
  "no_jobs = \<lparr>queue = [], deadJobs = [], dispatchedTotal = 0, succeededTotal = 0, retriedTotal = 0, deadLetteredTotal = 0\<rparr>"

text \<open>What a claim returns of a row: the job as it was claimed, with the token of the claim.\<close>

record QueueRow =
  heldId :: string
  heldJob :: string
  heldPayload :: string
  heldAttempt :: nat
  heldMaxAttempts :: int
  heldCron :: "string option"
  heldTimezone :: "string option"
  heldCorrelation :: "string option"
  heldRunAt :: int
  heldOwner :: string

text \<open>
  What surrounds one operation: whether the database answers its \<open>k\<close>-th statement, its \<open>k\<close>-th reading of the clock, the random
  number and the identifier it draws, the correlation of the calling fiber, and the wall clocks of the zones.
\<close>

record JobEnv =
  answers :: "nat \<Rightarrow> bool"
  nowAt :: "nat \<Rightarrow> int"
  randomDraw :: rat
  jobUuid :: string
  fiberCorrelation :: "string option"
  zoneClock :: "string \<Rightarrow> int \<Rightarrow> FormatParts"

subsection \<open>Backoff\<close>

definition js_round :: "rat \<Rightarrow> int" where
  "js_round x = \<lfloor>x + 1 / 2\<rfloor>"

definition backoffMillis :: "nat \<Rightarrow> rat \<Rightarrow> rat option \<Rightarrow> rat option \<Rightarrow> int" where
  "backoffMillis attempt draw baseMillis capMillis =
     (let exponential = min (getOr 1000 baseMillis * 2 ^ (attempt - 1)) (getOr (5 * 60000) capMillis) in
      js_round (exponential * (1 / 2 + draw)))"

definition maxAttemptsFor :: "JobHandlers \<Rightarrow> string \<Rightarrow> int" where
  "maxAttemptsFor handlers name =
     getOr 5 (case jsget handlers name of None \<Rightarrow> None | Some h \<Rightarrow> handlerMaxAttempts h)"

subsection \<open>Writes under the token of a claim\<close>

definition fences :: "QueueRow \<Rightarrow> JobRow \<Rightarrow> bool" where
  "fences row r \<longleftrightarrow> rowId r = heldId row \<and> rowStatus r = Running \<and> rowLeaseOwner r = Some (heldOwner row)"

text \<open>The statement gives what becomes of a row it affects; \<open>None\<close> deletes it.\<close>

definition fenced_write :: "QueueRow \<Rightarrow> (JobRow \<Rightarrow> JobRow option) \<Rightarrow> JobTables \<Rightarrow> bool \<times> JobTables" where
  "fenced_write row statement st =
     (list_ex (fences row) (queue st),
      st\<lparr>queue := List.map_filter (\<lambda>r. if fences row r then statement r else Some r) (queue st)\<rparr>)"

definition dead_letter :: "QueueRow \<Rightarrow> string \<Rightarrow> JobEnv \<Rightarrow> DeadLetter" where
  "dead_letter row reason env =
     \<lparr>deadId = jobUuid env, deadJob = heldJob row, deadPayload = heldPayload row, deadAttempts = heldAttempt row,
      deadError = take 2048 reason, deadCorrelation = heldCorrelation row, deadAt = nowAt env 0\<rparr>"

definition deadLetter :: "QueueRow \<Rightarrow> string \<Rightarrow> JobEnv \<Rightarrow> JobTables \<Rightarrow> (JobError, unit) result \<times> JobTables" where
  "deadLetter row reason env st =
     (let (owned, st1) = fenced_write row (\<lambda>r. None) st in
      if \<not> answers env 0 then (Inl (JobQueueError ''dead-letter''), st)
      else if \<not> owned then (Inr (), st)
      else if \<not> answers env 1 \<or> jobUuid env \<in> deadId ` set (deadJobs st) then (Inl (JobQueueError ''dead-letter''), st)
      else (Inr (), st1\<lparr>deadJobs := deadJobs st1 @ [dead_letter row reason env],
                        deadLetteredTotal := Suc (deadLetteredTotal st1)\<rparr>))"

definition requeued :: "int \<Rightarrow> int \<Rightarrow> JobRow \<Rightarrow> JobRow" where
  "requeued runAt stamp r =
     r\<lparr>rowStatus := Queued, rowRunAt := runAt, rowLeaseExpires := None, rowLeaseOwner := None, rowUpdatedAt := stamp\<rparr>"

text \<open>The next run of a recurring job: strictly after its scheduled time and now, so missed runs are skipped.\<close>

definition next_after :: "QueueRow \<Rightarrow> CronFields \<Rightarrow> JobEnv \<Rightarrow> int option" where
  "next_after row cron env =
     nextRun (max (heldRunAt row) (nowAt env 0)) cron (zoneClock env (getOr ''UTC'' (heldTimezone row)))"

definition completeSuccess :: "QueueRow \<Rightarrow> JobEnv \<Rightarrow> JobTables \<Rightarrow> (JobError, unit) result \<times> JobTables" where
  "completeSuccess row env st =
     (let write = (\<lambda>statement. if answers env 0 then (Inr (), snd (fenced_write row statement st))
                               else (Inl (JobQueueError ''complete-success''), st)) in
      case heldCron row of
        None \<Rightarrow> write (\<lambda>r. None)
      | Some expression \<Rightarrow>
          (case parseCron expression of
             Inl bad \<Rightarrow> (Inl (JobQueueError ''complete-success''), st)
           | Inr cron \<Rightarrow>
               (case next_after row cron env of
                  None \<Rightarrow> write (\<lambda>r. None)
                | Some next_run \<Rightarrow> write (\<lambda>r. Some ((requeued next_run (nowAt env 1) r)\<lparr>rowAttempt := 0\<rparr>)))))"

definition rescheduleRetry :: "QueueRow \<Rightarrow> string \<Rightarrow> JobEnv \<Rightarrow> JobTables \<Rightarrow> (JobError, unit) result \<times> JobTables" where
  "rescheduleRetry row reason env st =
     (let backoff = backoffMillis (heldAttempt row) (randomDraw env) None None;
          (owned, st1) = fenced_write row
            (\<lambda>r. Some ((requeued (nowAt env 0 + backoff) (nowAt env 1) r)\<lparr>rowLastError := Some (take 2048 reason)\<rparr>)) st in
      if \<not> answers env 0 then (Inl (JobQueueError ''reschedule-retry''), st)
      else if \<not> owned then (Inr (), st)
      else (Inr (), st1\<lparr>retriedTotal := Suc (retriedTotal st1)\<rparr>))"

text \<open>One beat of the heartbeat that runs beside a handler.\<close>

definition heartbeat :: "int \<Rightarrow> QueueRow \<Rightarrow> JobEnv \<Rightarrow> JobTables \<Rightarrow> (JobError, unit) result \<times> JobTables" where
  "heartbeat leaseMillis row env st =
     (if \<not> answers env 0 then (Inl (JobQueueError ''heartbeat''), st)
      else (Inr (), snd (fenced_write row (\<lambda>r. Some (r\<lparr>rowLeaseExpires := Some (nowAt env 0 + leaseMillis)\<rparr>)) st)))"

text \<open>The shutdown drain gave up: the rows in flight go back to the queue, one statement each, up to one that fails.\<close>

fun abandonDrain :: "QueueRow list \<Rightarrow> nat \<Rightarrow> JobEnv \<Rightarrow> JobTables \<Rightarrow> JobTables" where
  "abandonDrain [] k env st = st"
| "abandonDrain (row # rows) k env st =
     (if \<not> answers env k then st
      else abandonDrain rows (Suc k) env
        (snd (fenced_write row (\<lambda>r. Some (requeued (nowAt env 0) (nowAt env 0) r)) st)))"

subsection \<open>Claims\<close>

definition claimable :: "int \<Rightarrow> JobRow \<Rightarrow> bool" where
  "claimable t r \<longleftrightarrow> rowStatus r = Queued \<and> rowRunAt r \<le> t
     \<or> rowStatus r = Running \<and> (case rowLeaseExpires r of Some u \<Rightarrow> u \<le> t | None \<Rightarrow> False)"

definition held_row :: "string \<Rightarrow> JobRow \<Rightarrow> QueueRow" where
  "held_row owner r =
     \<lparr>heldId = rowId r, heldJob = rowJob r, heldPayload = rowPayload r, heldAttempt = Suc (rowAttempt r),
      heldMaxAttempts = rowMaxAttempts r, heldCron = rowCron r, heldTimezone = rowTimezone r,
      heldCorrelation = rowCorrelation r, heldRunAt = rowRunAt r, heldOwner = owner\<rparr>"

text \<open>
  The rows a claim picks: the most overdue ones among those no other transaction has locked (\<open>SKIP LOCKED\<close>). SQL leaves open
  the order of rows with the same time and the order of the rows returned; here both are the order of the queue and of the pick.
\<close>

definition picked :: "nat \<Rightarrow> string list \<Rightarrow> int \<Rightarrow> JobTables \<Rightarrow> JobRow list" where
  "picked claimBatch locked t st =
     take claimBatch (sort_key rowRunAt (filter (\<lambda>r. claimable t r \<and> rowId r \<notin> set locked) (queue st)))"

definition claim_jobs ::
  "nat \<Rightarrow> int \<Rightarrow> string list \<Rightarrow> JobEnv \<Rightarrow> JobTables \<Rightarrow> (JobError, QueueRow list) result \<times> JobTables" where
  "claim_jobs claimBatch leaseMillis locked env st =
     (let t = nowAt env 0; owner = jobUuid env; rows = picked claimBatch locked t st in
      if \<not> answers env 0 then (Inl (JobQueueError ''claim''), st)
      else (Inr (map (held_row owner) rows),
            st\<lparr>queue := map (\<lambda>r. if rowId r \<in> rowId ` set rows
                  then r\<lparr>rowStatus := Running, rowAttempt := Suc (rowAttempt r), rowLeaseExpires := Some (t + leaseMillis),
                         rowLeaseOwner := Some owner, rowUpdatedAt := t\<rparr>
                  else r) (queue st),
               dispatchedTotal := dispatchedTotal st + length rows\<rparr>))"

subsection \<open>What a worker does with a claimed job\<close>

definition exhausted :: "JobHandlers \<Rightarrow> QueueRow \<Rightarrow> bool" where
  "exhausted handlers row \<longleftrightarrow>
     (if heldMaxAttempts row \<noteq> 0 then heldMaxAttempts row else maxAttemptsFor handlers (heldJob row)) \<le> int (heldAttempt row)"

definition job_context :: "QueueRow \<Rightarrow> JobContext" where
  "job_context row = \<lparr>contextJobId = heldId row, contextAttempt = heldAttempt row, scheduledFor = heldRunAt row\<rparr>"

definition queue_failed :: "(JobError, unit) result \<times> JobTables \<Rightarrow> (WorkerError, unit) result \<times> JobTables" where
  "queue_failed x = (map_sum QueueFailed id (fst x), snd x)"

definition runOutcome :: "JobHandlers \<Rightarrow> QueueRow \<Rightarrow> JobEnv \<Rightarrow> JobTables \<Rightarrow> (WorkerError, unit) result \<times> JobTables" where
  "runOutcome handlers row env st =
     (case jsget handlers (heldJob row) of
        None \<Rightarrow> queue_failed (deadLetter row ''unknown-job'' env st)
      | Some handler \<Rightarrow>
          (case decodesPayload handler (heldPayload row) of
             Inl problem \<Rightarrow> queue_failed (deadLetter row (''invalid-payload: '' @ take 128 problem) env st)
           | Inr input \<Rightarrow>
               (case handles handler input (job_context row) of
                  HandlerSucceeds \<Rightarrow>
                    queue_failed (completeSuccess row env (st\<lparr>succeededTotal := Suc (succeededTotal st)\<rparr>))
                | HandlerBreaks why \<Rightarrow> (Inl (HandlerCause why), st)
                | HandlerFails failure \<Rightarrow>
                    if failureClass failure = PermanentFailure \<or> exhausted handlers row
                    then queue_failed (deadLetter row (failureReason failure) env st)
                    else queue_failed (rescheduleRetry row (failureReason failure) env st))))"

subsection \<open>The worker loop\<close>

record WorkerOptions =
  batchOption :: "int option"
  concurrencyOption :: "int option"
  leaseOption :: "int option"

record JobWorker =
  claimBatch :: int
  concurrency :: int
  leaseMillis :: int
  inflight :: "QueueRow list"
  stopRequested :: bool

definition new_worker :: "WorkerOptions \<Rightarrow> JobWorker" where
  "new_worker options =
     (let batch = max 1 (getOr 10 (batchOption options)) in
      \<lparr>claimBatch = batch, concurrency = max 1 (getOr batch (concurrencyOption options)),
       leaseMillis = getOr 60000 (leaseOption options), inflight = [], stopRequested = False\<rparr>)"

definition capacity :: "JobWorker \<Rightarrow> int" where
  "capacity w = min (claimBatch w) (concurrency w - int (length (inflight w)))"

text \<open>
  One turn of the loop: nothing once the worker is to stop, a wait while it is full, otherwise a claim of as many rows as there
  are free slots, each of which starts executing.
\<close>

definition worker_turn ::
  "bool \<Rightarrow> string list \<Rightarrow> JobEnv \<Rightarrow> JobWorker \<Rightarrow> JobTables \<Rightarrow> (JobError, JobWorker) result \<times> JobTables" where
  "worker_turn shuttingDown locked env w st =
     (if stopRequested w then (Inr w, st)
      else if shuttingDown then (Inr (w\<lparr>stopRequested := True\<rparr>), st)
      else if capacity w \<le> 0 then (Inr w, st)
      else let (claimed, st1) = claim_jobs (nat (capacity w)) (leaseMillis w) locked env st in
        (map_sum id (\<lambda>rows. w\<lparr>inflight := inflight w @ rows\<rparr>) claimed, st1))"

subsection \<open>The operations of the service\<close>

definition register_job :: "StoredJobHandler \<Rightarrow> JobHandlers \<Rightarrow> JobHandlers" where
  "register_job handler handlers = jsset (handlerName handler) handler handlers"

definition registeredJobs :: "JobHandlers \<Rightarrow> string list" where
  "registeredJobs handlers = jskeys handlers"

definition schedule_job ::
  "JobHandlers \<Rightarrow> JobRef \<Rightarrow> json \<Rightarrow> ScheduleOptions \<Rightarrow> JobEnv \<Rightarrow> JobTables \<Rightarrow> (JobError, string) result \<times> JobTables" where
  "schedule_job handlers job input options env st =
     (case encodesPayload job input of
        Inl cause \<Rightarrow> (Inl (InvalidJobPayload (refName job) cause), st)
      | Inr encoded \<Rightarrow>
          let correlation = (case scheduleCorrelation options of Some c \<Rightarrow> Some c | None \<Rightarrow> fiberCorrelation env);
              fireAt = nowAt env 0 + getOr 0 (delayMillis options);
              row = \<lparr>rowId = jobUuid env, rowJob = refName job, rowPayload = encoded, rowStatus = Queued, rowRunAt = fireAt,
                     rowCron = None, rowTimezone = None, rowAttempt = 0, rowMaxAttempts = maxAttemptsFor handlers (refName job),
                     rowLeaseExpires = None, rowLeaseOwner = None, rowLastError = None, rowCorrelation = correlation,
                     rowCreatedAt = nowAt env 1, rowUpdatedAt = nowAt env 2\<rparr> in
          if \<not> answers env 0 \<or> jobUuid env \<in> rowId ` set (queue st) then (Inl (JobQueueError ''schedule''), st)
          else (Inr (jobUuid env), st\<lparr>queue := queue st @ [row]\<rparr>))"

text \<open>The columns \<open>recur\<close> replaces when a row with the key exists (\<open>ON CONFLICT DO UPDATE\<close>).\<close>

definition recur_again :: "JobRow \<Rightarrow> JobRow \<Rightarrow> JobRow" where
  "recur_again excluded r =
     r\<lparr>rowPayload := rowPayload excluded, rowRunAt := rowRunAt excluded, rowCron := rowCron excluded,
       rowTimezone := rowTimezone excluded, rowStatus := Queued, rowAttempt := 0, rowLeaseExpires := None,
       rowCorrelation := rowCorrelation excluded, rowUpdatedAt := rowUpdatedAt excluded\<rparr>"

definition recur_job ::
  "JobHandlers \<Rightarrow> JobRef \<Rightarrow> json \<Rightarrow> RecurOptions \<Rightarrow> JobEnv \<Rightarrow> JobTables \<Rightarrow> (JobError, string) result \<times> JobTables" where
  "recur_job handlers job input options env st =
     (case parseCron (recurCron options) of
        Inl bad \<Rightarrow> (Inl (BadCron bad), st)
      | Inr cron \<Rightarrow>
          (case encodesPayload job input of
             Inl cause \<Rightarrow> (Inl (InvalidJobPayload (refName job) cause), st)
           | Inr encoded \<Rightarrow>
               (case nextRun (nowAt env 0) cron (zoneClock env (getOr ''UTC'' (recurTimezone options))) of
                  None \<Rightarrow> (Inl (BadCron \<lparr>badExpression = recurCron options, problems = [''never fires'']\<rparr>), st)
                | Some first_run \<Rightarrow>
                    let jobId = getOr (jobUuid env) (scheduleKey options);
                        correlation = (case recurCorrelation options of Some c \<Rightarrow> Some c | None \<Rightarrow> fiberCorrelation env);
                        row = \<lparr>rowId = jobId, rowJob = refName job, rowPayload = encoded, rowStatus = Queued,
                               rowRunAt = first_run, rowCron = Some (recurCron options),
                               rowTimezone = Some (getOr ''UTC'' (recurTimezone options)), rowAttempt = 0,
                               rowMaxAttempts = maxAttemptsFor handlers (refName job), rowLeaseExpires = None,
                               rowLeaseOwner = None, rowLastError = None, rowCorrelation = correlation,
                               rowCreatedAt = nowAt env 1, rowUpdatedAt = nowAt env 2\<rparr> in
                    if \<not> answers env 0 then (Inl (JobQueueError ''recur''), st)
                    else if jobId \<in> rowId ` set (queue st)
                    then (Inr jobId, st\<lparr>queue := map (\<lambda>r. if rowId r = jobId then recur_again row r else r) (queue st)\<rparr>)
                    else (Inr jobId, st\<lparr>queue := queue st @ [row]\<rparr>))))"

definition cancel_job :: "string \<Rightarrow> JobEnv \<Rightarrow> JobTables \<Rightarrow> (JobError, unit) result \<times> JobTables" where
  "cancel_job jobId env st =
     (if \<not> answers env 0 then (Inl (JobQueueError ''cancel''), st)
      else (Inr (), st\<lparr>queue := filter (\<lambda>r. rowId r \<noteq> jobId) (queue st)\<rparr>))"

definition queue_depth :: "JobEnv \<Rightarrow> JobTables \<Rightarrow> (JobError, nat) result" where
  "queue_depth env st = (if answers env 0 then Inr (length (queue st)) else Inl (JobQueueError ''depth''))"

definition lagMillis :: "JobEnv \<Rightarrow> JobTables \<Rightarrow> (JobError, int) result" where
  "lagMillis env st =
     (let waiting = map rowRunAt (filter (\<lambda>r. rowStatus r = Queued \<and> rowRunAt r \<le> nowAt env 1) (queue st)) in
      if \<not> answers env 0 then Inl (JobQueueError ''lag'')
      else Inr (if waiting = [] then 0 else max 0 (nowAt env 0 - Min (set waiting))))"

text \<open>\<open>readiness.ts\<close>: ready while the depth and the lag are within their bounds; an unreachable queue is not ready.\<close>

definition jobsReadinessCheck :: "nat option \<Rightarrow> int option \<Rightarrow> JobEnv \<Rightarrow> JobEnv \<Rightarrow> JobTables \<Rightarrow> bool" where
  "jobsReadinessCheck maxDepth maxLagMillis env1 env2 st =
     ((case queue_depth env1 st of Inl e \<Rightarrow> False | Inr d \<Rightarrow> d \<le> getOr 10000 maxDepth)
      \<and> (case lagMillis env2 st of Inl e \<Rightarrow> False | Inr l \<Rightarrow> l \<le> getOr (5 * 60000) maxLagMillis))"

subsection \<open>Supervision\<close>

text \<open>
  \<open>layer.ts\<close>: the worker layer starts nothing in the \<open>api\<close> role, runs the worker once without restart, and otherwise runs it
  again after a backoff until a run ends cleanly or is interrupted. The runs end as the list says; the trace shows the readiness
  flag while each run lasts and after it, and the backoffs slept.
\<close>

datatype WorkerRole = ApiRole | WorkerRole | AllRoles

datatype RunExit = CleanExit | InterruptedExit | FailedExit

datatype Supervised = RunStarts | RunEnds bool | Sleeps int

record WorkerRestartOptions =
  restartBase :: "rat option"
  restartCap :: "rat option"

fun supervise :: "WorkerRestartOptions \<Rightarrow> (nat \<Rightarrow> rat) \<Rightarrow> nat \<Rightarrow> RunExit list \<Rightarrow> Supervised list" where
  "supervise policy draw failures [] = []"
| "supervise policy draw failures (e # es) =
     RunStarts # RunEnds False #
       (if e \<noteq> FailedExit then []
        else Sleeps (backoffMillis (Suc failures) (draw failures) (restartBase policy) (restartCap policy))
          # supervise policy draw (Suc failures) es)"

definition workerLayer ::
  "WorkerRole option \<Rightarrow> WorkerRestartOptions option \<Rightarrow> (nat \<Rightarrow> rat) \<Rightarrow> RunExit list \<Rightarrow> Supervised list" where
  "workerLayer role restart draw exits =
     (if getOr AllRoles role = ApiRole then []
      else case restart of
        None \<Rightarrow> (case exits of [] \<Rightarrow> [] | e # es \<Rightarrow> [RunStarts, RunEnds False])
      | Some policy \<Rightarrow> supervise policy draw 0 exits)"

end
