(* ===== verification/JobSystem.thy ===== *)
theory JobSystem
  imports Scheduler
begin

section \<open>Workers over one queue\<close>

text \<open>
  Any number of processes schedule, recur and cancel jobs on one queue while workers start, take turns, beat, settle the jobs
  they run, abandon a drain and fail, in every order the database's statements can be interleaved. A step relation over the
  tables and the workers, with the tokens minted so far, and the facts about single steps the properties are built from.
\<close>

record JobSystem =
  tables :: JobTables
  fleet :: "(string, JobWorker) jsmap"
  minted :: "string list"

datatype JobEvent =
    Schedules JobHandlers JobRef json ScheduleOptions JobEnv
  | Recurs JobHandlers JobRef json RecurOptions JobEnv
  | Cancels string JobEnv
  | Joins string WorkerOptions
  | Turns string bool "string list" JobEnv
  | Beats string QueueRow JobEnv
  | Settles string QueueRow JobHandlers JobEnv
  | Abandons string JobEnv
  | Breaks string

definition new_system :: JobSystem where
  "new_system = \<lparr>tables = no_jobs, fleet = [], minted = []\<rparr>"

text \<open>
  A worker whose claim, beat or settlement fails stops with everything it runs; its name may join again. Claims draw tokens
  never drawn before, as \<open>crypto.randomUUID\<close> is documented to do.
\<close>

inductive job_step :: "JobSystem \<Rightarrow> JobEvent \<Rightarrow> JobSystem \<Rightarrow> bool" where
  schedules: "job_step s (Schedules handlers job input options env)
    (s\<lparr>tables := snd (schedule_job handlers job input options env (tables s))\<rparr>)"
| recurs: "job_step s (Recurs handlers job input options env)
    (s\<lparr>tables := snd (recur_job handlers job input options env (tables s))\<rparr>)"
| cancels: "job_step s (Cancels jobId env) (s\<lparr>tables := snd (cancel_job jobId env (tables s))\<rparr>)"
| joins: "jsget (fleet s) name = None \<Longrightarrow>
    job_step s (Joins name options) (s\<lparr>fleet := jsset name (new_worker options) (fleet s)\<rparr>)"
| turns: "jsget (fleet s) name = Some w \<Longrightarrow> jobUuid env \<notin> set (minted s) \<Longrightarrow>
    worker_turn shuttingDown locked env w (tables s) = (Inr w', st) \<Longrightarrow>
    job_step s (Turns name shuttingDown locked env)
      (s\<lparr>tables := st, fleet := jsset name w' (fleet s), minted := minted s @ [jobUuid env]\<rparr>)"
| turn_fails: "jsget (fleet s) name = Some w \<Longrightarrow>
    worker_turn shuttingDown locked env w (tables s) = (Inl e, st) \<Longrightarrow>
    job_step s (Turns name shuttingDown locked env) (s\<lparr>tables := st, fleet := jsdelete name (fleet s)\<rparr>)"
| beats: "jsget (fleet s) name = Some w \<Longrightarrow> row \<in> set (inflight w) \<Longrightarrow>
    heartbeat (leaseMillis w) row env (tables s) = (Inr (), st) \<Longrightarrow> job_step s (Beats name row env) (s\<lparr>tables := st\<rparr>)"
| beat_fails: "jsget (fleet s) name = Some w \<Longrightarrow> row \<in> set (inflight w) \<Longrightarrow>
    heartbeat (leaseMillis w) row env (tables s) = (Inl e, st) \<Longrightarrow>
    job_step s (Beats name row env) (s\<lparr>tables := st, fleet := jsdelete name (fleet s)\<rparr>)"
| settles: "jsget (fleet s) name = Some w \<Longrightarrow> row \<in> set (inflight w) \<Longrightarrow>
    runOutcome handlers row env (tables s) = (Inr (), st) \<Longrightarrow>
    job_step s (Settles name row handlers env)
      (s\<lparr>tables := st, fleet := jsset name (w\<lparr>inflight := remove1 row (inflight w)\<rparr>) (fleet s)\<rparr>)"
| settle_fails: "jsget (fleet s) name = Some w \<Longrightarrow> row \<in> set (inflight w) \<Longrightarrow>
    runOutcome handlers row env (tables s) = (Inl e, st) \<Longrightarrow>
    job_step s (Settles name row handlers env) (s\<lparr>tables := st, fleet := jsdelete name (fleet s)\<rparr>)"
| abandons: "jsget (fleet s) name = Some w \<Longrightarrow>
    job_step s (Abandons name env) (s\<lparr>tables := abandonDrain (inflight w) 0 env (tables s)\<rparr>)"
| breaks: "job_step s (Breaks name) (s\<lparr>fleet := jsdelete name (fleet s)\<rparr>)"

inductive job_run :: "JobSystem \<Rightarrow> JobEvent list \<Rightarrow> JobSystem \<Rightarrow> bool" where
  job_run_Nil: "job_run s [] s"
| job_run_Cons: "job_step s ev s1 \<Longrightarrow> job_run s1 evs s2 \<Longrightarrow> job_run s (ev # evs) s2"

inductive_simps job_run_Nil_iff: "job_run s [] s2"
inductive_simps job_run_Cons_iff: "job_run s (ev # evs) s2"

subsection \<open>Writes under a token\<close>

definition fenced_rows :: "QueueRow \<Rightarrow> (JobRow \<Rightarrow> JobRow option) \<Rightarrow> JobRow list \<Rightarrow> JobRow list" where
  "fenced_rows row statement rows = List.map_filter (\<lambda>r. if fences row r then statement r else Some r) rows"

text \<open>The worker holds the lease of the row it claimed.\<close>

definition holds_lease :: "QueueRow \<Rightarrow> JobTables \<Rightarrow> bool" where
  "holds_lease row st \<longleftrightarrow> (\<exists>r \<in> set (queue st). fences row r)"

lemma fenced_write_eq: "fenced_write row f st = (holds_lease row st, st\<lparr>queue := fenced_rows row f (queue st)\<rparr>)"
  by (simp add: fenced_write_def fenced_rows_def holds_lease_def list_ex_iff)

lemma in_fenced_rows:
  "r' \<in> set (fenced_rows row f rows) \<longleftrightarrow>
    (r' \<in> set rows \<and> \<not> fences row r') \<or> (\<exists>r \<in> set rows. fences row r \<and> f r = Some r')"
  by (force simp: fenced_rows_def List.map_filter_def split: if_splits)

lemma fenced_rows_none: "(\<And>r. r \<in> set rows \<Longrightarrow> \<not> fences row r) \<Longrightarrow> fenced_rows row f rows = rows"
  by (induction rows) (auto simp: fenced_rows_def List.map_filter_simps)

lemma fenced_rows_unowned: "\<not> holds_lease row st \<Longrightarrow> fenced_rows row f (queue st) = queue st"
  by (rule fenced_rows_none) (simp add: holds_lease_def)

lemma ids_fenced_update:
  assumes "\<And>r. rowId (g r) = rowId r"
  shows "map rowId (fenced_rows row (\<lambda>r. Some (g r)) rows) = map rowId rows"
  by (induction rows) (auto simp: fenced_rows_def List.map_filter_simps assms)

lemma fenced_delete: "fenced_rows row (\<lambda>r. None) rows = filter (\<lambda>r. \<not> fences row r) rows"
  by (induction rows) (auto simp: fenced_rows_def List.map_filter_simps)

text \<open>How the handler of a claimed job ends, when it gets to run.\<close>

definition handler_exit :: "JobHandlers \<Rightarrow> QueueRow \<Rightarrow> HandlerExit option" where
  "handler_exit handlers row =
     (case jsget handlers (heldJob row) of
        None \<Rightarrow> None
      | Some h \<Rightarrow> (case decodesPayload h (heldPayload row) of
            Inl problem \<Rightarrow> None
          | Inr input \<Rightarrow> Some (handles h input (job_context row))))"

text \<open>A row that waits in the queue and belongs to nobody.\<close>

definition released :: "(JobRow \<Rightarrow> JobRow) \<Rightarrow> bool" where
  "released g \<longleftrightarrow> (\<forall>r. rowId (g r) = rowId r \<and> rowJob (g r) = rowJob r \<and> rowPayload (g r) = rowPayload r
      \<and> rowStatus (g r) = Queued \<and> rowLeaseExpires (g r) = None \<and> rowLeaseOwner (g r) = None)"

lemma released_requeued:
  "released (requeued t u)" "released (\<lambda>r. (requeued t u r)\<lparr>rowAttempt := n\<rparr>)"
  "released (\<lambda>r. (requeued t u r)\<lparr>rowLastError := e\<rparr>)"
  by (simp_all add: released_def requeued_def)

text \<open>The four things a settlement does to the tables.\<close>

datatype Settlement = Kept | Finished | Requeued | Buried string

fun settled_to :: "Settlement \<Rightarrow> QueueRow \<Rightarrow> JobEnv \<Rightarrow> JobTables \<Rightarrow> JobTables \<Rightarrow> bool" where
  "settled_to Kept row env st st' \<longleftrightarrow> queue st' = queue st \<and> deadJobs st' = deadJobs st"
| "settled_to Finished row env st st' \<longleftrightarrow>
     holds_lease row st \<and> queue st' = filter (\<lambda>r. \<not> fences row r) (queue st) \<and> deadJobs st' = deadJobs st"
| "settled_to Requeued row env st st' \<longleftrightarrow>
     holds_lease row st \<and> (\<exists>g. released g \<and> queue st' = fenced_rows row (\<lambda>r. Some (g r)) (queue st)) \<and> deadJobs st' = deadJobs st"
| "settled_to (Buried reason) row env st st' \<longleftrightarrow>
     holds_lease row st \<and> queue st' = filter (\<lambda>r. \<not> fences row r) (queue st)
     \<and> deadJobs st' = deadJobs st @ [dead_letter row reason env] \<and> jobUuid env \<notin> deadId ` set (deadJobs st)"

lemma deadLetter_settles:
  "deadLetter row reason env st = (res, st') \<Longrightarrow>
    settled_to Kept row env st st' \<or> res = Inr () \<and> settled_to (Buried reason) row env st st'"
  by (auto simp: deadLetter_def fenced_write_eq fenced_delete Let_def split: if_splits)

lemma completeSuccess_settles:
  assumes "completeSuccess row env st = (res, st')"
  shows "settled_to Kept row env st st' \<or> res = Inr () \<and> (settled_to Finished row env st st' \<or> settled_to Requeued row env st st')"
proof (cases "holds_lease row st")
  case True
  with assms show ?thesis
    by (auto simp: completeSuccess_def fenced_write_eq fenced_delete Let_def split: option.splits sum.splits if_splits
        intro: released_requeued)
next
  case False
  with assms show ?thesis
    by (auto simp: completeSuccess_def fenced_write_eq fenced_rows_unowned Let_def split: option.splits sum.splits if_splits)
qed

lemma rescheduleRetry_settles:
  assumes "rescheduleRetry row reason env st = (res, st')"
  shows "settled_to Kept row env st st' \<or> res = Inr () \<and> settled_to Requeued row env st st'"
  using assms by (auto simp: rescheduleRetry_def fenced_write_eq Let_def split: if_splits intro: released_requeued)

lemma settled_to_counters [simp]:
  "settled_to x row env (st\<lparr>succeededTotal := n\<rparr>) st' = settled_to x row env st st'"
  by (cases x) (simp_all add: holds_lease_def)

lemma runOutcome_settles:
  assumes "runOutcome handlers row env st = (res, st')"
  obtains (kept) "settled_to Kept row env st st'"
  | (finished) "res = Inr ()" "settled_to Finished row env st st'" "handler_exit handlers row = Some HandlerSucceeds"
  | (requeued) "res = Inr ()" "settled_to Requeued row env st st'"
  | (buried) reason where "res = Inr ()" "settled_to (Buried reason) row env st st'"
proof -
  have dead: thesis if "queue_failed (deadLetter row reason env st) = (res, st')" for reason
    using that deadLetter_settles [of row reason env st] kept buried
    by (cases "deadLetter row reason env st") (auto simp: queue_failed_def)
  show thesis
  proof (cases "handler_exit handlers row")
    case None
    with assms dead show thesis by (auto simp: runOutcome_def handler_exit_def split: option.splits sum.splits)
  next
    case (Some ended)
    then obtain h input where run: "jsget handlers (heldJob row) = Some h" "decodesPayload h (heldPayload row) = Inr input"
      "handles h input (job_context row) = ended"
      by (auto simp: handler_exit_def split: option.splits sum.splits)
    show thesis
    proof (cases ended)
      case HandlerSucceeds
      let ?st = "st\<lparr>succeededTotal := Suc (succeededTotal st)\<rparr>"
      obtain r1 where done': "completeSuccess row env ?st = (r1, st')" "res = map_sum QueueFailed id r1"
        using assms run HandlerSucceeds by (cases "completeSuccess row env ?st") (simp add: runOutcome_def queue_failed_def)
      from completeSuccess_settles [OF done'(1)] show thesis
        using done'(2) Some HandlerSucceeds kept finished requeued by (auto simp del: settled_to.simps)
    next
      case (HandlerFails failure)
      show thesis
      proof (cases "failureClass failure = PermanentFailure \<or> exhausted handlers row")
        case True
        with assms run HandlerFails dead show thesis by (simp add: runOutcome_def)
      next
        case False
        with assms run HandlerFails have "queue_failed (rescheduleRetry row (failureReason failure) env st) = (res, st')"
          by (simp add: runOutcome_def)
        then show thesis
          using rescheduleRetry_settles [of row "failureReason failure" env st] kept requeued
          by (cases "rescheduleRetry row (failureReason failure) env st") (auto simp: queue_failed_def simp del: settled_to.simps)
      qed
    next
      case (HandlerBreaks why)
      with assms run kept show thesis by (simp add: runOutcome_def)
    qed
  qed
qed

subsection \<open>Rows put back\<close>

definition put_back :: "JobRow \<Rightarrow> JobRow \<Rightarrow> bool" where
  "put_back r r' \<longleftrightarrow> r' = r \<or> (rowId r' = rowId r \<and> rowJob r' = rowJob r \<and> rowPayload r' = rowPayload r
      \<and> rowStatus r' = Queued \<and> rowLeaseOwner r' = None \<and> rowLeaseExpires r' = None)"

lemma put_back_trans: "put_back r r' \<Longrightarrow> put_back r' r'' \<Longrightarrow> put_back r r''"
  by (auto simp: put_back_def)

lemma fenced_update_rows:
  "fenced_rows row (\<lambda>r. Some (g r)) rows = map (\<lambda>r. if fences row r then g r else r) rows"
  by (induction rows) (auto simp: fenced_rows_def List.map_filter_simps)

lemma list_all2_map_self: "(\<And>r. r \<in> set rows \<Longrightarrow> P r (g r)) \<Longrightarrow> list_all2 P rows (map g rows)"
  by (simp add: list_all2_conv_all_nth)

lemma released_puts_back: "released g \<Longrightarrow> list_all2 put_back rows (fenced_rows row (\<lambda>r. Some (g r)) rows)"
  unfolding fenced_update_rows by (rule list_all2_map_self) (auto simp: put_back_def released_def)

lemma abandonDrain_rows:
  "list_all2 put_back (queue st) (queue (abandonDrain rows k env st)) \<and> deadJobs (abandonDrain rows k env st) = deadJobs st"
proof (induction rows k env st rule: abandonDrain.induct)
  case (2 row rows k env st)
  let ?st = "snd (fenced_write row (\<lambda>r. Some (requeued (nowAt env 0) (nowAt env 0) r)) st)"
  have "list_all2 put_back (queue st) (queue ?st)" "deadJobs ?st = deadJobs st"
    by (simp_all add: fenced_write_eq released_puts_back released_requeued)
  with 2 show ?case
    by (auto simp: list.rel_refl put_back_def [of r r for r] intro: list_all2_trans [where ?P1.0 = put_back and ?P2.0 = put_back] put_back_trans)
qed (simp add: list.rel_refl put_back_def)

end
