(* ===== verification/JobProofs.thy ===== *)
theory JobProofs
  imports JobSystem
begin

section \<open>Proofs about the job queue\<close>

text \<open>
  The invariant of the queue and its workers, what a step can do to one row and to one lease, and the two extremes of a job's
  life: the one that fails every time, and the one whose worker dies every time.
\<close>

subsection \<open>Single operations\<close>

lemma fences_unique:
  "distinct (map rowId rows) \<Longrightarrow> r \<in> set rows \<Longrightarrow> r' \<in> set rows \<Longrightarrow> fences row r \<Longrightarrow> fences row r' \<Longrightarrow> r = r'"
  by (auto simp: fences_def distinct_map inj_on_def)

definition claimed_row :: "string \<Rightarrow> int \<Rightarrow> int \<Rightarrow> JobRow \<Rightarrow> JobRow" where
  "claimed_row owner t lease r =
     r\<lparr>rowStatus := Running, rowAttempt := Suc (rowAttempt r), rowLeaseExpires := Some (t + lease), rowLeaseOwner := Some owner,
       rowUpdatedAt := t\<rparr>"

lemma claim_jobs_Inr:
  "claim_jobs n lease locked env st = (Inr rows, st') \<longleftrightarrow>
    answers env 0 \<and> rows = map (held_row (jobUuid env)) (picked n locked (nowAt env 0) st)
    \<and> st' = st\<lparr>queue := map (\<lambda>r. if rowId r \<in> rowId ` set (picked n locked (nowAt env 0) st)
                      then claimed_row (jobUuid env) (nowAt env 0) lease r else r) (queue st),
               dispatchedTotal := dispatchedTotal st + length rows\<rparr>"
  by (auto simp: claim_jobs_def claimed_row_def Let_def)

lemma claim_jobs_Inl: "claim_jobs n lease locked env st = (Inl e, st') \<Longrightarrow> st' = st"
  by (auto simp: claim_jobs_def Let_def split: if_splits)

lemma set_picked: "r \<in> set (picked n locked t st) \<Longrightarrow> r \<in> set (queue st) \<and> claimable t r \<and> rowId r \<notin> set locked"
  unfolding picked_def by (auto dest: in_set_takeD)

lemma length_picked: "length (picked n locked t st) \<le> n"
  by (simp add: picked_def)

lemma distinct_picked: "distinct (map rowId (queue st)) \<Longrightarrow> distinct (map rowId (picked n locked t st))"
  unfolding picked_def take_map [symmetric]
  by (rule distinct_take) (auto simp: distinct_map intro: inj_on_subset)

lemma worker_turn_cases:
  assumes "worker_turn sd locked env w st = (res, st')"
  obtains (idle) w' where "res = Inr w'" "st' = st" "inflight w' = inflight w" "concurrency w' = concurrency w" "claimBatch w' = claimBatch w"
  | (failed) e where "res = Inl e" "st' = st"
  | (claimed) rows where "res = Inr (w\<lparr>inflight := inflight w @ rows\<rparr>)" "0 < capacity w"
      "claim_jobs (nat (capacity w)) (leaseMillis w) locked env st = (Inr rows, st')"
proof (cases "stopRequested w \<or> sd \<or> capacity w \<le> 0")
  case True
  with assms idle show thesis by (auto simp: worker_turn_def split: if_splits)
next
  case False
  obtain found st1 where found: "claim_jobs (nat (capacity w)) (leaseMillis w) locked env st = (found, st1)" by force
  with False assms have "res = map_sum id (\<lambda>rows. w\<lparr>inflight := inflight w @ rows\<rparr>) found" "st' = st1"
    by (auto simp: worker_turn_def)
  with False found failed claimed show thesis by (cases found) (auto dest: claim_jobs_Inl)
qed

lemma schedule_rows:
  "(\<exists>r. queue (snd (schedule_job handlers job input options env st)) = queue st @ [r] \<and> rowId r \<notin> rowId ` set (queue st)
      \<and> rowStatus r = Queued \<and> rowLeaseOwner r = None)
    \<or> queue (snd (schedule_job handlers job input options env st)) = queue st"
  "deadJobs (snd (schedule_job handlers job input options env st)) = deadJobs st"
  by (auto simp: schedule_job_def Let_def split: sum.split)

lemma recur_rows:
  fixes options :: RecurOptions
  defines "key \<equiv> \<lambda>env options. getOr (jobUuid env) (scheduleKey options)"
  shows "(\<exists>r. queue (snd (recur_job handlers job input options env st)) = queue st @ [r] \<and> rowId r \<notin> rowId ` set (queue st)
      \<and> rowStatus r = Queued \<and> rowLeaseOwner r = None)
    \<or> (\<exists>x. queue (snd (recur_job handlers job input options env st))
          = map (\<lambda>r. if rowId r = key env options then recur_again x r else r) (queue st))
    \<or> queue (snd (recur_job handlers job input options env st)) = queue st"
  "deadJobs (snd (recur_job handlers job input options env st)) = deadJobs st"
  unfolding key_def by (auto simp: recur_job_def Let_def split: sum.split option.split)

lemma heartbeat_rows:
  "heartbeat lease row env st = (res, st') \<Longrightarrow>
    (\<exists>u. queue st' = map (\<lambda>r. if fences row r then r\<lparr>rowLeaseExpires := Some u\<rparr> else r) (queue st) \<or> queue st' = queue st)
    \<and> deadJobs st' = deadJobs st"
  by (auto simp: heartbeat_def fenced_write_eq fenced_update_rows split: if_splits)

subsection \<open>What a step does to the rows\<close>

text \<open>A call that names the job: it cancels the job, or replaces a recurring job of that key.\<close>

fun touches :: "string \<Rightarrow> JobEvent \<Rightarrow> bool" where
  "touches jobId (Cancels i env) \<longleftrightarrow> i = jobId"
| "touches jobId (Recurs handlers job input options env) \<longleftrightarrow> getOr (jobUuid env) (scheduleKey options) = jobId"
| "touches jobId _ \<longleftrightarrow> False"

definition same_job :: "JobRow \<Rightarrow> JobRow \<Rightarrow> bool" where
  "same_job r r' \<longleftrightarrow> rowId r' = rowId r \<and> rowJob r' = rowJob r \<and> rowPayload r' = rowPayload r"

text \<open>How a row of the queue comes out of a step: as it was, waiting again, with another expiry, replaced, or claimed.\<close>

definition evolves :: "JobSystem \<Rightarrow> JobEvent \<Rightarrow> JobSystem \<Rightarrow> JobRow \<Rightarrow> JobRow \<Rightarrow> bool" where
  "evolves s ev s' r r' \<longleftrightarrow> put_back r r'
     \<or> (\<exists>u. r' = r\<lparr>rowLeaseExpires := Some u\<rparr>)
     \<or> (\<exists>x. r' = recur_again x r \<and> touches (rowId r) ev)
     \<or> (\<exists>o' t lease. r' = claimed_row o' t lease r \<and> o' \<notin> set (minted s) \<and> o' \<in> set (minted s'))"

definition fresh_row :: "JobTables \<Rightarrow> JobRow \<Rightarrow> bool" where
  "fresh_row st r \<longleftrightarrow> rowId r \<notin> rowId ` set (queue st) \<and> rowStatus r = Queued \<and> rowLeaseOwner r = None"

lemma put_back_refl [simp]: "put_back r r"
  by (simp add: put_back_def)

lemma list_all2_memD: "list_all2 P xs ys \<Longrightarrow> y \<in> set ys \<Longrightarrow> \<exists>x \<in> set xs. P x y"
  by (metis in_set_conv_nth list_all2_conv_all_nth)

lemma settlement_rows:
  assumes "runOutcome handlers row env st = (res, st')" and "r' \<in> set (queue st')"
  shows "\<exists>r \<in> set (queue st). put_back r r'"
  using assms(1)
proof (cases rule: runOutcome_settles)
  case requeued
  with assms(2) show ?thesis by (auto intro: list_all2_memD released_puts_back)
qed (use assms(2) in \<open>auto intro: bexI [of _ r']\<close>)

lemma evolves_refl: "evolves s ev s' r r"
  by (simp add: evolves_def)

lemma step_rows:
  assumes "job_step s ev s'" and "r' \<in> set (queue (tables s'))"
  shows "fresh_row (tables s) r' \<or> (\<exists>r \<in> set (queue (tables s)). evolves s ev s' r r')"
proof (cases "r' \<in> set (queue (tables s))")
  case True
  then show ?thesis using evolves_refl by blast
next
  case new: False
  from assms(1) show ?thesis
  proof (cases rule: job_step.cases)
    case (schedules handlers job input options env)
    with assms(2) new show ?thesis
      using schedule_rows(1) [of handlers job input options env "tables s"] by (auto simp: fresh_row_def)
  next
    case (recurs handlers job input options env)
    with assms(2) new show ?thesis
      using recur_rows(1) [of handlers job input options env "tables s"]
      by (auto simp: fresh_row_def evolves_def split: if_splits) (metis)+
  next
    case (cancels jobId env)
    with assms(2) new show ?thesis by (auto simp: cancel_job_def split: if_splits)
  next
    case (turns name w env sd locked w' st)
    from turns(5) show ?thesis
    proof (cases rule: worker_turn_cases)
      case (claimed rows)
      with turns assms(2) new obtain r where "r \<in> set (queue (tables s))"
        "r' = claimed_row (jobUuid env) (nowAt env 0) (leaseMillis w) r"
        by (auto simp: claim_jobs_Inr split: if_splits)
      moreover have "jobUuid env \<in> set (minted s')" using turns(2) by simp
      ultimately show ?thesis using turns(4) unfolding evolves_def by blast
    qed (use turns assms(2) new in auto)
  next
    case (turn_fails name w sd locked env e st)
    from turn_fails(4) show ?thesis
      by (cases rule: worker_turn_cases) (use turn_fails assms(2) new in auto)
  next
    case (beats name w row env st)
    with assms(2) new heartbeat_rows [OF beats(5)] show ?thesis by (auto simp: evolves_def split: if_splits) blast
  next
    case (beat_fails name w row env e st)
    with assms(2) new heartbeat_rows [OF beat_fails(5)] show ?thesis by (auto simp: evolves_def split: if_splits) blast
  next
    case (settles name w row handlers env st)
    with assms(2) settlement_rows [OF settles(5)] show ?thesis by (auto simp: evolves_def)
  next
    case (settle_fails name w row handlers env e st)
    with assms(2) settlement_rows [OF settle_fails(5)] show ?thesis by (auto simp: evolves_def)
  next
    case (abandons name w env)
    with assms(2) abandonDrain_rows [of "tables s" "inflight w" 0 env] show ?thesis
      by (auto simp: evolves_def dest!: list_all2_memD)
  qed (use assms(2) new in auto)
qed

subsection \<open>A lease that is lost stays lost\<close>

lemma minted_grows: "job_step s ev s' \<Longrightarrow> set (minted s) \<subseteq> set (minted s')"
  by (cases rule: job_step.cases) auto

text \<open>Only a claim gives a lease, and each gives its own token: nobody comes to hold a token minted before.\<close>

lemma holds_lease_before:
  assumes "job_step s ev s'" and "heldOwner row \<in> set (minted s)" and "holds_lease row (tables s')"
  shows "holds_lease row (tables s)"
proof -
  obtain r' where r': "r' \<in> set (queue (tables s'))" "fences row r'" using assms(3) by (auto simp: holds_lease_def)
  from step_rows [OF assms(1) r'(1)] r'(2) obtain r where r: "r \<in> set (queue (tables s))" "evolves s ev s' r r'"
    by (auto simp: fresh_row_def fences_def)
  then have "fences row r"
    using r'(2) assms(2) by (auto simp: evolves_def put_back_def fences_def recur_again_def claimed_row_def)
  with r(1) show ?thesis by (auto simp: holds_lease_def)
qed

lemma lost_stays_lost:
  "job_run s evs s' \<Longrightarrow> heldOwner row \<in> set (minted s) \<Longrightarrow> \<not> holds_lease row (tables s) \<Longrightarrow> \<not> holds_lease row (tables s')"
proof (induction rule: job_run.induct)
  case (job_run_Cons s ev s1 evs s2)
  then show ?case using holds_lease_before [OF job_run_Cons.hyps(1)] minted_grows [OF job_run_Cons.hyps(1)] by blast
qed simp

subsection \<open>The invariant\<close>

definition runs_of :: "JobSystem \<Rightarrow> string \<Rightarrow> QueueRow list" where
  "runs_of s name = (case jsget (fleet s) name of None \<Rightarrow> [] | Some w \<Rightarrow> inflight w)"

definition row_ok :: "string set \<Rightarrow> JobRow \<Rightarrow> bool" where
  "row_ok tokens r \<longleftrightarrow> (\<forall>o'. rowLeaseOwner r = Some o' \<longrightarrow> o' \<in> tokens)
     \<and> (rowStatus r = Running \<longrightarrow> rowLeaseOwner r \<noteq> None \<and> rowLeaseExpires r \<noteq> None)"

definition queue_ok :: "JobSystem \<Rightarrow> bool" where
  "queue_ok s \<longleftrightarrow> distinct (map rowId (queue (tables s))) \<and> (\<forall>r \<in> set (queue (tables s)). row_ok (set (minted s)) r)"

definition claim_key :: "QueueRow \<Rightarrow> string \<times> string" where
  "claim_key row = (heldId row, heldOwner row)"

definition fleet_ok :: "JobSystem \<Rightarrow> bool" where
  "fleet_ok s \<longleftrightarrow>
     (\<forall>name w. jsget (fleet s) name = Some w \<longrightarrow> int (length (inflight w)) \<le> concurrency w)
     \<and> (\<forall>name. distinct (map claim_key (runs_of s name)))
     \<and> (\<forall>name. heldOwner ` set (runs_of s name) \<subseteq> set (minted s))
     \<and> (\<forall>n n'. n \<noteq> n' \<longrightarrow> heldOwner ` set (runs_of s n) \<inter> heldOwner ` set (runs_of s n') = {})"

text \<open>A job in flight whose lease is held is the row of the queue.\<close>

definition holds_row :: "QueueRow \<Rightarrow> JobRow \<Rightarrow> bool" where
  "holds_row row r \<longleftrightarrow> heldJob row = rowJob r \<and> heldPayload row = rowPayload r \<and> heldAttempt row = rowAttempt r
     \<and> heldMaxAttempts row = rowMaxAttempts r \<and> heldCron row = rowCron r"

definition leases_ok :: "JobSystem \<Rightarrow> bool" where
  "leases_ok s \<longleftrightarrow> (\<forall>name. \<forall>row \<in> set (runs_of s name). \<forall>r \<in> set (queue (tables s)). fences row r \<longrightarrow> holds_row row r)"

lemma step_ids:
  assumes "job_step s ev s'" and "distinct (map rowId (queue (tables s)))"
  shows "distinct (map rowId (queue (tables s')))"
proof -
  have settled: "distinct (map rowId (queue st'))"
    if "runOutcome handlers row env (tables s) = (res, st')" for handlers row env res st'
    using that by (cases rule: runOutcome_settles)
      (use assms(2) in \<open>auto simp: distinct_map_filter ids_fenced_update released_def\<close>)
  have beat: "map rowId (queue st') = map rowId (queue (tables s))"
    if "heartbeat lease row env (tables s) = (res, st')" for lease row env res st'
    using heartbeat_rows [OF that] by auto
  have put: "list_all2 put_back rows rows' \<Longrightarrow> map rowId rows' = map rowId rows" for rows rows'
    by (induction rule: list_all2_induct) (auto simp: put_back_def)
  have drained: "map rowId (queue (abandonDrain rows k env (tables s))) = map rowId (queue (tables s))" for rows k env
    using put abandonDrain_rows by blast
  have claim: "map rowId (queue st') = map rowId (queue (tables s))"
    if "worker_turn sd locked env w (tables s) = (res, st')" for sd locked env w res st'
    using that by (cases rule: worker_turn_cases) (auto simp: claim_jobs_Inr claimed_row_def)
  have recurred: "map rowId (map (\<lambda>r. if rowId r = k then recur_again x r else r) rows) = map rowId rows" for k x rows
    by (simp add: recur_again_def)
  from assms show ?thesis
  proof (cases rule: job_step.cases)
    case (schedules handlers job input options env)
    with assms(2) show ?thesis using schedule_rows(1) [of handlers job input options env "tables s"] by auto
  next
    case (recurs handlers job input options env)
    with assms(2) show ?thesis using recur_rows(1) [of handlers job input options env "tables s"] recurred by (auto simp del: map_map)
  qed (auto simp: settled beat claim drained cancel_job_def distinct_map_filter)
qed

lemma step_queue_ok:
  assumes "job_step s ev s'" and "queue_ok s"
  shows "queue_ok s'"
proof -
  have "row_ok (set (minted s')) r'" if r': "r' \<in> set (queue (tables s'))" for r'
    using step_rows [OF assms(1) r'] assms(2) minted_grows [OF assms(1)]
    by (fastforce simp: fresh_row_def row_ok_def evolves_def put_back_def queue_ok_def recur_again_def claimed_row_def)
  with step_ids [OF assms(1)] assms(2) show ?thesis by (simp add: queue_ok_def)
qed

text \<open>A worker comes to run a job only by claiming it in its own turn.\<close>

lemma step_runs:
  assumes "job_step s ev s'"
  obtains (kept) "\<And>n. runs_of s' n = runs_of s n \<or> runs_of s' n = []
      \<or> (\<exists>row. runs_of s' n = remove1 row (runs_of s n))"
      "\<And>n w. jsget (fleet s') n = Some w \<Longrightarrow> int (length (inflight w)) \<le> concurrency w
         \<or> (\<exists>w0. jsget (fleet s) n = Some w0 \<and> concurrency w = concurrency w0 \<and> length (inflight w) \<le> length (inflight w0))"
  | (claimed) name sd locked env w rows where "ev = Turns name sd locked env" "jsget (fleet s) name = Some w"
      "jobUuid env \<notin> set (minted s)" "0 < capacity w" "minted s' = minted s @ [jobUuid env]"
      "claim_jobs (nat (capacity w)) (leaseMillis w) locked env (tables s) = (Inr rows, tables s')"
      "fleet s' = jsset name (w\<lparr>inflight := inflight w @ rows\<rparr>) (fleet s)"
proof -
  have same: thesis if "fleet s' = fleet s"
    by (rule kept) (use that in \<open>auto simp: runs_of_def\<close>)
  have gone: thesis if "fleet s' = jsdelete name (fleet s)" for name
    by (rule kept) (use that in \<open>auto simp: runs_of_def split: if_splits\<close>)
  have less: thesis if "fleet s' = jsset name w' (fleet s)" "jsget (fleet s) name = Some w" "concurrency w' = concurrency w"
      "inflight w' = inflight w \<or> (\<exists>row. inflight w' = remove1 row (inflight w))" for name w w'
  proof (rule kept)
    fix n
    show "runs_of s' n = runs_of s n \<or> runs_of s' n = [] \<or> (\<exists>row. runs_of s' n = remove1 row (runs_of s n))"
      using that by (auto simp: runs_of_def)
    fix v
    assume "jsget (fleet s') n = Some v"
    then show "int (length (inflight v)) \<le> concurrency v
         \<or> (\<exists>w0. jsget (fleet s) n = Some w0 \<and> concurrency v = concurrency w0 \<and> length (inflight v) \<le> length (inflight w0))"
      using that by (auto simp: length_remove1 split: if_splits)
  qed
  from assms show thesis
  proof (cases rule: job_step.cases)
    case (joins name options)
    show thesis
      by (rule kept) (use joins in \<open>auto simp: runs_of_def new_worker_def Let_def split: if_splits\<close>)
  next
    case (turns name w env sd locked w' st)
    from turns(5) show thesis
      by (cases rule: worker_turn_cases) (use turns less claimed in auto)
  next
    case (settles name w row handlers env st)
    then show thesis by (intro less [of name "w\<lparr>inflight := remove1 row (inflight w)\<rparr>" w]) auto
  qed (use same gone in auto)
qed

lemma fleet_okD:
  assumes "fleet_ok s"
  shows "jsget (fleet s) n = Some w \<Longrightarrow> int (length (inflight w)) \<le> concurrency w"
    and "distinct (map claim_key (runs_of s n))"
    and "heldOwner ` set (runs_of s n) \<subseteq> set (minted s)"
    and "n \<noteq> n' \<Longrightarrow> heldOwner ` set (runs_of s n) \<inter> heldOwner ` set (runs_of s n') = {}"
  using assms unfolding fleet_ok_def by simp_all

lemma fleet_okI:
  assumes "\<And>n w. jsget (fleet s) n = Some w \<Longrightarrow> int (length (inflight w)) \<le> concurrency w"
    and "\<And>n. distinct (map claim_key (runs_of s n))"
    and "\<And>n. heldOwner ` set (runs_of s n) \<subseteq> set (minted s)"
    and "\<And>n n'. n \<noteq> n' \<Longrightarrow> heldOwner ` set (runs_of s n) \<inter> heldOwner ` set (runs_of s n') = {}"
  shows "fleet_ok s"
  using assms unfolding fleet_ok_def by simp

lemma apart_with_new:
  "X \<subseteq> A \<union> S \<Longrightarrow> Y \<subseteq> B \<union> T \<Longrightarrow> A \<inter> B = {} \<Longrightarrow> A \<subseteq> M \<Longrightarrow> B \<subseteq> M \<Longrightarrow> S \<subseteq> {u} \<Longrightarrow> T \<subseteq> {u} \<Longrightarrow> S = {} \<or> T = {} \<Longrightarrow> u \<notin> M \<Longrightarrow>
    X \<inter> Y = {}"
  by blast

lemma step_fleet_ok:
  assumes "job_step s ev s'" and "fleet_ok s" and "queue_ok s"
  shows "fleet_ok s'"
  using assms(1)
proof (cases rule: step_runs)
  case kept
  have sub: "set (runs_of s' n) \<subseteq> set (runs_of s n)" for n
    using kept(1) [of n] by (auto dest: subsetD [OF set_remove1_subset])
  have dist: "distinct (map claim_key (runs_of s' n))" for n
  proof -
    have "distinct (map claim_key (runs_of s n))" using assms(2) by (simp add: fleet_ok_def)
    then show ?thesis using kept(1) [of n] distinct_map_remove1 by auto
  qed
  have size: "int (length (inflight w)) \<le> concurrency w" if "jsget (fleet s') n = Some w" for n w
    using kept(2) [OF that] by (auto dest!: fleet_okD(1) [OF assms(2)])
  have own: "heldOwner ` set (runs_of s' n) \<subseteq> heldOwner ` set (runs_of s n)" for n
    by (rule image_mono [OF sub])
  have tok: "heldOwner ` set (runs_of s' n) \<subseteq> set (minted s')" for n
    using own [of n] fleet_okD(3) [OF assms(2), of n] minted_grows [OF assms(1)] by (meson order_trans)
  have disj: "heldOwner ` set (runs_of s' n) \<inter> heldOwner ` set (runs_of s' n') = {}" if "n \<noteq> n'" for n n'
    using own [of n] own [of n'] fleet_okD(4) [OF assms(2) that] by blast
  show ?thesis by (rule fleet_okI [OF size dist tok disj])
next
  case (claimed name sd locked env w rows)
  let ?p = "picked (nat (capacity w)) locked (nowAt env 0) (tables s)"
  have rows: "rows = map (held_row (jobUuid env)) ?p" using claimed by (simp add: claim_jobs_Inr)
  have runs: "runs_of s' n = (if n = name then runs_of s name @ rows else runs_of s n)" for n
    using claimed by (simp add: runs_of_def)
  have own: "heldOwner row = jobUuid env" if "row \<in> set rows" for row
    using that rows by (auto simp: held_row_def)
  have "distinct (map claim_key rows)"
    using distinct_picked [of "tables s" "nat (capacity w)" locked "nowAt env 0"] assms(3)
    by (auto simp: rows queue_ok_def distinct_map claim_key_def held_row_def inj_on_def)
  moreover have "distinct (map claim_key (runs_of s n))" "heldOwner ` set (runs_of s n) \<subseteq> set (minted s)" for n
    using fleet_okD(2,3) [OF assms(2)] by simp_all
  ultimately have dist: "distinct (map claim_key (runs_of s' n))" for n
    using own claimed(3) by (fastforce simp: runs claim_key_def)
  have "int (length rows) \<le> capacity w" using length_picked [of "nat (capacity w)" locked "nowAt env 0" "tables s"] claimed(4) by (simp add: rows)
  then have size: "int (length (inflight v)) \<le> concurrency v" if "jsget (fleet s') n = Some v" for n v
    using that claimed(7) fleet_okD(1) [OF assms(2), of n v] by (auto simp: capacity_def split: if_splits)
  have owners: "heldOwner ` set (runs_of s' n) \<subseteq> heldOwner ` set (runs_of s n) \<union> (if n = name then {jobUuid env} else {})" for n
    using own by (auto simp: runs)
  have old_owners: "heldOwner ` set (runs_of s n) \<subseteq> set (minted s)" for n
    by (rule fleet_okD(3) [OF assms(2)])
  have tok: "heldOwner ` set (runs_of s' n) \<subseteq> set (minted s')" for n
  proof (rule order_trans [OF owners])
    have "set (minted s') = insert (jobUuid env) (set (minted s))" using claimed(5) by simp
    then show "heldOwner ` set (runs_of s n) \<union> (if n = name then {jobUuid env} else {}) \<subseteq> set (minted s')"
      using old_owners [of n] by auto
  qed
  have disj: "heldOwner ` set (runs_of s' n) \<inter> heldOwner ` set (runs_of s' n') = {}" if "n \<noteq> n'" for n n'
    by (rule apart_with_new [OF owners owners fleet_okD(4) [OF assms(2) that] old_owners old_owners _ _ _ claimed(3)])
      (use that in auto)
  show ?thesis by (rule fleet_okI [OF size dist tok disj])
qed

lemma held_row_holds: "rowId p = rowId r \<Longrightarrow> p = r \<Longrightarrow> holds_row (held_row o' p) (claimed_row o' t lease r)"
  by (simp add: holds_row_def held_row_def claimed_row_def)

lemma step_leases_ok:
  assumes step: "job_step s ev s'" and fleet: "fleet_ok s" and queue: "queue_ok s" and leases: "leases_ok s"
  shows "leases_ok s'"
proof -
  have old: "holds_row row r'"
    if row: "row \<in> set (runs_of s name)" and r': "r' \<in> set (queue (tables s'))" "fences row r'" for name row r'
  proof -
    have m: "heldOwner row \<in> set (minted s)" using fleet_okD(3) [OF fleet, of name] row by blast
    from step_rows [OF step r'(1)] r'(2) obtain r where r: "r \<in> set (queue (tables s))" "evolves s ev s' r r'"
      by (auto simp: fresh_row_def fences_def)
    then have "fences row r" "holds_row row r \<Longrightarrow> holds_row row r'"
      using r'(2) m by (auto simp: evolves_def put_back_def fences_def recur_again_def claimed_row_def holds_row_def)
    with leases row r(1) show ?thesis by (auto simp: leases_ok_def)
  qed
  from step show ?thesis
  proof (cases rule: step_runs)
    case kept
    have "row \<in> set (runs_of s name)" if "row \<in> set (runs_of s' name)" for row name
      using that kept(1) [of name] by (auto dest: subsetD [OF set_remove1_subset])
    with old show ?thesis unfolding leases_ok_def by blast
  next
    case (claimed name sd locked env w rows)
    have runs: "row \<in> set (runs_of s n) \<or> row \<in> set rows" if "row \<in> set (runs_of s' n)" for row n
      using that claimed by (auto simp: runs_of_def split: if_splits)
    let ?p = "picked (nat (capacity w)) locked (nowAt env 0) (tables s)"
    have new: "holds_row row r'" if row: "row \<in> set rows" and r': "r' \<in> set (queue (tables s'))" "fences row r'" for row r'
    proof -
      obtain p where p: "p \<in> set ?p" "row = held_row (jobUuid env) p" using row claimed(6) by (auto simp: claim_jobs_Inr)
      obtain r where r: "r \<in> set (queue (tables s))"
        "r' = (if rowId r \<in> rowId ` set ?p then claimed_row (jobUuid env) (nowAt env 0) (leaseMillis w) r else r)"
        using r'(1) claimed(6) by (auto simp: claim_jobs_Inr)
      have "rowId r = rowId p" using r'(2) p(2) r(2) by (auto simp: fences_def held_row_def claimed_row_def split: if_splits)
      moreover have "p \<in> set (queue (tables s))" using p(1) set_picked by blast
      ultimately have "r = p" using queue r(1) by (auto simp: queue_ok_def distinct_map inj_on_def)
      then show ?thesis using p r(2) by (auto intro: held_row_holds)
    qed
    show ?thesis unfolding leases_ok_def using old new runs by blast
  qed
qed

definition system_ok :: "JobSystem \<Rightarrow> bool" where
  "system_ok s \<longleftrightarrow> queue_ok s \<and> fleet_ok s \<and> leases_ok s"

lemma system_ok_new: "system_ok new_system"
  by (simp add: system_ok_def queue_ok_def fleet_ok_def leases_ok_def new_system_def no_jobs_def runs_of_def)

lemma system_ok_run: "job_run s evs s' \<Longrightarrow> system_ok s \<Longrightarrow> system_ok s'"
  by (induction rule: job_run.induct)
    (auto simp: system_ok_def intro: step_queue_ok step_fleet_ok step_leases_ok)

text \<open>Of all executions of one job under way, at most one still holds the lease.\<close>

lemma one_holder:
  assumes "system_ok s" and "row \<in> set (runs_of s n)" and "row' \<in> set (runs_of s n')" and "heldId row = heldId row'"
    and "holds_lease row (tables s)" and "holds_lease row' (tables s)"
  shows "n = n' \<and> row = row'"
proof -
  obtain r r' where r: "r \<in> set (queue (tables s))" "fences row r" "r' \<in> set (queue (tables s))" "fences row' r'"
    using assms(5,6) by (auto simp: holds_lease_def)
  have "r = r'" using r assms(1,4) by (auto simp: system_ok_def queue_ok_def fences_def distinct_map inj_on_def)
  with r have same: "heldOwner row = heldOwner row'" by (auto simp: fences_def)
  have fleet: "fleet_ok s" using assms(1) by (simp add: system_ok_def)
  have "n = n'"
  proof (rule ccontr)
    assume "n \<noteq> n'"
    from fleet_okD(4) [OF fleet this] assms(2,3) same show False by (metis IntI empty_iff imageI)
  qed
  moreover have "row = row'"
    using fleet_okD(2) [OF fleet, of n'] assms(2-4) same calculation by (auto simp: distinct_map claim_key_def inj_on_def)
  ultimately show ?thesis ..
qed

subsection \<open>Where jobs go\<close>

lemma filter_fences_other:
  "r \<in> set rows \<Longrightarrow> rowId r \<notin> rowId ` set (filter (\<lambda>r. \<not> fences row r) rows) \<Longrightarrow> fences row r"
  by auto

text \<open>How a step may take a job out of the queue, or change what it runs.\<close>

lemma step_keeps_job:
  assumes step: "job_step s ev s'" and ok: "system_ok s" and r: "r \<in> set (queue (tables s))"
  obtains (stays) r' where "r' \<in> set (queue (tables s'))" "same_job r r'"
  | (touched) "touches (rowId r) ev"
  | (finished) name row handlers env where "ev = Settles name row handlers env" "heldId row = rowId r"
      "heldPayload row = rowPayload r" "handler_exit handlers row = Some HandlerSucceeds"
  | (buried) d where "d \<in> set (deadJobs (tables s'))" "d \<notin> set (deadJobs (tables s))" "deadJob d = rowJob r" "deadPayload d = rowPayload r"
      "rowId r \<notin> rowId ` set (queue (tables s'))"
proof -
  note finishedI = finished and buriedI = buried
  have stay: thesis if "r \<in> set (queue (tables s'))" using that stays [of r] by (simp add: same_job_def)
  have put: thesis if "list_all2 put_back (queue (tables s)) (queue (tables s'))"
  proof -
    from that r obtain r' where "r' \<in> set (queue (tables s'))" "put_back r r'" by (metis in_set_conv_nth list_all2_conv_all_nth)
    then show thesis using stays [of r'] by (auto simp: put_back_def same_job_def)
  qed
  have settled: thesis
    if ev: "ev = Settles name row handlers env" and row: "row \<in> set (runs_of s name)"
      and st: "runOutcome handlers row env (tables s) = (res, tables s')" for name row handlers env res
  proof -
    have held: "fences row r \<Longrightarrow> heldId row = rowId r \<and> holds_row row r"
      using ok row r by (auto simp: system_ok_def leases_ok_def fences_def)
    have sole: "rowId r \<notin> rowId ` set (queue (tables s'))"
      if "queue (tables s') = filter (\<lambda>r. \<not> fences row r) (queue (tables s))" "fences row r"
      using that r ok by (auto simp: system_ok_def queue_ok_def distinct_map inj_on_def)
    show thesis
    proof (cases "fences row r")
      case False
      from st show thesis
      proof (cases rule: runOutcome_settles)
        case requeued
        then show thesis by (intro put) (auto intro: released_puts_back)
      qed (use False r stay in auto)
    next
      case True
      from st show thesis
      proof (cases rule: runOutcome_settles)
        case kept
        then show thesis using r stay by simp
      next
        case finished
        show thesis by (rule finishedI [OF ev]) (use held [OF True] finished in \<open>auto simp: holds_row_def\<close>)
      next
        case requeued
        then show thesis by (intro put) (auto intro: released_puts_back)
      next
        case (buried reason)
        show thesis
          by (rule buriedI [of "dead_letter row reason env"])
            (use held [OF True] sole [OF _ True] buried in \<open>auto simp: holds_row_def dead_letter_def image_iff\<close>)
      qed
    qed
  qed
  from step show thesis
  proof (cases rule: job_step.cases)
    case (schedules handlers job input options env)
    with r show thesis using stay schedule_rows(1) [of handlers job input options env "tables s"] by auto
  next
    case (recurs handlers job input options env)
    show thesis
    proof (cases "getOr (jobUuid env) (scheduleKey options) = rowId r")
      case True
      with recurs touched show thesis by simp
    next
      case False
      show thesis
        by (rule stay) (use False recurs r recur_rows(1) [of handlers job input options env "tables s"] in force)
    qed
  next
    case (cancels jobId env)
    then show thesis using r touched stay by (cases "jobId = rowId r") (auto simp: cancel_job_def)
  next
    case (turns name w env sd locked w' st)
    from turns(5) show thesis
    proof (cases rule: worker_turn_cases)
      case (claimed rows)
      let ?r = "if rowId r \<in> rowId ` set (picked (nat (capacity w)) locked (nowAt env 0) (tables s))
        then claimed_row (jobUuid env) (nowAt env 0) (leaseMillis w) r else r"
      show thesis by (rule stays [of ?r]) (use claimed turns r in \<open>auto simp: claim_jobs_Inr same_job_def claimed_row_def\<close>)
    qed (use turns stay r in auto)
  next
    case (turn_fails name w sd locked env e st)
    from turn_fails(4) show thesis by (cases rule: worker_turn_cases) (use turn_fails stay r in auto)
  next
    case (beats name w row env st)
    from heartbeat_rows [OF beats(5)] obtain u where
      "queue st = map (\<lambda>r. if fences row r then r\<lparr>rowLeaseExpires := Some u\<rparr> else r) (queue (tables s)) \<or> queue st = queue (tables s)"
      by blast
    with beats r show thesis
      by (intro stays [of "if queue st = queue (tables s) \<or> \<not> fences row r then r else r\<lparr>rowLeaseExpires := Some u\<rparr>"])
        (auto simp: same_job_def)
  next
    case (beat_fails name w row env e st)
    then have "st = tables s" by (auto simp: heartbeat_def split: if_splits)
    with beat_fails r stay show thesis by simp
  next
    case (settles name w row handlers env st)
    then show thesis by (intro settled [of name row handlers env]) (auto simp: runs_of_def)
  next
    case (settle_fails name w row handlers env e st)
    then show thesis by (intro settled [of name row handlers env]) (auto simp: runs_of_def)
  next
    case (abandons name w env)
    then show thesis using put abandonDrain_rows by auto
  qed (use stay r in auto)
qed

lemma dead_letters_stay:
  assumes "job_step s ev s'"
  shows "set (deadJobs (tables s)) \<subseteq> set (deadJobs (tables s'))"
  using assms
proof (cases rule: job_step.cases)
  case (turns name w env sd locked w' st)
  from turns(5) show ?thesis by (cases rule: worker_turn_cases) (use turns in \<open>auto simp: claim_jobs_Inr\<close>)
next
  case (turn_fails name w sd locked env e st)
  from turn_fails(4) show ?thesis by (cases rule: worker_turn_cases) (use turn_fails in auto)
next
  case (settles name w row handlers env st)
  from settles(5) show ?thesis by (cases rule: runOutcome_settles) (use settles in auto)
next
  case (settle_fails name w row handlers env e st)
  from settle_fails(5) show ?thesis by (cases rule: runOutcome_settles) (use settle_fails in auto)
qed (auto simp: schedule_rows recur_rows cancel_job_def abandonDrain_rows dest: heartbeat_rows)

lemma job_fate:
  "job_run s evs s' \<Longrightarrow> system_ok s \<Longrightarrow> r \<in> set (queue (tables s)) \<Longrightarrow>
    (\<exists>r' \<in> set (queue (tables s')). same_job r r') \<or> (\<exists>ev \<in> set evs. touches (rowId r) ev)
    \<or> (\<exists>name row handlers env. Settles name row handlers env \<in> set evs \<and> heldId row = rowId r \<and> heldPayload row = rowPayload r
        \<and> handler_exit handlers row = Some HandlerSucceeds)
    \<or> (\<exists>d \<in> set (deadJobs (tables s')) - set (deadJobs (tables s)). deadJob d = rowJob r \<and> deadPayload d = rowPayload r)"
proof (induction arbitrary: r rule: job_run.induct)
  case (job_run_Nil s)
  then show ?case by (auto simp: same_job_def)
next
  case (job_run_Cons s ev s1 evs s2)
  have more: "set (deadJobs (tables s1)) \<subseteq> set (deadJobs (tables s2))"
    using job_run_Cons.hyps(2) by (induction rule: job_run.induct) (auto dest: dead_letters_stay)
  have first: "set (deadJobs (tables s)) \<subseteq> set (deadJobs (tables s1))"
    by (rule dead_letters_stay [OF job_run_Cons.hyps(1)])
  have ok: "system_ok s1"
    using job_run_Cons.hyps(1) job_run_Cons.prems(1) by (auto simp: system_ok_def intro: step_queue_ok step_fleet_ok step_leases_ok)
  from job_run_Cons.hyps(1) job_run_Cons.prems show ?case
  proof (cases rule: step_keeps_job)
    case (stays r1)
    from job_run_Cons.IH [OF ok stays(1)] stays(2) first show ?thesis
      by (auto simp: same_job_def)
  next
    case (finished name row handlers env)
    then show ?thesis by (metis list.set_intros(1))
  next
    case (buried d)
    then show ?thesis using more by blast
  qed simp
qed

subsection \<open>A job that always fails, and one that takes its worker down\<close>

text \<open>A lone worker: round \<open>k\<close> claims one job in the surroundings \<open>c k\<close> and settles it in \<open>e k\<close>.\<close>

definition round_of :: "JobHandlers \<Rightarrow> int \<Rightarrow> JobEnv \<Rightarrow> JobEnv \<Rightarrow> JobTables \<Rightarrow> JobTables" where
  "round_of handlers lease c e st =
     (case claim_jobs 1 lease [] c st of
        (Inr (row # rows), st1) \<Rightarrow> snd (runOutcome handlers row e st1)
      | (_, st1) \<Rightarrow> st1)"

fun rounds :: "JobHandlers \<Rightarrow> int \<Rightarrow> (nat \<Rightarrow> JobEnv) \<Rightarrow> (nat \<Rightarrow> JobEnv) \<Rightarrow> nat \<Rightarrow> JobTables \<Rightarrow> JobTables" where
  "rounds handlers lease c e 0 st = st"
| "rounds handlers lease c e (Suc k) st = round_of handlers lease (c k) (e k) (rounds handlers lease c e k st)"

lemma claim_single:
  assumes "queue st = [r]" and "claimable (nowAt env 0) r" and "answers env 0"
  shows "claim_jobs 1 lease [] env st =
    (Inr [held_row (jobUuid env) r], st\<lparr>queue := [claimed_row (jobUuid env) (nowAt env 0) lease r], dispatchedTotal := Suc (dispatchedTotal st)\<rparr>)"
  using assms by (simp add: claim_jobs_def picked_def claimed_row_def Let_def)

text \<open>A failed attempt puts the job back with one attempt more, after the backoff, until the attempts are used up.\<close>

lemma failing_round:
  assumes q: "queue st = [r]" and due: "claimable (nowAt c 0) r" and up: "answers c 0" "answers e 0" "answers e 1"
    and max: "0 < rowMaxAttempts r" and fresh: "jobUuid e \<notin> deadId ` set (deadJobs st)"
    and handler: "jsget handlers (rowJob r) = Some h" "decodesPayload h (rowPayload r) = Inr input"
      "\<And>ctx. handles h input ctx = HandlerFails \<lparr>failureReason = why, failureClass = TransientFailure\<rparr>"
  shows "if int (Suc (rowAttempt r)) < rowMaxAttempts r
    then \<exists>r'. queue (round_of handlers lease c e st) = [r'] \<and> same_job r r' \<and> rowStatus r' = Queued \<and> rowAttempt r' = Suc (rowAttempt r)
      \<and> rowMaxAttempts r' = rowMaxAttempts r \<and> rowCorrelation r' = rowCorrelation r
      \<and> rowRunAt r' = nowAt e 0 + backoffMillis (Suc (rowAttempt r)) (randomDraw e) None None
      \<and> rowLastError r' = Some (take 2048 why) \<and> deadJobs (round_of handlers lease c e st) = deadJobs st
    else queue (round_of handlers lease c e st) = [] \<and> deadJobs (round_of handlers lease c e st) = deadJobs st @
      [\<lparr>deadId = jobUuid e, deadJob = rowJob r, deadPayload = rowPayload r, deadAttempts = Suc (rowAttempt r), deadError = take 2048 why,
        deadCorrelation = rowCorrelation r, deadAt = nowAt e 0\<rparr>]"
proof -
  let ?row = "held_row (jobUuid c) r"
  let ?st = "st\<lparr>queue := [claimed_row (jobUuid c) (nowAt c 0) lease r], dispatchedTotal := Suc (dispatchedTotal st)\<rparr>"
  have claim: "claim_jobs 1 lease [] c st = (Inr [?row], ?st)" by (rule claim_single [OF q due up(1)])
  have owned: "fences ?row (claimed_row (jobUuid c) (nowAt c 0) lease r)"
    by (simp add: fences_def held_row_def claimed_row_def)
  have ex: "exhausted handlers ?row \<longleftrightarrow> \<not> int (Suc (rowAttempt r)) < rowMaxAttempts r"
    using max by (auto simp: exhausted_def held_row_def)
  have run: "round_of handlers lease c e st = snd (if exhausted handlers ?row then queue_failed (deadLetter ?row why e ?st)
      else queue_failed (rescheduleRetry ?row why e ?st))"
    unfolding round_of_def claim using handler by (simp add: runOutcome_def held_row_def)
  show ?thesis
  proof (cases "exhausted handlers ?row")
    case True
    with run ex up fresh owned show ?thesis
      by (simp add: queue_failed_def deadLetter_def fenced_write_eq holds_lease_def fenced_delete dead_letter_def held_row_def)
  next
    case False
    with run ex up owned show ?thesis
      by (simp add: queue_failed_def rescheduleRetry_def fenced_write_eq holds_lease_def fenced_update_rows requeued_def held_row_def
          same_job_def claimed_row_def Let_def)
  qed
qed

lemma failing_rounds:
  assumes q: "queue st = [r]" "rowStatus r = Queued" "rowAttempt r = 0" "0 < rowMaxAttempts r"
    and up: "\<And>k. answers (c k) 0 \<and> answers (e k) 0 \<and> answers (e k) 1"
    and due: "rowRunAt r \<le> nowAt (c 0) 0"
      "\<And>k. nowAt (e k) 0 + backoffMillis (Suc k) (randomDraw (e k)) None None \<le> nowAt (c (Suc k)) 0"
    and fresh: "\<And>k. jobUuid (e k) \<notin> deadId ` set (deadJobs st)"
    and handler: "jsget handlers (rowJob r) = Some h" "decodesPayload h (rowPayload r) = Inr input"
      "\<And>ctx. handles h input ctx = HandlerFails \<lparr>failureReason = why, failureClass = TransientFailure\<rparr>"
    and k: "int k < rowMaxAttempts r"
  shows "\<exists>r'. queue (rounds handlers lease c e k st) = [r'] \<and> same_job r r' \<and> rowStatus r' = Queued \<and> rowAttempt r' = k
    \<and> rowMaxAttempts r' = rowMaxAttempts r \<and> rowCorrelation r' = rowCorrelation r \<and> rowRunAt r' \<le> nowAt (c k) 0
    \<and> deadJobs (rounds handlers lease c e k st) = deadJobs st"
  using k
proof (induction k)
  case 0
  then show ?case using q due(1) by (simp add: same_job_def)
next
  case (Suc k)
  let ?st = "rounds handlers lease c e k st"
  from Suc obtain r' where r': "queue ?st = [r']" "same_job r r'" "rowStatus r' = Queued" "rowAttempt r' = k"
    "rowMaxAttempts r' = rowMaxAttempts r" "rowCorrelation r' = rowCorrelation r" "rowRunAt r' \<le> nowAt (c k) 0"
    "deadJobs ?st = deadJobs st" by auto
  have "claimable (nowAt (c k) 0) r'" using r' by (simp add: claimable_def)
  moreover have "jsget handlers (rowJob r') = Some h" "decodesPayload h (rowPayload r') = Inr input" "0 < rowMaxAttempts r'"
    using handler(1,2) r' q(4) by (simp_all add: same_job_def)
  ultimately have step: "if int (Suc (rowAttempt r')) < rowMaxAttempts r'
    then \<exists>r''. queue (round_of handlers lease (c k) (e k) ?st) = [r''] \<and> same_job r' r'' \<and> rowStatus r'' = Queued
      \<and> rowAttempt r'' = Suc (rowAttempt r') \<and> rowMaxAttempts r'' = rowMaxAttempts r' \<and> rowCorrelation r'' = rowCorrelation r'
      \<and> rowRunAt r'' = nowAt (e k) 0 + backoffMillis (Suc (rowAttempt r')) (randomDraw (e k)) None None
      \<and> rowLastError r'' = Some (take 2048 why) \<and> deadJobs (round_of handlers lease (c k) (e k) ?st) = deadJobs ?st
    else queue (round_of handlers lease (c k) (e k) ?st) = [] \<and> deadJobs (round_of handlers lease (c k) (e k) ?st) = deadJobs ?st @
      [\<lparr>deadId = jobUuid (e k), deadJob = rowJob r', deadPayload = rowPayload r', deadAttempts = Suc (rowAttempt r'),
        deadError = take 2048 why, deadCorrelation = rowCorrelation r', deadAt = nowAt (e k) 0\<rparr>]"
    using failing_round [OF r'(1), of "c k" "e k" handlers h input why lease] up [of k] fresh [of k] handler(3) r'(8) by simp
  have "int (Suc (rowAttempt r')) < rowMaxAttempts r'" using Suc.prems r' by simp
  with step obtain r'' where r'': "queue (round_of handlers lease (c k) (e k) ?st) = [r'']" "same_job r' r''" "rowStatus r'' = Queued"
      "rowAttempt r'' = Suc k" "rowMaxAttempts r'' = rowMaxAttempts r" "rowCorrelation r'' = rowCorrelation r"
      "rowRunAt r'' = nowAt (e k) 0 + backoffMillis (Suc k) (randomDraw (e k)) None None"
      "deadJobs (round_of handlers lease (c k) (e k) ?st) = deadJobs st"
    using r' by auto
  with due(2) [of k] r'(2) show ?case by (auto simp: same_job_def)
qed

text \<open>Claims of a job whose worker dies each time: every claim comes after the lease of the one before.\<close>

fun reclaims :: "int \<Rightarrow> (nat \<Rightarrow> JobEnv) \<Rightarrow> nat \<Rightarrow> JobTables \<Rightarrow> JobTables" where
  "reclaims lease c 0 st = st"
| "reclaims lease c (Suc k) st = snd (claim_jobs 1 lease [] (c k) (reclaims lease c k st))"

lemma reclaimed_forever:
  assumes q: "queue st = [r]" "rowStatus r = Queued" and due: "rowRunAt r \<le> nowAt (c 0) 0"
    and up: "\<And>k. answers (c k) 0" and later: "\<And>k. nowAt (c k) 0 + lease \<le> nowAt (c (Suc k)) 0"
  shows "\<exists>r'. queue (reclaims lease c k st) = [r'] \<and> same_job r r' \<and> rowAttempt r' = rowAttempt r + k
    \<and> rowMaxAttempts r' = rowMaxAttempts r \<and> claimable (nowAt (c k) 0) r' \<and> deadJobs (reclaims lease c k st) = deadJobs st"
proof (induction k)
  case 0
  then show ?case using q due by (simp add: same_job_def claimable_def)
next
  case (Suc k)
  then obtain r' where r': "queue (reclaims lease c k st) = [r']" "same_job r r'" "rowAttempt r' = rowAttempt r + k"
    "rowMaxAttempts r' = rowMaxAttempts r" "claimable (nowAt (c k) 0) r'" "deadJobs (reclaims lease c k st) = deadJobs st"
    by blast
  from claim_single [OF r'(1,5) up, of lease] r' later [of k] show ?case
    by (simp add: claimed_row_def same_job_def claimable_def)
qed

subsection \<open>Drains\<close>

lemma drained_unowned:
  "(\<And>j. k \<le> j \<Longrightarrow> j < k + length rows \<Longrightarrow> answers env j) \<Longrightarrow> row \<in> set rows \<Longrightarrow> \<not> holds_lease row (abandonDrain rows k env st)"
proof (induction rows k env st rule: abandonDrain.induct)
  case (2 row1 rows k env st)
  let ?st = "snd (fenced_write row1 (\<lambda>r. Some (requeued (nowAt env 0) (nowAt env 0) r)) st)"
  have up: "answers env k" using "2.prems"(1) [of k] by simp
  have IH: "row \<in> set rows \<Longrightarrow> \<not> holds_lease row (abandonDrain rows (Suc k) env ?st)"
    using 2 up by auto
  have "\<not> holds_lease row1 ?st"
    by (auto simp: holds_lease_def fenced_write_eq fenced_update_rows fences_def requeued_def)
  then have "\<not> holds_lease row1 (abandonDrain rows (Suc k) env ?st)"
    using conjunct1 [OF abandonDrain_rows [of ?st rows "Suc k" env]]
    by (auto simp: holds_lease_def put_back_def fences_def dest!: list_all2_memD)
  with IH 2(3) up show ?case by auto
qed simp

subsection \<open>Executing histories\<close>

text \<open>The step relation is a partial function, which evaluates.\<close>

fun job_exec :: "JobSystem \<Rightarrow> JobEvent \<Rightarrow> JobSystem option" where
  "job_exec s (Schedules handlers job input options env) =
     Some (s\<lparr>tables := snd (schedule_job handlers job input options env (tables s))\<rparr>)"
| "job_exec s (Recurs handlers job input options env) =
     Some (s\<lparr>tables := snd (recur_job handlers job input options env (tables s))\<rparr>)"
| "job_exec s (Cancels jobId env) = Some (s\<lparr>tables := snd (cancel_job jobId env (tables s))\<rparr>)"
| "job_exec s (Joins name options) =
     (if jsget (fleet s) name = None then Some (s\<lparr>fleet := jsset name (new_worker options) (fleet s)\<rparr>) else None)"
| "job_exec s (Turns name shuttingDown locked env) =
     (case jsget (fleet s) name of None \<Rightarrow> None
      | Some w \<Rightarrow> (case worker_turn shuttingDown locked env w (tables s) of
            (Inl e, st) \<Rightarrow> Some (s\<lparr>tables := st, fleet := jsdelete name (fleet s)\<rparr>)
          | (Inr w', st) \<Rightarrow> if jobUuid env \<in> set (minted s) then None
              else Some (s\<lparr>tables := st, fleet := jsset name w' (fleet s), minted := minted s @ [jobUuid env]\<rparr>)))"
| "job_exec s (Beats name row env) =
     (case jsget (fleet s) name of None \<Rightarrow> None
      | Some w \<Rightarrow> if row \<notin> set (inflight w) then None
          else case heartbeat (leaseMillis w) row env (tables s) of
            (Inl e, st) \<Rightarrow> Some (s\<lparr>tables := st, fleet := jsdelete name (fleet s)\<rparr>)
          | (Inr u, st) \<Rightarrow> Some (s\<lparr>tables := st\<rparr>))"
| "job_exec s (Settles name row handlers env) =
     (case jsget (fleet s) name of None \<Rightarrow> None
      | Some w \<Rightarrow> if row \<notin> set (inflight w) then None
          else case runOutcome handlers row env (tables s) of
            (Inl e, st) \<Rightarrow> Some (s\<lparr>tables := st, fleet := jsdelete name (fleet s)\<rparr>)
          | (Inr u, st) \<Rightarrow> Some (s\<lparr>tables := st, fleet := jsset name (w\<lparr>inflight := remove1 row (inflight w)\<rparr>) (fleet s)\<rparr>))"
| "job_exec s (Abandons name env) =
     (case jsget (fleet s) name of None \<Rightarrow> None
      | Some w \<Rightarrow> Some (s\<lparr>tables := abandonDrain (inflight w) 0 env (tables s)\<rparr>))"
| "job_exec s (Breaks name) = Some (s\<lparr>fleet := jsdelete name (fleet s)\<rparr>)"

lemma job_step_exec: "job_step s ev s' \<longleftrightarrow> job_exec s ev = Some s'"
proof
  assume "job_step s ev s'"
  then show "job_exec s ev = Some s'" by (cases rule: job_step.cases) auto
next
  assume "job_exec s ev = Some s'"
  then show "job_step s ev s'"
  proof (induction s ev rule: job_exec.induct)
    case (5 s name sd locked env)
    then show ?case by (auto split: option.splits prod.splits sum.splits if_splits intro: job_step.turns job_step.turn_fails)
  next
    case (6 s name row env)
    then show ?case by (auto split: option.splits prod.splits sum.splits if_splits intro: job_step.beats job_step.beat_fails)
  next
    case (7 s name row handlers env)
    then obtain w where w: "jsget (fleet s) name = Some w" "row \<in> set (inflight w)"
      by (auto split: option.splits if_splits)
    obtain res st where run: "runOutcome handlers row env (tables s) = (res, st)" by force
    show ?case
    proof (cases res)
      case (Inl e)
      with 7 w run have "s' = s\<lparr>tables := st, fleet := jsdelete name (fleet s)\<rparr>" by simp
      moreover have "runOutcome handlers row env (tables s) = (Inl e, st)" using run Inl by simp
      ultimately show ?thesis using job_step.settle_fails [OF w] by metis
    next
      case (Inr u)
      with 7 w run have "s' = s\<lparr>tables := st, fleet := jsset name (w\<lparr>inflight := remove1 row (inflight w)\<rparr>) (fleet s)\<rparr>" by simp
      moreover have "runOutcome handlers row env (tables s) = (Inr (), st)" using run Inr by simp
      ultimately show ?thesis using job_step.settles [OF w] by metis
    qed
  next
    case (8 s name env)
    then show ?case by (auto split: option.splits intro: job_step.abandons)
  qed (auto split: if_splits intro: job_step.schedules job_step.recurs job_step.cancels job_step.joins job_step.breaks)
qed

fun job_execs :: "JobSystem \<Rightarrow> JobEvent list \<Rightarrow> JobSystem option" where
  "job_execs s [] = Some s"
| "job_execs s (ev # evs) = (case job_exec s ev of None \<Rightarrow> None | Some s1 \<Rightarrow> job_execs s1 evs)"

lemma job_run_exec: "job_run s evs s' \<longleftrightarrow> job_execs s evs = Some s'"
proof (induction evs arbitrary: s)
  case Nil
  then show ?case by (auto simp: job_run_Nil_iff)
next
  case (Cons ev evs)
  then show ?case by (auto simp: job_run_Cons_iff job_step_exec split: option.split)
qed

subsection \<open>Backoff\<close>

lemma backoff_range:
  assumes "0 \<le> draw" and "draw < 1"
  shows "500 \<le> backoffMillis attempt draw None None \<and> backoffMillis attempt draw None None \<le> 450000"
proof -
  define x :: rat where "x = min (1000 * 2 ^ (attempt - 1)) 300000"
  have "(1::rat) \<le> 2 ^ (attempt - 1)" by simp
  then have x: "1000 \<le> x" "x \<le> 300000" by (simp_all add: x_def)
  have "1000 * (1 / 2) \<le> x * (1 / 2 + draw)" using x(1) assms by (intro mult_mono) auto
  moreover have "x * (1 / 2 + draw) \<le> 300000 * (3 / 2)" using x assms by (intro mult_mono) auto
  ultimately show ?thesis
    by (auto simp: backoffMillis_def js_round_def x_def le_floor_iff floor_le_iff)
qed

lemma backoff_monotone:
  assumes "0 \<le> draw"
  shows "backoffMillis attempt draw None None \<le> backoffMillis (Suc attempt) draw None None"
proof -
  have "(2::rat) ^ (attempt - 1) \<le> 2 ^ attempt" by (rule power_increasing) auto
  then have "min (1000 * 2 ^ (attempt - 1)) (300000::rat) * (1 / 2 + draw) \<le> min (1000 * 2 ^ attempt) 300000 * (1 / 2 + draw)"
    using assms by (intro mult_right_mono min.mono) auto
  then show ?thesis by (auto simp: backoffMillis_def js_round_def intro: floor_mono)
qed
lemma drained_others:
  "r \<in> set (queue st) \<Longrightarrow> \<not> (\<exists>row \<in> set rows. fences row r) \<Longrightarrow> r \<in> set (queue (abandonDrain rows k env st))"
  by (induction rows k env st rule: abandonDrain.induct) (auto simp: fenced_write_eq fenced_update_rows)

lemma drained_claimable:
  "(\<And>j. answers env j) \<Longrightarrow> row \<in> set rows \<Longrightarrow> r \<in> set (queue st) \<Longrightarrow> fences row r \<Longrightarrow>
    \<exists>r' \<in> set (queue (abandonDrain rows k env st)). same_job r r' \<and> claimable (nowAt env 0) r' \<and> rowAttempt r' = rowAttempt r"
proof (induction rows k env st arbitrary: row rule: abandonDrain.induct)
  case (2 row1 rows k env st)
  let ?g = "requeued (nowAt env 0) (nowAt env 0)"
  let ?st = "snd (fenced_write row1 (\<lambda>r. Some (?g r)) st)"
  have q: "queue ?st = map (\<lambda>r. if fences row1 r then ?g r else r) (queue st)" by (simp add: fenced_write_eq fenced_update_rows)
  show ?case
  proof (cases "fences row1 r")
    case True
    have "?g r \<in> set (queue ?st)" using 2(4) True q by auto
    moreover have "\<not> fences x (?g r)" for x by (simp add: fences_def requeued_def)
    ultimately have "?g r \<in> set (queue (abandonDrain rows (Suc k) env ?st))" by (intro drained_others) auto
    then show ?thesis using 2(2) by (auto simp: same_job_def claimable_def requeued_def intro!: bexI [of _ "?g r"])
  next
    case False
    have "r \<in> set (queue ?st)" using 2(4) False q by force
    moreover have "row \<in> set rows" using 2(3,5) False by auto
    ultimately show ?thesis using 2(1) [of row] 2(2,5) by simp
  qed
qed simp

end
