(* ===== verification/JobProperties.thy ===== *)
theory JobProperties
  imports JobProofs
begin

section \<open>Properties of the job scheduler\<close>

text \<open>
  What holds of the queue and its workers in every interleaving, what becomes of a job that fails, recurs or loses its worker, and
  the concrete histories the properties are applied to.
\<close>

subsection \<open>A small system\<close>

definition job_env :: "int \<Rightarrow> string \<Rightarrow> JobEnv" where
  "job_env t u = \<lparr>answers = \<lambda>k. True, nowAt = \<lambda>k. t, randomDraw = 1 / 2, jobUuid = u, fiberCorrelation = None,
     zoneClock = \<lambda>z. utc_formatter\<rparr>"

definition mail_job :: JobRef where
  "mail_job = \<lparr>refName = ''mail'', encodesPayload = \<lambda>p. Inr ''hello''\<rparr>"

definition mail_handlers :: "HandlerExit \<Rightarrow> JobHandlers" where
  "mail_handlers ended = register_job
     \<lparr>handlerName = ''mail'', decodesPayload = \<lambda>s. Inr (JStr s), handles = \<lambda>p ctx. ended, handlerMaxAttempts = Some 3\<rparr> []"

definition flaky :: HandlerExit where
  "flaky = HandlerFails \<lparr>failureReason = ''busy'', failureClass = TransientFailure\<rparr>"

definition now_please :: ScheduleOptions where
  "now_please = \<lparr>delayMillis = None, scheduleCorrelation = None\<rparr>"

definition two_slots :: WorkerOptions where
  "two_slots = \<lparr>batchOption = Some 5, concurrencyOption = Some 2, leaseOption = Some 1000\<rparr>"

definition mail_row :: JobRow where
  "mail_row = \<lparr>rowId = ''j'', rowJob = ''mail'', rowPayload = ''hello'', rowStatus = Queued, rowRunAt = 5, rowCron = None,
     rowTimezone = None, rowAttempt = 0, rowMaxAttempts = 3, rowLeaseExpires = None, rowLeaseOwner = None, rowLastError = None,
     rowCorrelation = None, rowCreatedAt = 5, rowUpdatedAt = 5\<rparr>"

text \<open>Worker \<open>A\<close> claims the job and stalls; after its lease \<open>B\<close> claims the same job.\<close>

definition taken_over :: "JobEvent list" where
  "taken_over =
     [Schedules (mail_handlers HandlerSucceeds) mail_job JNull now_please (job_env 5 ''j''), Joins ''A'' two_slots, Joins ''B'' two_slots,
      Turns ''A'' False [] (job_env 6 ''a''), Turns ''B'' False [] (job_env 2000 ''b'')]"

definition job_held_by :: "string \<Rightarrow> nat \<Rightarrow> QueueRow" where
  "job_held_by owner n = \<lparr>heldId = ''j'', heldJob = ''mail'', heldPayload = ''hello'', heldAttempt = n, heldMaxAttempts = 3, heldCron = None,
     heldTimezone = None, heldCorrelation = None, heldRunAt = 5, heldOwner = owner\<rparr>"

lemmas job_samples = job_env_def mail_job_def mail_handlers_def flaky_def now_please_def two_slots_def mail_row_def taken_over_def
  job_held_by_def

definition after_takeover :: JobSystem where
  "after_takeover = \<lparr>tables = \<lparr>queue = [mail_row\<lparr>rowStatus := Running, rowAttempt := 2, rowLeaseExpires := Some 3000,
       rowLeaseOwner := Some ''b'', rowUpdatedAt := 2000\<rparr>], deadJobs = [], dispatchedTotal = 2, succeededTotal = 0, retriedTotal = 0,
       deadLetteredTotal = 0\<rparr>,
     fleet = [(''A'', (new_worker two_slots)\<lparr>inflight := [job_held_by ''a'' 1]\<rparr>), (''B'', (new_worker two_slots)\<lparr>inflight := [job_held_by ''b'' 2]\<rparr>)],
     minted = [''a'', ''b'']\<rparr>"

lemma taken_over_runs: "job_run new_system taken_over after_takeover"
  unfolding job_run_exec
  by (simp add: job_samples after_takeover_def new_system_def no_jobs_def schedule_job_def maxAttemptsFor_def register_job_def new_worker_def
      worker_turn_def capacity_def claim_jobs_def picked_def claimable_def held_row_def Let_def)

subsection \<open>In every interleaving\<close>

text \<open>
  C26. Whatever workers and callers do on one queue, in any order: job ids are unique, a running row has an owner and a lease
  expiry, no worker runs more jobs at once than its concurrency, and of all executions of one job under way at most one still
  holds the lease.
\<close>

theorem job_system_sound:
  assumes "job_run new_system evs s"
  shows "distinct (map rowId (queue (tables s)))
    \<and> (\<forall>r \<in> set (queue (tables s)). rowStatus r = Running \<longrightarrow> rowLeaseOwner r \<noteq> None \<and> rowLeaseExpires r \<noteq> None)
    \<and> (\<forall>n w. jsget (fleet s) n = Some w \<longrightarrow> int (length (inflight w)) \<le> concurrency w)
    \<and> (\<forall>n w n' w' row row'. jsget (fleet s) n = Some w \<and> jsget (fleet s) n' = Some w' \<and> row \<in> set (inflight w)
        \<and> row' \<in> set (inflight w') \<and> heldId row = heldId row' \<and> holds_lease row (tables s) \<and> holds_lease row' (tables s) \<longrightarrow> n = n' \<and> row = row')"
proof -
  have ok: "system_ok s" by (rule system_ok_run [OF assms system_ok_new])
  then have "distinct (map rowId (queue (tables s)))"
    and "\<forall>r \<in> set (queue (tables s)). rowStatus r = Running \<longrightarrow> rowLeaseOwner r \<noteq> None \<and> rowLeaseExpires r \<noteq> None"
    by (auto simp: system_ok_def queue_ok_def row_ok_def)
  moreover have "fleet_ok s" using ok by (simp add: system_ok_def)
  note fleet_okD(1) [OF this]
  moreover have "n = n' \<and> row = row'" if "jsget (fleet s) n = Some w" "jsget (fleet s) n' = Some w'" "row \<in> set (inflight w)"
      "row' \<in> set (inflight w')" "heldId row = heldId row'" "holds_lease row (tables s)" "holds_lease row' (tables s)" for n w n' w' row row'
    using one_holder [OF ok, of row n row' n'] that by (simp add: runs_of_def)
  ultimately show ?thesis by blast
qed

lemma job_system_sound_witness:
  "distinct (map rowId (queue (tables after_takeover))) \<and> int (length [job_held_by ''b'' 2]) \<le> 2"
proof -
  note sound = job_system_sound [OF taken_over_runs]
  have "jsget (fleet after_takeover) ''B'' = Some ((new_worker two_slots)\<lparr>inflight := [job_held_by ''b'' 2]\<rparr>)"
    by (simp add: after_takeover_def)
  with conjunct1 [OF conjunct2 [OF conjunct2 [OF sound]]] have
    "int (length (inflight ((new_worker two_slots)\<lparr>inflight := [job_held_by ''b'' 2]\<rparr>))) \<le> concurrency ((new_worker two_slots)\<lparr>inflight := [job_held_by ''b'' 2]\<rparr>)"
    by blast
  with conjunct1 [OF sound] show ?thesis by (simp add: new_worker_def two_slots_def)
qed

text \<open>
  C27. A worker that no longer holds the lease of a job it runs never holds it again, and nothing it does with the job then
  changes the queue or the dead letters: not a completion, a retry, a dead letter, nor a heartbeat.
\<close>

theorem lost_lease_is_harmless:
  assumes "job_run new_system evs s" and "jsget (fleet s) n = Some w" and "row \<in> set (inflight w)"
    and "\<not> holds_lease row (tables s)" and "job_run s evs' s'"
  shows "queue (snd (runOutcome handlers row env (tables s'))) = queue (tables s')
    \<and> deadJobs (snd (runOutcome handlers row env (tables s'))) = deadJobs (tables s')
    \<and> snd (heartbeat lease row env (tables s')) = tables s'"
proof -
  have "system_ok s" by (rule system_ok_run [OF assms(1) system_ok_new])
  then have "heldOwner row \<in> set (minted s)"
    using fleet_okD(3) [of s n] assms(2,3) by (auto simp: system_ok_def runs_of_def)
  from lost_stays_lost [OF assms(5) this assms(4)] have lost: "\<not> holds_lease row (tables s')" .
  obtain res st where run: "runOutcome handlers row env (tables s') = (res, st)" by force
  then have "queue st = queue (tables s') \<and> deadJobs st = deadJobs (tables s')"
    by (cases rule: runOutcome_settles) (use lost in auto)
  with run lost show ?thesis by (simp add: heartbeat_def fenced_write_eq fenced_rows_unowned)
qed

lemma lost_lease_is_harmless_witness:
  "deadJobs (snd (runOutcome (mail_handlers flaky) (job_held_by ''a'' 1) (job_env 2500 ''d'') (tables after_takeover))) = []"
proof -
  have "\<not> holds_lease (job_held_by ''a'' 1) (tables after_takeover)"
    by (simp add: holds_lease_def fences_def after_takeover_def job_held_by_def)
  from lost_lease_is_harmless [OF taken_over_runs, of "''A''" "(new_worker two_slots)\<lparr>inflight := [job_held_by ''a'' 1]\<rparr>",
      OF _ _ this job_run_Nil, of "mail_handlers flaky" "job_env 2500 ''d''" 0]
  show ?thesis by (simp add: after_takeover_def)
qed

text \<open>
  C28. No job is lost: unless a call cancels it or replaces its recurrence, a job of the queue is still there later with the same
  handler name and payload, or a run of its handler succeeded on that payload, or a new dead letter carries its name and payload.
\<close>

theorem no_job_lost:
  assumes "job_run new_system evs s" and "r \<in> set (queue (tables s))" and "job_run s evs' s'"
    and "\<And>ev. ev \<in> set evs' \<Longrightarrow> \<not> touches (rowId r) ev"
  shows "(\<exists>r' \<in> set (queue (tables s')). same_job r r')
    \<or> (\<exists>name row handlers env. Settles name row handlers env \<in> set evs' \<and> heldId row = rowId r \<and> heldPayload row = rowPayload r
        \<and> handler_exit handlers row = Some HandlerSucceeds)
    \<or> (\<exists>d \<in> set (deadJobs (tables s')) - set (deadJobs (tables s)). deadJob d = rowJob r \<and> deadPayload d = rowPayload r)"
  using job_fate [OF assms(3) system_ok_run [OF assms(1) system_ok_new] assms(2)] assms(4) by blast

definition jobs_row :: JobRow where
  "jobs_row = mail_row\<lparr>rowStatus := Running, rowAttempt := 2, rowLeaseExpires := Some 3000, rowLeaseOwner := Some ''b'', rowUpdatedAt := 2000\<rparr>"

lemma no_job_lost_witness:
  "case job_execs after_takeover [Breaks ''B'', Turns ''A'' False [] (job_env 4000 ''c'')] of
     None \<Rightarrow> False | Some s' \<Rightarrow> list_ex (same_job jobs_row) (queue (tables s'))"
proof -
  let ?evs = "[Breaks ''B'', Turns ''A'' False [] (job_env 4000 ''c'')]"
  obtain s' where s': "job_execs after_takeover ?evs = Some s'" "deadJobs (tables s') = []"
    by (simp add: after_takeover_def job_samples new_worker_def worker_turn_def capacity_def claim_jobs_def picked_def claimable_def
        held_row_def Let_def)
  have row: "jobs_row \<in> set (queue (tables after_takeover))" by (simp add: after_takeover_def jobs_row_def)
  have untouched: "\<not> touches (rowId jobs_row) ev" if "ev \<in> set ?evs" for ev using that by auto
  from no_job_lost [OF taken_over_runs row iffD2 [OF job_run_exec s'(1)] untouched] s'(2)
  have "\<exists>r' \<in> set (queue (tables s')). same_job jobs_row r'" by auto
  with s'(1) show ?thesis by (simp only: option.case list_ex_iff)
qed

subsection \<open>Claims\<close>

text \<open>
  A claim takes jobs that are due or whose lease has lapsed, none that another transaction has locked, never more than asked
  for, and no job it leaves although it could take it is more overdue than one it takes; each taken row runs under the new token
  with one attempt more and a lease from now, and every other row stays as it was.
\<close>

theorem claim_takes_most_overdue:
  assumes "distinct (map rowId (queue st))" and "claim_jobs n lease locked env st = (Inr rows, st')"
  shows "length rows \<le> n
    \<and> (\<forall>row \<in> set rows. \<exists>r \<in> set (queue st). row = held_row (jobUuid env) r \<and> claimable (nowAt env 0) r \<and> rowId r \<notin> set locked)
    \<and> (\<forall>row \<in> set rows. \<forall>r \<in> set (queue st). claimable (nowAt env 0) r \<and> rowId r \<notin> set locked \<and> rowId r \<notin> heldId ` set rows
        \<longrightarrow> length rows = n \<and> heldRunAt row \<le> rowRunAt r)
    \<and> queue st' = map (\<lambda>r. if rowId r \<in> heldId ` set rows then claimed_row (jobUuid env) (nowAt env 0) lease r else r) (queue st)"
proof -
  let ?sorted = "sort_key rowRunAt (filter (\<lambda>r. claimable (nowAt env 0) r \<and> rowId r \<notin> set locked) (queue st))"
  let ?p = "picked n locked (nowAt env 0) st"
  have rows: "rows = map (held_row (jobUuid env)) ?p" and q: "queue st' = map (\<lambda>r. if rowId r \<in> rowId ` set ?p
      then claimed_row (jobUuid env) (nowAt env 0) lease r else r) (queue st)"
    using assms(2) by (simp_all add: claim_jobs_Inr)
  have ids: "heldId ` set rows = rowId ` set ?p" by (simp add: rows image_image held_row_def)
  have left: "length rows = n \<and> heldRunAt row \<le> rowRunAt r"
    if row: "row \<in> set rows" and r: "r \<in> set (queue st)" "claimable (nowAt env 0) r" "rowId r \<notin> set locked" "rowId r \<notin> heldId ` set rows"
    for row r
  proof -
    obtain p where p: "p \<in> set ?p" "row = held_row (jobUuid env) p" using row rows by auto
    have "r \<in> set ?sorted" "r \<notin> set ?p" using r ids by auto
    then have later: "r \<in> set (drop n ?sorted)" unfolding picked_def by (metis Un_iff append_take_drop_id set_append)
    then have "length rows = n" by (auto simp: rows picked_def dest: length_pos_if_in_set)
    moreover have "sorted (map rowRunAt (take n ?sorted @ drop n ?sorted))" by simp
    then have "rowRunAt p \<le> rowRunAt r"
      unfolding map_append sorted_append using p(1) later by (auto simp: picked_def)
    ultimately show ?thesis using p(2) by (simp add: held_row_def)
  qed
  have taken: "\<exists>r \<in> set (queue st). row = held_row (jobUuid env) r \<and> claimable (nowAt env 0) r \<and> rowId r \<notin> set locked"
    if "row \<in> set rows" for row using that set_picked rows by fastforce
  show ?thesis using left taken length_picked q by (simp add: ids) (simp add: rows)
qed

lemma claim_takes_most_overdue_witness:
  "\<exists>rows st'. claim_jobs 1 1000 [] (job_env 9 ''t'') (no_jobs\<lparr>queue := [mail_row\<lparr>rowId := ''x'', rowRunAt := 7\<rparr>, mail_row]\<rparr>) = (Inr rows, st')
    \<and> queue st' = [mail_row\<lparr>rowId := ''x'', rowRunAt := 7\<rparr>, claimed_row ''t'' 9 1000 mail_row]"
proof -
  let ?st = "no_jobs\<lparr>queue := [mail_row\<lparr>rowId := ''x'', rowRunAt := 7\<rparr>, mail_row]\<rparr>"
  have d: "distinct (map rowId (queue ?st))" by (simp add: mail_row_def)
  obtain rows st' where c: "claim_jobs 1 1000 [] (job_env 9 ''t'') ?st = (Inr rows, st')" "rows = [held_row ''t'' mail_row]"
    by (simp add: claim_jobs_def picked_def job_env_def mail_row_def claimable_def Let_def)
  from claim_takes_most_overdue [OF d c(1)] c show ?thesis
    by (simp add: held_row_def) (simp add: mail_row_def job_env_def)
qed

subsection \<open>Failure and recurrence\<close>

text \<open>
  C29. A job alone in the queue whose handler fails transiently every time, while the database answers and the job is claimed when it
  is due, is tried as often as its limit says, waiting in the queue with its count of attempts in between, and then leaves the queue with exactly one dead letter that carries its name, payload, attempts and error.
\<close>

theorem failing_job_is_buried:
  assumes "queue st = [r]" and "rowStatus r = Queued" and "rowAttempt r = 0" and "0 < rowMaxAttempts r"
    and "\<And>k. answers (c k) 0 \<and> answers (e k) 0 \<and> answers (e k) 1"
    and "rowRunAt r \<le> nowAt (c 0) 0"
    and "\<And>k. nowAt (e k) 0 + backoffMillis (Suc k) (randomDraw (e k)) None None \<le> nowAt (c (Suc k)) 0"
    and "\<And>k. jobUuid (e k) \<notin> deadId ` set (deadJobs st)"
    and "jsget handlers (rowJob r) = Some h" and "decodesPayload h (rowPayload r) = Inr input"
    and "\<And>ctx. handles h input ctx = HandlerFails \<lparr>failureReason = why, failureClass = TransientFailure\<rparr>"
  shows "(\<forall>k. int k < rowMaxAttempts r \<longrightarrow> (\<exists>r'. queue (rounds handlers lease c e k st) = [r'] \<and> same_job r r'
        \<and> rowStatus r' = Queued \<and> rowAttempt r' = k) \<and> deadJobs (rounds handlers lease c e k st) = deadJobs st)
    \<and> queue (rounds handlers lease c e (nat (rowMaxAttempts r)) st) = []
    \<and> deadJobs (rounds handlers lease c e (nat (rowMaxAttempts r)) st) = deadJobs st @
        [\<lparr>deadId = jobUuid (e (nat (rowMaxAttempts r) - 1)), deadJob = rowJob r, deadPayload = rowPayload r,
          deadAttempts = nat (rowMaxAttempts r), deadError = take 2048 why, deadCorrelation = rowCorrelation r,
          deadAt = nowAt (e (nat (rowMaxAttempts r) - 1)) 0\<rparr>]"
proof -
  note rounds = failing_rounds [where handlers = handlers and lease = lease and c = c and e = e, OF assms]
  obtain m where m: "nat (rowMaxAttempts r) = Suc m" using assms(4) by (cases "nat (rowMaxAttempts r)") auto
  then have "int m < rowMaxAttempts r" by linarith
  then obtain r' where r': "queue (rounds handlers lease c e m st) = [r']" "same_job r r'" "rowStatus r' = Queued" "rowAttempt r' = m"
    "rowMaxAttempts r' = rowMaxAttempts r" "rowCorrelation r' = rowCorrelation r" "rowRunAt r' \<le> nowAt (c m) 0"
    "deadJobs (rounds handlers lease c e m st) = deadJobs st"
    using rounds by blast
  have "claimable (nowAt (c m) 0) r'" using r' by (simp add: claimable_def)
  moreover have "jsget handlers (rowJob r') = Some h" "decodesPayload h (rowPayload r') = Inr input" "0 < rowMaxAttempts r'"
    using assms(4,9,10) r' by (simp_all add: same_job_def)
  moreover have "\<not> int (Suc (rowAttempt r')) < rowMaxAttempts r'" using m r' by linarith
  ultimately have "queue (rounds handlers lease c e (Suc m) st) = [] \<and> deadJobs (rounds handlers lease c e (Suc m) st) = deadJobs st @
      [\<lparr>deadId = jobUuid (e m), deadJob = rowJob r', deadPayload = rowPayload r', deadAttempts = Suc (rowAttempt r'), deadError = take 2048 why,
        deadCorrelation = rowCorrelation r', deadAt = nowAt (e m) 0\<rparr>]"
    using failing_round [OF r'(1), of "c m" "e m" handlers h input why lease] assms(5) [of m] assms(8) [of m] assms(11) r'(8) by simp
  with r' m rounds show ?thesis by (auto simp: same_job_def)
qed

lemma failing_job_is_buried_witness:
  "map deadAttempts (deadJobs (rounds (mail_handlers flaky) 1000 (\<lambda>k. job_env (int k * 1000000 + 5) ''c'')
     (\<lambda>k. job_env (int k * 1000000 + 6) (show_nat k)) 3 (no_jobs\<lparr>queue := [mail_row]\<rparr>))) = [3]"
proof -
  have wait: "backoffMillis (Suc k) (1 / 2) None None \<le> 999999" for k
    using backoff_range [of "1 / 2" "Suc k"] by simp
  let ?h = "\<lparr>handlerName = ''mail'', decodesPayload = \<lambda>s. Inr (JStr s), handles = \<lambda>p ctx. flaky, handlerMaxAttempts = Some 3\<rparr>"
  from failing_job_is_buried [of "no_jobs\<lparr>queue := [mail_row]\<rparr>" mail_row "\<lambda>k. job_env (int k * 1000000 + 5) ''c''"
      "\<lambda>k. job_env (int k * 1000000 + 6) (show_nat k)" "mail_handlers flaky" ?h "JStr ''hello''" "''busy''" 1000]
  show ?thesis
    using wait by (simp add: mail_row_def job_env_def no_jobs_def mail_handlers_def register_job_def flaky_def)
qed

text \<open>
  C30. A recurring job whose run succeeded goes back to the queue, with no attempts used, at the next run of its schedule in its
  zone after both its scheduled time and now, so missed runs are skipped; when there is no next run the job leaves the queue, without
  a dead letter. In a zone at a fixed offset from UTC, from the fourth day of 1970 on, that time is the earliest one after both at
  which the schedule fires, and there is none only if the schedule does not fire within 400 days.
\<close>

theorem recurring_job_moves_on:
  assumes "heldCron row = Some expression" and "parseCron expression = Inr cron" and "answers env 0"
    and "zone = zoneClock env (getOr ''UTC'' (heldTimezone row))" and "now = max (heldRunAt row) (nowAt env 0)"
  shows "case completeSuccess row env st of (res, st') \<Rightarrow> res = Inr () \<and> deadJobs st' = deadJobs st
    \<and> (case nextRun now cron zone of
         Some t \<Rightarrow> now < t \<and> queue st' = map (\<lambda>r. if fences row r then (requeued t (nowAt env 1) r)\<lparr>rowAttempt := 0\<rparr> else r) (queue st)
       | None \<Rightarrow> queue st' = filter (\<lambda>r. \<not> fences row r) (queue st))
    \<and> (\<forall>off. fixed_zone zone off \<and> 3 * ms_per_day \<le> now \<longrightarrow>
         (case nextRun now cron zone of
            Some t \<Rightarrow> cron_fires zone off cron t \<and> (\<forall>u. now < u \<and> u < t \<longrightarrow> \<not> cron_fires zone off cron u)
          | None \<Rightarrow> \<forall>u. now < u \<and> (u + off) div ms_per_day \<le> (now + off) div ms_per_day + 400 \<longrightarrow> \<not> cron_fires zone off cron u))"
proof -
  have fixed: "case nextRun now cron zone of
      Some t \<Rightarrow> cron_fires zone off cron t \<and> (\<forall>u. now < u \<and> u < t \<longrightarrow> \<not> cron_fires zone off cron u)
    | None \<Rightarrow> \<forall>u. now < u \<and> (u + off) div ms_per_day \<le> (now + off) div ms_per_day + 400 \<longrightarrow> \<not> cron_fires zone off cron u"
    if "fixed_zone zone off" "3 * ms_per_day \<le> now" for off
    using fixed_zone.next_run_days [OF that(1) parseCron_wf [OF assms(2)] that(2)]
    by (cases "nextRun now cron zone") simp_all
  show ?thesis
  proof (cases "nextRun now cron zone")
    case None
    with fixed assms show ?thesis
      by (simp add: completeSuccess_def next_after_def fenced_write_eq fenced_delete)
  next
    case (Some t)
    with assms have "completeSuccess row env st = (Inr (), st\<lparr>queue := map (\<lambda>r. if fences row r
        then (requeued t (nowAt env 1) r)\<lparr>rowAttempt := 0\<rparr> else r) (queue st)\<rparr>)"
      by (simp add: completeSuccess_def next_after_def fenced_write_eq fenced_update_rows)
    with fixed Some nextRun_after [OF Some] show ?thesis by simp
  qed
qed

definition daily :: QueueRow where
  "daily = (job_held_by ''b'' 2)\<lparr>heldCron := Some ''30 9 * * *'', heldRunAt := 1000 * ms_per_day\<rparr>"

definition half_past_nine :: CronFields where
  "half_past_nine = \<lparr>minutes = [30], hours = [9], daysOfMonth = [1..<32], months = [1..<13], daysOfWeek = [0..<7],
     domRestricted = False, dowRestricted = False\<rparr>"

lemma recurring_job_moves_on_witness:
  "map (\<lambda>r. (rowRunAt r, rowAttempt r, rowStatus r))
     (queue (snd (completeSuccess daily (job_env (1003 * ms_per_day) ''u'') (tables after_takeover))))
     = [(1003 * ms_per_day + 34200000, 0, Queued)]
   \<and> cron_fires utc_formatter 0 half_past_nine (1003 * ms_per_day + 34200000)"
proof -
  let ?env = "job_env (1003 * ms_per_day) ''u''"
  let ?now = "max (heldRunAt daily) (nowAt ?env 0)"
  let ?zone = "zoneClock ?env (getOr ''UTC'' (heldTimezone daily))"
  have now: "?now = 1003 * ms_per_day" "3 * ms_per_day \<le> ?now" by (simp_all add: daily_def job_env_def ms_per_day_def)
  have zone: "?zone = utc_formatter" by (simp add: job_env_def)
  have cron: "parseCron ''30 9 * * *'' = Inr half_past_nine" by code_simp
  have "nextRun (1003 * ms_per_day) half_past_nine utc_formatter = Some (1003 * ms_per_day + 34200000)" by code_simp
  then have next_run: "nextRun ?now half_past_nine ?zone = Some (1003 * ms_per_day + 34200000)" using now zone by simp
  have held: "queue (tables after_takeover) = [jobs_row]" "fences daily jobs_row"
    by (simp_all add: after_takeover_def jobs_row_def mail_row_def fences_def daily_def job_held_by_def)
  have "heldCron daily = Some ''30 9 * * *''" "answers ?env 0" by (simp_all add: daily_def job_env_def)
  from recurring_job_moves_on [OF this(1) cron this(2) refl refl, of "tables after_takeover"] next_run held now zone
    utc.fixed_zone_axioms
  show ?thesis by (auto simp: requeued_def split: prod.splits)
qed

text \<open>
  C31. Calling \<open>recur\<close> with the key of a recurring job for another job reports success, but the row keeps the old job's name and
  attempt limit and gets the new job's payload: the old handler is given the payload of the new job.
\<close>

theorem recur_keeps_old_handler:
  assumes "r \<in> set (queue st)" and "rowJob r \<noteq> refName job" and "scheduleKey options = Some (rowId r)"
    and "recur_job handlers job input options env st = (Inr jobId, st')"
  shows "jobId = rowId r \<and> (\<exists>r' \<in> set (queue st'). rowId r' = rowId r \<and> rowJob r' = rowJob r \<and> rowJob r' \<noteq> refName job
    \<and> rowMaxAttempts r' = rowMaxAttempts r \<and> encodesPayload job input = Inr (rowPayload r'))"
proof -
  have "rowId r \<in> rowId ` set (queue st)" using assms(1) by simp
  then have "jobId = rowId r \<and> (\<exists>x. queue st' = map (\<lambda>r'. if rowId r' = rowId r then recur_again x r' else r') (queue st)
      \<and> encodesPayload job input = Inr (rowPayload x))"
    using assms(3,4)
    by (auto simp: recur_job_def Let_def simp del: map_eq_conv split: sum.splits option.splits if_splits; intro exI conjI, rule refl, simp)
  then obtain x where x: "jobId = rowId r" "queue st' = map (\<lambda>r'. if rowId r' = rowId r then recur_again x r' else r') (queue st)"
    "encodesPayload job input = Inr (rowPayload x)"
    by blast
  have "recur_again x r \<in> set (queue st')" using assms(1) x(2) by force
  moreover have "rowId (recur_again x r) = rowId r" "rowJob (recur_again x r) = rowJob r"
    "rowMaxAttempts (recur_again x r) = rowMaxAttempts r" "rowPayload (recur_again x r) = rowPayload x"
    by (simp_all add: recur_again_def)
  ultimately show ?thesis using x(1,3) assms(2) by metis
qed

definition report_job :: JobRef where
  "report_job = \<lparr>refName = ''report'', encodesPayload = \<lambda>p. Inr ''year''\<rparr>"

definition every_day :: RecurOptions where
  "every_day = \<lparr>recurCron = ''0 9 * * *'', recurTimezone = None, scheduleKey = Some ''j'', recurCorrelation = None\<rparr>"

lemma recur_keeps_old_handler_witness:
  "\<exists>st'. recur_job [] report_job JNull every_day (job_env (1000 * ms_per_day) ''u'') (no_jobs\<lparr>queue := [mail_row]\<rparr>) = (Inr ''j'', st')
    \<and> list_ex (\<lambda>r'. rowJob r' = ''mail'' \<and> rowPayload r' = ''year'') (queue st')"
proof -
  let ?x = "recur_job [] report_job JNull every_day (job_env (1000 * ms_per_day) ''u'') (no_jobs\<lparr>queue := [mail_row]\<rparr>)"
  have ok: "fst ?x = Inr ''j''" by code_simp
  then have "?x = (Inr ''j'', snd ?x)" by (metis prod.collapse)
  with recur_keeps_old_handler [of mail_row "no_jobs\<lparr>queue := [mail_row]\<rparr>" report_job every_day "[]" JNull
      "job_env (1000 * ms_per_day) ''u''" "''j''" "snd ?x"]
  show ?thesis
    by (auto simp: list_ex_iff mail_row_def report_job_def every_day_def intro!: exI [of _ "snd ?x"])
qed

text \<open>
  C32. The attempt limit is compared only after a handler failed. A job whose worker dies during the run is claimed again each
  time its lease lapses, as often as that happens: its attempts pass any limit and it is never dead-lettered.
\<close>

theorem crashing_job_is_never_buried:
  assumes "queue st = [r]" and "rowStatus r = Queued" and "rowRunAt r \<le> nowAt (c 0) 0"
    and "\<And>k. answers (c k) 0" and "\<And>k. nowAt (c k) 0 + lease \<le> nowAt (c (Suc k)) 0"
  shows "\<exists>row. claim_jobs 1 lease [] (c k) (reclaims lease c k st) = (Inr [row], reclaims lease c (Suc k) st)
    \<and> heldId row = rowId r \<and> heldPayload row = rowPayload r \<and> heldAttempt row = Suc (rowAttempt r + k)
    \<and> heldMaxAttempts row = rowMaxAttempts r \<and> deadJobs (reclaims lease c (Suc k) st) = deadJobs st"
proof -
  obtain r' where r': "queue (reclaims lease c k st) = [r']" "same_job r r'" "rowAttempt r' = rowAttempt r + k"
    "rowMaxAttempts r' = rowMaxAttempts r" "claimable (nowAt (c k) 0) r'" "deadJobs (reclaims lease c k st) = deadJobs st"
    using reclaimed_forever [OF assms] by blast
  from claim_single [OF r'(1,5) assms(4), of lease] r' show ?thesis
    by (simp add: held_row_def same_job_def)
qed

lemma crashing_job_is_never_buried_witness:
  "\<exists>row. claim_jobs 1 10 [] (job_env 100 ''c'') (reclaims 10 (\<lambda>k. job_env (10 * int k) ''c'') 10 (no_jobs\<lparr>queue := [mail_row\<lparr>rowRunAt := 0\<rparr>]\<rparr>))
      = (Inr [row], reclaims 10 (\<lambda>k. job_env (10 * int k) ''c'') 11 (no_jobs\<lparr>queue := [mail_row\<lparr>rowRunAt := 0\<rparr>]\<rparr>))
    \<and> heldMaxAttempts row = 3 \<and> heldAttempt row = 11"
  using crashing_job_is_never_buried [of "no_jobs\<lparr>queue := [mail_row\<lparr>rowRunAt := 0\<rparr>]\<rparr>" "mail_row\<lparr>rowRunAt := 0\<rparr>"
      "\<lambda>k. job_env (10 * int k) ''c''" 10 10]
  by (simp add: job_env_def mail_row_def) (metis Suc_eq_plus1 numeral_nat(2) add_One)

text \<open>
  The backoff of the defaults lies between half a second and seven and a half minutes whatever is drawn, and never gets
  shorter with the number of attempts for the same draw.
\<close>

theorem job_backoff_bounds:
  assumes "0 \<le> draw" and "draw < 1"
  shows "500 \<le> backoffMillis attempt draw None None \<and> backoffMillis attempt draw None None \<le> 450000
    \<and> backoffMillis attempt draw None None \<le> backoffMillis (Suc attempt) draw None None"
  using backoff_range [OF assms] backoff_monotone [OF assms(1)] by blast

lemma job_backoff_bounds_witness: "500 \<le> backoffMillis 3 (1 / 4) None None"
  using job_backoff_bounds [of "1 / 4" 3] by simp

text \<open>
  A drain that gives up while the database answers takes the lease of every job the worker still runs, so what the abandoned
  handlers write later changes nothing, and every row it released waits in the queue with the time of the drain, where the next
  claim may take it.
\<close>

theorem abandoned_drain_returns_jobs:
  assumes "\<And>k. answers env k" and "row \<in> set rows" and "r \<in> set (queue st)" and "fences row r"
    and "distinct (map rowId (queue st))"
  shows "\<not> holds_lease row (abandonDrain rows k env st)
    \<and> (\<exists>r' \<in> set (queue (abandonDrain rows k env st)). same_job r r' \<and> claimable (nowAt env 0) r' \<and> rowAttempt r' = rowAttempt r)"
proof -
  have "\<not> holds_lease row (abandonDrain rows k env st)" by (rule drained_unowned) (use assms in auto)
  moreover have "\<exists>r' \<in> set (queue (abandonDrain rows k env st)). same_job r r' \<and> claimable (nowAt env 0) r' \<and> rowAttempt r' = rowAttempt r"
    using drained_claimable [OF _ assms(2-4)] assms(1) by blast
  ultimately show ?thesis ..
qed

lemma abandoned_drain_returns_jobs_witness:
  "list_ex (claimable 2500) (queue (abandonDrain [job_held_by ''b'' 2] 0 (job_env 2500 ''z'') (tables after_takeover)))"
proof -
  have "fences (job_held_by ''b'' 2) jobs_row" "distinct (map rowId (queue (tables after_takeover)))"
      "jobs_row \<in> set (queue (tables after_takeover))"
    by (simp_all add: fences_def job_held_by_def jobs_row_def mail_row_def after_takeover_def)
  with abandoned_drain_returns_jobs [of "job_env 2500 ''z''" "job_held_by ''b'' 2" "[job_held_by ''b'' 2]" jobs_row "tables after_takeover" 0]
  show ?thesis by (auto simp: list_ex_iff job_env_def)
qed

text \<open>
  Supervision runs the worker again after every failure and never after a clean or interrupted end, with at least half a
  second between runs under the defaults; the readiness flag is down after every run.
\<close>

theorem supervision_restarts_failures:
  assumes "\<And>k. 0 \<le> draw k \<and> draw k < 1"
  shows "length (filter ((=) RunStarts) (supervise \<lparr>restartBase = None, restartCap = None\<rparr> draw failures exits))
      = min (length exits) (Suc (length (takeWhile ((=) FailedExit) exits)))
    \<and> length (filter ((=) (RunEnds False)) (supervise \<lparr>restartBase = None, restartCap = None\<rparr> draw failures exits))
      = min (length exits) (Suc (length (takeWhile ((=) FailedExit) exits)))
    \<and> (\<forall>ms. Sleeps ms \<in> set (supervise \<lparr>restartBase = None, restartCap = None\<rparr> draw failures exits) \<longrightarrow> 500 \<le> ms \<and> ms \<le> 450000)"
proof (induction exits arbitrary: failures)
  case (Cons e es)
  show ?case
  proof (cases "e = FailedExit")
    case True
    with Cons.IH [of "Suc failures"] backoff_range [of "draw failures" "Suc failures"] assms [of failures] show ?thesis
      by auto
  qed auto
qed simp

lemma supervision_restarts_failures_witness:
  "length (filter ((=) RunStarts) (workerLayer None (Some \<lparr>restartBase = None, restartCap = None\<rparr>) (\<lambda>k. 1 / 2)
     [FailedExit, FailedExit, CleanExit, FailedExit])) = 3"
  using supervision_restarts_failures [of "\<lambda>k. 1 / 2" 0 "[FailedExit, FailedExit, CleanExit, FailedExit]"]
  by (simp add: workerLayer_def)

end
