(* ===== verification/SqliteStore.thy ===== *)
theory SqliteStore
  imports HistoryImport Outbox
begin

section \<open>The event store over SQL tables\<close>

text \<open>
  \<open>packages/eventsourcing-sqlite/src/EventStore.ts\<close>: the tables of an event store, the transaction of \<open>append\<close> with its outbox
  messages, the reads and the erasure of a stream. The database is SQLite on one connection, so a transaction runs alone: it is a
  function on the tables that gives the new tables, or the tables as they were when it fails. Which statements the database
  answers is an argument, \<open>ok\<close>. A JSON column holds the value that is read back from the text written.
\<close>

subsection \<open>JSON columns\<close>

fun sequence_all :: "'a option list \<Rightarrow> 'a list option" where
  "sequence_all [] = Some []"
| "sequence_all (x # xs) = (case x of None \<Rightarrow> None | Some a \<Rightarrow> map_option ((#) a) (sequence_all xs))"

text \<open>
  \<open>JSON.parse (JSON.stringify (value ?? null))\<close>: undefined members are left out, other undefined values become null, and a
  big integer anywhere throws, which is \<open>None\<close>.
\<close>

fun json_stored :: "json \<Rightarrow> json option" where
  "json_stored JUndefined = Some JNull"
| "json_stored (JBigInt n) = None"
| "json_stored (JArr xs) = map_option JArr (sequence_all (map json_stored xs))"
| "json_stored (JObj kvs) =
     map_option JObj (sequence_all (map (\<lambda>kv. map_option (Pair (fst kv)) (json_stored (snd kv)))
       (filter (\<lambda>kv. snd kv \<noteq> JUndefined) kvs)))"
| "json_stored v = Some v"

definition members_stored :: "(string \<times> json) list \<Rightarrow> (string \<times> json) list option" where
  "members_stored kvs =
     sequence_all (map (\<lambda>kv. map_option (Pair (fst kv)) (json_stored (snd kv))) (filter (\<lambda>kv. snd kv \<noteq> JUndefined) kvs))"

definition metadata_stored :: "EventMetadata \<Rightarrow> EventMetadata option" where
  "metadata_stored m =
     (case extensions m of
        None \<Rightarrow> Some m
      | Some kvs \<Rightarrow> map_option (\<lambda>stored. m\<lparr>extensions := Some stored\<rparr>) (members_stored kvs))"

definition encode_failed :: PersistenceError where
  "encode_failed = PersistenceError ''json.encode'' (JStr ''TypeError'')"

definition encodeJson :: "json \<Rightarrow> (PersistenceError, json) result" where
  "encodeJson v = (case json_stored v of None \<Rightarrow> Inl encode_failed | Some text \<Rightarrow> Inr text)"

subsection \<open>Tables\<close>

record EventRow =
  evPosition :: int
  evStream :: string
  evVersion :: int
  evType :: string
  evSchemaVersion :: int
  evPayload :: json
  evMetadata :: EventMetadata

record ErasedStreamRow =
  erasedStream :: string
  lastErasedVersion :: int
  rowErasedAt :: string
  rowReason :: string

record OutboxRow =
  outboxId :: string
  outboxTopic :: string
  outboxPayload :: json
  outboxMetadata :: "(string \<times> json) list"
  outboxStatus :: OutboxStatus
  outboxAttempts :: nat
  outboxLastError :: "string option"
  outboxAvailableAt :: "rat option"
  outboxToken :: "string option"
  outboxLease :: "rat option"

record SnapshotRow =
  ssStream :: string
  ssState :: json
  ssVersion :: int

record SqlTables =
  eventsTable :: "EventRow list"
  eventsSequence :: int
  erasedTable :: "ErasedStreamRow list"
  snapshotTable :: "SnapshotRow list"
  outboxTable :: "OutboxRow list"
  checkpointTable :: "(string \<times> int) list"

definition emptyTables :: SqlTables where
  "emptyTables = \<lparr>eventsTable = [], eventsSequence = 0, erasedTable = [], snapshotTable = [], outboxTable = [], checkpointTable = []\<rparr>"

text \<open>The statements an operation sends, and the causes of a \<open>SqlError\<close> the adapter tells apart.\<close>

datatype SqlStatement =
    Begin | Commit
  | SelectErased | SelectVersion | RereadVersion | SelectEvents
  | InsertEvent nat | InsertMessage nat
  | UpdateEvent int | DeleteSnapshot | InsertErased
  | SelectSnapshot | UpsertSnapshot | SelectCheckpoint | UpsertCheckpoint

datatype SqlCause = EventsUnique | OtherCause

datatype TxFailure = TxDomain DomainError | TxSql SqlCause | TxPersistence PersistenceError

text \<open>\<open>sql.withTransaction\<close>: a body that fails, and a commit that fails, leave the tables as they were.\<close>

definition withTransaction ::
  "(SqlStatement \<Rightarrow> bool) \<Rightarrow> (SqlCause \<Rightarrow> 'e) \<Rightarrow> ('t \<Rightarrow> ('e, 'a) result \<times> 't) \<Rightarrow> 't \<Rightarrow> ('e, 'a) result \<times> 't" where
  "withTransaction ok raise body tb =
     (if \<not> ok Begin then (Inl (raise OtherCause), tb)
      else (case body tb of
          (Inl e, _) \<Rightarrow> (Inl e, tb)
        | (Inr a, tb') \<Rightarrow> if ok Commit then (Inr a, tb') else (Inl (raise OtherCause), tb)))"

subsection \<open>Reading\<close>

definition decodeEvent :: "EventRow \<Rightarrow> StoredEvent" where
  "decodeEvent row =
     \<lparr>etype = evType row, schemaVersion = evSchemaVersion row, payload = evPayload row, metadata = evMetadata row,
      position = evPosition row, streamName = evStream row, version = evVersion row\<rparr>"

text \<open>\<open>max(version)\<close> of a stream, and 0 for none.\<close>

definition stream_max :: "string \<Rightarrow> EventRow list \<Rightarrow> int" where
  "stream_max sn rows =
     (case map evVersion (filter (\<lambda>r. evStream r = sn) rows) of [] \<Rightarrow> 0 | v # vs \<Rightarrow> fold max vs v)"

definition currentVersion :: "bool \<Rightarrow> string \<Rightarrow> SqlTables \<Rightarrow> (SqlCause, int) result" where
  "currentVersion answered sn tb = (if answered then Inr (stream_max sn (eventsTable tb)) else Inl OtherCause)"

definition erased_row :: "string \<Rightarrow> SqlTables \<Rightarrow> ErasedStreamRow option" where
  "erased_row sn tb = find (\<lambda>r. erasedStream r = sn) (erasedTable tb)"

definition sql_limit :: "int option \<Rightarrow> 'a list \<Rightarrow> 'a list" where
  "sql_limit n rows = (case n of None \<Rightarrow> rows | Some k \<Rightarrow> if k < 0 then rows else take (nat k) rows)"

definition read_sqlite ::
  "(SqlStatement \<Rightarrow> bool) \<Rightarrow> string \<Rightarrow> int option \<Rightarrow> SqlTables \<Rightarrow> (PersistenceError, StoredEvent list) result" where
  "read_sqlite ok sn fromVersion tb =
     (if \<not> ok SelectEvents then Inl (PersistenceError ''EventStore'' (JStr ''SqlError''))
      else Inr (map decodeEvent (sort_key evVersion
             (filter (\<lambda>r. evStream r = sn \<and> evVersion r \<ge> getOr 1 fromVersion) (eventsTable tb)))))"

definition partition_matches :: "string list option \<Rightarrow> EventRow \<Rightarrow> bool" where
  "partition_matches parts r =
     (case parts of
        None \<Rightarrow> True
      | Some ps \<Rightarrow> ps \<noteq> [] \<and> (case partition (evMetadata r) of None \<Rightarrow> False | Some p \<Rightarrow> p \<in> set ps))"

definition readAll_sqlite ::
  "(SqlStatement \<Rightarrow> bool) \<Rightarrow> ReadAllOptions \<Rightarrow> SqlTables \<Rightarrow> (PersistenceError, StoredEvent list) result" where
  "readAll_sqlite ok opts tb =
     (if \<not> ok SelectEvents then Inl (PersistenceError ''EventStore'' (JStr ''SqlError''))
      else (let parts = readAllPartitions (partitionFilter opts) in
            Inr (map decodeEvent (sql_limit (batchSize opts) (sort_key evPosition
              (filter (\<lambda>r. evPosition r \<ge> getOr 1 (fromPosition opts) \<and> partition_matches parts r) (eventsTable tb)))))))"

subsection \<open>Appending\<close>

text \<open>One row: position from the sequence, a second row for one version of a stream violates the unique key.\<close>

definition insertEvent ::
  "(SqlStatement \<Rightarrow> bool) \<Rightarrow> string \<Rightarrow> int \<Rightarrow> nat \<Rightarrow> AppendEvent \<Rightarrow> SqlTables \<Rightarrow> (TxFailure, unit) result \<times> SqlTables" where
  "insertEvent ok sn expectedVersion index event tb =
     (case encodeJson (payload event) of
        Inl e \<Rightarrow> (Inl (TxPersistence e), tb)
      | Inr payloadText \<Rightarrow>
          (case metadata_stored (metadata event) of
             None \<Rightarrow> (Inl (TxPersistence encode_failed), tb)
           | Some metadataText \<Rightarrow>
               (let v = expectedVersion + int index + 1 in
                if \<not> ok (InsertEvent index) then (Inl (TxSql OtherCause), tb)
                else if \<exists>r \<in> set (eventsTable tb). evStream r = sn \<and> evVersion r = v then (Inl (TxSql EventsUnique), tb)
                else (Inr (),
                  tb\<lparr>eventsTable := eventsTable tb @
                       [\<lparr>evPosition = eventsSequence tb + 1, evStream = sn, evVersion = v, evType = etype event,
                         evSchemaVersion = schemaVersion event, evPayload = payloadText, evMetadata = metadataText\<rparr>],
                     eventsSequence := eventsSequence tb + 1\<rparr>))))"

fun insertEvents ::
  "(SqlStatement \<Rightarrow> bool) \<Rightarrow> string \<Rightarrow> int \<Rightarrow> nat \<Rightarrow> AppendEvent list \<Rightarrow> SqlTables \<Rightarrow> (TxFailure, unit) result \<times> SqlTables" where
  "insertEvents ok sn expectedVersion index [] tb = (Inr (), tb)"
| "insertEvents ok sn expectedVersion index (event # events) tb =
     (case insertEvent ok sn expectedVersion index event tb of
        (Inl e, tb') \<Rightarrow> (Inl e, tb')
      | (Inr _, tb') \<Rightarrow> insertEvents ok sn expectedVersion (index + 1) events tb')"

definition insertMessage ::
  "(SqlStatement \<Rightarrow> bool) \<Rightarrow> nat \<Rightarrow> OutboxMessage \<Rightarrow> SqlTables \<Rightarrow> (TxFailure, unit) result \<times> SqlTables" where
  "insertMessage ok index msg tb =
     (case encodeJson (msgPayload msg) of
        Inl e \<Rightarrow> (Inl (TxPersistence e), tb)
      | Inr payloadText \<Rightarrow>
          (case members_stored (msgMetadata msg) of
             None \<Rightarrow> (Inl (TxPersistence encode_failed), tb)
           | Some metadataText \<Rightarrow>
               if \<not> ok (InsertMessage index) \<or> msgId msg \<in> outboxId ` set (outboxTable tb) then (Inl (TxSql OtherCause), tb)
               else (Inr (),
                 tb\<lparr>outboxTable := outboxTable tb @
                      [\<lparr>outboxId = msgId msg, outboxTopic = msgTopic msg, outboxPayload = payloadText,
                        outboxMetadata = metadataText, outboxStatus = Pending, outboxAttempts = 0,
                        outboxLastError = None, outboxAvailableAt = msgAvailableAt msg, outboxToken = None,
                        outboxLease = None\<rparr>]\<rparr>)))"

fun insertMessages ::
  "(SqlStatement \<Rightarrow> bool) \<Rightarrow> nat \<Rightarrow> OutboxMessage list \<Rightarrow> SqlTables \<Rightarrow> (TxFailure, unit) result \<times> SqlTables" where
  "insertMessages ok index [] tb = (Inr (), tb)"
| "insertMessages ok index (msg # msgs) tb =
     (case insertMessage ok index msg tb of
        (Inl e, tb') \<Rightarrow> (Inl e, tb')
      | (Inr _, tb') \<Rightarrow> insertMessages ok (index + 1) msgs tb')"

definition version_conflict :: "string \<Rightarrow> int \<Rightarrow> int \<Rightarrow> DomainError" where
  "version_conflict sn expectedVersion actualVersion =
     (case conflictIdentity sn of (entity, ident) \<Rightarrow> ConcurrencyConflict entity ident expectedVersion actualVersion)"

definition append_body ::
  "(SqlStatement \<Rightarrow> bool) \<Rightarrow> string \<Rightarrow> int \<Rightarrow> AppendEvent list \<Rightarrow> OutboxMessage list \<Rightarrow> SqlTables
    \<Rightarrow> (TxFailure, AppendResult) result \<times> SqlTables" where
  "append_body ok sn expectedVersion events messages tb =
     (if \<not> ok SelectErased then (Inl (TxSql OtherCause), tb)
      else (case erased_row sn tb of
          Some row \<Rightarrow> (Inl (TxDomain (version_conflict sn expectedVersion (lastErasedVersion row))), tb)
        | None \<Rightarrow>
            (case currentVersion (ok SelectVersion) sn tb of
               Inl e \<Rightarrow> (Inl (TxSql e), tb)
             | Inr actualVersion \<Rightarrow>
                 if actualVersion \<noteq> expectedVersion
                 then (Inl (TxDomain (version_conflict sn expectedVersion actualVersion)), tb)
                 else (case insertEvents ok sn expectedVersion 0 events tb of
                     (Inl e, tb') \<Rightarrow> (Inl e, tb')
                   | (Inr _, tb') \<Rightarrow>
                       (case insertMessages ok 0 messages tb' of
                          (Inl e, tb'') \<Rightarrow> (Inl e, tb'')
                        | (Inr _, tb'') \<Rightarrow>
                            (Inr (if events = [] then \<lparr>firstVersion = actualVersion, lastVersion = actualVersion\<rparr>
                                  else \<lparr>firstVersion = expectedVersion + 1,
                                        lastVersion = expectedVersion + int (length events)\<rparr>), tb''))))))"

text \<open>A violation of the unique key becomes a conflict at the version read again after the rollback.\<close>

definition appendTransaction ::
  "(SqlStatement \<Rightarrow> bool) \<Rightarrow> string \<Rightarrow> int \<Rightarrow> AppendEvent list \<Rightarrow> OutboxMessage list \<Rightarrow> SqlTables
    \<Rightarrow> (TxFailure, AppendResult) result \<times> SqlTables" where
  "appendTransaction ok sn expectedVersion events messages tb =
     (case withTransaction ok TxSql (append_body ok sn expectedVersion events messages) tb of
        (Inl (TxSql EventsUnique), tb') \<Rightarrow>
          (case currentVersion (ok RereadVersion) sn tb' of
             Inl e \<Rightarrow> (Inl (TxSql e), tb')
           | Inr actualVersion \<Rightarrow> (Inl (TxDomain (version_conflict sn expectedVersion actualVersion)), tb'))
      | r \<Rightarrow> r)"

fun store_failure :: "TxFailure \<Rightarrow> StoreFailure" where
  "store_failure (TxDomain e) = DomainFailure e"
| "store_failure (TxSql e) = PersistenceFailure (PersistenceError ''EventStore'' (JStr ''SqlError''))"
| "store_failure (TxPersistence e) = PersistenceFailure e"

definition append_sqlite ::
  "(SqlStatement \<Rightarrow> bool) \<Rightarrow> string \<Rightarrow> int \<Rightarrow> AppendEvent list \<Rightarrow> SqlTables
    \<Rightarrow> (StoreFailure, AppendResult) result \<times> SqlTables" where
  "append_sqlite ok sn expectedVersion events tb =
     (case appendTransaction ok sn expectedVersion events [] tb of
        (Inl e, tb') \<Rightarrow> (Inl (store_failure e), tb')
      | (Inr r, tb') \<Rightarrow> (Inr r, tb'))"

subsection \<open>Erasing a stream\<close>

datatype EraseFailure = EraseRefused StreamErasureError | EraseSql SqlCause

text \<open>\<open>UPDATE \<dots> WHERE stream_name = \<dots> AND version = \<dots>\<close>\<close>

definition update_event :: "string \<Rightarrow> int \<Rightarrow> string \<Rightarrow> SqlTables \<Rightarrow> SqlTables" where
  "update_event sn v erasedTime tb =
     (let tombstone = erasedTombstone sn v erasedTime in
      tb\<lparr>eventsTable := map (\<lambda>r.
        if evStream r = sn \<and> evVersion r = v
        then r\<lparr>evType := etype tombstone, evSchemaVersion := schemaVersion tombstone, evPayload := payload tombstone,
               evMetadata := metadata tombstone\<rparr>
        else r) (eventsTable tb)\<rparr>)"

fun rewrite_versions ::
  "(SqlStatement \<Rightarrow> bool) \<Rightarrow> string \<Rightarrow> string \<Rightarrow> int list \<Rightarrow> SqlTables \<Rightarrow> (SqlCause, unit) result \<times> SqlTables" where
  "rewrite_versions ok sn erasedTime [] tb = (Inr (), tb)"
| "rewrite_versions ok sn erasedTime (v # vs) tb =
     (if \<not> ok (UpdateEvent v) then (Inl OtherCause, tb) else rewrite_versions ok sn erasedTime vs (update_event sn v erasedTime tb))"

definition erase_body ::
  "(SqlStatement \<Rightarrow> bool) \<Rightarrow> StreamErasureRequest \<Rightarrow> string \<Rightarrow> SqlTables
    \<Rightarrow> (EraseFailure, StreamErasureResult) result \<times> SqlTables" where
  "erase_body ok request now tb =
     (let sn = reqStream request; v = reqVersion request in
      if \<not> ok SelectErased then (Inl (EraseSql OtherCause), tb)
      else (case erased_row sn tb of
          Some recorded \<Rightarrow>
            if v \<noteq> lastErasedVersion recorded
            then (Inl (EraseRefused (streamErasureConflict sn v (lastErasedVersion recorded))), tb)
            else (Inr \<lparr>erasedEvents = 0, pinnedVersion = lastErasedVersion recorded,
                       resultErasedAt = rowErasedAt recorded, resultReason = rowReason recorded\<rparr>, tb)
        | None \<Rightarrow>
            (case currentVersion (ok SelectVersion) sn tb of
               Inl e \<Rightarrow> (Inl (EraseSql e), tb)
             | Inr actualVersion \<Rightarrow>
                 if actualVersion \<noteq> v then (Inl (EraseRefused (streamErasureConflict sn v actualVersion)), tb)
                 else (case rewrite_versions ok sn now [1..v] tb of
                     (Inl e, tb') \<Rightarrow> (Inl (EraseSql e), tb')
                   | (Inr _, tb') \<Rightarrow>
                       if \<not> ok DeleteSnapshot \<or> \<not> ok InsertErased then (Inl (EraseSql OtherCause), tb')
                       else (Inr \<lparr>erasedEvents = v, pinnedVersion = v, resultErasedAt = now, resultReason = reqReason request\<rparr>,
                         tb'\<lparr>snapshotTable := filter (\<lambda>r. ssStream r \<noteq> sn) (snapshotTable tb'),
                             erasedTable := erasedTable tb' @
                               [\<lparr>erasedStream = sn, lastErasedVersion = v, rowErasedAt = now,
                                 rowReason = reqReason request\<rparr>]\<rparr>)))))"

datatype EraserFailure = EraserRefuses StreamErasureError | EraserFails PersistenceError

definition eraseStream_sqlite ::
  "(SqlStatement \<Rightarrow> bool) \<Rightarrow> StreamErasureRequest \<Rightarrow> string \<Rightarrow> SqlTables
    \<Rightarrow> (EraserFailure, StreamErasureResult) result \<times> SqlTables" where
  "eraseStream_sqlite ok request now tb =
     (case prepareStreamErasure request of
        Inl e \<Rightarrow> (Inl (EraserRefuses e), tb)
      | Inr _ \<Rightarrow>
          (case withTransaction ok EraseSql (erase_body ok request now) tb of
             (Inl (EraseRefused e), tb') \<Rightarrow> (Inl (EraserRefuses e), tb')
           | (Inl (EraseSql e), tb') \<Rightarrow> (Inl (EraserFails (PersistenceError ''StreamEraser'' (JStr ''SqlError''))), tb')
           | (Inr r, tb') \<Rightarrow> (Inr r, tb')))"

subsection \<open>Snapshots and checkpoints\<close>

text \<open>\<open>SnapshotStore.ts\<close> and \<open>CheckpointStore.ts\<close>: one row per key, written by \<open>INSERT \<dots> ON CONFLICT DO UPDATE\<close>.\<close>

definition find_snapshot :: "string \<Rightarrow> SqlTables \<Rightarrow> json Snapshot option" where
  "find_snapshot sn tb =
     map_option (\<lambda>r. \<lparr>snapState = ssState r, snapVersion = ssVersion r\<rparr>) (find (\<lambda>r. ssStream r = sn) (snapshotTable tb))"

definition load_snapshot_sqlite ::
  "(SqlStatement \<Rightarrow> bool) \<Rightarrow> string \<Rightarrow> SqlTables \<Rightarrow> (PersistenceError, json Snapshot option) result" where
  "load_snapshot_sqlite ok sn tb =
     (if ok SelectSnapshot then Inr (find_snapshot sn tb) else Inl (PersistenceError ''SnapshotStore'' (JStr ''SqlError'')))"

definition upsert_snapshot :: "SnapshotRow \<Rightarrow> SnapshotRow list \<Rightarrow> SnapshotRow list" where
  "upsert_snapshot row rows =
     (if ssStream row \<in> ssStream ` set rows then map (\<lambda>r. if ssStream r = ssStream row then row else r) rows else rows @ [row])"

definition save_snapshot_sqlite ::
  "(SqlStatement \<Rightarrow> bool) \<Rightarrow> string \<Rightarrow> json Snapshot \<Rightarrow> SqlTables \<Rightarrow> (PersistenceError, unit) result \<times> SqlTables" where
  "save_snapshot_sqlite ok sn snapshot tb =
     (case encodeJson (snapState snapshot) of
        Inl e \<Rightarrow> (Inl e, tb)
      | Inr stateText \<Rightarrow>
          if \<not> ok UpsertSnapshot then (Inl (PersistenceError ''SnapshotStore'' (JStr ''SqlError'')), tb)
          else (Inr (), tb\<lparr>snapshotTable :=
            upsert_snapshot \<lparr>ssStream = sn, ssState = stateText, ssVersion = snapVersion snapshot\<rparr> (snapshotTable tb)\<rparr>))"

definition remove_snapshot_sqlite ::
  "(SqlStatement \<Rightarrow> bool) \<Rightarrow> string \<Rightarrow> SqlTables \<Rightarrow> (PersistenceError, unit) result \<times> SqlTables" where
  "remove_snapshot_sqlite ok sn tb =
     (if \<not> ok DeleteSnapshot then (Inl (PersistenceError ''SnapshotStore'' (JStr ''SqlError'')), tb)
      else (Inr (), tb\<lparr>snapshotTable := filter (\<lambda>r. ssStream r \<noteq> sn) (snapshotTable tb)\<rparr>))"

definition load_checkpoint_sqlite :: "(SqlStatement \<Rightarrow> bool) \<Rightarrow> string \<Rightarrow> SqlTables \<Rightarrow> (PersistenceError, int) result" where
  "load_checkpoint_sqlite ok consumer tb =
     (if ok SelectCheckpoint then Inr (getOr 0 (map_of (checkpointTable tb) consumer))
      else Inl (PersistenceError ''CheckpointStore'' (JStr ''SqlError'')))"

definition save_checkpoint_sqlite ::
  "(SqlStatement \<Rightarrow> bool) \<Rightarrow> string \<Rightarrow> int \<Rightarrow> SqlTables \<Rightarrow> (PersistenceError, unit) result \<times> SqlTables" where
  "save_checkpoint_sqlite ok consumer pos tb =
     (if \<not> ok UpsertCheckpoint then (Inl (PersistenceError ''CheckpointStore'' (JStr ''SqlError'')), tb)
      else (Inr (), tb\<lparr>checkpointTable := AList.update consumer pos (checkpointTable tb)\<rparr>))"

end
