(* ===== verification/SqliteProofs.thy ===== *)
theory SqliteProofs
  imports SqliteStore
begin

section \<open>The SQLite adapter keeps the contract of the port\<close>

text \<open>
  What an append writes and when it does, the invariant of the tables, the contract of a durable event store and the simulation of
  the in-memory adapters.
\<close>

subsection \<open>What is written\<close>

text \<open>An event as it is read back from the columns it was written to.\<close>

definition event_stored :: "AppendEvent \<Rightarrow> AppendEvent option" where
  "event_stored e =
     (case json_stored (payload e) of
        None \<Rightarrow> None
      | Some p \<Rightarrow> map_option (\<lambda>m. e\<lparr>payload := p, metadata := m\<rparr>) (metadata_stored (metadata e)))"

definition message_stored :: "OutboxMessage \<Rightarrow> OutboxMessage option" where
  "message_stored m =
     (case json_stored (msgPayload m) of
        None \<Rightarrow> None
      | Some p \<Rightarrow> map_option (\<lambda>md. m\<lparr>msgPayload := p, msgMetadata := md\<rparr>) (members_stored (msgMetadata m)))"

definition events_stored :: "AppendEvent list \<Rightarrow> AppendEvent list option" where
  "events_stored es = sequence_all (map event_stored es)"

definition messages_stored :: "OutboxMessage list \<Rightarrow> OutboxMessage list option" where
  "messages_stored ms = sequence_all (map message_stored ms)"

definition event_rows :: "int \<Rightarrow> string \<Rightarrow> int \<Rightarrow> AppendEvent list \<Rightarrow> EventRow list" where
  "event_rows base sn v es =
     mapi (\<lambda>i e. \<lparr>evPosition = base + int (i + 1), evStream = sn, evVersion = v + int i + 1, evType = etype e,
                  evSchemaVersion = schemaVersion e, evPayload = payload e, evMetadata = metadata e\<rparr>) es"

definition message_row :: "OutboxMessage \<Rightarrow> OutboxRow" where
  "message_row m =
     \<lparr>outboxId = msgId m, outboxTopic = msgTopic m, outboxPayload = msgPayload m, outboxMetadata = msgMetadata m,
      outboxStatus = Pending, outboxAttempts = 0, outboxLastError = None, outboxAvailableAt = msgAvailableAt m,
      outboxToken = None, outboxLease = None\<rparr>"

abbreviation rows_of :: "string \<Rightarrow> SqlTables \<Rightarrow> EventRow list" where
  "rows_of sn tb \<equiv> filter (\<lambda>r. evStream r = sn) (eventsTable tb)"

lemma sequence_all_eq_Some: "sequence_all xs = Some ys \<longleftrightarrow> xs = map Some ys"
  by (induction xs arbitrary: ys) (auto split: option.splits simp: Cons_eq_map_conv)

lemma events_stored_Nil [simp]: "events_stored [] = Some []"
  by (simp add: events_stored_def)

lemma messages_stored_Nil [simp]: "messages_stored [] = Some []"
  by (simp add: messages_stored_def)

lemma events_stored_Cons:
  "events_stored (e # es) = Some stored \<longleftrightarrow>
     (\<exists>s rest. event_stored e = Some s \<and> events_stored es = Some rest \<and> stored = s # rest)"
  by (auto simp: events_stored_def sequence_all_eq_Some split: option.splits)

lemma messages_stored_Cons:
  "messages_stored (m # ms) = Some stored \<longleftrightarrow>
     (\<exists>s rest. message_stored m = Some s \<and> messages_stored ms = Some rest \<and> stored = s # rest)"
  by (auto simp: messages_stored_def sequence_all_eq_Some split: option.splits)

lemma length_events_stored: "events_stored es = Some stored \<Longrightarrow> length stored = length es"
  by (auto simp: events_stored_def sequence_all_eq_Some dest: arg_cong [where f = length])

lemma event_rows_Nil [simp]: "event_rows base sn v [] = []"
  by (simp add: event_rows_def)

lemma event_rows_Cons:
  "event_rows base sn v (e # es) =
     \<lparr>evPosition = base + 1, evStream = sn, evVersion = v + 1, evType = etype e, evSchemaVersion = schemaVersion e,
      evPayload = payload e, evMetadata = metadata e\<rparr> # event_rows (base + 1) sn (v + 1) es"
  by (rule nth_equalityI) (auto simp: event_rows_def nth_Cons split: nat.splits)

lemma length_event_rows [simp]: "length (event_rows base sn v es) = length es"
  by (simp add: event_rows_def)

lemma decode_event_rows: "map decodeEvent (event_rows base sn v es) = storeEvents base sn v es"
  by (rule nth_equalityI) (simp_all add: event_rows_def storeEvents_def decodeEvent_def)

text \<open>The outcome of one insert, and of all of them.\<close>

lemma insertEvent_Inr:
  "insertEvent ok sn v index e tb = (Inr u, tb') \<longleftrightarrow>
     (\<exists>s. event_stored e = Some s \<and> ok (InsertEvent index) \<and>
        (\<forall>r \<in> set (eventsTable tb). evStream r = sn \<longrightarrow> evVersion r \<noteq> v + int index + 1) \<and>
        tb' = tb\<lparr>eventsTable := eventsTable tb @ event_rows (eventsSequence tb) sn (v + int index) [s],
                 eventsSequence := eventsSequence tb + 1\<rparr>)"
  by (auto simp: insertEvent_def event_stored_def encodeJson_def event_rows_Cons Let_def split: option.splits if_splits)

lemma insertEvents_Inr:
  "insertEvents ok sn v index es tb = (Inr u, tb') \<longleftrightarrow>
     (\<exists>stored. events_stored es = Some stored \<and> (\<forall>i < length es. ok (InsertEvent (index + i))) \<and>
        (\<forall>r \<in> set (eventsTable tb). evStream r = sn \<longrightarrow>
            \<not> (v + int index < evVersion r \<and> evVersion r \<le> v + int index + int (length es))) \<and>
        tb' = tb\<lparr>eventsTable := eventsTable tb @ event_rows (eventsSequence tb) sn (v + int index) stored,
                 eventsSequence := eventsSequence tb + int (length es)\<rparr>)"
proof (induction es arbitrary: index tb)
  case Nil
  then show ?case by auto
next
  case (Cons e es)
  show ?case (is "?l \<longleftrightarrow> ?r")
  proof
    assume ?l
    then obtain tb1 where one: "insertEvent ok sn v index e tb = (Inr (), tb1)"
      and rest: "insertEvents ok sn v (index + 1) es tb1 = (Inr u, tb')"
      by (auto split: prod.splits sum.splits)
    from one obtain s where s: "event_stored e = Some s" "ok (InsertEvent index)"
      "\<forall>r \<in> set (eventsTable tb). evStream r = sn \<longrightarrow> evVersion r \<noteq> v + int index + 1"
      "tb1 = tb\<lparr>eventsTable := eventsTable tb @ event_rows (eventsSequence tb) sn (v + int index) [s],
                eventsSequence := eventsSequence tb + 1\<rparr>"
      unfolding insertEvent_Inr by blast
    from rest obtain stored where r: "events_stored es = Some stored" "\<forall>i < length es. ok (InsertEvent (index + 1 + i))"
      "\<forall>r \<in> set (eventsTable tb1). evStream r = sn \<longrightarrow>
          \<not> (v + int (index + 1) < evVersion r \<and> evVersion r \<le> v + int (index + 1) + int (length es))"
      "tb' = tb1\<lparr>eventsTable := eventsTable tb1 @ event_rows (eventsSequence tb1) sn (v + int (index + 1)) stored,
                 eventsSequence := eventsSequence tb1 + int (length es)\<rparr>"
      unfolding Cons.IH by blast
    have "\<forall>i < length (e # es). ok (InsertEvent (index + i))"
      using s(2) r(2) by (auto simp: less_Suc_eq_0_disj)
    moreover have "\<not> (v + int index < evVersion r \<and> evVersion r \<le> v + int index + int (length (e # es)))"
      if "r \<in> set (eventsTable tb)" "evStream r = sn" for r
    proof -
      have "evVersion r \<noteq> v + int index + 1" using s(3) that by blast
      moreover have "\<not> (v + int (index + 1) < evVersion r \<and> evVersion r \<le> v + int (index + 1) + int (length es))"
        using r(3) that by (simp add: s(4))
      ultimately show ?thesis by auto
    qed
    ultimately show ?r
      using s(1,4) r(1,4) by (intro exI [of _ "s # stored"]) (auto simp: events_stored_Cons event_rows_Cons ac_simps)
  next
    assume ?r
    then obtain s rest where s: "event_stored e = Some s" "events_stored es = Some rest"
      and okE: "\<forall>i < Suc (length es). ok (InsertEvent (index + i))"
      and free: "\<forall>r \<in> set (eventsTable tb). evStream r = sn \<longrightarrow>
            \<not> (v + int index < evVersion r \<and> evVersion r \<le> v + int index + int (length (e # es)))"
      and tb': "tb' = tb\<lparr>eventsTable := eventsTable tb @ event_rows (eventsSequence tb) sn (v + int index) (s # rest),
                 eventsSequence := eventsSequence tb + int (length (e # es))\<rparr>"
      by (auto simp: events_stored_Cons)
    let ?tb1 = "tb\<lparr>eventsTable := eventsTable tb @ event_rows (eventsSequence tb) sn (v + int index) [s],
                   eventsSequence := eventsSequence tb + 1\<rparr>"
    have "insertEvent ok sn v index e tb = (Inr (), ?tb1)"
      unfolding insertEvent_Inr using s(1) okE free by fastforce
    moreover have "insertEvents ok sn v (index + 1) es ?tb1 = (Inr u, tb')"
      unfolding Cons.IH using s(2) okE free tb'
      by (fastforce simp: event_rows_Cons ac_simps)
    ultimately show ?l by simp
  qed
qed

lemma message_stored_id: "message_stored m = Some s \<Longrightarrow> msgId s = msgId m"
  by (auto simp: message_stored_def split: option.splits)

lemma insertMessage_Inr:
  "insertMessage ok index m tb = (Inr u, tb') \<longleftrightarrow>
     (\<exists>s. message_stored m = Some s \<and> ok (InsertMessage index) \<and> msgId m \<notin> outboxId ` set (outboxTable tb) \<and>
        tb' = tb\<lparr>outboxTable := outboxTable tb @ [message_row s]\<rparr>)"
  by (auto simp: insertMessage_def message_stored_def encodeJson_def message_row_def split: option.splits if_splits)

lemma insertMessages_Inr:
  "insertMessages ok index ms tb = (Inr u, tb') \<longleftrightarrow>
     (\<exists>stored. messages_stored ms = Some stored \<and> (\<forall>i < length ms. ok (InsertMessage (index + i))) \<and>
        distinct (map msgId ms) \<and> msgId ` set ms \<inter> outboxId ` set (outboxTable tb) = {} \<and>
        tb' = tb\<lparr>outboxTable := outboxTable tb @ map message_row stored\<rparr>)"
proof (induction ms arbitrary: index tb)
  case Nil
  then show ?case by auto
next
  case (Cons m ms)
  have step: "(\<exists>s. message_stored m = Some s \<and> ok (InsertMessage index) \<and> msgId m \<notin> outboxId ` set (outboxTable tb) \<and>
        insertMessages ok (index + 1) ms (tb\<lparr>outboxTable := outboxTable tb @ [message_row s]\<rparr>) = (Inr u, tb'))
     \<longleftrightarrow> insertMessages ok index (m # ms) tb = (Inr u, tb')"
  proof -
    have "insertMessages ok index (m # ms) tb = (Inr u, tb') \<longleftrightarrow>
        (\<exists>tb1. insertMessage ok index m tb = (Inr (), tb1) \<and> insertMessages ok (index + 1) ms tb1 = (Inr u, tb'))"
      by (auto split: prod.splits sum.splits)
    then show ?thesis unfolding insertMessage_Inr by blast
  qed
  have outboxId_row: "outboxId (message_row s) = msgId m" if "message_stored m = Some s" for s
    using message_stored_id [OF that] by (simp add: message_row_def)
  have oks: "(\<forall>i < length (m # ms). ok (InsertMessage (index + i))) \<longleftrightarrow>
      ok (InsertMessage index) \<and> (\<forall>i < length ms. ok (InsertMessage (index + 1 + i)))"
    by (auto simp: less_Suc_eq_0_disj)
  show ?case
    unfolding step [symmetric] Cons.IH oks messages_stored_Cons
    by (auto simp: outboxId_row)
qed

subsection \<open>The invariant of the tables\<close>

definition sql_inv :: "SqlTables \<Rightarrow> bool" where
  "sql_inv tb \<longleftrightarrow>
     numbered evPosition (eventsTable tb) \<and> eventsSequence tb = int (length (eventsTable tb)) \<and>
     (\<forall>sn. numbered evVersion (rows_of sn tb)) \<and>
     (\<forall>row \<in> set (erasedTable tb). lastErasedVersion row = int (length (rows_of (erasedStream row) tb)))"

lemma sql_inv_empty [simp]: "sql_inv emptyTables"
  by (simp add: sql_inv_def emptyTables_def)

lemma sql_invI:
  assumes "numbered evPosition (eventsTable tb)" and "eventsSequence tb = int (length (eventsTable tb))"
    and "\<And>sn. numbered evVersion (rows_of sn tb)"
    and "\<And>row. row \<in> set (erasedTable tb) \<Longrightarrow> lastErasedVersion row = int (length (rows_of (erasedStream row) tb))"
  shows "sql_inv tb"
  using assms by (auto simp: sql_inv_def)

lemma sql_invD:
  assumes "sql_inv tb"
  shows "numbered evPosition (eventsTable tb)" and "eventsSequence tb = int (length (eventsTable tb))"
    and "numbered evVersion (rows_of sn tb)"
    and "row \<in> set (erasedTable tb) \<Longrightarrow> lastErasedVersion row = int (length (rows_of (erasedStream row) tb))"
  using assms by (auto simp: sql_inv_def)

lemma fold_max_numbered:
  assumes "numbered f (x # xs)"
  shows "fold max (map f xs) (f x) = int (length (x # xs))"
  using assms
proof (induction xs rule: rev_induct)
  case Nil
  then show ?case by (simp add: numbered_def)
next
  case (snoc y ys)
  have "numbered f ((x # ys) @ [y])" using snoc.prems by simp
  then have "numbered f (x # ys)" and "f y = int (length (x # ys)) + 1"
    by (auto simp: numbered_append simp del: append_Cons)
  with snoc.IH show ?case by simp
qed

lemma stream_max_numbered: "numbered evVersion (rows_of sn tb) \<Longrightarrow> stream_max sn (eventsTable tb) = int (length (rows_of sn tb))"
  using fold_max_numbered [of evVersion] by (cases "rows_of sn tb") (simp_all add: stream_max_def del: filter.simps)

lemma sql_stream_max: "sql_inv tb \<Longrightarrow> stream_max sn (eventsTable tb) = int (length (rows_of sn tb))"
  by (intro stream_max_numbered sql_invD)

lemma erased_row_SomeD: "erased_row sn tb = Some row \<Longrightarrow> row \<in> set (erasedTable tb) \<and> erasedStream row = sn"
  by (auto simp: erased_row_def find_Some_iff)

lemma erased_row_version:
  assumes "sql_inv tb" and "erased_row sn tb = Some row"
  shows "lastErasedVersion row = int (length (rows_of sn tb))"
  using assms erased_row_SomeD [OF assms(2)] sql_invD(4) [OF assms(1)] by blast

subsection \<open>Outcomes of the transaction\<close>

text \<open>The tables after the events and messages of one append were committed.\<close>

definition written :: "string \<Rightarrow> int \<Rightarrow> AppendEvent list \<Rightarrow> OutboxMessage list \<Rightarrow> SqlTables \<Rightarrow> SqlTables" where
  "written sn v es ms tb =
     tb\<lparr>eventsTable := eventsTable tb @ event_rows (eventsSequence tb) sn v es,
        eventsSequence := eventsSequence tb + int (length es),
        outboxTable := outboxTable tb @ map message_row ms\<rparr>"

lemma withTransaction_Inl: "withTransaction ok raise body tb = (Inl e, tb') \<Longrightarrow> tb' = tb"
  by (auto simp: withTransaction_def split: if_splits prod.splits sum.splits)

lemma withTransaction_Inr:
  "withTransaction ok raise body tb = (Inr a, tb') \<longleftrightarrow> ok Begin \<and> ok Commit \<and> body tb = (Inr a, tb')"
  by (auto simp: withTransaction_def split: if_splits prod.splits sum.splits)

lemma appendTransaction_Inl: "appendTransaction ok sn v es ms tb = (Inl e, tb') \<Longrightarrow> tb' = tb"
  by (auto simp: appendTransaction_def split: prod.splits sum.splits TxFailure.splits SqlCause.splits
      dest: withTransaction_Inl)

lemma appendTransaction_Inr_iff:
  "appendTransaction ok sn v es ms tb = (Inr r, tb') \<longleftrightarrow>
     ok Begin \<and> ok Commit \<and> append_body ok sn v es ms tb = (Inr r, tb')"
proof -
  have "appendTransaction ok sn v es ms tb = (Inr r, tb') \<longleftrightarrow>
      withTransaction ok TxSql (append_body ok sn v es ms) tb = (Inr r, tb')"
    by (cases "withTransaction ok TxSql (append_body ok sn v es ms) tb")
       (auto simp: appendTransaction_def split: sum.splits TxFailure.splits SqlCause.splits)
  then show ?thesis by (simp add: withTransaction_Inr)
qed

lemma append_body_Inr:
  assumes inv: "sql_inv tb"
  shows "append_body ok sn v es ms tb = (Inr r, tb') \<longleftrightarrow>
    ok SelectErased \<and> ok SelectVersion \<and> erased_row sn tb = None \<and> v = int (length (rows_of sn tb)) \<and>
    (\<forall>i < length es. ok (InsertEvent i)) \<and> (\<forall>i < length ms. ok (InsertMessage i)) \<and>
    distinct (map msgId ms) \<and> msgId ` set ms \<inter> outboxId ` set (outboxTable tb) = {} \<and>
    (\<exists>stored staged. events_stored es = Some stored \<and> messages_stored ms = Some staged \<and>
       tb' = written sn v stored staged tb) \<and>
    r = \<lparr>firstVersion = (if es = [] then v else v + 1), lastVersion = v + int (length es)\<rparr>"
    (is "?l \<longleftrightarrow> ?r")
proof -
  have free: "\<forall>r \<in> set (eventsTable tb). evStream r = sn \<longrightarrow> \<not> (v < evVersion r \<and> evVersion r \<le> v + int (length es))"
    if "v = int (length (rows_of sn tb))"
    using numbered_range [OF sql_invD(3) [OF inv, of sn]] that by fastforce
  note max = sql_stream_max [OF inv, of sn]
  show ?thesis
  proof (cases "ok SelectErased \<and> ok SelectVersion \<and> erased_row sn tb = None \<and> v = int (length (rows_of sn tb))")
    case True
    then have "?l \<longleftrightarrow> (\<exists>tb1. insertEvents ok sn v 0 es tb = (Inr (), tb1) \<and> insertMessages ok 0 ms tb1 = (Inr (), tb') \<and>
        r = \<lparr>firstVersion = (if es = [] then v else v + 1), lastVersion = v + int (length es)\<rparr>)"
      by (auto simp: append_body_def currentVersion_def max split: prod.splits sum.splits)
    also have "\<dots> \<longleftrightarrow> ?r"
      using True free by (auto simp: insertEvents_Inr insertMessages_Inr written_def length_events_stored)
    finally show ?thesis .
  next
    case False
    then show ?thesis by (auto simp: append_body_def currentVersion_def max split: option.splits if_splits)
  qed
qed

text \<open>When every statement is answered.\<close>

abbreviation answering :: "SqlStatement \<Rightarrow> bool" where
  "answering \<equiv> \<lambda>_. True"

definition plain_event :: "AppendEvent \<Rightarrow> bool" where
  "plain_event e \<longleftrightarrow> event_stored e = Some e"

definition sql_feed :: "SqlTables \<Rightarrow> StoredEvent list" where
  "sql_feed tb = map decodeEvent (eventsTable tb)"

definition sql_pinned :: "SqlTables \<Rightarrow> string \<Rightarrow> bool" where
  "sql_pinned tb sn \<longleftrightarrow> erased_row sn tb \<noteq> None"

lemma decodeEvent_simps [simp]:
  "streamName (decodeEvent r) = evStream r" "version (decodeEvent r) = evVersion r" "position (decodeEvent r) = evPosition r"
  "metadata (decodeEvent r) = evMetadata r"
  by (simp_all add: decodeEvent_def)

lemma stream_in_sql_feed: "stream_in (sql_feed tb) sn = map decodeEvent (rows_of sn tb)"
  by (simp add: sql_feed_def filter_map comp_def)

lemma length_stream_in_sql_feed: "length (stream_in (sql_feed tb) sn) = length (rows_of sn tb)"
  by (simp add: stream_in_sql_feed)

lemma numbered_sql_feed: "sql_inv tb \<Longrightarrow> numbered position (sql_feed tb)"
  using sql_invD(1) by (simp add: sql_feed_def numbered_def)

lemma numbered_sql_stream: "sql_inv tb \<Longrightarrow> numbered version (stream_in (sql_feed tb) sn)"
  using sql_invD(3) numbered_map [of _ version decodeEvent evVersion] by (simp add: stream_in_sql_feed)

lemma plain_events_stored: "\<forall>e \<in> set es. plain_event e \<Longrightarrow> events_stored es = Some es"
  by (induction es) (auto simp: events_stored_Cons plain_event_def)

lemma rows_of_written [simp]:
  "rows_of n (written sn v es ms tb) =
     rows_of n tb @ (if n = sn then event_rows (eventsSequence tb) sn v es else [])"
  by (auto simp: written_def event_rows_def intro!: filter_mapi_from_all filter_mapi_from_none)

lemma erasedTable_written [simp]: "erasedTable (written sn v es ms tb) = erasedTable tb"
  by (simp add: written_def)

lemma sql_feed_written: "sql_feed (written sn v es ms tb) = sql_feed tb @ storeEvents (eventsSequence tb) sn v es"
  by (simp add: sql_feed_def written_def decode_event_rows)

lemma sql_inv_written:
  assumes inv: "sql_inv tb" and free: "erased_row sn tb = None" and v: "v = int (length (rows_of sn tb))"
  shows "sql_inv (written sn v es ms tb)"
proof (rule sql_invI)
  show "numbered evPosition (eventsTable (written sn v es ms tb))"
    using sql_invD(1,2) [OF inv] by (simp add: written_def numbered_append event_rows_def)
  show "eventsSequence (written sn v es ms tb) = int (length (eventsTable (written sn v es ms tb)))"
    using sql_invD(2) [OF inv] by (simp add: written_def)
  show "numbered evVersion (rows_of n (written sn v es ms tb))" for n
    using sql_invD(3) [OF inv] by (simp add: numbered_append v event_rows_def)
next
  fix row assume row: "row \<in> set (erasedTable (written sn v es ms tb))"
  then have "erasedStream row \<noteq> sn" using free by (auto simp: erased_row_def find_None_iff)
  with row show "lastErasedVersion row = int (length (rows_of (erasedStream row) (written sn v es ms tb)))"
    using sql_invD(4) [OF inv] by simp
qed

lemma append_sqlite_accepts:
  assumes "sql_inv tb" and "erased_row sn tb = None" and "v = int (length (rows_of sn tb))" and "\<forall>e \<in> set es. plain_event e"
  shows "append_sqlite answering sn v es tb =
    (Inr \<lparr>firstVersion = (if es = [] then v else v + 1), lastVersion = v + int (length es)\<rparr>, written sn v es [] tb)"
proof -
  have "appendTransaction answering sn v es [] tb =
      (Inr \<lparr>firstVersion = (if es = [] then v else v + 1), lastVersion = v + int (length es)\<rparr>, written sn v es [] tb)"
    unfolding appendTransaction_Inr_iff append_body_Inr [OF assms(1)]
    using assms plain_events_stored by auto
  then show ?thesis by (simp add: append_sqlite_def)
qed

lemma append_sqlite_rejects:
  assumes "sql_inv tb" and "erased_row sn tb \<noteq> None \<or> v \<noteq> int (length (rows_of sn tb))"
  shows "append_sqlite answering sn v es tb = (Inl (append_conflict sn v (int (length (rows_of sn tb)))), tb)"
  using assms erased_row_version [OF assms(1)]
  by (auto simp: append_sqlite_def appendTransaction_def withTransaction_def append_body_def currentVersion_def
      sql_stream_max version_conflict_def append_conflict_def split: option.splits prod.splits)

lemma append_sqlite_Inl: "append_sqlite ok sn v es tb = (Inl e, tb') \<Longrightarrow> tb' = tb"
  by (auto simp: append_sqlite_def split: prod.splits sum.splits dest: appendTransaction_Inl)

lemma sort_key_sorted: "sorted (map f xs) \<Longrightarrow> sort_key f xs = xs"
  by (induction xs) (auto simp: insort_is_Cons)

lemma numbered_sorted: "numbered f xs \<Longrightarrow> sorted (map f xs)"
  by (simp add: numbered_def sorted_iff_nth_mono)

lemma sorted_map_filter: "sorted (map f xs) \<Longrightarrow> sorted (map f (filter P xs))"
  by (simp add: sorted_filter)

lemma read_sqlite_feed:
  assumes "sql_inv tb"
  shows "read_sqlite answering sn fromV tb = Inr (feed_read sn fromV (sql_feed tb))"
proof -
  have "filter (\<lambda>r. evStream r = sn \<and> evVersion r \<ge> getOr 1 fromV) (eventsTable tb) =
      filter (\<lambda>r. evVersion r \<ge> getOr 1 fromV) (rows_of sn tb)"
    by (simp add: conj_commute)
  then show ?thesis
    using sort_key_sorted [OF sorted_map_filter [OF numbered_sorted [OF sql_invD(3) [OF assms]]]]
    by (simp add: read_sqlite_def feed_read_def stream_in_sql_feed filter_map comp_def)
qed

lemma partition_matches_decode: "partition_matches parts r = in_partitions parts (decodeEvent r)"
  by (auto simp: partition_matches_def in_partitions_def split: option.splits)

lemma readAll_sqlite_feed:
  assumes "sql_inv tb" and "\<forall>n. batchSize opts = Some n \<longrightarrow> 0 \<le> n"
  shows "readAll_sqlite answering opts tb = Inr (feed_readAll opts (sql_feed tb))"
  using sort_key_sorted [OF sorted_map_filter [OF numbered_sorted [OF sql_invD(1) [OF assms(1)]]]] assms(2)
  by (auto simp: readAll_sqlite_def feed_readAll_def sql_feed_def filter_map comp_def partition_matches_decode sql_limit_def
      Let_def take_map split: option.splits)

subsection \<open>The contract of a durable store\<close>

text \<open>
  What an adapter that writes JSON promises: the contract of \<open>event_store\<close> for events that survive the encoding, no change by an
  append that fails for whatever reason, and reads of batches that are not negative.
\<close>

locale durable_event_store =
  fixes svc :: "'w EventStoreService"
    and feed :: "'w \<Rightarrow> StoredEvent list"
    and pinned :: "'w \<Rightarrow> string \<Rightarrow> bool"
    and invar :: "'w \<Rightarrow> bool"
    and plain :: "AppendEvent \<Rightarrow> bool"
  assumes refuses: "invar w \<Longrightarrow> pinned w sn \<or> v \<noteq> int (length (stream_in (feed w) sn)) \<Longrightarrow>
      \<exists>actual. append_op svc sn v es w = (Inl (append_conflict sn v actual), w)"
    and stores: "invar w \<Longrightarrow> \<not> pinned w sn \<Longrightarrow> v = int (length (stream_in (feed w) sn)) \<Longrightarrow> list_all plain es \<Longrightarrow>
      \<exists>w'. append_op svc sn v es w =
            (Inr \<lparr>firstVersion = (if es = [] then v else v + 1), lastVersion = v + int (length es)\<rparr>, w')
          \<and> invar w' \<and> pinned w' = pinned w
          \<and> feed w' = feed w @ storeEvents (int (length (feed w))) sn v es"
    and fails_whole: "invar w \<Longrightarrow> append_op svc sn v es w = (Inl e, w') \<Longrightarrow> w' = w"
    and feed_positions: "invar w \<Longrightarrow> numbered position (feed w)"
    and stream_versions: "invar w \<Longrightarrow> numbered version (stream_in (feed w) sn)"
    and reads_stream: "invar w \<Longrightarrow> read_op svc sn fromV w = Inr (feed_read sn fromV (feed w))"
    and reads_feed: "invar w \<Longrightarrow> \<forall>n. batchSize opts = Some n \<longrightarrow> 0 \<le> n \<Longrightarrow>
      readAll_op svc opts w = Inr (feed_readAll opts (feed w))"
begin

text \<open>Of two writers that observed one version, the second loses, whatever it writes.\<close>

lemma second_writer_loses:
  assumes inv: "invar w" and free: "\<not> pinned w sn" and v: "v = int (length (stream_in (feed w) sn))"
    and plain: "list_all plain es" and "es \<noteq> []"
  shows "\<exists>r w'. append_op svc sn v es w = (Inr r, w') \<and>
    (\<exists>actual. append_op svc sn v es2 w' = (Inl (append_conflict sn v actual), w'))"
proof -
  obtain r w' where app: "append_op svc sn v es w = (Inr r, w')" and inv': "invar w'"
    and feed': "feed w' = feed w @ storeEvents (int (length (feed w))) sn v es"
    using stores [OF inv free v plain] by blast
  have "v \<noteq> int (length (stream_in (feed w') sn))" using feed' v \<open>es \<noteq> []\<close> by simp
  with refuses [OF inv'] app show ?thesis by blast
qed

text \<open>What was appended is read back from its first version on.\<close>

lemma appended_is_read:
  assumes inv: "invar w" and free: "\<not> pinned w sn" and v: "v = int (length (stream_in (feed w) sn))"
    and plain: "list_all plain es"
  shows "\<exists>r w' stored. append_op svc sn v es w = (Inr r, w') \<and> read_op svc sn (Some (v + 1)) w' = Inr stored \<and>
    map AppendEvent.truncate stored = es"
proof -
  obtain r w' where app: "append_op svc sn v es w = (Inr r, w')" and inv': "invar w'"
    and feed': "feed w' = feed w @ storeEvents (int (length (feed w))) sn v es"
    using stores [OF inv free v plain] by blast
  have "feed_read sn (Some (v + 1)) (feed w') = drop (length (stream_in (feed w) sn)) (stream_in (feed w') sn)"
    using numbered_filter_ge [OF stream_versions [OF inv', of sn]] by (simp add: feed_read_def v)
  then show ?thesis using app reads_stream [OF inv'] feed' by simp
qed

end

sublocale event_store \<subseteq> durable: durable_event_store svc feed pinned invar "\<lambda>_. True"
proof (unfold_locales, goal_cases)
  case (1 w sn v es) then show ?case by (rule rejects)
next
  case (2 w sn v es) then show ?case by (intro accepts)
next
  case (3 w sn v es e w') then show ?case by (rule append_failure)
next
  case (4 w) then show ?case by (rule feed_numbered)
next
  case (5 w sn) then show ?case by (rule stream_numbered)
next
  case (6 w sn fromV) then show ?case by (rule reads)
next
  case (7 w opts) then show ?case by (intro readsAll)
qed

definition sqliteEventStore :: "SqlTables EventStoreService" where
  "sqliteEventStore =
     \<lparr>append_op = append_sqlite answering, read_op = read_sqlite answering, readAll_op = readAll_sqlite answering\<rparr>"

interpretation sqlite: durable_event_store sqliteEventStore sql_feed sql_pinned sql_inv plain_event
proof (unfold_locales, goal_cases)
  case (1 w sn v es)
  then show ?case
    using append_sqlite_rejects [OF 1(1)] by (auto simp: sqliteEventStore_def sql_pinned_def length_stream_in_sql_feed)
next
  case (2 w sn v es)
  then have "append_sqlite answering sn v es w =
      (Inr \<lparr>firstVersion = (if es = [] then v else v + 1), lastVersion = v + int (length es)\<rparr>, written sn v es [] w)"
    by (intro append_sqlite_accepts) (auto simp: sql_pinned_def length_stream_in_sql_feed list_all_iff)
  moreover have "sql_inv (written sn v es [] w)"
    using 2 by (intro sql_inv_written) (auto simp: sql_pinned_def length_stream_in_sql_feed)
  moreover have "eventsSequence w = int (length (sql_feed w))"
    using sql_invD(2) [OF 2(1)] by (simp add: sql_feed_def)
  ultimately show ?case
    by (auto simp: sqliteEventStore_def sql_feed_written sql_pinned_def erased_row_def fun_eq_iff)
next
  case (3 w sn v es e w') then show ?case by (auto simp: sqliteEventStore_def dest: append_sqlite_Inl)
next
  case (4 w) then show ?case by (rule numbered_sql_feed)
next
  case (5 w sn) then show ?case by (rule numbered_sql_stream)
next
  case (6 w sn fromV) then show ?case by (simp add: sqliteEventStore_def read_sqlite_feed)
next
  case (7 w opts) then show ?case by (simp add: sqliteEventStore_def readAll_sqlite_feed)
qed

interpretation sqlite_checkpoints: keyed_store "load_checkpoint_sqlite answering"
  "\<lambda>consumer pos tb. snd (save_checkpoint_sqlite answering consumer pos tb)" Inr
  by unfold_locales (simp add: load_checkpoint_sqlite_def save_checkpoint_sqlite_def update_conv')

subsection \<open>Erasure\<close>

definition entomb_row :: "string \<Rightarrow> string \<Rightarrow> EventRow \<Rightarrow> EventRow" where
  "entomb_row sn erasedTime r =
     (let tombstone = erasedTombstone sn (evVersion r) erasedTime in
      r\<lparr>evType := etype tombstone, evSchemaVersion := schemaVersion tombstone, evPayload := payload tombstone,
        evMetadata := metadata tombstone\<rparr>)"

lemma entomb_row_simps [simp]:
  "evPosition (entomb_row sn t r) = evPosition r" "evStream (entomb_row sn t r) = evStream r"
  "evVersion (entomb_row sn t r) = evVersion r"
  by (simp_all add: entomb_row_def Let_def)

lemma entomb_row_twice [simp]: "entomb_row sn t (entomb_row sn t r) = entomb_row sn t r"
  by (simp add: entomb_row_def Let_def)

lemma decode_entomb_row: "decodeEvent (entomb_row sn t r) = entomb sn t (decodeEvent r)"
  by (simp add: entomb_row_def entomb_def decodeEvent_def Let_def AppendEvent.defs StoredEvent.defs)

lemma update_event_eq:
  "update_event sn v t tb =
     tb\<lparr>eventsTable := map (\<lambda>r. if evStream r = sn \<and> evVersion r = v then entomb_row sn t r else r) (eventsTable tb)\<rparr>"
  by (auto simp: update_event_def entomb_row_def Let_def)

lemma rewrite_versions_Inr:
  "rewrite_versions ok sn t vs tb = (Inr u, tb') \<longleftrightarrow>
     (\<forall>v \<in> set vs. ok (UpdateEvent v)) \<and>
     tb' = tb\<lparr>eventsTable := map (\<lambda>r. if evStream r = sn \<and> evVersion r \<in> set vs then entomb_row sn t r else r) (eventsTable tb)\<rparr>"
proof (induction vs arbitrary: tb)
  case Nil
  then show ?case by (auto simp: map_idI)
next
  case (Cons v vs)
  have "map (\<lambda>r. if evStream r = sn \<and> evVersion r \<in> set vs then entomb_row sn t r else r)
      (map (\<lambda>r. if evStream r = sn \<and> evVersion r = v then entomb_row sn t r else r) rows) =
    map (\<lambda>r. if evStream r = sn \<and> evVersion r \<in> set (v # vs) then entomb_row sn t r else r) rows" for rows
    by auto
  then show ?case using Cons.IH [of "update_event sn v t tb"] by (auto simp: update_event_eq)
qed

text \<open>The tables after a first, accepted erasure.\<close>

definition erased_tables :: "StreamErasureRequest \<Rightarrow> string \<Rightarrow> SqlTables \<Rightarrow> SqlTables" where
  "erased_tables request now tb =
     (let sn = reqStream request in
      tb\<lparr>eventsTable := map (\<lambda>r. if evStream r = sn then entomb_row sn now r else r) (eventsTable tb),
         snapshotTable := filter (\<lambda>r. ssStream r \<noteq> sn) (snapshotTable tb),
         erasedTable := erasedTable tb @
           [\<lparr>erasedStream = sn, lastErasedVersion = reqVersion request, rowErasedAt = now, rowReason = reqReason request\<rparr>]\<rparr>)"

lemma rewrite_whole_stream:
  assumes "sql_inv tb" and "v = int (length (rows_of sn tb))"
  shows "map (\<lambda>r. if evStream r = sn \<and> evVersion r \<in> set [1..v] then entomb_row sn t r else r) (eventsTable tb) =
    map (\<lambda>r. if evStream r = sn then entomb_row sn t r else r) (eventsTable tb)"
  using numbered_range [OF sql_invD(3) [OF assms(1), of sn]] assms(2) by auto

lemma erase_body_Inr:
  assumes inv: "sql_inv tb" and free: "erased_row (reqStream request) tb = None"
  shows "erase_body ok request now tb = (Inr r, tb') \<longleftrightarrow>
    ok SelectErased \<and> ok SelectVersion \<and> reqVersion request = int (length (rows_of (reqStream request) tb)) \<and>
    (\<forall>v \<in> set [1..reqVersion request]. ok (UpdateEvent v)) \<and> ok DeleteSnapshot \<and> ok InsertErased \<and>
    tb' = erased_tables request now tb \<and>
    r = \<lparr>erasedEvents = reqVersion request, pinnedVersion = reqVersion request, resultErasedAt = now,
         resultReason = reqReason request\<rparr>"
    (is "?l \<longleftrightarrow> ?r")
proof (cases "ok SelectErased \<and> ok SelectVersion \<and> reqVersion request = int (length (rows_of (reqStream request) tb))")
  case True
  then have "?l \<longleftrightarrow> (\<exists>tb1. rewrite_versions ok (reqStream request) now [1..reqVersion request] tb = (Inr (), tb1) \<and>
      ok DeleteSnapshot \<and> ok InsertErased \<and>
      tb' = tb1\<lparr>snapshotTable := filter (\<lambda>r. ssStream r \<noteq> reqStream request) (snapshotTable tb1),
                erasedTable := erasedTable tb1 @
                  [\<lparr>erasedStream = reqStream request, lastErasedVersion = reqVersion request, rowErasedAt = now,
                    rowReason = reqReason request\<rparr>]\<rparr> \<and>
      r = \<lparr>erasedEvents = reqVersion request, pinnedVersion = reqVersion request, resultErasedAt = now,
         resultReason = reqReason request\<rparr>)"
    using free by (auto simp: erase_body_def currentVersion_def sql_stream_max [OF inv] Let_def split: prod.splits sum.splits)
  then show ?thesis
    using True by (simp add: rewrite_versions_Inr rewrite_whole_stream [OF inv] erased_tables_def Let_def del: set_upto)
next
  case False
  then show ?thesis
    using free by (auto simp: erase_body_def currentVersion_def sql_stream_max [OF inv] Let_def split: if_splits)
qed

lemma rows_of_erased_tables:
  "rows_of n (erased_tables request now tb) =
     (if n = reqStream request then map (entomb_row n now) (rows_of n tb) else rows_of n tb)"
proof -
  have "filter (\<lambda>r. evStream r = n) (map (\<lambda>r. if evStream r = sn then entomb_row sn now r else r) rows) =
      (if n = sn then map (entomb_row sn now) (filter (\<lambda>r. evStream r = n) rows) else filter (\<lambda>r. evStream r = n) rows)"
    for sn rows by (induction rows) auto
  then show ?thesis by (simp add: erased_tables_def Let_def)
qed

lemma sql_feed_erased_tables: "sql_feed (erased_tables request now tb) = entomb_stream (reqStream request) now (sql_feed tb)"
  by (auto simp: sql_feed_def entomb_stream_def erased_tables_def Let_def decode_entomb_row)

lemma sql_inv_erased_tables:
  assumes inv: "sql_inv tb" and "erased_row (reqStream request) tb = None"
    and v: "reqVersion request = int (length (rows_of (reqStream request) tb))"
  shows "sql_inv (erased_tables request now tb)"
proof (rule sql_invI)
  show "numbered evPosition (eventsTable (erased_tables request now tb))"
    using sql_invD(1) [OF inv] by (auto simp: erased_tables_def Let_def numbered_def)
  show "eventsSequence (erased_tables request now tb) = int (length (eventsTable (erased_tables request now tb)))"
    using sql_invD(2) [OF inv] by (simp add: erased_tables_def Let_def)
  show "numbered evVersion (rows_of n (erased_tables request now tb))" for n
    using sql_invD(3) [OF inv, of n] by (auto simp: rows_of_erased_tables numbered_def)
next
  fix row assume "row \<in> set (erasedTable (erased_tables request now tb))"
  then consider "row \<in> set (erasedTable tb)" | "erasedStream row = reqStream request" "lastErasedVersion row = reqVersion request"
    by (auto simp: erased_tables_def Let_def)
  then show "lastErasedVersion row = int (length (rows_of (erasedStream row) (erased_tables request now tb)))"
    using sql_invD(4) [OF inv] v by cases (auto simp: rows_of_erased_tables)
qed

subsection \<open>The tables mirror the in-memory stores\<close>

datatype StoreCall =
    AppendCall string int "AppendEvent list"
  | EraseCall StreamErasureRequest string
  | ReadCall string "int option"
  | ReadAllCall ReadAllOptions
  | SaveSnapshotCall string "json Snapshot"
  | LoadSnapshotCall string

datatype StoreAnswer =
    AppendAnswer "(StoreFailure, AppendResult) result"
  | EraseAnswer "(EraserFailure, StreamErasureResult) result"
  | EventsAnswer "(PersistenceError, StoredEvent list) result"
  | SavedAnswer "(PersistenceError, unit) result"
  | SnapshotAnswer "(PersistenceError, json Snapshot option) result"

fun sqlite_call :: "(SqlStatement \<Rightarrow> bool) \<Rightarrow> StoreCall \<Rightarrow> SqlTables \<Rightarrow> StoreAnswer \<times> SqlTables" where
  "sqlite_call ok (AppendCall sn v es) tb = (case append_sqlite ok sn v es tb of (r, tb') \<Rightarrow> (AppendAnswer r, tb'))"
| "sqlite_call ok (EraseCall request now) tb = (case eraseStream_sqlite ok request now tb of (r, tb') \<Rightarrow> (EraseAnswer r, tb'))"
| "sqlite_call ok (ReadCall sn fromV) tb = (EventsAnswer (read_sqlite ok sn fromV tb), tb)"
| "sqlite_call ok (ReadAllCall opts) tb = (EventsAnswer (readAll_sqlite ok opts tb), tb)"
| "sqlite_call ok (SaveSnapshotCall sn s) tb = (case save_snapshot_sqlite ok sn s tb of (r, tb') \<Rightarrow> (SavedAnswer r, tb'))"
| "sqlite_call ok (LoadSnapshotCall sn) tb = (SnapshotAnswer (load_snapshot_sqlite ok sn tb), tb)"

type_synonym MemoryStores = "EventStoreState \<times> json SnapshotState"

fun memory_call :: "StoreCall \<Rightarrow> MemoryStores \<Rightarrow> StoreAnswer \<times> MemoryStores" where
  "memory_call (AppendCall sn v es) (st, snapshots) =
     (case append_mem sn v es st of (r, st') \<Rightarrow> (AppendAnswer r, (st', snapshots)))"
| "memory_call (EraseCall request now) (st, snapshots) =
     (case eraseStream request now (st, Some snapshots) of
        (Inl e, st', snapshots') \<Rightarrow> (EraseAnswer (Inl (EraserRefuses e)), (st', getOr [] snapshots'))
      | (Inr r, st', snapshots') \<Rightarrow> (EraseAnswer (Inr r), (st', getOr [] snapshots')))"
| "memory_call (ReadCall sn fromV) (st, snapshots) = (EventsAnswer (Inr (read_mem sn fromV st)), (st, snapshots))"
| "memory_call (ReadAllCall opts) (st, snapshots) = (EventsAnswer (Inr (readAll_mem opts st)), (st, snapshots))"
| "memory_call (SaveSnapshotCall sn s) (st, snapshots) = (SavedAnswer (Inr ()), (st, save_snapshot sn s snapshots))"
| "memory_call (LoadSnapshotCall sn) (st, snapshots) = (SnapshotAnswer (Inr (load_snapshot sn snapshots)), (st, snapshots))"

fun call_answers :: "('c \<Rightarrow> 'w \<Rightarrow> 'a \<times> 'w) \<Rightarrow> 'c list \<Rightarrow> 'w \<Rightarrow> 'a list" where
  "call_answers f [] w = []"
| "call_answers f (c # cs) w = (case f c w of (a, w') \<Rightarrow> a # call_answers f cs w')"

text \<open>
  Histories whose values survive the JSON encoding, with batches that are not negative, in which no snapshot of an erased
  stream is saved.
\<close>

fun plain_call :: "EventStoreState \<Rightarrow> StoreCall \<Rightarrow> bool" where
  "plain_call st (AppendCall sn v es) \<longleftrightarrow> list_all plain_event es"
| "plain_call st (ReadAllCall opts) \<longleftrightarrow> (case batchSize opts of None \<Rightarrow> True | Some n \<Rightarrow> 0 \<le> n)"
| "plain_call st (SaveSnapshotCall sn s) \<longleftrightarrow> json_stored (snapState s) = Some (snapState s) \<and> jsget (erased st) sn = None"
| "plain_call st c \<longleftrightarrow> True"

fun plain_history :: "StoreCall list \<Rightarrow> MemoryStores \<Rightarrow> bool" where
  "plain_history [] w \<longleftrightarrow> True"
| "plain_history (c # cs) w \<longleftrightarrow> plain_call (fst w) c \<and> plain_history cs (snd (memory_call c w))"

definition ledger_entry :: "ErasedStreamRow \<Rightarrow> ErasedStreamRecord" where
  "ledger_entry row = \<lparr>erasedVersion = lastErasedVersion row, erasedAt = rowErasedAt row, erasedReason = rowReason row\<rparr>"

definition mirrors :: "SqlTables \<Rightarrow> MemoryStores \<Rightarrow> bool" where
  "mirrors tb w \<longleftrightarrow>
     sql_inv tb \<and> store_inv (fst w) \<and> sql_feed tb = allEvents (fst w) \<and>
     (\<forall>sn. jsget (erased (fst w)) sn = map_option ledger_entry (erased_row sn tb)) \<and>
     (\<forall>sn. load_snapshot sn (snd w) = find_snapshot sn tb) \<and>
     (\<forall>sn. erased_row sn tb \<noteq> None \<longrightarrow> find_snapshot sn tb = None)"

lemma mirrors_empty: "mirrors emptyTables (emptyStore, [])"
  by (simp add: mirrors_def emptyStore_def emptyTables_def sql_feed_def erased_row_def find_snapshot_def load_snapshot_def
      store_inv_empty [unfolded emptyStore_def] sql_inv_empty [unfolded emptyTables_def])

lemma mirrorsD:
  assumes "mirrors tb w"
  shows "sql_inv tb" and "store_inv (fst w)" and "sql_feed tb = allEvents (fst w)"
    and "jsget (erased (fst w)) sn = map_option ledger_entry (erased_row sn tb)"
    and "load_snapshot sn (snd w) = find_snapshot sn tb"
    and "streamOf (fst w) sn = map decodeEvent (rows_of sn tb)"
    and "length (streamOf (fst w) sn) = length (rows_of sn tb)"
    and "length (allEvents (fst w)) = length (eventsTable tb)"
    and "erased_row sn tb \<noteq> None \<Longrightarrow> find_snapshot sn tb = None"
proof -
  show "find_snapshot sn tb = None" if "erased_row sn tb \<noteq> None" using that assms by (simp add: mirrors_def)
  show "sql_inv tb" "store_inv (fst w)" and feed: "sql_feed tb = allEvents (fst w)"
    and "jsget (erased (fst w)) sn = map_option ledger_entry (erased_row sn tb)"
    and "load_snapshot sn (snd w) = find_snapshot sn tb"
    using assms by (auto simp: mirrors_def)
  then show stream: "streamOf (fst w) sn = map decodeEvent (rows_of sn tb)"
    using store_invD(2) [of "fst w" sn] stream_in_sql_feed [of sn tb] by simp
  then show "length (streamOf (fst w) sn) = length (rows_of sn tb)" by simp
  show "length (allEvents (fst w)) = length (eventsTable tb)" using feed by (metis length_map sql_feed_def)
qed

lemma erased_row_written [simp]: "erased_row n (written sn v es ms tb) = erased_row n tb"
  by (simp add: erased_row_def)

lemma find_snapshot_written [simp]: "find_snapshot n (written sn v es ms tb) = find_snapshot n tb"
  by (simp add: find_snapshot_def written_def)

lemma mirrors_append:
  assumes "mirrors tb (st, snapshots)" and "list_all plain_event es"
  shows "\<exists>r tb' st'. append_sqlite answering sn v es tb = (r, tb') \<and> append_mem sn v es st = (r, st') \<and>
    mirrors tb' (st', snapshots)"
proof -
  note m = mirrorsD [OF assms(1), simplified]
  show ?thesis
  proof (cases "erased_row sn tb = None \<and> v = int (length (rows_of sn tb))")
    case True
    then have acc: "jsget (erased st) sn = None" "v = int (length (streamOf st sn))" using m(4,7) by auto
    have seq: "eventsSequence tb = int (length (allEvents st))" using sql_invD(2) [OF m(1)] m(8) by simp
    have "mirrors (written sn v es [] tb) (accepted sn v es st, snapshots)"
      using sql_inv_written [OF m(1)] store_inv_accepted [OF m(2) acc] True m(3,4,5,9)
      by (simp add: mirrors_def store_simps sql_feed_written seq)
    then show ?thesis
      using append_sqlite_accepts [OF m(1), of sn v es] append_mem_accepts [OF acc] True assms(2) by (simp add: list_all_iff)
  next
    case False
    then have "append_sqlite answering sn v es tb = (Inl (append_conflict sn v (int (length (rows_of sn tb)))), tb)"
      by (intro append_sqlite_rejects m(1)) auto
    moreover have "append_mem sn v es st = (Inl (append_conflict sn v (int (length (rows_of sn tb)))), st)"
      using False m(4,7) erased_row_version [OF m(1), of sn]
      by (auto simp: append_mem_def Let_def ledger_entry_def split: option.splits)
    ultimately show ?thesis using assms(1) by simp
  qed
qed

lemma find_snapshot_erased_tables:
  "find_snapshot n (erased_tables request now tb) = (if n = reqStream request then None else find_snapshot n tb)"
proof -
  have "find (\<lambda>r. ssStream r = n) (filter (\<lambda>r. ssStream r \<noteq> sn) rows) =
      (if n = sn then None else find (\<lambda>r. ssStream r = n) rows)" for sn and rows :: "SnapshotRow list"
    by (induction rows) auto
  then show ?thesis by (simp add: find_snapshot_def erased_tables_def Let_def)
qed

lemma find_append: "find P (xs @ ys) = (case find P xs of None \<Rightarrow> find P ys | Some x \<Rightarrow> Some x)"
  by (induction xs) auto

lemma erased_row_erased_tables:
  "erased_row n (erased_tables request now tb) =
     (case erased_row n tb of
        Some row \<Rightarrow> Some row
      | None \<Rightarrow> if n = reqStream request
          then Some \<lparr>erasedStream = n, lastErasedVersion = reqVersion request, rowErasedAt = now, rowReason = reqReason request\<rparr>
          else None)"
  by (auto simp: erased_row_def erased_tables_def Let_def find_append split: option.splits)

lemma erase_body_cases:
  assumes inv: "sql_inv tb"
  shows "erase_body answering request now tb =
    (case erased_row (reqStream request) tb of
       Some row \<Rightarrow>
         (if reqVersion request \<noteq> lastErasedVersion row
          then Inl (EraseRefused (streamErasureConflict (reqStream request) (reqVersion request) (lastErasedVersion row)))
          else Inr \<lparr>erasedEvents = 0, pinnedVersion = lastErasedVersion row, resultErasedAt = rowErasedAt row,
                    resultReason = rowReason row\<rparr>, tb)
     | None \<Rightarrow>
         if int (length (rows_of (reqStream request) tb)) \<noteq> reqVersion request
         then (Inl (EraseRefused (streamErasureConflict (reqStream request) (reqVersion request)
                (int (length (rows_of (reqStream request) tb))))), tb)
         else (Inr \<lparr>erasedEvents = reqVersion request, pinnedVersion = reqVersion request, resultErasedAt = now,
                    resultReason = reqReason request\<rparr>, erased_tables request now tb))"
proof (cases "erased_row (reqStream request) tb")
  case None
  show ?thesis
  proof (cases "int (length (rows_of (reqStream request) tb)) = reqVersion request")
    case True
    with None show ?thesis by (simp add: erase_body_Inr [OF inv None])
  next
    case False
    with None show ?thesis by (simp add: erase_body_def currentVersion_def sql_stream_max [OF inv] Let_def)
  qed
qed (simp add: erase_body_def Let_def)

lemma mirrors_erase:
  assumes "mirrors tb (st, snapshots)"
  shows "\<exists>r tb' w'. eraseStream_sqlite answering request now tb = (r, tb') \<and>
    memory_call (EraseCall request now) (st, snapshots) = (EraseAnswer r, w') \<and> mirrors tb' w'"
proof (cases "prepareStreamErasure request")
  case (Inl e)
  with assms show ?thesis by (simp add: eraseStream_sqlite_def eraseStream_def)
next
  case prepared: (Inr _)
  note m = mirrorsD [OF assms, simplified]
  note body = erase_body_cases [OF m(1), of request now]
  show ?thesis
  proof (cases "erased_row (reqStream request) tb")
    case (Some row)
    then have led: "jsget (erased st) (reqStream request) = Some (ledger_entry row)" using m(4) by simp
    have none: "find_snapshot (reqStream request) tb = None" using m(9) Some by simp
    have "mirrors tb (st, remove_snapshot (reqStream request) snapshots)"
      using assms none by (auto simp: mirrors_def)
    with Some led prepared assms show ?thesis
      by (simp add: eraseStream_sqlite_def eraseStream_def withTransaction_def body erase_state_def ledger_entry_def)
  next
    case None
    then have led: "jsget (erased st) (reqStream request) = None" using m(4) by simp
    show ?thesis
    proof (cases "int (length (rows_of (reqStream request) tb)) = reqVersion request")
      case True
      then have v: "reqVersion request = int (length (streamOf st (reqStream request)))" using m(7) by simp
      have "mirrors (erased_tables request now tb) (entombed request now st, remove_snapshot (reqStream request) snapshots)"
        using sql_inv_erased_tables [OF m(1) None True [symmetric]] store_inv_entombed [OF m(2)] m(3,4,5,9) v None
        by (auto simp: mirrors_def store_simps sql_feed_erased_tables erased_row_erased_tables find_snapshot_erased_tables
            ledger_entry_def split: option.splits)
      then show ?thesis
        using True None prepared erase_state_first [OF m(2) led v, of now]
        by (simp add: eraseStream_sqlite_def eraseStream_def withTransaction_def body)
    next
      case False
      then show ?thesis
        using None prepared assms m(7) erase_state_conflict [OF led]
        by (simp add: eraseStream_sqlite_def eraseStream_def withTransaction_def body)
    qed
  qed
qed

lemma find_upsert_snapshot:
  "find (\<lambda>r. ssStream r = n) (upsert_snapshot row rows) =
     (if n = ssStream row then Some row else find (\<lambda>r. ssStream r = n) rows)"
proof -
  have "find (\<lambda>r. ssStream r = n) (map (\<lambda>r. if ssStream r = ssStream row then row else r) rows) =
      (if n = ssStream row then if ssStream row \<in> ssStream ` set rows then Some row else None
       else find (\<lambda>r. ssStream r = n) rows)"
    by (induction rows) auto
  moreover have "ssStream row \<notin> ssStream ` set rows \<Longrightarrow> find (\<lambda>r. ssStream r = ssStream row) rows = None"
    unfolding find_None_iff image_iff by metis
  ultimately show ?thesis by (auto simp: upsert_snapshot_def find_append split: option.splits)
qed

lemma mirrors_save:
  assumes "mirrors tb (st, snapshots)" and "json_stored (snapState s) = Some (snapState s)" and "jsget (erased st) sn = None"
  shows "\<exists>tb'. save_snapshot_sqlite answering sn s tb = (Inr (), tb') \<and> mirrors tb' (st, save_snapshot sn s snapshots)"
proof -
  note m = mirrorsD [OF assms(1), simplified]
  let ?tb = "tb\<lparr>snapshotTable :=
      upsert_snapshot \<lparr>ssStream = sn, ssState = snapState s, ssVersion = snapVersion s\<rparr> (snapshotTable tb)\<rparr>"
  have load: "find_snapshot n ?tb = (if n = sn then Some s else find_snapshot n tb)" for n
    by (simp add: find_snapshot_def find_upsert_snapshot)
  have same: "erased_row n ?tb = erased_row n tb" "sql_feed ?tb = sql_feed tb" for n
    by (simp_all add: erased_row_def sql_feed_def)
  have "erased_row sn tb = None" using m(4) [of sn] assms(3) by simp
  then have "mirrors ?tb (st, save_snapshot sn s snapshots)"
    using assms(1) by (auto simp: mirrors_def load same snapshots.load_save sql_inv_def)
  then show ?thesis using assms(2) by (simp add: save_snapshot_sqlite_def encodeJson_def)
qed

lemma mirrors_call:
  assumes "mirrors tb w" and "plain_call (fst w) c"
  shows "\<exists>a tb' w'. sqlite_call answering c tb = (a, tb') \<and> memory_call c w = (a, w') \<and> mirrors tb' w'"
proof -
  obtain st snapshots where w: "w = (st, snapshots)" by fastforce
  note m = mirrorsD [OF assms(1), unfolded w, simplified]
  show ?thesis
  proof (cases c)
    case (AppendCall sn v es)
    then show ?thesis using mirrors_append [of tb st snapshots es sn v] assms by (auto simp: w)
  next
    case (EraseCall request now)
    then show ?thesis using mirrors_erase [of tb st snapshots request now] assms(1) by (auto simp: w simp del: memory_call.simps)
  next
    case (ReadCall sn fromV)
    then show ?thesis
      using assms(1) read_sqlite_feed [OF m(1)] store_invD(2) [OF m(2)] m(3) by (simp add: w read_mem_def feed_read_def)
  next
    case (ReadAllCall opts)
    then show ?thesis
      using assms readAll_sqlite_feed [OF m(1), of opts] m(3)
      by (auto simp: w readAll_mem_def feed_readAll_def split: option.splits)
  next
    case (SaveSnapshotCall sn s)
    then show ?thesis using mirrors_save [of tb st snapshots s sn] assms by (auto simp: w)
  next
    case (LoadSnapshotCall sn)
    then show ?thesis using assms(1) m(5) by (simp add: w load_snapshot_sqlite_def)
  qed
qed

lemma mirrors_calls:
  assumes "mirrors tb w" and "plain_history cs w"
  shows "call_answers (sqlite_call answering) cs tb = call_answers memory_call cs w"
  using assms
proof (induction cs arbitrary: tb w)
  case (Cons c cs)
  then obtain a tb' w' where "sqlite_call answering c tb = (a, tb')" "memory_call c w = (a, w')" "mirrors tb' w'"
    using mirrors_call by (metis plain_history.simps(2))
  with Cons show ?case by simp
qed simp

end
