(* ===== verification/PgStore.thy ===== *)
theory PgStore
  imports SqliteProofs
begin

section \<open>The event store on PostgreSQL\<close>

text \<open>
  \<open>packages/eventsourcing-pg/src/EventStore.ts\<close>: appends, erasures and history imports run as concurrent transactions under READ
  COMMITTED. A step is one statement of one transaction: it reads the committed tables, waits for a lock, or commits. The
  locks are the advisory lock of a stream, the advisory lock of the commit order, the EXCLUSIVE lock an import takes on the
  events table and the ROW EXCLUSIVE lock a writer of events holds. The sequence of positions is not transactional. The inserts of
  the messages of one append are one step, and so are the statements of an import between its check of the ledger and its commit,
  which run on locked tables. Reads outside these transactions are single statements over the committed tables, as in \<open>SqliteStore\<close>.
\<close>

subsection \<open>Transactions\<close>

text \<open>What is outside the repository: \<open>hashtext\<close>, SHA-256, the decoder of event metadata and the caller's payload decoder.\<close>

record PgEnv =
  hashtext :: "string \<Rightarrow> int"
  pgSha256 :: "string \<Rightarrow> string"
  pgDecodeMetadata :: "EventMetadata \<Rightarrow> EventMetadata option"
  pgDecoder :: "StoredEvent \<Rightarrow> (string, unit) result"

datatype AppendPhase =
    Arrived | StreamLocked | LedgerRead | VersionRead
  | Inserting "EventRow list"
  | MessagesStaged "EventRow list" "OutboxRow list"
  | Rereading

datatype ErasePhase =
    EraseArrived | EraseLocked | EraseLedgerRead
  | Rewriting int
  | SnapshotDeleted
  | LedgerInserted

datatype ImportPhase =
    ImportArrived | TablesLocked | NothingErased
  | BatchInserted "EventRow list" HistoryImportResult
  | BatchCommitted HistoryImportResult
  | MaxRead HistoryImportResult int

datatype PgTx =
    AppendTx string int "AppendEvent list" "OutboxMessage list" AppendPhase
  | EraseTx StreamErasureRequest string ErasePhase
  | ImportTx HistoryImportBatch "string list" ImportPhase

datatype PgImportFailure = ImportRefused "string ImportFailure" | ImportSql | ImportEncoding PersistenceError

datatype PgReply =
    AppendReply string int "AppendEvent list" "(TxFailure, AppendResult) result"
  | EraseReply StreamErasureRequest string "(EraseFailure, StreamErasureResult) result"
  | ImportReply HistoryImportBatch "(PgImportFailure, HistoryImportResult) result"

record PgState =
  db :: SqlTables
  importsTable :: "(string, HistoryImportSession) jsmap"
  batchesTable :: "(string \<times> string, HistoryImportBatchRecord) jsmap"
  openTxs :: "(nat, PgTx) jsmap"
  replies :: "PgReply list"

definition emptyPg :: PgState where
  "emptyPg = \<lparr>db = emptyTables, importsTable = [], batchesTable = [], openTxs = [], replies = []\<rparr>"

subsection \<open>Locks\<close>

fun holds_stream :: "PgEnv \<Rightarrow> int \<Rightarrow> PgTx \<Rightarrow> bool" where
  "holds_stream env key (AppendTx sn v es ms phase) \<longleftrightarrow> phase \<noteq> Arrived \<and> phase \<noteq> Rereading \<and> hashtext env sn = key"
| "holds_stream env key (EraseTx request now phase) \<longleftrightarrow> phase \<noteq> EraseArrived \<and> hashtext env (reqStream request) = key"
| "holds_stream env key (ImportTx batch ids phase) \<longleftrightarrow> False"

text \<open>The commit order is locked from before the first insert to the end of the transaction.\<close>

fun holds_order :: "PgTx \<Rightarrow> bool" where
  "holds_order (AppendTx sn v es ms (Inserting rows)) \<longleftrightarrow> es \<noteq> []"
| "holds_order (AppendTx sn v es ms (MessagesStaged rows staged)) \<longleftrightarrow> es \<noteq> []"
| "holds_order tx \<longleftrightarrow> False"

text \<open>ROW EXCLUSIVE on the events table, from the first row written.\<close>

fun writes_events :: "PgTx \<Rightarrow> bool" where
  "writes_events (AppendTx sn v es ms (Inserting rows)) \<longleftrightarrow> rows \<noteq> []"
| "writes_events (AppendTx sn v es ms (MessagesStaged rows staged)) \<longleftrightarrow> rows \<noteq> []"
| "writes_events (EraseTx request now (Rewriting k)) \<longleftrightarrow> 1 < k"
| "writes_events (EraseTx request now SnapshotDeleted) \<longleftrightarrow> 0 < reqVersion request"
| "writes_events (EraseTx request now LedgerInserted) \<longleftrightarrow> 0 < reqVersion request"
| "writes_events tx \<longleftrightarrow> False"

text \<open>EXCLUSIVE on the events table.\<close>

fun locks_events :: "PgTx \<Rightarrow> bool" where
  "locks_events (ImportTx batch ids TablesLocked) \<longleftrightarrow> True"
| "locks_events (ImportTx batch ids NothingErased) \<longleftrightarrow> True"
| "locks_events (ImportTx batch ids (BatchInserted rows res)) \<longleftrightarrow> True"
| "locks_events tx \<longleftrightarrow> False"

text \<open>A second insert of one message id waits for the transaction that inserted the first.\<close>

fun stages :: "string set \<Rightarrow> PgTx \<Rightarrow> bool" where
  "stages ids (AppendTx sn v es ms (MessagesStaged rows staged)) \<longleftrightarrow> outboxId ` set staged \<inter> ids \<noteq> {}"
| "stages ids tx \<longleftrightarrow> False"

definition other_txs :: "(PgTx \<Rightarrow> bool) \<Rightarrow> nat \<Rightarrow> PgState \<Rightarrow> bool" where
  "other_txs P t s \<longleftrightarrow> list_ex (\<lambda>(t', tx). t' \<noteq> t \<and> P tx) (openTxs s)"

subsection \<open>Statements of a transaction\<close>

definition move :: "nat \<Rightarrow> PgTx \<Rightarrow> PgState \<Rightarrow> PgState" where
  "move t tx s = s\<lparr>openTxs := jsset t tx (openTxs s)\<rparr>"

definition finish :: "nat \<Rightarrow> PgReply \<Rightarrow> PgState \<Rightarrow> PgState" where
  "finish t reply s = s\<lparr>openTxs := jsdelete t (openTxs s), replies := replies s @ [reply]\<rparr>"

text \<open>One event row; a row with its version or its position, committed or its own, violates a unique key of the events table.\<close>

definition pg_row :: "string \<Rightarrow> int \<Rightarrow> int \<Rightarrow> AppendEvent \<Rightarrow> EventRow" where
  "pg_row sn v pos e =
     \<lparr>evPosition = pos, evStream = sn, evVersion = v, evType = etype e, evSchemaVersion = schemaVersion e,
      evPayload = payload e, evMetadata = metadata e\<rparr>"

definition duplicates :: "EventRow \<Rightarrow> EventRow list \<Rightarrow> bool" where
  "duplicates row rows \<longleftrightarrow>
     list_ex (\<lambda>r. evPosition r = evPosition row \<or> (evStream r = evStream row \<and> evVersion r = evVersion row)) rows"

definition draw_position :: "PgState \<Rightarrow> int \<times> PgState" where
  "draw_position s =
     (let pos = eventsSequence (db s) + 1 in (pos, s\<lparr>db := (db s)\<lparr>eventsSequence := pos\<rparr>\<rparr>))"

definition append_result :: "int \<Rightarrow> AppendEvent list \<Rightarrow> AppendResult" where
  "append_result v es =
     (if es = [] then \<lparr>firstVersion = v, lastVersion = v\<rparr>
      else \<lparr>firstVersion = v + 1, lastVersion = v + int (length es)\<rparr>)"

text \<open>The inserts of an append: the next event's row, and after the last one the messages.\<close>

definition append_insert ::
  "nat \<Rightarrow> string \<Rightarrow> int \<Rightarrow> AppendEvent list \<Rightarrow> OutboxMessage list \<Rightarrow> EventRow list \<Rightarrow> PgState \<Rightarrow> PgState option" where
  "append_insert t sn v es ms rows s =
     (if length rows < length es
      then (case event_stored (es ! length rows) of
          None \<Rightarrow> Some (finish t (AppendReply sn v es (Inl (TxPersistence encode_failed))) s)
        | Some stored \<Rightarrow>
            if other_txs locks_events t s then None
            else (case draw_position s of
                (pos, s') \<Rightarrow>
                  (let row = pg_row sn (v + int (length rows) + 1) pos stored in
                   if duplicates row (eventsTable (db s)) \<or> duplicates row rows then Some (move t (AppendTx sn v es ms Rereading) s')
                   else Some (move t (AppendTx sn v es ms (Inserting (rows @ [row]))) s'))))
      else if other_txs (stages (msgId ` set ms)) t s then None
      else (case insertMessages answering 0 ms (db s) of
          (Inl e, _) \<Rightarrow> Some (finish t (AppendReply sn v es (Inl e)) s)
        | (Inr _, tb) \<Rightarrow>
            Some (move t (AppendTx sn v es ms (MessagesStaged rows (drop (length (outboxTable (db s))) (outboxTable tb)))) s)))"

fun advance_append ::
  "PgEnv \<Rightarrow> nat \<Rightarrow> string \<Rightarrow> int \<Rightarrow> AppendEvent list \<Rightarrow> OutboxMessage list \<Rightarrow> AppendPhase \<Rightarrow> PgState \<Rightarrow> PgState option" where
  "advance_append env t sn v es ms Arrived s =
     (if other_txs (holds_stream env (hashtext env sn)) t s then None
      else Some (move t (AppendTx sn v es ms StreamLocked) s))"
| "advance_append env t sn v es ms StreamLocked s =
     (case erased_row sn (db s) of
        Some row \<Rightarrow> Some (finish t (AppendReply sn v es (Inl (TxDomain (version_conflict sn v (lastErasedVersion row))))) s)
      | None \<Rightarrow> Some (move t (AppendTx sn v es ms LedgerRead) s))"
| "advance_append env t sn v es ms LedgerRead s =
     (let actual = stream_max sn (eventsTable (db s)) in
      if actual \<noteq> v then Some (finish t (AppendReply sn v es (Inl (TxDomain (version_conflict sn v actual)))) s)
      else Some (move t (AppendTx sn v es ms VersionRead) s))"
| "advance_append env t sn v es ms VersionRead s =
     (if es \<noteq> [] \<and> other_txs holds_order t s then None
      else Some (move t (AppendTx sn v es ms (Inserting [])) s))"
| "advance_append env t sn v es ms (Inserting rows) s = append_insert t sn v es ms rows s"
| "advance_append env t sn v es ms (MessagesStaged rows staged) s =
     Some (finish t (AppendReply sn v es (Inr (append_result v es)))
       (s\<lparr>db := (db s)\<lparr>eventsTable := eventsTable (db s) @ rows, outboxTable := outboxTable (db s) @ staged\<rparr>\<rparr>))"
| "advance_append env t sn v es ms Rereading s =
     Some (finish t (AppendReply sn v es (Inl (TxDomain (version_conflict sn v (stream_max sn (eventsTable (db s))))))) s)"

definition commit_erasure :: "StreamErasureRequest \<Rightarrow> string \<Rightarrow> SqlTables \<Rightarrow> SqlTables" where
  "commit_erasure request now tb =
     (let sn = reqStream request in
      tb\<lparr>eventsTable := map (\<lambda>r. if evStream r = sn \<and> 1 \<le> evVersion r \<and> evVersion r \<le> reqVersion request
                                then entomb_row sn now r else r) (eventsTable tb),
         snapshotTable := filter (\<lambda>r. ssStream r \<noteq> sn) (snapshotTable tb),
         erasedTable := erasedTable tb @
           [\<lparr>erasedStream = sn, lastErasedVersion = reqVersion request, rowErasedAt = now, rowReason = reqReason request\<rparr>]\<rparr>)"

fun advance_erase :: "PgEnv \<Rightarrow> nat \<Rightarrow> StreamErasureRequest \<Rightarrow> string \<Rightarrow> ErasePhase \<Rightarrow> PgState \<Rightarrow> PgState option" where
  "advance_erase env t request now EraseArrived s =
     (if other_txs (holds_stream env (hashtext env (reqStream request))) t s then None
      else Some (move t (EraseTx request now EraseLocked) s))"
| "advance_erase env t request now EraseLocked s =
     (case erased_row (reqStream request) (db s) of
        Some recorded \<Rightarrow>
          Some (finish t (EraseReply request now
            (if reqVersion request \<noteq> lastErasedVersion recorded
             then Inl (EraseRefused (streamErasureConflict (reqStream request) (reqVersion request) (lastErasedVersion recorded)))
             else Inr \<lparr>erasedEvents = 0, pinnedVersion = lastErasedVersion recorded, resultErasedAt = rowErasedAt recorded,
                       resultReason = rowReason recorded\<rparr>)) s)
      | None \<Rightarrow> Some (move t (EraseTx request now EraseLedgerRead) s))"
| "advance_erase env t request now EraseLedgerRead s =
     (let actual = stream_max (reqStream request) (eventsTable (db s)) in
      if actual \<noteq> reqVersion request
      then Some (finish t (EraseReply request now
        (Inl (EraseRefused (streamErasureConflict (reqStream request) (reqVersion request) actual)))) s)
      else Some (move t (EraseTx request now (Rewriting 1)) s))"
| "advance_erase env t request now (Rewriting k) s =
     (if k \<le> reqVersion request
      then if other_txs locks_events t s then None else Some (move t (EraseTx request now (Rewriting (k + 1))) s)
      else Some (move t (EraseTx request now SnapshotDeleted) s))"
| "advance_erase env t request now SnapshotDeleted s = Some (move t (EraseTx request now LedgerInserted) s)"
| "advance_erase env t request now LedgerInserted s =
     Some (finish t (EraseReply request now
       (Inr \<lparr>erasedEvents = reqVersion request, pinnedVersion = reqVersion request, resultErasedAt = now,
             resultReason = reqReason request\<rparr>)) (s\<lparr>db := commit_erasure request now (db s)\<rparr>))"

subsection \<open>History imports\<close>

definition max_position :: "EventRow list \<Rightarrow> int" where
  "max_position rows = fold max (map evPosition rows) 0"

text \<open>The target of a continuation: only the batch's streams and ids are looked up.\<close>

definition pg_target :: "HistoryImportBatch \<Rightarrow> string list \<Rightarrow> EventRow list \<Rightarrow> HistoryImportTarget" where
  "pg_target batch ids rows =
     \<lparr>targetPosition = max_position rows,
      streamVersions = map (\<lambda>sn. (sn, stream_max sn rows))
        (filter (\<lambda>sn. list_ex (\<lambda>r. evStream r = sn) rows) (dedup (map streamName (batchEvents batch)))),
      eventIds = filter (\<lambda>i. i \<in> set ids) (map (\<lambda>r. eventId (evMetadata r)) rows)\<rparr>"

definition pg_session_check :: "HistoryImportBatch \<Rightarrow> int \<Rightarrow> HistoryImportSession option \<Rightarrow> (HistoryImportError, unit) result" where
  "pg_session_check batch lastPos session =
     (case session of
        None \<Rightarrow>
          if lastPos > 0 then Inl (HistoryImportError TargetNotEmpty ''a new import requires an empty event store'')
          else if batchToken batch \<noteq> None
          then Inl (HistoryImportError ResumeTokenMismatch ''the first batch must not include a resume token'')
          else Inr ()
      | Some session \<Rightarrow>
          if sessionComplete session
          then Inl (HistoryImportError ImportComplete (''import '' @ importId batch @ '' is already complete''))
          else if batchToken batch \<noteq> Some (sessionToken session)
          then Inl (HistoryImportError ResumeTokenMismatch
                 (''batch '' @ batchId batch @ '' does not resume the latest committed batch''))
          else if lastPos \<noteq> sessionPosition session
          then Inl (HistoryImportError TargetNotEmpty ''the target changed after the latest import batch'')
          else Inr ())"

definition import_row :: "StoredEvent \<Rightarrow> EventRow option" where
  "import_row e = map_option (pg_row (streamName e) (version e) (position e)) (event_stored (AppendEvent.truncate e))"

text \<open>The statements between the ledger check and the commit, on tables nobody else can change: the rows to commit, or a reply.\<close>

datatype BatchDecision = Refuse "(PgImportFailure, HistoryImportResult) result" | Recorded HistoryImportResult
  | Insert "EventRow list" HistoryImportResult

definition decide_batch :: "PgEnv \<Rightarrow> HistoryImportBatch \<Rightarrow> string list \<Rightarrow> PgState \<Rightarrow> BatchDecision" where
  "decide_batch env batch ids s =
     (let lastPos = position (last (batchEvents batch));
          token = historyImportResumeToken (pgSha256 env) batch lastPos;
          isComplete = getOr False (batchComplete batch);
          refused = (\<lambda>e. Refuse (Inl (ImportRefused (HistoryFailure e))))
      in case jsget (batchesTable s) (importId batch, batchId batch) of
        Some recorded \<Rightarrow>
          if recChecksum recorded \<noteq> batchChecksum batch \<or> recPreviousToken recorded \<noteq> batchToken batch
             \<or> recComplete recorded \<noteq> isComplete
          then refused (HistoryImportError DivergentBatch
                 (''batch '' @ batchId batch @ '' was already committed with different content or state''))
          else Recorded ((recResult recorded)\<lparr>status := Unchanged\<rparr>)
      | None \<Rightarrow>
          (let target = pg_target batch ids (eventsTable (db s)) in
           case pg_session_check batch (targetPosition target) (jsget (importsTable s) (importId batch)) of
             Inl e \<Rightarrow> refused e
           | Inr _ \<Rightarrow>
               (case validateHistoryImportContinuation (batchEvents batch) target of
                  Inl e \<Rightarrow> refused e
                | Inr _ \<Rightarrow>
                    (case sequence_all (map import_row (batchEvents batch)) of
                       None \<Rightarrow> Refuse (Inl (ImportEncoding encode_failed))
                     | Some rows \<Rightarrow>
                         Insert rows \<lparr>status = Imported, importedCount = int (length (batchEvents batch)),
                           lastPosition = lastPos, resumeToken = token, complete = isComplete\<rparr>))))"

definition commit_batch_pg :: "HistoryImportBatch \<Rightarrow> EventRow list \<Rightarrow> HistoryImportResult \<Rightarrow> PgState \<Rightarrow> PgState" where
  "commit_batch_pg batch rows res s =
     s\<lparr>db := (db s)\<lparr>eventsTable := eventsTable (db s) @ rows\<rparr>,
       importsTable := jsset (importId batch)
         \<lparr>sessionToken = resumeToken res, sessionPosition = lastPosition res, sessionComplete = HistoryImportResult.complete res\<rparr> (importsTable s),
       batchesTable := jsset (importId batch, batchId batch)
         \<lparr>recChecksum = batchChecksum batch, recPreviousToken = batchToken batch, recComplete = HistoryImportResult.complete res, recResult = res\<rparr>
         (batchesTable s)\<rparr>"

text \<open>After the commit, outside the transaction, the sequence is set to the largest position a statement has read.\<close>

fun advance_import :: "PgEnv \<Rightarrow> nat \<Rightarrow> HistoryImportBatch \<Rightarrow> string list \<Rightarrow> ImportPhase \<Rightarrow> PgState \<Rightarrow> PgState option" where
  "advance_import env t batch ids ImportArrived s =
     (if other_txs writes_events t s \<or> other_txs locks_events t s then None
      else Some (move t (ImportTx batch ids TablesLocked) s))"
| "advance_import env t batch ids TablesLocked s =
     (if erasedTable (db s) \<noteq> []
      then Some (finish t (ImportReply batch (Inl (ImportRefused (HistoryFailure
             (HistoryImportError TargetNotEmpty ''a target with erased streams cannot be imported into''))))) s)
      else Some (move t (ImportTx batch ids NothingErased) s))"
| "advance_import env t batch ids NothingErased s =
     (case decide_batch env batch ids s of
        Refuse r \<Rightarrow> Some (finish t (ImportReply batch r) s)
      | Recorded res \<Rightarrow> Some (move t (ImportTx batch ids (BatchCommitted res)) s)
      | Insert rows res \<Rightarrow> Some (move t (ImportTx batch ids (BatchInserted rows res)) s))"
| "advance_import env t batch ids (BatchInserted rows res) s =
     Some (move t (ImportTx batch ids (BatchCommitted res)) (commit_batch_pg batch rows res s))"
| "advance_import env t batch ids (BatchCommitted res) s =
     Some (move t (ImportTx batch ids (MaxRead res (max_position (eventsTable (db s))))) s)"
| "advance_import env t batch ids (MaxRead res m) s =
     Some (finish t (ImportReply batch (Inr res))
       (if m = 0 then s else s\<lparr>db := (db s)\<lparr>eventsSequence := m\<rparr>\<rparr>))"

subsection \<open>Calls and schedules\<close>

datatype PgCall =
    CallAppend string int "AppendEvent list" "OutboxMessage list"
  | CallErase StreamErasureRequest string
  | CallImport HistoryImportBatch

text \<open>What runs before the transaction begins.\<close>

fun start :: "PgEnv \<Rightarrow> nat \<Rightarrow> PgCall \<Rightarrow> PgState \<Rightarrow> PgState" where
  "start env t (CallAppend sn v es ms) s = move t (AppendTx sn v es ms Arrived) s"
| "start env t (CallErase request now) s =
     (case prepareStreamErasure request of
        Inl e \<Rightarrow> s\<lparr>replies := replies s @ [EraseReply request now (Inl (EraseRefused e))]\<rparr>
      | Inr _ \<Rightarrow> move t (EraseTx request now EraseArrived) s)"
| "start env t (CallImport batch) s =
     (case prepareHistoryImportBatch (pgSha256 env) (pgDecodeMetadata env) (pgDecoder env) batch of
        Inl e \<Rightarrow> s\<lparr>replies := replies s @ [ImportReply batch (Inl (ImportRefused e))]\<rparr>
      | Inr ids \<Rightarrow> move t (ImportTx batch ids ImportArrived) s)"

fun advance :: "PgEnv \<Rightarrow> nat \<Rightarrow> PgTx \<Rightarrow> PgState \<Rightarrow> PgState option" where
  "advance env t (AppendTx sn v es ms phase) s = advance_append env t sn v es ms phase s"
| "advance env t (EraseTx request now phase) s = advance_erase env t request now phase s"
| "advance env t (ImportTx batch ids phase) s = advance_import env t batch ids phase s"

text \<open>A statement the database does not answer ends its transaction without effect, a commit that was made apart.\<close>

fun failure_reply :: "PgTx \<Rightarrow> PgReply" where
  "failure_reply (AppendTx sn v es ms phase) = AppendReply sn v es (Inl (TxSql OtherCause))"
| "failure_reply (EraseTx request now phase) = EraseReply request now (Inl (EraseSql OtherCause))"
| "failure_reply (ImportTx batch ids phase) = ImportReply batch (Inl ImportSql)"

datatype PgAction = Start nat PgCall | Advance nat | Fault nat

text \<open>A step that waits for a lock, or that names no transaction, changes nothing.\<close>

fun pg_step :: "PgEnv \<Rightarrow> PgAction \<Rightarrow> PgState \<Rightarrow> PgState" where
  "pg_step env (Start t call) s = (if jsget (openTxs s) t \<noteq> None then s else start env t call s)"
| "pg_step env (Advance t) s =
     (case jsget (openTxs s) t of None \<Rightarrow> s | Some tx \<Rightarrow> getOr s (advance env t tx s))"
| "pg_step env (Fault t) s =
     (case jsget (openTxs s) t of None \<Rightarrow> s | Some tx \<Rightarrow> finish t (failure_reply tx) s)"

definition pg_run :: "PgEnv \<Rightarrow> PgAction list \<Rightarrow> PgState \<Rightarrow> PgState" where
  "pg_run env acts s = foldl (\<lambda>s a. pg_step env a s) s acts"

end
