(* ===== verification/PgProofs.thy ===== *)
theory PgProofs
  imports PgStore
begin

section \<open>Concurrent appends and erasures\<close>

text \<open>
  Without imports, the locks make every transaction one step of the sequential store: the invariant of all interleavings, and
  the in-memory store as their specification.
\<close>

subsection \<open>Open transactions\<close>

lemma insertMessages_Inl:
  "insertMessages ok i ms tb = (Inl e, tb') \<Longrightarrow> e = TxSql OtherCause \<or> e = TxPersistence encode_failed"
  by (induction ms arbitrary: i tb)
     (auto simp: insertMessage_def encodeJson_def split: option.splits if_splits sum.splits prod.splits)

lemma other_txs_iff:
  assumes "distinct (jskeys (openTxs s))"
  shows "other_txs P t s \<longleftrightarrow> (\<exists>t' tx. t' \<noteq> t \<and> jsget (openTxs s) t' = Some tx \<and> P tx)"
  using assms by (fastforce simp: other_txs_def list_ex_iff dest: jsget_mem)

lemma move_simps [simp]:
  "db (move t tx s) = db s" "replies (move t tx s) = replies s" "openTxs (move t tx s) = jsset t tx (openTxs s)"
  by (simp_all add: move_def)

lemma finish_simps [simp]:
  "db (finish t r s) = db s" "replies (finish t r s) = replies s @ [r]" "openTxs (finish t r s) = jsdelete t (openTxs s)"
  by (simp_all add: finish_def)

lemma finish_db: "finish t r (s\<lparr>db := tb\<rparr>) = (finish t r s)\<lparr>db := tb\<rparr>"
  by (cases s) (simp add: finish_def)

subsection \<open>The invariant\<close>

text \<open>Committed tables: positions ascend and were drawn, streams are numbered, erased streams keep their length.\<close>

definition db_ok :: "SqlTables \<Rightarrow> bool" where
  "db_ok tb \<longleftrightarrow>
     sorted_wrt (<) (map evPosition (eventsTable tb)) \<and> (\<forall>r \<in> set (eventsTable tb). evPosition r \<le> eventsSequence tb) \<and>
     (\<forall>sn. numbered evVersion (rows_of sn tb)) \<and>
     (\<forall>row \<in> set (erasedTable tb). lastErasedVersion row = int (length (rows_of (erasedStream row) tb)))"

text \<open>The rows an append has inserted so far.\<close>

definition own_rows :: "SqlTables \<Rightarrow> string \<Rightarrow> int \<Rightarrow> AppendEvent list \<Rightarrow> EventRow list \<Rightarrow> bool" where
  "own_rows tb sn v es rows \<longleftrightarrow>
     length rows \<le> length es \<and>
     (\<forall>i < length rows. \<exists>stored p. event_stored (es ! i) = Some stored \<and> rows ! i = pg_row sn (v + int i + 1) p stored) \<and>
     sorted_wrt (<) (map evPosition (eventsTable tb @ rows)) \<and> (\<forall>r \<in> set rows. evPosition r \<le> eventsSequence tb)"

definition at_version :: "SqlTables \<Rightarrow> string \<Rightarrow> int \<Rightarrow> bool" where
  "at_version tb sn v \<longleftrightarrow> erased_row sn tb = None \<and> v = int (length (rows_of sn tb))"

fun tx_ok :: "SqlTables \<Rightarrow> PgTx \<Rightarrow> bool" where
  "tx_ok tb (AppendTx sn v es ms phase) \<longleftrightarrow>
     (case phase of
        Arrived \<Rightarrow> True
      | StreamLocked \<Rightarrow> True
      | LedgerRead \<Rightarrow> erased_row sn tb = None
      | VersionRead \<Rightarrow> at_version tb sn v
      | Inserting rows \<Rightarrow> at_version tb sn v \<and> own_rows tb sn v es rows
      | MessagesStaged rows staged \<Rightarrow> at_version tb sn v \<and> own_rows tb sn v es rows \<and> length rows = length es
      | Rereading \<Rightarrow> False)"
| "tx_ok tb (EraseTx request now phase) \<longleftrightarrow>
     (case phase of
        EraseArrived \<Rightarrow> True
      | EraseLocked \<Rightarrow> True
      | EraseLedgerRead \<Rightarrow> erased_row (reqStream request) tb = None
      | _ \<Rightarrow> at_version tb (reqStream request) (reqVersion request))
     \<and> (\<exists>r. prepareStreamErasure request = Inr r)"
| "tx_ok tb (ImportTx batch ids phase) \<longleftrightarrow> False"

definition pg_inv :: "PgEnv \<Rightarrow> PgState \<Rightarrow> bool" where
  "pg_inv env s \<longleftrightarrow>
     db_ok (db s) \<and> distinct (jskeys (openTxs s)) \<and>
     (\<forall>t tx. jsget (openTxs s) t = Some tx \<longrightarrow> tx_ok (db s) tx) \<and>
     (\<forall>t tx key. jsget (openTxs s) t = Some tx \<and> holds_stream env key tx \<longrightarrow> \<not> other_txs (holds_stream env key) t s) \<and>
     (\<forall>t tx. jsget (openTxs s) t = Some tx \<and> holds_order tx \<longrightarrow> \<not> other_txs holds_order t s)"

lemma pg_invD:
  assumes "pg_inv env s"
  shows "db_ok (db s)" and "distinct (jskeys (openTxs s))"
    and "jsget (openTxs s) t = Some tx \<Longrightarrow> tx_ok (db s) tx"
    and "jsget (openTxs s) t = Some tx \<Longrightarrow> holds_stream env key tx \<Longrightarrow> \<not> other_txs (holds_stream env key) t s"
    and "jsget (openTxs s) t = Some tx \<Longrightarrow> holds_order tx \<Longrightarrow> \<not> other_txs holds_order t s"
  using assms unfolding pg_inv_def by blast+

lemma pg_inv_empty [simp]: "pg_inv env emptyPg"
  by (simp add: pg_inv_def emptyPg_def emptyTables_def db_ok_def)

lemma pg_inv_move:
  assumes inv: "pg_inv env s" and tx: "tx_ok (db s) tx"
    and stream: "\<And>key. holds_stream env key tx \<Longrightarrow> \<not> other_txs (holds_stream env key) t s"
    and order: "holds_order tx \<Longrightarrow> \<not> other_txs holds_order t s"
  shows "pg_inv env (move t tx s)"
proof -
  note dist = pg_invD(2) [OF inv]
  have dist': "distinct (jskeys (openTxs (move t tx s)))" using dist by simp
  have other: "\<not> other_txs P t' (move t tx s)"
    if "jsget (openTxs (move t tx s)) t' = Some tx'" "P tx'"
      "P tx \<Longrightarrow> \<not> other_txs P t s" "\<And>u x. jsget (openTxs s) u = Some x \<Longrightarrow> P x \<Longrightarrow> \<not> other_txs P u s" for P t' tx'
    using that unfolding other_txs_iff [OF dist'] other_txs_iff [OF dist] by (auto split: if_splits)
  show ?thesis
    unfolding pg_inv_def
  proof (intro conjI allI impI)
    show "db_ok (db (move t tx s))" using pg_invD(1) [OF inv] by simp
    show "tx_ok (db (move t tx s)) tx'" if "jsget (openTxs (move t tx s)) t' = Some tx'" for t' tx'
      using that tx pg_invD(3) [OF inv] by (auto split: if_splits)
    show "\<not> other_txs (holds_stream env key) t' (move t tx s)"
      if "jsget (openTxs (move t tx s)) t' = Some tx' \<and> holds_stream env key tx'" for t' tx' key
      using that stream pg_invD(4) [OF inv] by (intro other [of t' tx']) auto
    show "\<not> other_txs holds_order t' (move t tx s)"
      if "jsget (openTxs (move t tx s)) t' = Some tx' \<and> holds_order tx'" for t' tx'
      using that order pg_invD(5) [OF inv] by (intro other [of t' tx']) auto
  qed (rule dist')
qed

lemma pg_inv_finish:
  assumes inv: "pg_inv env s"
  shows "pg_inv env (finish t r s)"
proof -
  note dist = pg_invD(2) [OF inv]
  have dist': "distinct (jskeys (openTxs (finish t r s)))" using dist by (simp add: distinct_jskeys_jsdelete)
  have other: "\<not> other_txs P t' (finish t r s)" if "\<not> other_txs P t' s" for P t'
    using that unfolding other_txs_iff [OF dist'] other_txs_iff [OF dist] by auto
  show ?thesis
    unfolding pg_inv_def
    using pg_invD [OF inv] dist' other by (auto split: if_splits)
qed

text \<open>New committed tables that every open transaction tolerates.\<close>

lemma pg_inv_db:
  assumes inv: "pg_inv env s" and "db_ok tb" and "\<And>t tx. jsget (openTxs s) t = Some tx \<Longrightarrow> tx_ok tb tx"
  shows "pg_inv env (s\<lparr>db := tb\<rparr>)"
proof -
  have "other_txs P t (s\<lparr>db := tb\<rparr>) = other_txs P t s" for P t by (simp add: other_txs_def)
  then show ?thesis using assms unfolding pg_inv_def by simp
qed

lemma db_ok_max: "db_ok tb \<Longrightarrow> stream_max sn (eventsTable tb) = int (length (rows_of sn tb))"
  by (intro stream_max_numbered) (simp add: db_ok_def)

subsection \<open>Drawing a position\<close>

lemma own_rows_more: "own_rows tb sn v es rows \<Longrightarrow> eventsSequence tb \<le> n \<Longrightarrow> own_rows (tb\<lparr>eventsSequence := n\<rparr>) sn v es rows"
  by (auto simp: own_rows_def)

lemma at_version_more [simp]: "at_version (tb\<lparr>eventsSequence := n\<rparr>) sn v = at_version tb sn v"
  by (simp add: at_version_def erased_row_def)

lemma erased_row_more [simp]: "erased_row sn (tb\<lparr>eventsSequence := n\<rparr>) = erased_row sn tb"
  by (simp add: erased_row_def)

lemma tx_ok_more: "tx_ok tb tx \<Longrightarrow> eventsSequence tb \<le> n \<Longrightarrow> tx_ok (tb\<lparr>eventsSequence := n\<rparr>) tx"
  by (cases tx) (auto split: AppendPhase.splits ErasePhase.splits intro: own_rows_more)

lemma db_ok_more: "db_ok tb \<Longrightarrow> eventsSequence tb \<le> n \<Longrightarrow> db_ok (tb\<lparr>eventsSequence := n\<rparr>)"
  by (fastforce simp: db_ok_def)

lemma pg_inv_draw:
  assumes "pg_inv env s" and "draw_position s = (pos, s')"
  shows "pg_inv env s'" and "pos = eventsSequence (db s) + 1" and "s' = s\<lparr>db := (db s)\<lparr>eventsSequence := pos\<rparr>\<rparr>"
proof -
  show eq: "pos = eventsSequence (db s) + 1" "s' = s\<lparr>db := (db s)\<lparr>eventsSequence := pos\<rparr>\<rparr>"
    using assms(2) by (auto simp: draw_position_def Let_def)
  show "pg_inv env s'"
    unfolding eq(2) using pg_invD [OF assms(1)] eq(1) by (intro pg_inv_db assms(1) db_ok_more tx_ok_more) auto
qed

lemma own_rows_next:
  assumes own: "own_rows tb sn v es rows" and db: "db_ok tb" and "length rows < length es"
    and "event_stored (es ! length rows) = Some stored" and pos: "pos = eventsSequence tb + 1"
  shows "own_rows (tb\<lparr>eventsSequence := pos\<rparr>) sn v es (rows @ [pg_row sn (v + int (length rows) + 1) pos stored])"
proof -
  have "evPosition r < pos \<and> evPosition r \<le> pos" if "r \<in> set (eventsTable tb) \<union> set rows" for r
  proof -
    have "evPosition r \<le> eventsSequence tb" using that own db by (auto simp: own_rows_def db_ok_def)
    then show ?thesis using pos by simp
  qed
  then show ?thesis
    using assms by (auto simp: own_rows_def nth_append less_Suc_eq sorted_wrt_append pg_row_def)
qed

text \<open>Without imports no insert meets a unique key: the stream is locked at its version and the position is new.\<close>

lemma no_duplicate:
  assumes "own_rows tb sn v es rows" and "db_ok tb" and at: "at_version tb sn v" and pos: "pos = eventsSequence tb + 1"
  shows "\<not> duplicates (pg_row sn (v + int (length rows) + 1) pos stored) (eventsTable tb)"
    and "\<not> duplicates (pg_row sn (v + int (length rows) + 1) pos stored) rows"
proof -
  let ?row = "pg_row sn (v + int (length rows) + 1) pos stored"
  have row: "evPosition ?row = pos" "evStream ?row = sn" "evVersion ?row = v + int (length rows) + 1" by (simp_all add: pg_row_def)
  have below: "\<forall>r \<in> set (eventsTable tb @ rows). evPosition r < pos"
    using assms(1,2) pos by (fastforce simp: own_rows_def db_ok_def)
  have "evVersion r \<le> v" if "r \<in> set (eventsTable tb)" "evStream r = sn" for r
    using that numbered_range [of evVersion "rows_of sn tb" r] assms(2) at by (auto simp: db_ok_def at_version_def)
  then show "\<not> duplicates ?row (eventsTable tb)" using below by (fastforce simp: duplicates_def list_ex_iff row)
  have "evVersion r \<le> v + int (length rows)" if "r \<in> set rows" for r
    using that assms(1) by (fastforce simp: own_rows_def in_set_conv_nth pg_row_def)
  then show "\<not> duplicates ?row rows" using below by (fastforce simp: duplicates_def list_ex_iff row)
qed

subsection \<open>Commits\<close>

fun tx_stream :: "PgTx \<Rightarrow> string" where
  "tx_stream (AppendTx sn v es ms phase) = sn"
| "tx_stream (EraseTx request now phase) = reqStream request"
| "tx_stream (ImportTx batch ids phase) = []"

abbreviation locked :: "PgEnv \<Rightarrow> PgTx \<Rightarrow> bool" where
  "locked env tx \<equiv> holds_stream env (hashtext env (tx_stream tx)) tx"

lemma holds_stream_key: "holds_stream env key tx \<Longrightarrow> key = hashtext env (tx_stream tx)"
  by (cases tx) auto

lemma tx_ok_transfer:
  assumes ok: "tx_ok tb tx" and seq: "eventsSequence tb' = eventsSequence tb" and db: "db_ok tb'"
    and lock: "locked env tx \<Longrightarrow> erased_row (tx_stream tx) tb' = erased_row (tx_stream tx) tb \<and>
      length (rows_of (tx_stream tx) tb') = length (rows_of (tx_stream tx) tb)"
    and order: "holds_order tx \<Longrightarrow> map evPosition (eventsTable tb') = map evPosition (eventsTable tb)"
  shows "tx_ok tb' tx"
proof (cases tx)
  case (AppendTx sn v es ms phase)
  have own: "own_rows tb' sn v es rows" if "own_rows tb sn v es rows" "es \<noteq> [] \<Longrightarrow> holds_order tx" for rows
  proof (cases "es = []")
    case True
    then show ?thesis using that(1) db by (auto simp: own_rows_def db_ok_def)
  next
    case False
    then show ?thesis using that order seq by (simp add: own_rows_def)
  qed
  show ?thesis
    using ok lock own unfolding AppendTx
    by (cases phase) (auto simp: at_version_def)
next
  case (EraseTx request now phase)
  then show ?thesis using ok lock by (cases phase) (auto simp: at_version_def)
qed (use ok in simp)

text \<open>What an open transaction sees when another one, which holds its stream and perhaps the order, commits.\<close>

lemma other_locks:
  assumes inv: "pg_inv env s" and t: "jsget (openTxs s) t = Some tx" and t': "jsget (openTxs s) t' = Some tx'" and "t' \<noteq> t"
  shows "locked env tx \<Longrightarrow> locked env tx' \<Longrightarrow> tx_stream tx' \<noteq> tx_stream tx" and "holds_order tx \<Longrightarrow> \<not> holds_order tx'"
  using pg_invD(4,5) [OF inv t] assms(2-4) unfolding other_txs_iff [OF pg_invD(2) [OF inv]] by metis+

lemma rows_of_own:
  assumes "own_rows tb sn v es rows"
  shows "filter (\<lambda>r. evStream r = n) rows = (if n = sn then rows else [])"
proof -
  have "\<forall>r \<in> set rows. evStream r = sn" using assms by (fastforce simp: own_rows_def in_set_conv_nth pg_row_def)
  then show ?thesis by (auto simp: filter_id_conv filter_empty_conv)
qed

definition appended :: "EventRow list \<Rightarrow> OutboxRow list \<Rightarrow> SqlTables \<Rightarrow> SqlTables" where
  "appended rows staged tb = tb\<lparr>eventsTable := eventsTable tb @ rows, outboxTable := outboxTable tb @ staged\<rparr>"

lemma appended_simps [simp]:
  "eventsTable (appended rows staged tb) = eventsTable tb @ rows" "eventsSequence (appended rows staged tb) = eventsSequence tb"
  "erased_row sn (appended rows staged tb) = erased_row sn tb" "erasedTable (appended rows staged tb) = erasedTable tb"
  by (simp_all add: appended_def erased_row_def)

lemma db_ok_appended:
  assumes db: "db_ok tb" and at: "at_version tb sn v" and own: "own_rows tb sn v es rows"
  shows "db_ok (appended rows staged tb)"
proof -
  have "numbered evVersion (rows_of n (appended rows staged tb))" for n
    using db at own by (auto simp: db_ok_def at_version_def own_rows_def rows_of_own [OF own] numbered_append pg_row_def)
  moreover have "erasedStream row \<noteq> sn" if "row \<in> set (erasedTable tb)" for row
    using that at by (auto simp: at_version_def erased_row_def find_None_iff)
  ultimately show ?thesis
    using db own by (auto simp: db_ok_def own_rows_def rows_of_own [OF own])
qed

lemma pg_inv_appended:
  assumes inv: "pg_inv env s" and t: "jsget (openTxs s) t = Some (AppendTx sn v es ms (MessagesStaged rows staged))"
  shows "pg_inv env (finish t r (s\<lparr>db := appended rows staged (db s)\<rparr>))"
proof -
  let ?tx = "AppendTx sn v es ms (MessagesStaged rows staged)"
  have at: "at_version (db s) sn v" and own: "own_rows (db s) sn v es rows" and len: "length rows = length es"
    using pg_invD(3) [OF inv t] by auto
  note db = db_ok_appended [OF pg_invD(1) [OF inv] at own]
  have fin: "pg_inv env (finish t r s)" by (rule pg_inv_finish [OF inv])
  have "pg_inv env ((finish t r s)\<lparr>db := appended rows staged (db s)\<rparr>)"
  proof (rule pg_inv_db [OF fin db])
    fix t' tx'
    assume "jsget (openTxs (finish t r s)) t' = Some tx'"
    then have t': "t' \<noteq> t" "jsget (openTxs s) t' = Some tx'" by (auto split: if_splits)
    note other = other_locks [OF inv t t'(2) t'(1)]
    show "tx_ok (appended rows staged (db s)) tx'"
    proof (rule tx_ok_transfer [where env = env, OF pg_invD(3) [OF inv t'(2)] _ db])
      show "erased_row (tx_stream tx') (appended rows staged (db s)) = erased_row (tx_stream tx') (db s) \<and>
          length (rows_of (tx_stream tx') (appended rows staged (db s))) = length (rows_of (tx_stream tx') (db s))"
        if "locked env tx'" using other(1) that rows_of_own [OF own, of "tx_stream tx'"] by simp
      show "map evPosition (eventsTable (appended rows staged (db s))) = map evPosition (eventsTable (db s))"
        if "holds_order tx'" using other(2) that len by (cases es) auto
    qed simp
  qed
  then show ?thesis by (simp only: finish_db)
qed

lemma commit_erasure_eq:
  assumes "db_ok tb" and "at_version tb (reqStream request) (reqVersion request)"
  shows "commit_erasure request now tb = erased_tables request now tb"
proof -
  have "1 \<le> evVersion r \<and> evVersion r \<le> reqVersion request" if "r \<in> set (rows_of (reqStream request) tb)" for r
    using that numbered_range [of evVersion "rows_of (reqStream request) tb" r] assms by (simp add: db_ok_def at_version_def)
  then have "map (\<lambda>r. if evStream r = reqStream request \<and> 1 \<le> evVersion r \<and> evVersion r \<le> reqVersion request
      then entomb_row (reqStream request) now r else r) (eventsTable tb) =
    map (\<lambda>r. if evStream r = reqStream request then entomb_row (reqStream request) now r else r) (eventsTable tb)"
    by (intro map_cong refl) simp
  then show ?thesis by (simp add: commit_erasure_def erased_tables_def Let_def)
qed

lemma map_position_erased_tables [simp]: "map evPosition (eventsTable (erased_tables request now tb)) = map evPosition (eventsTable tb)"
  by (auto simp: erased_tables_def Let_def)

lemma eventsSequence_erased_tables [simp]: "eventsSequence (erased_tables request now tb) = eventsSequence tb"
  by (simp add: erased_tables_def Let_def)

lemma db_ok_erased_tables:
  assumes db: "db_ok tb" and at: "at_version tb (reqStream request) (reqVersion request)"
  shows "db_ok (erased_tables request now tb)"
proof -
  have "numbered evVersion (rows_of n (erased_tables request now tb))" for n
    using db by (auto simp: rows_of_erased_tables db_ok_def numbered_def)
  moreover have "lastErasedVersion row = int (length (rows_of (erasedStream row) (erased_tables request now tb)))"
    if "row \<in> set (erasedTable (erased_tables request now tb))" for row
  proof -
    have "row \<in> set (erasedTable tb) \<or>
        erasedStream row = reqStream request \<and> lastErasedVersion row = reqVersion request"
      using that by (auto simp: erased_tables_def Let_def)
    then show ?thesis using db at by (auto simp: rows_of_erased_tables db_ok_def at_version_def)
  qed
  moreover have "evPosition r \<le> eventsSequence tb" if "r \<in> set (eventsTable (erased_tables request now tb))" for r
    using that db by (auto simp: erased_tables_def Let_def db_ok_def split: if_splits)
  ultimately show ?thesis using db by (simp add: db_ok_def)
qed

lemma pg_inv_erased:
  assumes inv: "pg_inv env s" and t: "jsget (openTxs s) t = Some (EraseTx request now LedgerInserted)"
  shows "pg_inv env (finish t r (s\<lparr>db := erased_tables request now (db s)\<rparr>))"
proof -
  have at: "at_version (db s) (reqStream request) (reqVersion request)" using pg_invD(3) [OF inv t] by auto
  note db = db_ok_erased_tables [OF pg_invD(1) [OF inv] at]
  have fin: "pg_inv env (finish t r s)" by (rule pg_inv_finish [OF inv])
  have "pg_inv env ((finish t r s)\<lparr>db := erased_tables request now (db s)\<rparr>)"
  proof (rule pg_inv_db [OF fin db])
    fix t' tx'
    assume "jsget (openTxs (finish t r s)) t' = Some tx'"
    then have t': "t' \<noteq> t" "jsget (openTxs s) t' = Some tx'" by (auto split: if_splits)
    note other = other_locks(1) [OF inv t t'(2) t'(1)]
    show "tx_ok (erased_tables request now (db s)) tx'"
    proof (rule tx_ok_transfer [where env = env, OF pg_invD(3) [OF inv t'(2)] _ db])
      show "erased_row (tx_stream tx') (erased_tables request now (db s)) = erased_row (tx_stream tx') (db s) \<and>
          length (rows_of (tx_stream tx') (erased_tables request now (db s))) = length (rows_of (tx_stream tx') (db s))"
        if "locked env tx'"
        using other that by (simp add: erased_row_erased_tables rows_of_erased_tables split: option.splits)
    qed simp_all
  qed
  then show ?thesis by (simp only: finish_db)
qed

subsection \<open>The in-memory store as the specification\<close>

abbreviation unplaced :: "StoredEvent \<Rightarrow> StoredEvent" where
  "unplaced e \<equiv> e\<lparr>position := 0\<rparr>"

text \<open>The committed tables hold the history of an in-memory store, up to the positions, which may have gaps.\<close>

definition shadows :: "SqlTables \<Rightarrow> EventStoreState \<Rightarrow> bool" where
  "shadows tb st \<longleftrightarrow>
     store_inv st \<and> map unplaced (sql_feed tb) = map unplaced (allEvents st) \<and>
     (\<forall>sn. jsget (erased st) sn = map_option ledger_entry (erased_row sn tb))"

lemma stream_in_unplaced: "map unplaced (stream_in es sn) = stream_in (map unplaced es) sn"
  by (simp add: filter_map comp_def)

lemma shadowsD:
  assumes "shadows tb st"
  shows "store_inv st" and "map unplaced (sql_feed tb) = map unplaced (allEvents st)"
    and "jsget (erased st) sn = map_option ledger_entry (erased_row sn tb)"
    and "length (streamOf st sn) = length (rows_of sn tb)"
proof -
  show inv: "store_inv st" and feed: "map unplaced (sql_feed tb) = map unplaced (allEvents st)"
    and "jsget (erased st) sn = map_option ledger_entry (erased_row sn tb)"
    using assms by (auto simp: shadows_def)
  have "length (streamOf st sn) = length (map unplaced (stream_in (allEvents st) sn))" using store_invD(2) [OF inv] by simp
  also have "\<dots> = length (map unplaced (stream_in (sql_feed tb) sn))" by (simp only: stream_in_unplaced feed)
  finally show "length (streamOf st sn) = length (rows_of sn tb)" by (simp add: length_stream_in_sql_feed)
qed

lemma events_stored_own:
  assumes "own_rows tb sn v es rows" and "length rows = length es"
  shows "\<exists>stored. events_stored es = Some stored \<and>
    map unplaced (map decodeEvent rows) = map unplaced (storeEvents b sn v stored)"
proof -
  have "\<forall>i < length es. \<exists>stored p. event_stored (es ! i) = Some stored \<and> rows ! i = pg_row sn (v + int i + 1) p stored"
    using assms by (simp add: own_rows_def)
  then obtain f where f: "i < length es \<Longrightarrow> event_stored (es ! i) = Some (f i) \<and> (\<exists>p. rows ! i = pg_row sn (v + int i + 1) p (f i))" for i
    by metis
  let ?stored = "map f [0..<length es]"
  have "map event_stored es = map Some ?stored"
    by (rule nth_equalityI) (simp_all add: f)
  then have "events_stored es = Some ?stored" by (simp add: events_stored_def sequence_all_eq_Some)
  moreover have "map unplaced (map decodeEvent rows) = map unplaced (storeEvents b sn v ?stored)"
  proof (rule nth_equalityI)
    fix i assume "i < length (map unplaced (map decodeEvent rows))"
    then have i: "i < length es" using assms(2) by simp
    then show "map unplaced (map decodeEvent rows) ! i = map unplaced (storeEvents b sn v ?stored) ! i"
      using f [OF i] assms(2) by (auto simp: storeEvents_def decodeEvent_def pg_row_def)
  qed (simp add: assms(2))
  ultimately show ?thesis by blast
qed

lemma shadows_append:
  assumes sh: "shadows tb st" and at: "at_version tb sn v" and own: "own_rows tb sn v es rows" and len: "length rows = length es"
  shows "\<exists>st'. append_mem sn v (getOr [] (events_stored es)) st = (Inr (append_result v es), st') \<and>
    shadows (appended rows staged tb) st'"
proof -
  obtain stored where stored: "events_stored es = Some stored"
    and rows: "map unplaced (map decodeEvent rows) = map unplaced (storeEvents (int (length (allEvents st))) sn v stored)"
    using events_stored_own [OF own len] by blast
  have free: "jsget (erased st) sn = None" and v: "v = int (length (streamOf st sn))"
    using at shadowsD(3,4) [OF sh, of sn] by (auto simp: at_version_def)
  have "shadows (appended rows staged tb) (accepted sn v stored st)"
    using store_inv_accepted [OF shadowsD(1) [OF sh] free v] shadowsD(2,3) [OF sh] rows
    by (simp add: shadows_def store_simps sql_feed_def)
  then show ?thesis
    using append_mem_accepts [OF free v, of stored] length_events_stored [OF stored]
    by (auto simp: stored append_result_def)
qed

lemma shadows_erase:
  assumes sh: "shadows tb st" and at: "at_version tb (reqStream request) (reqVersion request)"
  shows "erase_state request now st =
      (Inr \<lparr>erasedEvents = reqVersion request, pinnedVersion = reqVersion request, resultErasedAt = now,
            resultReason = reqReason request\<rparr>, entombed request now st)"
    and "shadows (erased_tables request now tb) (entombed request now st)"
proof -
  have free: "jsget (erased st) (reqStream request) = None" and v: "reqVersion request = int (length (streamOf st (reqStream request)))"
    using at shadowsD(3,4) [OF sh, of "reqStream request"] by (auto simp: at_version_def)
  show "erase_state request now st =
      (Inr \<lparr>erasedEvents = reqVersion request, pinnedVersion = reqVersion request, resultErasedAt = now,
            resultReason = reqReason request\<rparr>, entombed request now st)"
    by (rule erase_state_first [OF shadowsD(1) [OF sh] free v])
  have entomb: "unplaced (entomb sn t e) = entomb sn t (unplaced e)" for sn t e
    by (simp add: entomb_def AppendEvent.defs StoredEvent.defs)
  have "map unplaced (entomb_stream sn t es) = entomb_stream sn t (map unplaced es)" for sn t es
    by (auto simp: entomb_stream_def entomb)
  then show "shadows (erased_tables request now tb) (entombed request now st)"
    using store_inv_entombed [OF shadowsD(1) [OF sh]] shadowsD(2,3) [OF sh] v at
    by (auto simp: shadows_def store_simps sql_feed_erased_tables erased_row_erased_tables at_version_def ledger_entry_def
        split: option.splits)
qed

subsection \<open>Every settled reply is the answer of the sequential store\<close>

text \<open>The call and the answer a reply stands for; none for a reply that reports a fault or a value that cannot be encoded.\<close>

fun settled :: "PgReply \<Rightarrow> (StoreCall \<times> StoreAnswer) list" where
  "settled (AppendReply sn v es (Inr r)) = [(AppendCall sn v (getOr [] (events_stored es)), AppendAnswer (Inr r))]"
| "settled (AppendReply sn v es (Inl (TxDomain e))) = [(AppendCall sn v es, AppendAnswer (Inl (DomainFailure e)))]"
| "settled (EraseReply request now (Inr r)) = [(EraseCall request now, EraseAnswer (Inr r))]"
| "settled (EraseReply request now (Inl (EraseRefused e))) = [(EraseCall request now, EraseAnswer (Inl (EraserRefuses e)))]"
| "settled reply = []"

definition settled_calls :: "PgState \<Rightarrow> (StoreCall \<times> StoreAnswer) list" where
  "settled_calls s = concat (map settled (replies s))"

fun after_calls :: "StoreCall list \<Rightarrow> MemoryStores \<Rightarrow> MemoryStores" where
  "after_calls [] w = w"
| "after_calls (c # cs) w = after_calls cs (snd (memory_call c w))"

lemma call_answers_snoc: "call_answers memory_call (cs @ [c]) w = call_answers memory_call cs w @ [fst (memory_call c (after_calls cs w))]"
  by (induction cs arbitrary: w) (auto split: prod.splits)

lemma after_calls_snoc: "after_calls (cs @ [c]) w = snd (memory_call c (after_calls cs w))"
  by (induction cs arbitrary: w) auto

definition linear :: "PgState \<Rightarrow> bool" where
  "linear s \<longleftrightarrow>
     call_answers memory_call (map fst (settled_calls s)) (emptyStore, []) = map snd (settled_calls s) \<and>
     (\<exists>st. after_calls (map fst (settled_calls s)) (emptyStore, []) = (st, []) \<and> shadows (db s) st)"

lemma linear_empty: "linear emptyPg"
  by (simp add: linear_def settled_calls_def emptyPg_def shadows_def emptyTables_def sql_feed_def erased_row_def
      store_inv_empty) (simp add: emptyStore_def)

text \<open>A transaction that ends with a reply the sequential store gives, and the tables it then has.\<close>

lemma linear_finish:
  assumes "linear s"
    and "settled r = [] \<Longrightarrow> tb = (db s)"
    and "\<And>st. shadows (db s) st \<Longrightarrow> settled r \<noteq> [] \<Longrightarrow>
      \<exists>c a st'. settled r = [(c, a)] \<and> memory_call c (st, []) = (a, (st', [])) \<and> shadows tb st'"
  shows "linear (finish t r (s\<lparr>db := tb\<rparr>))"
proof -
  obtain st where st: "after_calls (map fst (settled_calls s)) (emptyStore, []) = (st, [])" "shadows (db s) st"
    and calls: "call_answers memory_call (map fst (settled_calls s)) (emptyStore, []) = map snd (settled_calls s)"
    using assms(1) by (auto simp: linear_def)
  have more: "settled_calls (finish t r (s\<lparr>db := tb\<rparr>)) = settled_calls s @ settled r"
    by (simp add: settled_calls_def)
  show ?thesis
  proof (cases "settled r = []")
    case True
    then show ?thesis using st calls assms(2) unfolding linear_def more by simp
  next
    case False
    then obtain c a st' where "settled r = [(c, a)]" "memory_call c (st, []) = (a, (st', []))" "shadows tb st'"
      using assms(3) [OF st(2)] by blast
    then show ?thesis using st calls by (simp add: linear_def more call_answers_snoc after_calls_snoc)
  qed
qed

lemma linear_refusal:
  assumes "linear s"
    and "\<And>st. shadows (db s) st \<Longrightarrow> settled r \<noteq> [] \<Longrightarrow>
      \<exists>c a. settled r = [(c, a)] \<and> memory_call c (st, []) = (a, (st, []))"
  shows "linear (finish t r s)"
proof -
  have "linear (finish t r (s\<lparr>db := db s\<rparr>))"
    using assms(2) by (intro linear_finish assms(1)) blast+
  then show ?thesis by simp
qed

lemma linear_same: "linear s \<Longrightarrow> replies s' = replies s \<Longrightarrow> eventsTable (db s') = eventsTable (db s) \<Longrightarrow>
    erasedTable (db s') = erasedTable (db s) \<Longrightarrow> linear s'"
  by (simp add: linear_def settled_calls_def shadows_def sql_feed_def erased_row_def)

subsection \<open>Steps\<close>

definition positions :: "PgState \<Rightarrow> int list" where
  "positions s = map evPosition (eventsTable (db s))"

definition sound_step :: "PgEnv \<Rightarrow> PgState \<Rightarrow> PgState \<Rightarrow> bool" where
  "sound_step env s s' \<longleftrightarrow> pg_inv env s' \<and> linear s' \<and> (\<exists>new. positions s' = positions s @ new)"

lemma sound_move:
  assumes "pg_inv env s" and "linear s" and "tx_ok (db s) tx"
    and "\<And>key. holds_stream env key tx \<Longrightarrow> \<not> other_txs (holds_stream env key) t s"
    and "holds_order tx \<Longrightarrow> \<not> other_txs holds_order t s"
  shows "sound_step env s (move t tx s)"
  using pg_inv_move [OF assms(1,3-5)] linear_same [OF assms(2), of "move t tx s"] by (simp add: sound_step_def positions_def)

text \<open>A step that acquires no lock.\<close>

lemma sound_move_on:
  assumes inv: "pg_inv env s" and lin: "linear s" and t: "jsget (openTxs s) t = Some tx" and ok: "tx_ok (db s) tx'"
    and "\<And>key. holds_stream env key tx' \<Longrightarrow> holds_stream env key tx" and "holds_order tx' \<Longrightarrow> holds_order tx"
  shows "sound_step env s (move t tx' s)"
  using assms(5,6) pg_invD(4,5) [OF inv t] by (intro sound_move inv lin ok) blast+

lemma sound_finish: "pg_inv env s \<Longrightarrow> linear (finish t r s) \<Longrightarrow> sound_step env s (finish t r s)"
  by (simp add: sound_step_def pg_inv_finish positions_def)

lemma refused_append:
  assumes "linear s" and "pg_inv env s"
    and seen: "(\<exists>row. erased_row sn (db s) = Some row \<and> found = lastErasedVersion row) \<or>
      erased_row sn (db s) = None \<and> found = int (length (rows_of sn (db s))) \<and> found \<noteq> v"
  shows "linear (finish t (AppendReply sn v es (Inl (TxDomain (version_conflict sn v found)))) s)"
proof (rule linear_refusal [OF assms(1)])
  fix st assume "shadows (db s) st"
  then have "append_mem sn v es st = (Inl (append_conflict sn v found), st)"
    using seen shadowsD(3,4) [of "db s" st sn]
    by (auto simp: append_mem_def Let_def ledger_entry_def)
  then show "\<exists>c a. settled (AppendReply sn v es (Inl (TxDomain (version_conflict sn v found)))) = [(c, a)] \<and>
      memory_call c (st, []) = (a, st, [])"
    by (simp add: version_conflict_def append_conflict_def split: prod.splits)
qed

lemma advance_append_sound:
  assumes inv: "pg_inv env s" and lin: "linear s" and t: "jsget (openTxs s) t = Some (AppendTx sn v es ms phase)"
    and adv: "advance_append env t sn v es ms phase s = Some s'"
  shows "sound_step env s s'"
proof -
  note ok = pg_invD(3) [OF inv t]
  note max = db_ok_max [OF pg_invD(1) [OF inv]]
  show ?thesis
  proof (cases phase)
    case Arrived
    then have s': "s' = move t (AppendTx sn v es ms StreamLocked) s" and "\<not> other_txs (holds_stream env (hashtext env sn)) t s"
      using adv by (auto split: if_splits)
    then show ?thesis by (auto intro: sound_move inv lin)
  next
    case StreamLocked
    show ?thesis
    proof (cases "erased_row sn (db s)")
      case None
      then show ?thesis using StreamLocked adv by (auto intro!: sound_move_on [OF inv lin t])
    next
      case (Some row)
      then show ?thesis using StreamLocked adv by (auto intro!: sound_finish refused_append inv lin)
    qed
  next
    case LedgerRead
    then have free: "erased_row sn (db s) = None" using ok by simp
    show ?thesis
    proof (cases "int (length (rows_of sn (db s))) = v")
      case True
      then show ?thesis using LedgerRead adv free by (auto simp: max at_version_def Let_def intro!: sound_move_on [OF inv lin t])
    next
      case False
      then show ?thesis using LedgerRead adv free by (auto simp: max Let_def intro!: sound_finish refused_append inv lin)
    qed
  next
    case VersionRead
    then have s': "s' = move t (AppendTx sn v es ms (Inserting [])) s" and order: "es \<noteq> [] \<Longrightarrow> \<not> other_txs holds_order t s"
      using adv by (auto split: if_splits)
    have "own_rows (db s) sn v es []" using pg_invD(1) [OF inv] by (auto simp: own_rows_def db_ok_def)
    then show ?thesis
      using ok order pg_invD(4) [OF inv t] unfolding s' VersionRead by (intro sound_move inv lin) auto
  next
    case (Inserting rows)
    then have at: "at_version (db s) sn v" and own: "own_rows (db s) sn v es rows" using ok by auto
    have ins: "append_insert t sn v es ms rows s = Some s'" using adv Inserting by simp
    show ?thesis
    proof (cases "length rows < length es")
      case True
      show ?thesis
      proof (cases "event_stored (es ! length rows)")
        case None
        then show ?thesis using ins True by (auto simp: append_insert_def intro!: sound_finish linear_refusal inv lin)
      next
        case (Some stored)
        obtain pos s1 where draw: "draw_position s = (pos, s1)" by fastforce
        note d = pg_inv_draw [OF inv draw]
        let ?row = "pg_row sn (v + int (length rows) + 1) pos stored"
        have s': "s' = move t (AppendTx sn v es ms (Inserting (rows @ [?row]))) s1"
          using ins True Some draw no_duplicate [OF own pg_invD(1) [OF inv] at d(2)]
          by (auto simp: append_insert_def Let_def split: if_splits)
        have t1: "jsget (openTxs s1) t = Some (AppendTx sn v es ms (Inserting rows))" using t Inserting d(3) by simp
        have "sound_step env s1 (move t (AppendTx sn v es ms (Inserting (rows @ [?row]))) s1)"
          using own_rows_next [OF own pg_invD(1) [OF inv] True Some d(2)] at
          by (intro sound_move_on [OF d(1) _ t1]) (auto simp: d(3) intro: linear_same [OF lin])
        moreover have "positions s1 = positions s" by (simp add: d(3) positions_def)
        ultimately show ?thesis by (simp add: sound_step_def s')
      qed
    next
      case False
      then have len: "length rows = length es" using own by (simp add: own_rows_def)
      then consider e where "s' = finish t (AppendReply sn v es (Inl e)) s" "insertMessages answering 0 ms (db s) = (Inl e, snd (insertMessages answering 0 ms (db s)))"
        | staged where "s' = move t (AppendTx sn v es ms (MessagesStaged rows staged)) s"
        using ins by (auto simp: append_insert_def split: if_splits prod.splits sum.splits)
      then show ?thesis
      proof cases
        case 1
        have "e = TxSql OtherCause \<or> e = TxPersistence encode_failed"
          using insertMessages_Inl [OF 1(2)] .
        then show ?thesis using 1(1) by (auto intro!: sound_finish linear_refusal inv lin)
      next
        case 2
        then show ?thesis using at own len Inserting by (auto intro!: sound_move_on [OF inv lin t])
      qed
    qed
  next
    case (MessagesStaged rows staged)
    then have at: "at_version (db s) sn v" and own: "own_rows (db s) sn v es rows" and len: "length rows = length es"
      using ok by auto
    have s': "s' = finish t (AppendReply sn v es (Inr (append_result v es))) (s\<lparr>db := appended rows staged (db s)\<rparr>)"
      using adv MessagesStaged by (simp add: appended_def)
    have "linear s'"
      unfolding s' using shadows_append [OF _ at own len] by (intro linear_finish lin) fastforce+
    moreover have "pg_inv env s'" unfolding s' by (rule pg_inv_appended [OF inv t [unfolded MessagesStaged]])
    ultimately show ?thesis by (simp add: sound_step_def s' positions_def)
  next
    case Rereading
    then show ?thesis using ok by simp
  qed
qed

lemma refused_erase:
  assumes "linear s" and "prepareStreamErasure request = Inr ok"
    and "\<And>st. shadows (db s) st \<Longrightarrow> erase_state request now st =
      (case r of Inl (EraseRefused e) \<Rightarrow> Inl e | Inr a \<Rightarrow> Inr a, st)"
    and "\<And>c. r \<noteq> Inl (EraseSql c)"
  shows "linear (finish t (EraseReply request now r) s)"
proof (rule linear_refusal [OF assms(1)])
  fix st assume "shadows (db s) st"
  then have "erase_state request now st = (case r of Inl (EraseRefused e) \<Rightarrow> Inl e | Inr a \<Rightarrow> Inr a, st)" by (rule assms(3))
  then show "\<exists>c a. settled (EraseReply request now r) = [(c, a)] \<and> memory_call c (st, []) = (a, st, [])"
    using assms(2,4) by (auto simp: eraseStream_def remove_snapshot_def split: sum.splits EraseFailure.splits)
qed

lemma advance_erase_sound:
  assumes inv: "pg_inv env s" and lin: "linear s" and t: "jsget (openTxs s) t = Some (EraseTx request now phase)"
    and adv: "advance_erase env t request now phase s = Some s'"
  shows "sound_step env s s'"
proof -
  note ok = pg_invD(3) [OF inv t]
  note max = db_ok_max [OF pg_invD(1) [OF inv]]
  let ?sn = "reqStream request"
  obtain prepared where prepared: "prepareStreamErasure request = Inr prepared" using ok by auto
  show ?thesis
  proof (cases phase)
    case EraseArrived
    then have s': "s' = move t (EraseTx request now EraseLocked) s" and "\<not> other_txs (holds_stream env (hashtext env ?sn)) t s"
      using adv by (auto split: if_splits)
    then show ?thesis by (auto intro!: sound_move inv lin prepared)
  next
    case EraseLocked
    show ?thesis
    proof (cases "erased_row ?sn (db s)")
      case None
      then show ?thesis using EraseLocked adv prepared by (auto intro!: sound_move_on [OF inv lin t])
    next
      case (Some row)
      then have led: "shadows (db s) st \<Longrightarrow> jsget (erased st) ?sn = Some (ledger_entry row)" for st
        using shadowsD(3) [of "db s" st ?sn] by simp
      let ?r = "if reqVersion request \<noteq> lastErasedVersion row
             then Inl (EraseRefused (streamErasureConflict ?sn (reqVersion request) (lastErasedVersion row)))
             else Inr \<lparr>erasedEvents = 0, pinnedVersion = lastErasedVersion row, resultErasedAt = rowErasedAt row,
                       resultReason = rowReason row\<rparr>"
      have s': "s' = finish t (EraseReply request now ?r) s" using EraseLocked Some adv by simp
      show ?thesis
        unfolding s' by (intro sound_finish inv refused_erase [OF lin prepared])
          (auto simp: led erase_state_again ledger_entry_def)
    qed
  next
    case EraseLedgerRead
    then have free: "erased_row ?sn (db s) = None" using ok by simp
    then have led: "shadows (db s) st \<Longrightarrow> jsget (erased st) ?sn = None" for st using shadowsD(3) [of "db s" st ?sn] by simp
    show ?thesis
    proof (cases "int (length (rows_of ?sn (db s))) = reqVersion request")
      case True
      then show ?thesis
        using EraseLedgerRead adv free prepared by (auto simp: max at_version_def Let_def intro!: sound_move_on [OF inv lin t])
    next
      case False
      then have s': "s' = finish t (EraseReply request now (Inl (EraseRefused
          (streamErasureConflict ?sn (reqVersion request) (int (length (rows_of ?sn (db s)))))))) s"
        using EraseLedgerRead adv by (simp add: max Let_def)
      show ?thesis
        unfolding s' using False shadowsD(4)
        by (intro sound_finish inv refused_erase [OF lin prepared]) (auto simp: led erase_state_conflict)
    qed
  next
    case (Rewriting k)
    then show ?thesis
      using adv ok by (auto split: if_splits intro!: sound_move_on [OF inv lin t])
  next
    case SnapshotDeleted
    then show ?thesis using adv ok by (auto intro!: sound_move_on [OF inv lin t])
  next
    case LedgerInserted
    then have at: "at_version (db s) ?sn (reqVersion request)" using ok by auto
    have s': "s' = finish t (EraseReply request now
        (Inr \<lparr>erasedEvents = reqVersion request, pinnedVersion = reqVersion request, resultErasedAt = now,
              resultReason = reqReason request\<rparr>)) (s\<lparr>db := erased_tables request now (db s)\<rparr>)"
      using adv LedgerInserted commit_erasure_eq [OF pg_invD(1) [OF inv] at] by simp
    have "linear s'"
      unfolding s' using shadows_erase [OF _ at] prepared
      by (intro linear_finish lin) (auto simp: eraseStream_def remove_snapshot_def)
    moreover have "pg_inv env s'" unfolding s' by (rule pg_inv_erased [OF inv t [unfolded LedgerInserted]])
    ultimately show ?thesis by (simp add: sound_step_def s' positions_def)
  qed
qed

subsection \<open>Histories without imports\<close>

fun no_import :: "PgAction \<Rightarrow> bool" where
  "no_import (Start t (CallImport batch)) \<longleftrightarrow> False"
| "no_import a \<longleftrightarrow> True"

lemma sound_refl: "pg_inv env s \<Longrightarrow> linear s \<Longrightarrow> sound_step env s s"
  by (simp add: sound_step_def)

lemma step_sound:
  assumes inv: "pg_inv env s" and lin: "linear s" and "no_import a"
  shows "sound_step env s (pg_step env a s)"
proof (cases a)
  case (Start t call)
  show ?thesis
  proof (cases "jsget (openTxs s) t")
    case (Some _)
    then show ?thesis using Start sound_refl [OF inv lin] by simp
  next
    case fresh: None
    show ?thesis
    proof (cases call)
      case (CallAppend sn v es ms)
      then show ?thesis using Start fresh by (auto intro!: sound_move inv lin)
    next
      case (CallErase request now)
      show ?thesis
      proof (cases "prepareStreamErasure request")
        case (Inl e)
        have t: "jsdelete t (openTxs s) = openTxs s"
          using fresh by (intro AList.delete_id) (simp add: jsget_None_iff)
        have "pg_step env a s = finish t (EraseReply request now (Inl (EraseRefused e))) s"
          using Start CallErase Inl fresh t by (simp add: finish_def)
        moreover have "linear (finish t (EraseReply request now (Inl (EraseRefused e))) s)"
          by (intro linear_refusal lin) (simp add: eraseStream_def Inl)
        ultimately show ?thesis using sound_finish [OF inv] by simp
      next
        case (Inr _)
        then show ?thesis using Start CallErase fresh by (auto intro!: sound_move inv lin)
      qed
    next
      case (CallImport batch)
      then show ?thesis using assms(3) Start by simp
    qed
  qed
next
  case (Advance t)
  show ?thesis
  proof (cases "jsget (openTxs s) t")
    case None
    then show ?thesis using Advance sound_refl [OF inv lin] by simp
  next
    case (Some tx)
    show ?thesis
    proof (cases "advance env t tx s")
      case None
      then show ?thesis using Advance Some sound_refl [OF inv lin] by simp
    next
      case (Some s')
      have "sound_step env s s'"
      proof (cases tx)
        case (AppendTx sn v es ms phase)
        then show ?thesis
          using advance_append_sound [OF inv lin] Some \<open>jsget (openTxs s) t = Some tx\<close> by simp
      next
        case (EraseTx request now phase)
        then show ?thesis
          using advance_erase_sound [OF inv lin] Some \<open>jsget (openTxs s) t = Some tx\<close> by simp
      next
        case (ImportTx batch ids phase)
        then show ?thesis using pg_invD(3) [OF inv \<open>jsget (openTxs s) t = Some tx\<close>] by simp
      qed
      then show ?thesis using Advance Some \<open>jsget (openTxs s) t = Some tx\<close> by simp
    qed
  qed
next
  case (Fault t)
  show ?thesis
  proof (cases "jsget (openTxs s) t")
    case None
    then show ?thesis using Fault sound_refl [OF inv lin] by simp
  next
    case (Some tx)
    have "settled (failure_reply tx) = []" by (cases tx) auto
    then have "linear (finish t (failure_reply tx) s)" by (intro linear_refusal lin) simp
    then show ?thesis using Fault Some sound_finish [OF inv] by simp
  qed
qed

lemma pg_run_simps [simp]: "pg_run env [] s = s" "pg_run env (a # as) s = pg_run env as (pg_step env a s)"
  by (simp_all add: pg_run_def)

lemma run_sound:
  assumes "pg_inv env s" and "linear s" and "list_all no_import acts"
  shows "sound_step env s (pg_run env acts s)"
  using assms
proof (induction acts arbitrary: s)
  case Nil
  then show ?case by (simp add: sound_refl)
next
  case (Cons a acts)
  have one: "sound_step env s (pg_step env a s)" using Cons.prems by (intro step_sound) auto
  then have "sound_step env (pg_step env a s) (pg_run env acts (pg_step env a s))"
    using Cons by (auto simp: sound_step_def)
  with one show ?case by (auto simp: sound_step_def)
qed

end
