(* ===== verification/SqlOutbox.thy ===== *)
theory SqlOutbox
  imports SqliteProofs Relay
begin

section \<open>The outbox and the inbox over SQL tables\<close>

text \<open>
  \<open>packages/eventsourcing-sqlite/src/Outbox.ts\<close>: every operation of the outbox as the statements it sends, over the rows of the
  outbox table in the order of their rowids, and the inbox table. \<open>randomUUID\<close> is a supply of tokens. The adapter keeps the
  contract \<open>outbox_service\<close>, so the relay's drain settles what it finds there too.
\<close>

subsection \<open>Statements\<close>

definition decodeEntry :: "OutboxRow \<Rightarrow> OutboxEntry" where
  "decodeEntry row =
     \<lparr>entryMessage = \<lparr>msgId = outboxId row, msgTopic = outboxTopic row, msgPayload = outboxPayload row,
        msgMetadata = outboxMetadata row, msgAvailableAt = None\<rparr>,
      entryStatus = outboxStatus row, entryAttempts = outboxAttempts row, entryError = outboxLastError row,
      entryAvailableAt = outboxAvailableAt row\<rparr>"

text \<open>\<open>INSERT \<dots> ON CONFLICT (id) DO NOTHING\<close>, one statement per message; a message that cannot be encoded stops the rest.\<close>

fun enqueue_sql :: "OutboxMessage list \<Rightarrow> OutboxRow list \<Rightarrow> (PersistenceError, unit) result \<times> OutboxRow list" where
  "enqueue_sql [] rows = (Inr (), rows)"
| "enqueue_sql (m # ms) rows =
     (case message_stored m of
        None \<Rightarrow> (Inl (PersistenceError ''outbox.encode'' (JStr ''TypeError'')), rows)
      | Some stored \<Rightarrow>
          enqueue_sql ms (if msgId m \<in> outboxId ` set rows then rows else rows @ [message_row stored]))"

definition due_row :: "rat \<Rightarrow> OutboxRow \<Rightarrow> bool" where
  "due_row now r \<longleftrightarrow>
     outboxStatus r = Pending \<and>
     (case outboxAvailableAt r of None \<Rightarrow> True | Some t \<Rightarrow> t \<le> now) \<and>
     (outboxToken r = None \<or> (case outboxLease r of None \<Rightarrow> True | Some until \<Rightarrow> until \<le> now))"

definition pending_sql :: "int \<Rightarrow> rat \<Rightarrow> OutboxRow list \<Rightarrow> OutboxEntry list" where
  "pending_sql limit now rows = map decodeEntry (sql_limit (Some limit) (filter (due_row now) rows))"

definition update_rows :: "(OutboxRow \<Rightarrow> bool) \<Rightarrow> (OutboxRow \<Rightarrow> OutboxRow) \<Rightarrow> OutboxRow list \<Rightarrow> bool \<times> OutboxRow list" where
  "update_rows P f rows = (list_ex P rows, map (\<lambda>r. if P r then f r else r) rows)"

record SqlOutboxState =
  outboxRows :: "OutboxRow list"
  uuidSupply :: "nat \<Rightarrow> string"
  uuidsDrawn :: nat

text \<open>The UPDATE takes the first rows that are due, then the rows with the new token are read.\<close>

definition claim_sql :: "int \<Rightarrow> rat \<Rightarrow> rat \<Rightarrow> SqlOutboxState \<Rightarrow> OutboxClaim \<times> SqlOutboxState" where
  "claim_sql limit lease now st =
     (let until = now + lease; tok = uuidSupply st (uuidsDrawn st);
          taken = map outboxId (sql_limit (Some limit) (filter (due_row now) (outboxRows st)));
          rows = snd (update_rows (\<lambda>r. outboxId r \<in> set taken)
            (\<lambda>r. r\<lparr>outboxToken := Some tok, outboxLease := Some until\<rparr>) (outboxRows st))
      in (\<lparr>claimedEntries = (if taken = [] then [] else map decodeEntry (filter (\<lambda>r. outboxToken r = Some tok) rows)),
           token = tok, leaseUntil = until\<rparr>,
          st\<lparr>outboxRows := rows, uuidsDrawn := uuidsDrawn st + 1\<rparr>))"

definition settles_row :: "string list \<Rightarrow> string option \<Rightarrow> OutboxRow \<Rightarrow> bool" where
  "settles_row ids cl r \<longleftrightarrow> outboxId r \<in> set ids \<and> outboxStatus r = Pending \<and> (cl = None \<or> outboxToken r = cl)"

definition settle_rows :: "string list \<Rightarrow> string option \<Rightarrow> (OutboxRow \<Rightarrow> OutboxRow) \<Rightarrow> SqlOutboxState \<Rightarrow> bool \<times> SqlOutboxState" where
  "settle_rows ids cl f st =
     (case update_rows (settles_row ids cl) f (outboxRows st) of (b, rows) \<Rightarrow> (b, st\<lparr>outboxRows := rows\<rparr>))"

definition markPublished_sql :: "string list \<Rightarrow> string option \<Rightarrow> SqlOutboxState \<Rightarrow> bool \<times> SqlOutboxState" where
  "markPublished_sql ids cl st =
     (if ids = [] then (False, st)
      else settle_rows ids cl (\<lambda>r. r\<lparr>outboxStatus := Published, outboxToken := None, outboxLease := None\<rparr>) st)"

definition markFailed_sql ::
  "string \<Rightarrow> string \<Rightarrow> nat \<Rightarrow> rat option \<Rightarrow> string option \<Rightarrow> SqlOutboxState \<Rightarrow> bool \<times> SqlOutboxState" where
  "markFailed_sql ident error attempts retryAt cl st =
     settle_rows [ident] cl
       (\<lambda>r. r\<lparr>outboxAttempts := attempts, outboxLastError := Some error, outboxAvailableAt := retryAt\<rparr>) st"

definition markDead_sql :: "string \<Rightarrow> string \<Rightarrow> string option \<Rightarrow> SqlOutboxState \<Rightarrow> bool \<times> SqlOutboxState" where
  "markDead_sql ident error cl st =
     settle_rows [ident] cl
       (\<lambda>r. r\<lparr>outboxStatus := Dead, outboxLastError := Some error, outboxToken := None, outboxLease := None\<rparr>) st"

definition replay_sql :: "string list \<Rightarrow> SqlOutboxState \<Rightarrow> SqlOutboxState" where
  "replay_sql ids st =
     st\<lparr>outboxRows := snd (update_rows (\<lambda>r. outboxId r \<in> set ids \<and> outboxStatus r = Dead)
       (\<lambda>r. r\<lparr>outboxStatus := Pending, outboxAttempts := 0, outboxLastError := None, outboxAvailableAt := None,
              outboxToken := None, outboxLease := None\<rparr>) (outboxRows st))\<rparr>"

definition deadLetters_sql :: "SqlOutboxState \<Rightarrow> OutboxEntry list" where
  "deadLetters_sql st = map decodeEntry (filter (\<lambda>r. outboxStatus r = Dead) (outboxRows st))"

text \<open>The inbox has one row for every pair of consumer and message.\<close>

definition seen_sql :: "string \<Rightarrow> string \<Rightarrow> (string \<times> string) list \<Rightarrow> bool" where
  "seen_sql consumerId messageId rows \<longleftrightarrow> (consumerId, messageId) \<in> set rows"

definition markProcessed_sql :: "string \<Rightarrow> string \<Rightarrow> (string \<times> string) list \<Rightarrow> (string \<times> string) list" where
  "markProcessed_sql consumerId messageId rows =
     (if (consumerId, messageId) \<in> set rows then rows else rows @ [(consumerId, messageId)])"

definition sqlOutbox :: "SqlOutboxState OutboxService" where
  "sqlOutbox = \<lparr>svcClaim = claim_sql, svcMarkPublished = markPublished_sql, svcMarkFailed = markFailed_sql,
     svcMarkDead = markDead_sql\<rparr>"

subsection \<open>The invariant\<close>

text \<open>One row per message; only pending rows carry a token, and it was drawn; the supply never repeats one.\<close>

definition sql_outbox_ok :: "SqlOutboxState \<Rightarrow> bool" where
  "sql_outbox_ok st \<longleftrightarrow>
     distinct (map outboxId (outboxRows st)) \<and> inj (uuidSupply st) \<and>
     (\<forall>r \<in> set (outboxRows st). \<forall>tok. outboxToken r = Some tok \<longrightarrow>
        outboxStatus r = Pending \<and> tok \<in> uuidSupply st ` {..<uuidsDrawn st})"

definition row_at :: "SqlOutboxState \<Rightarrow> string \<Rightarrow> OutboxRow option" where
  "row_at st i = find (\<lambda>r. outboxId r = i) (outboxRows st)"

definition sql_entry :: "SqlOutboxState \<Rightarrow> string \<Rightarrow> OutboxEntry option" where
  "sql_entry st i = map_option decodeEntry (row_at st i)"

definition sql_holder :: "SqlOutboxState \<Rightarrow> string \<Rightarrow> string option" where
  "sql_holder st i = Option.bind (row_at st i) outboxToken"

definition sql_claimable :: "SqlOutboxState \<Rightarrow> rat \<Rightarrow> string \<Rightarrow> bool" where
  "sql_claimable st t i \<longleftrightarrow> (case row_at st i of None \<Rightarrow> False | Some r \<Rightarrow> due_row t r)"

lemma find_update_rows:
  assumes "\<And>r. outboxId (f r) = outboxId r"
  shows "find (\<lambda>r. outboxId r = i) (map (\<lambda>r. if P r then f r else r) rows) =
    map_option (\<lambda>r. if P r then f r else r) (find (\<lambda>r. outboxId r = i) rows)"
  using assms by (induction rows) auto

lemma row_at_Some: "row_at st i = Some r \<Longrightarrow> r \<in> set (outboxRows st) \<and> outboxId r = i"
  by (auto simp: row_at_def find_Some_iff)

lemma row_at_mem:
  assumes "distinct (map outboxId (outboxRows st))" and "r \<in> set (outboxRows st)"
  shows "row_at st (outboxId r) = Some r"
proof -
  have "find (\<lambda>r'. outboxId r' = outboxId r) rows = Some r" if "distinct (map outboxId rows)" "r \<in> set rows" for rows
    using that by (induction rows) auto
  then show ?thesis using assms by (simp add: row_at_def)
qed

text \<open>A settlement under the token that holds the row writes this row alone.\<close>

lemma settle_rows_held:
  assumes ok: "sql_outbox_ok st" and held: "sql_holder st i = Some tok" and id: "\<And>r. outboxId (f r) = outboxId r"
    and tok: "\<And>r. outboxStatus r = Pending \<Longrightarrow>
      outboxToken (f r) = None \<or> (outboxToken (f r) = outboxToken r \<and> outboxStatus (f r) = Pending)"
  shows "\<exists>st' r. settle_rows [i] (Some tok) f st = (True, st') \<and> sql_outbox_ok st' \<and> row_at st i = Some r \<and>
    row_at st' = (row_at st)(i \<mapsto> f r)"
proof -
  obtain r where r: "row_at st i = Some r" "outboxToken r = Some tok"
    using held by (auto simp: sql_holder_def bind_eq_Some_conv)
  note mem = row_at_Some [OF r(1)]
  have pend: "outboxStatus r = Pending" using ok mem r(2) unfolding sql_outbox_ok_def by blast
  have set_r: "settles_row [i] (Some tok) r" using mem pend r(2) by (simp add: settles_row_def)
  let ?rows = "map (\<lambda>x. if settles_row [i] (Some tok) x then f x else x) (outboxRows st)"
  have same: "row_at (st\<lparr>outboxRows := ?rows\<rparr>) j = ((row_at st)(i \<mapsto> f r)) j" for j
  proof -
    have "row_at (st\<lparr>outboxRows := ?rows\<rparr>) j = map_option (\<lambda>x. if settles_row [i] (Some tok) x then f x else x) (row_at st j)"
      by (simp add: row_at_def find_update_rows [OF id])
    moreover have "\<not> settles_row [i] (Some tok) x" if "row_at st j = Some x" "j \<noteq> i" for x
      using row_at_Some [OF that(1)] that(2) by (simp add: settles_row_def)
    ultimately show ?thesis using r(1) set_r by (cases "row_at st j"; cases "j = i") simp_all
  qed
  have "sql_outbox_ok (st\<lparr>outboxRows := ?rows\<rparr>)"
  proof -
    have ids: "map outboxId ?rows = map outboxId (outboxRows st)" by (simp add: id)
    have "outboxStatus (if settles_row [i] (Some tok) x then f x else x) = Pending \<and> k \<in> uuidSupply st ` {..<uuidsDrawn st}"
      if "x \<in> set (outboxRows st)" "outboxToken (if settles_row [i] (Some tok) x then f x else x) = Some k" for x k
    proof (cases "settles_row [i] (Some tok) x")
      case True
      then have "outboxStatus x = Pending" by (simp add: settles_row_def)
      with True that tok [of x] ok show ?thesis by (auto simp: sql_outbox_ok_def)
    next
      case False
      with that ok show ?thesis by (auto simp: sql_outbox_ok_def)
    qed
    then have all: "\<forall>r \<in> set ?rows. \<forall>k. outboxToken r = Some k \<longrightarrow>
        outboxStatus r = Pending \<and> k \<in> uuidSupply st ` {..<uuidsDrawn st}"
      unfolding set_map by blast
    have dist: "distinct (map outboxId ?rows) \<and> inj (uuidSupply st)"
      using ok unfolding ids sql_outbox_ok_def by blast
    have eqs: "outboxRows (st\<lparr>outboxRows := ?rows\<rparr>) = ?rows" "uuidSupply (st\<lparr>outboxRows := ?rows\<rparr>) = uuidSupply st"
      "uuidsDrawn (st\<lparr>outboxRows := ?rows\<rparr>) = uuidsDrawn st" by simp_all
    show ?thesis unfolding sql_outbox_ok_def eqs using all dist by blast
  qed
  moreover have "list_ex (settles_row [i] (Some tok)) (outboxRows st)"
    using mem set_r by (auto simp: list_ex_iff)
  then have "settle_rows [i] (Some tok) f st = (True, st\<lparr>outboxRows := ?rows\<rparr>)"
    by (simp add: settle_rows_def update_rows_def)
  moreover have "row_at (st\<lparr>outboxRows := ?rows\<rparr>) = (row_at st)(i \<mapsto> f r)" by (rule ext) (rule same)
  ultimately show ?thesis using r(1) by blast
qed

lemma sql_settle_law:
  assumes "sql_outbox_ok st" and "sql_holder st i = Some tok" and "\<And>r. outboxId (f r) = outboxId r"
    and "\<And>r. outboxStatus r = Pending \<Longrightarrow>
      outboxToken (f r) = None \<or> (outboxToken (f r) = outboxToken r \<and> outboxStatus (f r) = Pending)"
    and g: "\<And>r. decodeEntry (f r) = g (decodeEntry r)" and h: "\<And>r. outboxToken (f r) = h (outboxToken r)"
  shows "\<exists>st'. settle_rows [i] (Some tok) f st = (True, st') \<and> sql_outbox_ok st' \<and>
    sql_entry st' = (sql_entry st)(i := map_option g (sql_entry st i)) \<and>
    sql_holder st' = (sql_holder st)(i := h (sql_holder st i)) \<and>
    (\<forall>j t. j \<noteq> i \<longrightarrow> sql_claimable st' t j = sql_claimable st t j)"
proof -
  obtain st' r where st': "settle_rows [i] (Some tok) f st = (True, st')" "sql_outbox_ok st'" "row_at st i = Some r"
    "row_at st' = (row_at st)(i \<mapsto> f r)"
    using settle_rows_held [OF assms(1-4)] by blast
  have "sql_entry st' = (sql_entry st)(i := map_option g (sql_entry st i))"
    by (rule ext) (simp add: sql_entry_def st'(3,4) g)
  moreover have "sql_holder st' = (sql_holder st)(i := h (sql_holder st i))"
    by (rule ext) (simp add: sql_holder_def st'(3,4) h)
  moreover have "sql_claimable st' t j = sql_claimable st t j" if "j \<noteq> i" for j t
    using that by (simp add: sql_claimable_def st'(4))
  ultimately show ?thesis using st'(1,2) by blast
qed

lemma settle_rows_fenced:
  assumes "distinct (map outboxId (outboxRows st))" and "sql_holder st i \<noteq> Some tok"
  shows "settle_rows [i] (Some tok) f st = (False, st)"
proof -
  have "\<not> settles_row [i] (Some tok) r" if "r \<in> set (outboxRows st)" for r
    using assms(2) row_at_mem [OF assms(1) that] by (auto simp: settles_row_def sql_holder_def)
  then have "map (\<lambda>r. if settles_row [i] (Some tok) r then f r else r) (outboxRows st) = outboxRows st"
    and "\<not> list_ex (settles_row [i] (Some tok)) (outboxRows st)"
    by (auto simp: list_ex_iff map_idI)
  then show ?thesis by (simp add: settle_rows_def update_rows_def)
qed

subsection \<open>Claims\<close>

definition taken_rows :: "int \<Rightarrow> rat \<Rightarrow> SqlOutboxState \<Rightarrow> OutboxRow list" where
  "taken_rows limit now st = sql_limit (Some limit) (filter (due_row now) (outboxRows st))"

lemma set_sql_limit: "x \<in> set (sql_limit n xs) \<Longrightarrow> x \<in> set xs"
  by (auto simp: sql_limit_def split: option.splits if_splits dest: in_set_takeD)

lemma taken_row: "r \<in> set (taken_rows limit now st) \<Longrightarrow> r \<in> set (outboxRows st) \<and> due_row now r"
  unfolding taken_rows_def by (auto dest!: set_sql_limit)

definition stamp_row :: "string \<Rightarrow> rat \<Rightarrow> OutboxRow list \<Rightarrow> OutboxRow \<Rightarrow> OutboxRow" where
  "stamp_row tok until taken r =
     (if outboxId r \<in> outboxId ` set taken then r\<lparr>outboxToken := Some tok, outboxLease := Some until\<rparr> else r)"

lemma decode_stamp_row [simp]: "decodeEntry (stamp_row tok until taken r) = decodeEntry r"
  by (simp add: stamp_row_def decodeEntry_def)

lemma outboxId_stamp_row [simp]: "outboxId (stamp_row tok until taken r) = outboxId r"
  by (simp add: stamp_row_def)

lemma msgId_decodeEntry [simp]: "msgId (entryMessage (decodeEntry r)) = outboxId r"
  by (simp add: decodeEntry_def)

lemma claim_sql_eq:
  assumes ok: "sql_outbox_ok st"
  defines "tok \<equiv> uuidSupply st (uuidsDrawn st)"
  shows "claim_sql limit lease now st =
    (\<lparr>claimedEntries = map decodeEntry (filter (\<lambda>r. outboxId r \<in> outboxId ` set (taken_rows limit now st)) (outboxRows st)),
      token = tok, leaseUntil = now + lease\<rparr>,
     st\<lparr>outboxRows := map (stamp_row tok (now + lease) (taken_rows limit now st)) (outboxRows st),
        uuidsDrawn := uuidsDrawn st + 1\<rparr>)"
proof -
  have fresh: "outboxToken r \<noteq> Some tok" if "r \<in> set (outboxRows st)" for r
  proof
    assume "outboxToken r = Some tok"
    then obtain n where "n < uuidsDrawn st" "uuidSupply st n = tok" using ok \<open>r \<in> set (outboxRows st)\<close>
      by (auto simp: sql_outbox_ok_def)
    then show False using ok by (auto simp: sql_outbox_ok_def tok_def dest: injD)
  qed
  have "outboxToken (stamp_row tok (now + lease) taken r) = Some tok \<longleftrightarrow> outboxId r \<in> outboxId ` set taken"
    if "r \<in> set (outboxRows st)" for r and taken :: "OutboxRow list"
    using fresh [OF that] by (simp add: stamp_row_def)
  then have "filter (\<lambda>r. outboxToken r = Some tok) (map (stamp_row tok (now + lease) (taken_rows limit now st)) (outboxRows st)) =
      map (stamp_row tok (now + lease) (taken_rows limit now st))
        (filter (\<lambda>r. outboxId r \<in> outboxId ` set (taken_rows limit now st)) (outboxRows st))"
    by (simp add: filter_map comp_def cong: filter_cong)
  moreover have "snd (update_rows (\<lambda>r. outboxId r \<in> set (map outboxId taken))
      (\<lambda>r. r\<lparr>outboxToken := Some tok, outboxLease := Some (now + lease)\<rparr>) (outboxRows st)) =
      map (stamp_row tok (now + lease) taken) (outboxRows st)" for taken :: "OutboxRow list"
    by (simp add: update_rows_def stamp_row_def [abs_def])
  ultimately show ?thesis
    unfolding claim_sql_def Let_def taken_rows_def [symmetric] tok_def [symmetric] by (auto simp: comp_def)
qed

lemma taken_iff:
  assumes "sql_outbox_ok st" and "r \<in> set (outboxRows st)"
  shows "outboxId r \<in> outboxId ` set (taken_rows limit now st) \<longleftrightarrow> r \<in> set (taken_rows limit now st)"
proof -
  have "inj_on outboxId (set (outboxRows st))" using assms(1) by (simp add: sql_outbox_ok_def distinct_map)
  then show ?thesis using assms(2) taken_row by (metis (no_types, lifting) image_iff inj_onD)
qed

lemma row_at_stamped:
  "row_at (st\<lparr>outboxRows := map (stamp_row tok until taken) (outboxRows st), uuidsDrawn := n\<rparr>) i =
     map_option (stamp_row tok until taken) (row_at st i)"
  using find_update_rows [of "\<lambda>r. r\<lparr>outboxToken := Some tok, outboxLease := Some until\<rparr>" i
      "\<lambda>r. outboxId r \<in> outboxId ` set taken" "outboxRows st"]
  by (simp add: row_at_def stamp_row_def [abs_def])

lemma sql_claim_law:
  assumes ok: "sql_outbox_ok w" and c: "claim_sql m lease t w = (c, w')"
  shows "sql_outbox_ok w' \<and> sql_entry w' = sql_entry w \<and>
    distinct (map (\<lambda>e. msgId (entryMessage e)) (claimedEntries c)) \<and>
    (\<forall>e \<in> set (claimedEntries c).
       sql_entry w (msgId (entryMessage e)) = Some e \<and> sql_claimable w t (msgId (entryMessage e)) \<and>
       sql_holder w' (msgId (entryMessage e)) = Some (token c)) \<and>
    (\<forall>i t'. i \<notin> (\<lambda>e. msgId (entryMessage e)) ` set (claimedEntries c) \<longrightarrow> sql_claimable w' t' i = sql_claimable w t' i)"
proof -
  let ?tok = "uuidSupply w (uuidsDrawn w)" and ?taken = "taken_rows m t w"
  note dist = ok [unfolded sql_outbox_ok_def, THEN conjunct1]
  have w': "w' = w\<lparr>outboxRows := map (stamp_row ?tok (t + lease) ?taken) (outboxRows w), uuidsDrawn := uuidsDrawn w + 1\<rparr>"
    and entries: "claimedEntries c = map decodeEntry (filter (\<lambda>r. outboxId r \<in> outboxId ` set ?taken) (outboxRows w))"
    and tok: "token c = ?tok"
    using c claim_sql_eq [OF ok, of m lease t] by auto
  have row': "row_at w' i = map_option (stamp_row ?tok (t + lease) ?taken) (row_at w i)" for i
    unfolding w' by (rule row_at_stamped)
  have "sql_outbox_ok w'"
  proof -
    have "outboxStatus r = Pending" if "r \<in> set (outboxRows w)" "outboxId r \<in> outboxId ` set ?taken" for r
      using that taken_iff [OF ok that(1)] taken_row by (auto simp: due_row_def)
    moreover have "map outboxId (outboxRows w') = map outboxId (outboxRows w)" by (simp add: w' comp_def)
    moreover have "outboxStatus (stamp_row ?tok (t + lease) ?taken r) = Pending \<and> k \<in> uuidSupply w ` {..<Suc (uuidsDrawn w)}"
      if "r \<in> set (outboxRows w)" "outboxToken (stamp_row ?tok (t + lease) ?taken r) = Some k" for r k
    proof (cases "outboxId r \<in> outboxId ` set ?taken")
      case True
      then show ?thesis using that \<open>\<And>r. _ \<Longrightarrow> _ \<Longrightarrow> outboxStatus r = Pending\<close> by (auto simp: stamp_row_def)
    next
      case False
      then have "outboxStatus r = Pending \<and> k \<in> uuidSupply w ` {..<uuidsDrawn w}"
        using that ok by (auto simp: stamp_row_def sql_outbox_ok_def)
      with False show ?thesis by (auto simp: stamp_row_def)
    qed
    ultimately show ?thesis using ok by (auto simp: sql_outbox_ok_def w' comp_def)
  qed
  moreover have "sql_entry w' = sql_entry w"
    by (auto simp: sql_entry_def row' fun_eq_iff option.map_comp comp_def)
  moreover have "distinct (map (\<lambda>e. msgId (entryMessage e)) (claimedEntries c))"
    using dist by (simp add: entries comp_def distinct_map_filter)
  moreover have "sql_entry w (outboxId r) = Some (decodeEntry r) \<and> sql_claimable w t (outboxId r) \<and>
      sql_holder w' (outboxId r) = Some ?tok"
    if r: "r \<in> set (outboxRows w)" "outboxId r \<in> outboxId ` set ?taken" for r
    using row_at_mem [OF dist r(1)] r taken_iff [OF ok r(1)] taken_row [of r m t w]
    by (simp add: sql_entry_def sql_claimable_def sql_holder_def row' stamp_row_def)
  moreover have "sql_claimable w' t' i = sql_claimable w t' i"
    if "i \<notin> outboxId ` {r \<in> set (outboxRows w). outboxId r \<in> outboxId ` set ?taken}" for t' i
  proof (cases "row_at w i")
    case (Some r)
    then have "outboxId r \<notin> outboxId ` set ?taken" using that row_at_Some [OF Some] by auto
    then show ?thesis by (simp add: sql_claimable_def row' Some stamp_row_def)
  qed (simp add: sql_claimable_def row')
  moreover have "(\<lambda>e. msgId (entryMessage e)) ` set (claimedEntries c) =
      outboxId ` {r \<in> set (outboxRows w). outboxId r \<in> outboxId ` set ?taken}"
    by (simp add: entries image_image)
  ultimately show ?thesis by (simp add: tok) (auto simp: entries)
qed

interpretation sql_outbox: outbox_service sqlOutbox sql_outbox_ok sql_entry sql_holder sql_claimable
proof (unfold_locales, goal_cases)
  case (1 w)
  have "dom (sql_entry w) \<subseteq> outboxId ` set (outboxRows w)"
    using row_at_Some by (fastforce simp: sql_entry_def dom_def)
  then show ?case by (rule finite_subset) simp
next
  case (2 w t i)
  then show ?case by (auto simp: sql_claimable_def sql_entry_def due_row_def decodeEntry_def split: option.splits)
next
  case (3 w t i t')
  then show ?case by (auto simp: sql_claimable_def due_row_def split: option.splits)
next
  case (4 w m lease t c w')
  then show ?case using sql_claim_law by (simp add: sqlOutbox_def)
next
  case (5 w m lease t c w' i)
  show ?case
  proof
    assume "sql_claimable w t i"
    then obtain r where r: "row_at w i = Some r" "due_row t r" by (auto simp: sql_claimable_def split: option.splits)
    then have "filter (due_row t) (outboxRows w) \<noteq> []" using row_at_Some by (fastforce simp: filter_empty_conv)
    then have "taken_rows m t w \<noteq> []" using 5(3) by (simp add: taken_rows_def sql_limit_def)
    then obtain r where "r \<in> set (taken_rows m t w)" by (cases "taken_rows m t w") auto
    then have "decodeEntry r \<in> set (claimedEntries c)"
      using 5(2) taken_row [of r m t w] by (auto simp: sqlOutbox_def claim_sql_eq [OF 5(1)])
    then show False using 5(4) by simp
  qed
next
  case (6 w i tok)
  show ?case
    using sql_settle_law [OF 6, of "\<lambda>r. r\<lparr>outboxStatus := Published, outboxToken := None, outboxLease := None\<rparr>"
        "\<lambda>e. e\<lparr>entryStatus := Published\<rparr>" "\<lambda>_. None"]
    by (simp add: sqlOutbox_def markPublished_sql_def decodeEntry_def)
next
  case (7 w i tok err n ra)
  show ?case
    using sql_settle_law [OF 7, of "\<lambda>r. r\<lparr>outboxAttempts := n, outboxLastError := Some err, outboxAvailableAt := ra\<rparr>"
        "\<lambda>e. e\<lparr>entryAttempts := n, entryError := Some err, entryAvailableAt := ra\<rparr>" "\<lambda>x. x"]
    by (simp add: sqlOutbox_def markFailed_sql_def decodeEntry_def)
next
  case (8 w i tok err)
  show ?case
    using sql_settle_law [OF 8, of "\<lambda>r. r\<lparr>outboxStatus := Dead, outboxLastError := Some err, outboxToken := None, outboxLease := None\<rparr>"
        "\<lambda>e. e\<lparr>entryStatus := Dead, entryError := Some err\<rparr>" "\<lambda>_. None"]
    by (simp add: sqlOutbox_def markDead_sql_def decodeEntry_def)
next
  case (9 w i tok)
  then show ?case by (simp add: sqlOutbox_def markPublished_sql_def settle_rows_fenced sql_outbox_ok_def)
next
  case (10 w i tok err n ra)
  then show ?case by (simp add: sqlOutbox_def markFailed_sql_def settle_rows_fenced sql_outbox_ok_def)
next
  case (11 w i tok err)
  then show ?case by (simp add: sqlOutbox_def markDead_sql_def settle_rows_fenced sql_outbox_ok_def)
next
  case (12 w i tok)
  then show ?case by (auto simp: sql_holder_def sql_entry_def bind_eq_Some_conv)
qed

text \<open>The inbox over SQL keys its rows by the pair, so consumers never collide, whatever their ids contain.\<close>

lemma seen_sql_markProcessed: "seen_sql c m (markProcessed_sql c' m' rows) \<longleftrightarrow> (c = c' \<and> m = m') \<or> seen_sql c m rows"
  by (auto simp: seen_sql_def markProcessed_sql_def)

end
