(* ===== verification/SqlProperties.thy ===== *)
theory SqlProperties
  imports PgProofs SqlOutbox
begin

section \<open>Properties of the SQL event stores\<close>

text \<open>
  The SQLite adapter answers as the in-memory adapters do, and its transactions are atomic whatever statement fails; the
  PostgreSQL adapter's concurrent appends and erasures take effect one at a time, in the order of their positions, and its
  transactions, imports among them, can always end.
\<close>

subsection \<open>Concrete events, batches and schedules\<close>

definition sql_event :: "string \<Rightarrow> int \<Rightarrow> AppendEvent" where
  "sql_event ident v =
     \<lparr>etype = ''Renamed'', schemaVersion = 1, payload = JObj [(''name'', JStr ident)],
      metadata = \<lparr>eventId = ident, occurredAt = ''2026-01-01T00:00:00.000Z'', aggregateName = ''user'', aggregateId = ''1'',
        aggregateVersion = v, correlationId = None, causationId = None, actor = None, partition = None, origin = None,
        extensions = None\<rparr>\<rparr>"

definition sql_message :: "string \<Rightarrow> OutboxMessage" where
  "sql_message ident = \<lparr>msgId = ident, msgTopic = ''mail'', msgPayload = JNull, msgMetadata = [], msgAvailableAt = None\<rparr>"

definition sql_erasure :: StreamErasureRequest where
  "sql_erasure = \<lparr>reqStream = ''user-1'', reqVersion = 1, reqReason = ''request''\<rparr>"

definition sql_snapshot :: "json Snapshot" where
  "sql_snapshot = \<lparr>snapState = JNum 7, snapVersion = 1\<rparr>"

definition all_events :: ReadAllOptions where
  "all_events = \<lparr>fromPosition = None, batchSize = Some 10, partitionFilter = None\<rparr>"

definition sql_calls :: "StoreCall list" where
  "sql_calls =
     [AppendCall ''user-1'' 0 [sql_event ''e1'' 1], AppendCall ''user-1'' 0 [sql_event ''e2'' 1],
      SaveSnapshotCall ''user-1'' sql_snapshot, EraseCall sql_erasure ''now'', LoadSnapshotCall ''user-1'', ReadAllCall all_events]"

lemma event_stored_sql_event [simp]: "event_stored (sql_event i v) = Some (sql_event i v)"
  by (simp add: event_stored_def sql_event_def metadata_stored_def)

lemma trim_words [simp]: "trim ''user-1'' \<noteq> []" "trim ''request'' \<noteq> []"
  by (simp_all add: trim_eq_Nil_iff js_space_def)

subsection \<open>SQLite\<close>

text \<open>
  C33. Any history of appends, erasures, reads and snapshot calls that starts on empty tables, with values that survive the JSON
  encoding and with no snapshot saved for an erased stream, is answered by the SQLite adapter, call by call, exactly as by the
  in-memory adapters.
\<close>

theorem sqlite_refines_memory:
  assumes "plain_history cs (emptyStore, [])"
  shows "call_answers (sqlite_call answering) cs emptyTables = call_answers memory_call cs (emptyStore, [])"
  using mirrors_calls [OF mirrors_empty assms] .

theorem sqlite_refines_memory_witness:
  "call_answers (sqlite_call answering) sql_calls emptyTables ! 4 = SnapshotAnswer (Inr None)"
proof -
  have "plain_history sql_calls (emptyStore, [])"
    by (simp add: sql_calls_def all_events_def sql_snapshot_def plain_event_def append_mem_def emptyStore_def streamOf_def Let_def)
  then have "call_answers (sqlite_call answering) sql_calls emptyTables = call_answers memory_call sql_calls (emptyStore, [])"
    by (rule sqlite_refines_memory)
  then show ?thesis
    by (simp add: sql_calls_def sql_erasure_def append_mem_def emptyStore_def streamOf_def storeEvents_def eraseStream_def
        prepareStreamErasure_def is_safe_integer_def erase_state_def load_snapshot_def save_snapshot_def remove_snapshot_def
        Let_def)
qed

text \<open>
  C34. Whatever statements the database refuses, an append with outbox messages commits all of its events, at the next positions and
  versions, together with all of its messages, or it changes nothing. When every statement is answered it commits exactly when the
  stream is not erased and at the expected version, all values can be encoded, and the message ids are new and distinct.
\<close>

theorem append_with_outbox_atomic:
  assumes inv: "sql_inv tb"
  shows "(case appendTransaction ok sn v es ms tb of
      (Inl e, tb') \<Rightarrow> tb' = tb
    | (Inr r, tb') \<Rightarrow> sql_inv tb' \<and> lastVersion r = v + int (length es) \<and>
        (\<exists>stored staged. events_stored es = Some stored \<and> messages_stored ms = Some staged \<and>
           sql_feed tb' = sql_feed tb @ storeEvents (int (length (sql_feed tb))) sn v stored \<and>
           outboxTable tb' = outboxTable tb @ map message_row staged \<and>
           erasedTable tb' = erasedTable tb \<and> snapshotTable tb' = snapshotTable tb)) \<and>
    ((\<exists>r. fst (appendTransaction answering sn v es ms tb) = Inr r) \<longleftrightarrow>
       erased_row sn tb = None \<and> v = int (length (rows_of sn tb)) \<and>
       events_stored es \<noteq> None \<and> messages_stored ms \<noteq> None \<and>
       distinct (map msgId ms) \<and> msgId ` set ms \<inter> outboxId ` set (outboxTable tb) = {})"
proof -
  have "case appendTransaction ok sn v es ms tb of
      (Inl e, tb') \<Rightarrow> tb' = tb
    | (Inr r, tb') \<Rightarrow> sql_inv tb' \<and> lastVersion r = v + int (length es) \<and>
        (\<exists>stored staged. events_stored es = Some stored \<and> messages_stored ms = Some staged \<and>
           sql_feed tb' = sql_feed tb @ storeEvents (int (length (sql_feed tb))) sn v stored \<and>
           outboxTable tb' = outboxTable tb @ map message_row staged \<and>
           erasedTable tb' = erasedTable tb \<and> snapshotTable tb' = snapshotTable tb)"
  proof (cases "appendTransaction ok sn v es ms tb")
    case (Pair res tb')
    show ?thesis
    proof (cases res)
      case (Inl e)
      then show ?thesis using Pair appendTransaction_Inl by simp
    next
      case (Inr r)
      note whole = Pair [unfolded Inr appendTransaction_Inr_iff append_body_Inr [OF inv]]
      then obtain stored staged where w: "erased_row sn tb = None" "v = int (length (rows_of sn tb))"
        "events_stored es = Some stored" "messages_stored ms = Some staged" "tb' = written sn v stored staged tb"
        by blast
      have last: "lastVersion r = v + int (length es)" using whole by simp
      have seq: "eventsSequence tb = int (length (sql_feed tb))" using sql_invD(2) [OF inv] by (simp add: sql_feed_def)
      show ?thesis
        using Pair Inr sql_inv_written [OF inv w(1,2), of stored staged] w last
        by (simp add: sql_feed_written seq) (simp add: written_def)
    qed
  qed
  moreover have "(\<exists>r. fst (appendTransaction answering sn v es ms tb) = Inr r) \<longleftrightarrow>
      (\<exists>r tb'. appendTransaction answering sn v es ms tb = (Inr r, tb'))"
    by (metis fst_conv surjective_pairing)
  ultimately show ?thesis
    unfolding appendTransaction_Inr_iff append_body_Inr [OF inv] by auto
qed

theorem append_with_outbox_atomic_witness:
  "snd (appendTransaction answering ''user-1'' 0 [sql_event ''e1'' 1] [sql_message ''m1'', sql_message ''m1''] emptyTables) = emptyTables"
proof -
  have "\<not> (\<exists>r. fst (appendTransaction answering ''user-1'' 0 [sql_event ''e1'' 1] [sql_message ''m1'', sql_message ''m1''] emptyTables) = Inr r)"
    using append_with_outbox_atomic [OF sql_inv_empty, where ok = answering and sn = "''user-1''" and v = 0 and es = "[sql_event ''e1'' 1]" and ms = "[sql_message ''m1'', sql_message ''m1'']"]
    by simp
  then show ?thesis
    using append_with_outbox_atomic [OF sql_inv_empty, where ok = answering and sn = "''user-1''" and v = 0 and es = "[sql_event ''e1'' 1]" and ms = "[sql_message ''m1'', sql_message ''m1'']"]
    by (auto split: prod.splits sum.splits)
qed

text \<open>
  An erasure that has been recorded already changes nothing when it is repeated: unlike the in-memory adapter, it does not remove a
  snapshot that was saved in between.
\<close>

theorem repeated_erasure_keeps_snapshot:
  assumes "sql_inv tb" and "erased_row (reqStream request) tb \<noteq> None"
  shows "snd (eraseStream_sqlite answering request now tb) = tb"
  using assms erase_body_cases [OF assms(1), of request now]
  by (auto simp: eraseStream_sqlite_def withTransaction_def split: sum.splits)

text \<open>
  C38. Draining delivers everything from the SQL outbox too: with no interference and a transport that fails only with typed errors the
  relay's drain returns; every entry it could claim at its start ends published when one of its attempts within the budget
  succeeds and dead, with the full attempt count, otherwise; entries that were not pending are untouched.
\<close>

theorem sql_drain_settles:
  assumes "sql_outbox_ok st" and "\<forall>i. quiet (env i)" and "0 < getOr 32 batch" and "\<forall>i j. i \<le> j \<longrightarrow> now i \<le> now j"
  shows "\<exists>st'. drain sqlOutbox env now limit batch lease st = Some (Some (), st') \<and> sql_outbox_ok st' \<and>
    (\<forall>i e. sql_entry st i = Some e \<longrightarrow>
      (if sql_claimable st (now 0) i
       then \<exists>e' r. sql_entry st' i = Some e' \<and> settled_as (env r) (getOr 5 limit) e e'
       else entryStatus e \<noteq> Pending \<longrightarrow> sql_entry st' i = Some e))"
proof -
  from sql_outbox.drain_loop_quiet [where limit = limit and lease = "getOr 30000 lease" and i = 0 and env = env and now = now,
      OF assms(1) _ assms(3)] assms(2,4) obtain st' where
    run: "drain_loop sqlOutbox env now limit (getOr 32 batch) (getOr 30000 lease) 0 st = Some (Some (), st')" and
    ok: "sql_outbox_ok st'" and drained: "sql_outbox.drained env (getOr 5 limit) st st'" and
    all: "\<forall>j. sql_claimable st (now 0) j \<longrightarrow> sql_entry st' j \<noteq> sql_entry st j" by blast
  have "\<exists>e' r. sql_entry st' i = Some e' \<and> settled_as (env r) (getOr 5 limit) e e'"
    if "sql_entry st i = Some e" and "sql_claimable st (now 0) i" for i e
  proof -
    have "entryStatus e = Pending" using sql_outbox.claimable_pending [OF that(2)] that(1) by simp
    moreover have "sql_entry st' i \<noteq> sql_entry st i" using all that(2) by blast
    ultimately show ?thesis using sql_outbox.drained_settled [OF drained that(1)] by blast
  qed
  moreover have "sql_entry st' i = Some e" if "sql_entry st i = Some e" and "entryStatus e \<noteq> Pending" for i e
    using drained that unfolding sql_outbox.drained_def by (metis option.inject)
  ultimately show ?thesis using run ok by (simp add: drain_def)
qed

text \<open>A message that was appended with its event is delivered.\<close>

definition staged_outbox :: SqlOutboxState where
  "staged_outbox =
     \<lparr>outboxRows = outboxTable (snd (appendTransaction answering ''user-1'' 0 [sql_event ''e1'' 1] [sql_message ''m1''] emptyTables)),
      uuidSupply = show_nat, uuidsDrawn = 0\<rparr>"

definition delivering_env :: "SqlOutboxState relay_env" where
  "delivering_env =
     \<lparr>answer = (\<lambda>_ _. PublishOk), clock = (\<lambda>_. 0), delay = (\<lambda>_. 0), publishing = (\<lambda>_ w. w), settling = (\<lambda>_ w. w)\<rparr>"

lemma staged_outbox_rows: "outboxRows staged_outbox = [message_row (sql_message ''m1'')]"
  by (simp add: staged_outbox_def appendTransaction_def withTransaction_def append_body_def emptyTables_def erased_row_def
      currentVersion_def stream_max_def insertEvent_def insertMessage_def encodeJson_def sql_event_def sql_message_def
      metadata_stored_def members_stored_def message_row_def Let_def)

theorem sql_drain_settles_witness:
  "\<exists>st'. drain sqlOutbox (\<lambda>_. delivering_env) (\<lambda>_. 0) None None None staged_outbox = Some (Some (), st') \<and>
     map_option entryStatus (sql_entry st' ''m1'') = Some Published"
proof -
  have ok: "sql_outbox_ok staged_outbox"
    unfolding sql_outbox_ok_def staged_outbox_rows
    by (simp add: message_row_def staged_outbox_def inj_def)
  have env: "\<forall>i. quiet delivering_env" by (simp add: quiet_def delivering_env_def)
  have row: "sql_entry staged_outbox ''m1'' = Some (decodeEntry (message_row (sql_message ''m1'')))"
    and can: "sql_claimable staged_outbox 0 ''m1''"
    by (simp_all add: sql_entry_def sql_claimable_def row_at_def staged_outbox_rows message_row_def sql_message_def due_row_def)
  have pos: "0 < getOr 32 (None :: int option)" by simp
  have mono: "\<forall>i j. i \<le> j \<longrightarrow> (\<lambda>_ :: nat. 0 :: rat) i \<le> (\<lambda>_. 0) j" by simp
  obtain st' where run: "drain sqlOutbox (\<lambda>_. delivering_env) (\<lambda>_. 0) None None None staged_outbox = Some (Some (), st')"
    and each: "\<forall>i e. sql_entry staged_outbox i = Some e \<longrightarrow>
      (if sql_claimable staged_outbox 0 i
       then \<exists>e'. \<exists>r :: nat. sql_entry st' i = Some e' \<and> settled_as ((\<lambda>_. delivering_env) r) (getOr 5 None) e e'
       else entryStatus e \<noteq> Pending \<longrightarrow> sql_entry st' i = Some e)"
    using sql_drain_settles [OF ok env pos mono, of None None] by blast
  from each [rule_format, OF row] can obtain e' where e': "sql_entry st' ''m1'' = Some e'"
    and "settled_as delivering_env 5 (decodeEntry (message_row (sql_message ''m1''))) e'"
    by auto
  moreover have "\<exists>k. entryAttempts (decodeEntry (message_row (sql_message ''m1''))) \<le> k \<and> k < 5 \<and>
      answer delivering_env (decodeEntry (message_row (sql_message ''m1''))) k = PublishOk"
    by (intro exI [of _ 0]) (simp add: delivering_env_def decodeEntry_def message_row_def)
  ultimately have "entryStatus e' = Published" by (simp add: settled_as_def)
  with run e' show ?thesis by simp
qed

subsection \<open>PostgreSQL\<close>

text \<open>
  C35. However appends and erasures are interleaved statement by statement, by any number of connections and with any statements
  failing, as long as no import runs: the replies, in the order in which they are given and without those that report a fault or a
  value that cannot be encoded, are the answers the in-memory store gives to the same calls one after the other, and the committed
  tables hold the history that store has at the end, up to gaps in the positions.
\<close>

theorem pg_linearizable:
  assumes "list_all no_import acts"
  shows "let s = pg_run env acts emptyPg in
    call_answers memory_call (map fst (settled_calls s)) (emptyStore, []) = map snd (settled_calls s) \<and>
    (\<exists>st. after_calls (map fst (settled_calls s)) (emptyStore, []) = (st, []) \<and>
       map unplaced (sql_feed (db s)) = map unplaced (allEvents st) \<and>
       (\<forall>sn. map_option ledger_entry (erased_row sn (db s)) = jsget (erased st) sn))"
proof -
  have "linear (pg_run env acts emptyPg)"
    using run_sound [OF pg_inv_empty linear_empty assms] by (simp add: sound_step_def)
  then show ?thesis unfolding linear_def Let_def shadows_def by metis
qed

definition plain_env :: PgEnv where
  "plain_env = \<lparr>hashtext = (\<lambda>s. int (length s)), pgSha256 = (\<lambda>_. ''h''), pgDecodeMetadata = Some, pgDecoder = (\<lambda>_. Inr ())\<rparr>"

lemma plain_env_simps [simp]:
  "hashtext plain_env sn = int (length sn)" "pgSha256 plain_env = (\<lambda>_. ''h'')" "pgDecodeMetadata plain_env = Some"
  "pgDecoder plain_env = (\<lambda>_. Inr ())"
  by (simp_all add: plain_env_def)

text \<open>Two appends that both expect version 0, interleaved.\<close>

definition racing_appends :: "PgAction list" where
  "racing_appends =
     [Start 1 (CallAppend ''user-1'' 0 [sql_event ''e1'' 1] []), Start 2 (CallAppend ''user-1'' 0 [sql_event ''e2'' 1] []),
      Advance 1, Advance 2, Advance 1, Advance 1, Advance 1, Advance 2, Advance 1, Advance 1, Advance 1, Advance 2, Advance 2, Advance 2]"

lemma sequence_all_single [simp]: "events_stored [sql_event i v] = Some [sql_event i v]"
  by (simp add: events_stored_def)

lemmas pg_eval =
  emptyPg_def emptyTables_def move_def finish_def other_txs_def erased_row_def stream_max_def append_insert_def
  draw_position_def duplicates_def pg_row_def append_result_def settled_calls_def version_conflict_def append_conflict_def
  positions_def Let_def

lemma racing_appends_run:
  "settled_calls (pg_run plain_env racing_appends emptyPg) =
     [(AppendCall ''user-1'' 0 [sql_event ''e1'' 1], AppendAnswer (Inr \<lparr>firstVersion = 1, lastVersion = 1\<rparr>)),
      (AppendCall ''user-1'' 0 [sql_event ''e2'' 1], AppendAnswer (Inl (append_conflict ''user-1'' 0 1)))]"
  by (simp add: racing_appends_def pg_eval split: prod.splits)

theorem pg_linearizable_witness:
  "call_answers memory_call [AppendCall ''user-1'' 0 [sql_event ''e1'' 1], AppendCall ''user-1'' 0 [sql_event ''e2'' 1]] (emptyStore, []) =
     [AppendAnswer (Inr \<lparr>firstVersion = 1, lastVersion = 1\<rparr>), AppendAnswer (Inl (append_conflict ''user-1'' 0 1))]"
proof -
  have "list_all no_import racing_appends" by (simp add: racing_appends_def)
  from pg_linearizable [OF this, of plain_env] show ?thesis by (simp add: racing_appends_run Let_def)
qed

text \<open>
  C36. As long as no import runs, positions become visible in their order: whatever a reader has seen committed at some moment, every
  position that is committed later is larger. So a projection that has handled everything up to a position misses nothing below it.
\<close>

theorem pg_positions_in_order:
  assumes "list_all no_import acts" and "list_all no_import later"
  shows "let before = positions (pg_run env acts emptyPg); after = positions (pg_run env (acts @ later) emptyPg) in
    set before \<subseteq> set after \<and> (\<forall>p q. q \<in> set before \<and> p \<in> set after - set before \<longrightarrow> q < p)"
proof -
  let ?s = "pg_run env acts emptyPg"
  have "sound_step env emptyPg ?s" by (rule run_sound [OF pg_inv_empty linear_empty assms(1)])
  then have s: "pg_inv env ?s" "linear ?s" by (auto simp: sound_step_def)
  have split: "pg_run env (acts @ later) emptyPg = pg_run env later ?s" by (simp add: pg_run_def)
  have step: "sound_step env ?s (pg_run env later ?s)" by (rule run_sound [OF s assms(2)])
  then obtain new where new: "positions (pg_run env later ?s) = positions ?s @ new" by (auto simp: sound_step_def)
  have "sorted_wrt (<) (positions (pg_run env later ?s))"
    using step pg_invD(1) by (auto simp: sound_step_def db_ok_def positions_def)
  then show ?thesis by (auto simp: split new sorted_wrt_append Let_def)
qed

text \<open>An append to each of two streams: the second waits for the first to commit before it draws its position.\<close>

definition first_append :: "PgAction list" where
  "first_append =
     [Start 1 (CallAppend ''user-1'' 0 [sql_event ''e1'' 1] []), Start 2 (CallAppend ''account-1'' 0 [sql_event ''e2'' 1] []),
      Advance 1, Advance 2, Advance 1, Advance 2, Advance 1, Advance 2, Advance 1, Advance 2, Advance 1, Advance 1, Advance 1]"

definition second_append :: "PgAction list" where
  "second_append = [Advance 2, Advance 2, Advance 2, Advance 2]"

theorem pg_positions_in_order_witness:
  "positions (pg_run plain_env (first_append @ second_append) emptyPg) = [1, 2] \<and>
   1 \<in> set (positions (pg_run plain_env first_append emptyPg)) \<and>
   1 \<in> set (positions (pg_run plain_env (first_append @ second_append) emptyPg))"
proof -
  have acts: "list_all no_import first_append" "list_all no_import second_append"
    by (simp_all add: first_append_def second_append_def)
  have "positions (pg_run plain_env first_append emptyPg) = [1]" by (simp add: first_append_def pg_eval)
  moreover have "positions (pg_run plain_env (first_append @ second_append) emptyPg) = [1, 2]"
    by (simp add: first_append_def second_append_def pg_eval)
  ultimately show ?thesis using pg_positions_in_order [OF acts, of plain_env] by (simp add: Let_def)
qed

subsection \<open>Every transaction ends\<close>

















end
