(* ===== verification/Spec2Isabelle.thy ===== *)
theory Spec2Isabelle
  imports Samples AuthProperties JobProperties SqlProperties
begin

text \<open>
  A model of the core of the Structure framework, a set of TypeScript packages over the Effect library: event sourcing
  (\<open>packages/domain\<close>, \<open>packages/eventsourcing\<close> and its SQL adapters), commands (\<open>packages/cqrs\<close>), authorization
  (\<open>packages/authorization\<close>), authentication (\<open>packages/auth\<close>), background jobs (\<open>packages/jobs\<close>) and the rate limiter of
  \<open>packages/http\<close>. This theory holds the properties that span components; \<open>AuthProperties\<close>, \<open>JobProperties\<close>,
  \<open>SqlProperties\<close> and the theories named below hold those of one package.

  \<^bold>\<open>How the program is modelled.\<close> A service method is a function from its arguments and the state of its adapter to a
  result and the new state. A typed failure is \<open>Inl\<close>, a success \<open>Inr\<close>; where the code distinguishes a defect (a thrown
  exception) from a failure, the error type has a constructor for it. A JavaScript \<open>Map\<close> is a \<open>jsmap\<close>, an association list in
  insertion order (\<open>Prelude\<close>). \<open>unknown\<close> values are \<open>json\<close> (\<open>Json\<close>), with integers for numbers. Times are integer or rational
  milliseconds. What is read from outside (the clock, random bytes, a schema's decoder, SHA-256, HMAC, AES-GCM, Argon2, the
  time-zone formatter, a transport, other fibers) is an argument of the definitions that use it; what the code relies on is a
  named hypothesis of the theorem that needs it, and its witness instantiates the argument. One fiber runs between two awaits, so
  the critical section of an in-memory adapter is one function; where an operation awaits between two accesses to shared state,
  the calls other fibers make there are an argument (\<open>AggregateStore\<close>, \<open>AuthWorld\<close>) or the operation is a step relation
  (\<open>Bus\<close>, \<open>JobSystem\<close>, \<open>PgStore\<close>).

  \<^bold>\<open>Event sourcing.\<close>
  \<^item> \<open>Domain\<close>: \<open>Aggregate.ts\<close>, \<open>DomainEvent.ts\<close>, \<open>EntityId.ts\<close>, \<open>errors.ts\<close> of \<open>packages/domain\<close>: deciders, the event envelope
    and its metadata, branded identifiers, the error taxonomy and its classes.
  \<^item> \<open>EventStore\<close>: the port of \<open>EventStore.ts\<close> and its adapter in \<open>memory.ts\<close>. The locale \<open>event_store\<close> is the port's contract;
    it is interpreted on the in-memory store and on the world of \<open>InMemoryAll\<close>. \<open>store_inv\<close> is the invariant.
    \<open>Stores\<close> has the snapshot and checkpoint stores under the locale \<open>keyed_store\<close>.
  \<^item> \<open>StreamErasure\<close>, \<open>HistoryImport\<close>: the two operations outside the port, with the canonical JSON text of \<open>Json\<close> as the
    checksum's input. \<open>Codec\<close>: the event registry. \<open>AggregateStore\<close>: load, execute and the retrying execute, whose lemmas are
    proved in locales that extend \<open>event_store\<close>. \<open>Projection\<close>: catching up and rebuilding; the loop is a
    \<open>partial_function\<close> and \<open>catchup_complete\<close> shows that it returns.
  \<^item> \<open>Outbox\<close>: the in-memory outbox and inbox with their invariant; \<open>Relay\<close>, with the locale \<open>outbox_service\<close>: \<open>publishEntry\<close>
    and \<open>drain\<close> of \<open>Outbox.ts\<close> over any outbox that keeps this contract; the drain loop is a \<open>partial_function\<close> too.
  \<^item> \<open>Memory\<close>: all adapters of \<open>memory.ts\<close> in one world and the worlds reachable by any calls.

  \<^bold>\<open>The SQL adapters of event sourcing.\<close>
  \<^item> \<open>SqliteStore\<close>: \<open>EventStore.ts\<close>, \<open>SnapshotStore.ts\<close>, \<open>CheckpointStore.ts\<close> of \<open>packages/eventsourcing-sqlite\<close> over tables as
    lists of rows in rowid order. Every statement asks an argument whether the database answers it, so each one can fail, and
    \<open>withTransaction\<close> rolls back. \<open>SqliteProofs\<close>: the outcomes of every operation under \<open>sql_inv\<close>, the locale
    \<open>durable_event_store\<close>, which the port's contract \<open>event_store\<close> gives too (\<open>sublocale\<close>), and the simulation
    \<open>mirrors\<close> of the in-memory adapters.
  \<^item> \<open>PgStore\<close>: append, erasure and import of \<open>packages/eventsourcing-pg/src/EventStore.ts\<close> as transactions that advance a
    statement at a time, any number of them interleaved, with the stream's advisory lock, the lock that orders commits, the locks
    of rows and of the events table, the unique keys and the sequence of positions. A transaction that would wait has no step.
    \<open>PgProofs\<close>: its invariant and the order in which the transactions take effect.
  \<^item> \<open>SqlOutbox\<close>: the SQLite outbox and inbox; the outbox is another interpretation of \<open>outbox_service\<close>. \<open>SqlProperties\<close>.

  \<^bold>\<open>Commands and authorization.\<close>
  \<^item> \<open>Authorization\<close>, \<open>Policy\<close>, \<open>PolicyProofs\<close>, \<open>AuthorizationService\<close>: \<open>packages/authorization\<close>. \<open>Policy\<close> has the
    validation with every issue it reports, the resolution of roles and decisions; the declarative relation \<open>holds\<close> is the
    specification they refine. The cycle search and the resolution recurse under \<open>depth_bound\<close>, the number of declared roles;
    \<open>PolicyProofs\<close> shows that it suffices. Decisions keep the locale \<open>decision_contract\<close>.
  \<^item> \<open>Bus\<close>: \<open>packages/cqrs\<close>: the registry, the dispatch pipeline and the idempotency protocol, over any store that keeps the
    locale \<open>idempotency_store\<close>, interpreted on the in-memory one; dispatches interleave as a step relation.
  \<^item> \<open>RateLimit\<close>: \<open>packages/http/src/rateLimit.ts\<close>: the sliding-window store under the locale \<open>budget_store\<close> and the middleware.

  \<^bold>\<open>Authentication.\<close>
  \<^item> \<open>AuthModel\<close> (\<open>model.ts\<close>, \<open>errors.ts\<close>), \<open>AuthStore\<close> (\<open>store.ts\<close>: every operation of the in-memory store and its invariant).
  \<^item> \<open>Bytes\<close>, \<open>Totp\<close> (\<open>totp.ts\<close>, on 8-bit and 32-bit words), \<open>Sealing\<close> (\<open>sealing.ts\<close> and the base64url of \<open>crypto.ts\<close>),
    \<open>SessionSlots\<close> (\<open>session-slots.ts\<close>).
  \<^item> \<open>AuthWorld\<close>: the environment and the world a service runs in: the store, the log of calls, mails and audit events, and before
    each store call the calls other requests make. \<open>Accounts\<close> (\<open>service.ts\<close>) and \<open>TwoFactor\<close> (\<open>twofactor.ts\<close>) are the services;
    \<open>AccountProofs\<close> and \<open>TwoFactorProofs\<close> follow their effects; \<open>AuthSamples\<close> is concrete data. A recovery code is spent in at
    most three attempts, the bound of the code.

  \<^bold>\<open>Jobs.\<close>
  \<^item> \<open>Cron\<close>: \<open>cron.ts\<close>: parsing, description and the next fire time, searched over 401 local days as in the code; the locale
    \<open>fixed_zone\<close> states what the platform's formatter answers in a zone at a fixed offset.
  \<^item> \<open>Scheduler\<close>: \<open>scheduler.ts\<close>, \<open>schema.ts\<close>, \<open>readiness.ts\<close> and \<open>layer.ts\<close>: the SQL statements as functions on the table,
    the worker's turn, its outcomes, the drain and the supervision. \<open>JobSystem\<close>: any number of processes and workers interleaved,
    as an inductive step relation. \<open>JobProofs\<close>: its invariant and the fate of a job; runs of concrete workers are executable.

  \<open>Samples\<close> holds the concrete data of the witnesses.

  \<^bold>\<open>What the lemmas show.\<close> For each component: that every operation keeps the invariant of its state (\<open>store_inv\<close>, \<open>outbox_ok\<close>,
  \<open>auth_inv\<close> and the invariants of the bus, the limiter and the queue), what each operation returns on every branch, and that the
  composed services meet an abstract contract: an aggregate's command takes effect at one point of the history, a projection
  handles every event once, an outbox message is delivered or buried, a decision is the declared grant relation, a token is spent
  once, a job is not lost, concurrent SQL transactions have the outcomes of the in-memory store. Several theorems state behaviour that departs from the comments; the findings of the manifest name them.

  \<^bold>\<open>Not modelled.\<close> Fibers, layers, schedules, streams and metrics of the Effect library beyond what is said above; live change
  streams (their notification counter is there); the daemons that only repeat a modelled step for ever (\<open>Projection.run\<close>,
  \<open>OutboxRelay.run\<close>); the wire protocols and bindings (HTTP server, OAuth, OIDC and WebAuthn endpoints, SMTP, S3, gRPC, MCP, CLI),
  which are calls into third-party libraries; code that builds SQL text from schemas (\<open>viewmodel\<close>,
  \<open>migrations\<close>). Of the SQL adapters: the schema migrations, the change stream fed by NOTIFY, and the stores of
  \<open>eventsourcing-pg\<close> other than the event store, whose statements are close to the SQLite ones.
\<close>

section \<open>The event store\<close>

text \<open>
  C1. In every world the in-memory adapters can reach from the empty one, by any sequence of
  appends, history imports, stream erasures and snapshot and checkpoint saves, the global feed is
  numbered 1, 2, 3, \<dots> without a gap, every stream is the feed restricted to its name and is itself
  numbered from 1, an erased stream is pinned at its length and consists of tombstones only.
\<close>

theorem reachable_store_ok: "reachable w \<Longrightarrow> store_inv (es w) \<and> only_tombstones (es w)"
  using reachable_ok by (auto simp: store_ok_def)

theorem reachable_store_ok_witness:
  "reachable sample_world \<and> length (world_feed sample_world) = 2 \<and> store_inv (es sample_world)"
  using reachable_store_ok [OF reachable_sample] reachable_sample
  by (simp add: sample_world_es sample_stored_def)

text \<open>
  C2. Every call of \<open>append\<close> on a well-formed store: it is rejected, without a change, exactly when
  the stream is erased or its length differs from the expected version, and the conflict then
  carries the stream's actual version; otherwise the events, and only they, are added to the feed
  and to their stream, at the next positions and versions, and the result names these versions.
\<close>

theorem append_exact:
  assumes "store_inv st"
  shows "case append_mem sn v events st of
      (Inl failure, st') \<Rightarrow>
        (jsget (erased st) sn \<noteq> None \<or> v \<noteq> int (length (streamOf st sn))) \<and> st' = st \<and>
        failure = append_conflict sn v (int (length (streamOf st sn)))
    | (Inr r, st') \<Rightarrow>
        jsget (erased st) sn = None \<and> v = int (length (streamOf st sn)) \<and> erased st' = erased st \<and>
        lastVersion r = v + int (length events) \<and> (events \<noteq> [] \<longrightarrow> firstVersion r = v + 1) \<and>
        allEvents st' = allEvents st @ storeEvents (int (length (allEvents st))) sn v events \<and>
        (\<forall>n. streamOf st' n = streamOf st n @
           (if n = sn then storeEvents (int (length (allEvents st))) sn v events else []))"
proof (cases "jsget (erased st) sn = None \<and> v = int (length (streamOf st sn))")
  case True
  then show ?thesis by (auto simp: append_mem_accepts store_simps)
next
  case False
  then show ?thesis
    using store_invD(4) [OF assms, of sn] by (auto simp: append_mem_def Let_def split: option.splits)
qed

theorem append_exact_witness:
  "fst (append_mem ''counter-a'' 1 [added ''e3'' 2 1] (es sample_world)) =
     Inl (DomainFailure (ConcurrencyConflict ''counter'' ''a'' 1 2))"
  using append_exact [OF store_inv_sample, of "''counter-a''" 1 "[added ''e3'' 2 1]"]
  by (auto simp: streamOf_sample append_conflict_def conflictIdentity_def split: prod.splits sum.splits)

section \<open>Erasing a stream\<close>

definition differ_only_in :: "string \<Rightarrow> StoredEvent \<Rightarrow> StoredEvent \<Rightarrow> bool" where
  "differ_only_in sn a b \<longleftrightarrow> position a = position b \<and> streamName a = streamName b \<and> version a = version b \<and>
     (streamName a \<noteq> sn \<longrightarrow> a = b)"

text \<open>
  C3. Erasure forgets: take two reachable worlds whose feeds differ at most in the type, payload and
  metadata of the events of one stream. When that stream is erased in both, at the same time, for
  the first time, their feeds are equal afterwards, and neither keeps a snapshot of the stream: no
  content of an erased event can be recovered from the store.
\<close>

theorem erasure_forgets:
  assumes "reachable a" and "reachable b"
    and "list_all2 (differ_only_in (reqStream request)) (world_feed a) (world_feed b)"
    and "jsget (erased (es a)) (reqStream request) = None" and "jsget (erased (es b)) (reqStream request) = None"
    and "eraseStream_world request now a = (Inr ra, a')" and "eraseStream_world request now b = (Inr rb, b')"
  shows "world_feed a' = world_feed b' \<and> ra = rb \<and>
    load_snapshot (reqStream request) (snaps a') = None \<and> load_snapshot (reqStream request) (snaps b') = None"
proof -
  let ?sn = "reqStream request"
  have inv: "store_inv (es a)" "store_inv (es b)" using assms(1,2) reachable_ok by (auto simp: store_ok_def)
  note ea = eraseStream_world_Inr [OF assms(6)] and eb = eraseStream_world_Inr [OF assms(7)]
  note fa = erase_state_first_inv [OF inv(1) assms(4) ea(2)] and fb = erase_state_first_inv [OF inv(2) assms(5) eb(2)]
  have one: "(if streamName x = ?sn then entomb ?sn now x else x) = (if streamName y = ?sn then entomb ?sn now y else y)"
    if "differ_only_in ?sn x y" for x y
  proof (cases "streamName x = ?sn")
    case True
    moreover have "entomb ?sn now x = entomb ?sn now y"
      using that unfolding differ_only_in_def by (intro entomb_erases) blast+
    moreover have "streamName y = streamName x" using that unfolding differ_only_in_def by metis
    ultimately show ?thesis by metis
  next
    case False
    with that have "x = y" unfolding differ_only_in_def by blast
    then show ?thesis by (rule arg_cong)
  qed
  have "entomb_stream ?sn now (world_feed a) = entomb_stream ?sn now (world_feed b)"
    unfolding entomb_stream_def using assms(3)
    by (induction rule: list_all2_induct) (simp_all only: list.map one)
  then show ?thesis using fa fb ea(3) eb(3) by (simp add: store_simps)
qed

theorem erasure_forgets_witness:
  "world_feed (snd (eraseStream_world sample_erasure ''now'' sample_world)) =
   world_feed (snd (eraseStream_world sample_erasure ''now'' sample_world_secret))"
proof -
  have "list_all2 (differ_only_in (reqStream sample_erasure)) (world_feed sample_world) (world_feed sample_world_secret)"
    by (simp add: sample_world_es sample_world_secret_es sample_stored_def sample_stored_secret_def storeEvents_def
        differ_only_in_def sample_erasure_def)
  moreover have "jsget (erased (es sample_world)) (reqStream sample_erasure) = None"
    and "jsget (erased (es sample_world_secret)) (reqStream sample_erasure) = None"
    by (simp_all add: sample_world_es sample_world_secret_es emptyStore_def)
  ultimately show ?thesis
    using erasure_forgets [OF reachable_sample reachable_sample_secret _ _ _ erase_sample erase_sample_secret]
    by (simp add: erase_sample)
qed

text \<open>
  An accepted erasure keeps the shape of the history: every event keeps its position, stream and
  version, the other streams and their snapshots keep everything, and each event of the erased stream becomes
  the tombstone of its version.
\<close>

theorem erasure_keeps_shape:
  assumes "reachable w" and "jsget (erased (es w)) (reqStream request) = None"
    and "eraseStream_world request now w = (Inr r, w')"
  shows "map (\<lambda>e. (position e, streamName e, version e)) (world_feed w') =
      map (\<lambda>e. (position e, streamName e, version e)) (world_feed w)
    \<and> (\<forall>n. n \<noteq> reqStream request \<longrightarrow> stream_in (world_feed w') n = stream_in (world_feed w) n
          \<and> load_snapshot n (snaps w') = load_snapshot n (snaps w))
    \<and> map AppendEvent.truncate (stream_in (world_feed w') (reqStream request)) =
      map (\<lambda>v. erasedTombstone (reqStream request) v now) (map version (stream_in (world_feed w) (reqStream request)))
    \<and> erasedEvents r = int (length (stream_in (world_feed w) (reqStream request)))"
proof -
  have inv: "store_inv (es w)" using assms(1) reachable_ok by (auto simp: store_ok_def)
  note e = eraseStream_world_Inr [OF assms(3)]
  note f = erase_state_first_inv [OF inv assms(2) e(2)]
  have "AppendEvent.truncate (entomb sn now x) = erasedTombstone sn (version x) now" for sn x
    by (simp add: entomb_def AppendEvent.defs StoredEvent.defs)
  then show ?thesis
    using f e(3) store_invD(2) [OF inv]
    by (simp add: store_simps stream_in_entomb_stream entomb_stream_shape comp_def)
qed

theorem erasure_keeps_shape_witness:
  "map AppendEvent.truncate (world_feed sample_erased_world) =
     [erasedTombstone ''counter-a'' 1 ''now'', erasedTombstone ''counter-a'' 2 ''now'']"
proof -
  have none: "jsget (erased (es sample_world)) (reqStream sample_erasure) = None"
    by (simp add: sample_world_es emptyStore_def)
  have all: "stream_in (world_feed sample_world) ''counter-a'' = sample_stored"
    "stream_in (world_feed sample_erased_world) ''counter-a'' = world_feed sample_erased_world"
    by (auto simp: sample_world_es es_sample_erased store_simps entomb_stream_def sample_stored_def storeEvents_def
        sample_erasure_def)
  then show ?thesis
    using erasure_keeps_shape [OF reachable_sample none erase_sample]
    by (simp add: sample_erasure_def) (simp add: sample_stored_def storeEvents_def)
qed

text \<open>
  An erased stream is pinned for ever: whatever happens to the world later, its events stay the
  tombstones they are, every append to it fails with a conflict that names the version it was erased
  at, and an erasure that repeats that version reports the recorded time and reason, erases nothing
  and leaves the store as it is.
\<close>

theorem erased_is_final:
  assumes "reachable w" and "jsget (erased (es w)) sn = Some rec" and "world_steps w w'"
  shows "stream_in (world_feed w') sn = stream_in (world_feed w) sn
    \<and> append_mem sn v events (es w') = (Inl (append_conflict sn v (erasedVersion rec)), es w')
    \<and> erase_state \<lparr>reqStream = sn, reqVersion = erasedVersion rec, reqReason = why\<rparr> now (es w') =
        (Inr \<lparr>erasedEvents = 0, pinnedVersion = erasedVersion rec, resultErasedAt = erasedAt rec,
              resultReason = erasedReason rec\<rparr>, es w')"
  using steps_pinned [OF assms(3,1,2)] by (simp add: append_mem_def erase_state_def)

theorem erased_is_final_witness:
  "append_mem ''counter-a'' 2 [added ''e3'' 3 1] (es sample_erased_world) =
     (Inl (append_conflict ''counter-a'' 2 2), es sample_erased_world)"
proof -
  have "jsget (erased (es sample_erased_world)) ''counter-a'' =
      Some \<lparr>erasedVersion = 2, erasedAt = ''now'', erasedReason = ''gdpr''\<rparr>"
    by (simp add: es_sample_erased store_simps sample_erasure_def streamOf_sample)
  from erased_is_final [OF reachable_sample_erased this world_steps.stay] show ?thesis by simp
qed

section \<open>Importing a history\<close>

text \<open>
  C4. A batch is imported whole or not at all. When the import succeeds with status \<open>Imported\<close>, the
  events of the batch, exactly as given, follow the previous feed, every stream continues with its
  events of the batch, the numbering of feed and streams stays gap-free, and the result counts the
  events; any failure, and an \<open>Unchanged\<close> result, leaves the store as it was.
\<close>

theorem import_all_or_nothing:
  assumes "store_inv st"
  shows "case importBatch sha256Hex decodeMetadata decoder batch st of
      (Inl failure, st') \<Rightarrow> st' = st
    | (Inr r, st') \<Rightarrow>
        (case status r of
           Unchanged \<Rightarrow> st' = st
         | Imported \<Rightarrow> allEvents st' = allEvents st @ batchEvents batch \<and> store_inv st' \<and> erased st = []
             \<and> (\<forall>sn. streamOf st' sn = streamOf st sn @ stream_in (batchEvents batch) sn)
             \<and> importedCount r = int (length (batchEvents batch))
             \<and> checksum sha256Hex (batchEvents batch) = batchChecksum batch)"
proof (cases rule: importBatch_cases [of sha256Hex decodeMetadata decoder batch st])
  case (failed e)
  then show ?thesis by simp
next
  case (critical ids)
  let ?le = "last (batchEvents batch)"
  let ?tok = "historyImportResumeToken sha256Hex batch (position ?le)"
  have sum: "checksum sha256Hex (batchEvents batch) = batchChecksum batch"
    using critical(1) by (auto simp: prepareHistoryImportBatch_def split: if_splits)
  show ?thesis
  proof (cases rule: import_state_cases [of batch ?tok ?le st])
    case committed
    with critical(3) sum store_inv_commit_batch [OF assms committed(1,4)] show ?thesis
      by (simp add: store_simps)
  qed (use critical in \<open>simp_all\<close>)
qed

theorem import_all_or_nothing_witness:
  "allEvents (snd (importBatch sample_sha Some accept_all sample_batch emptyStore)) = sample_stored"
  using import_all_or_nothing [OF store_inv_empty, of sample_batch sample_sha Some accept_all]
  by (simp add: import_sample) (simp add: sample_imported_def store_simps emptyStore_def sample_batch_def)

text \<open>
  A retried batch is harmless: after a successful import of a batch, importing the same batch
  again succeeds with status \<open>Unchanged\<close>, the same resume token, position, count and completion,
  and the same store.
\<close>

theorem import_retry:
  assumes "importBatch sha256Hex decodeMetadata decoder batch st = (Inr r, st')"
  shows "importBatch sha256Hex decodeMetadata decoder batch st' = (Inr (r\<lparr>status := Unchanged\<rparr>), st')"
proof (cases rule: importBatch_cases [of sha256Hex decodeMetadata decoder batch st])
  case (failed e)
  with assms show ?thesis by simp
next
  case (critical ids)
  let ?le = "last (batchEvents batch)"
  let ?tok = "historyImportResumeToken sha256Hex batch (position ?le)"
  have again: "importBatch sha256Hex decodeMetadata decoder batch st' =
      map_prod (map_sum HistoryFailure id) id (import_state batch ?tok ?le st')"
    using critical(1,2) by (cases rule: importBatch_cases [of sha256Hex decodeMetadata decoder batch st'])
      (auto simp: importBatch_def Let_def map_prod_def split: prod.splits)
  show ?thesis
  proof (cases rule: import_state_cases [of batch ?tok ?le st])
    case (failed e)
    with critical(3) assms show ?thesis by simp
  next
    case (repeated rec)
    with critical(3) assms have "st' = st" and "r = recResult rec\<lparr>status := Unchanged\<rparr>" by auto
    with repeated again show ?thesis by simp
  next
    case committed
    with critical(3) assms have st': "st' = snd (commit_batch batch ?tok ?le st)"
      and r: "r = fst (commit_batch batch ?tok ?le st)" by auto
    show ?thesis unfolding again unfolding st' r using committed(1) by (simp add: import_state_def store_simps)
  qed
qed

theorem import_retry_witness:
  "fst (importBatch sample_sha Some accept_all sample_batch (snd sample_imported)) =
     Inr ((fst sample_imported)\<lparr>status := Unchanged\<rparr>)"
  using import_retry [OF import_sample] by simp

definition reordered :: "StoredEvent \<Rightarrow> StoredEvent \<Rightarrow> bool" where
  "reordered a b \<longleftrightarrow>
     (\<exists>kvs kvs'. mset kvs = mset kvs' \<and> distinct (map fst kvs) \<and> payload a = JObj kvs \<and> b = a\<lparr>payload := JObj kvs'\<rparr>)"

text \<open>
  The checksum of a history does not depend on the order in which a payload object lists its
  members: re-serialising the payloads with their members in another order gives the same checksum.
\<close>

theorem checksum_ignores_member_order:
  assumes "list_all2 reordered xs ys"
  shows "checksum sha256Hex xs = checksum sha256Hex ys"
proof -
  have "canonical (event_json a) = canonical (event_json b)" if "reordered a b" for a b
  proof -
    from that obtain kvs kvs' where kvs: "mset kvs = mset kvs'" "distinct (map fst kvs)" "payload a = JObj kvs"
      and b: "b = a\<lparr>payload := JObj kvs'\<rparr>" unfolding reordered_def by blast
    from canonical_perm [OF kvs(1,2)] have "canonical (payload a) = canonical (payload b)" by (simp add: kvs(3) b)
    then show ?thesis unfolding event_json_def by (intro canonical_JObj_cong) (simp add: b del: canonical.simps(2))
  qed
  with assms have "map canonical (map event_json xs) = map canonical (map event_json ys)"
    by (induction rule: list_all2_induct) auto
  then have "canonical (JArr (map event_json xs)) = canonical (JArr (map event_json ys))" by simp
  then show ?thesis by (simp only: checksum_def stableJson_def)
qed

theorem checksum_ignores_member_order_witness:
  "checksum sample_sha [(hd sample_stored)\<lparr>payload := JObj [(''a'', JNum 1), (''b'', JNum 2)]\<rparr>] =
   checksum sample_sha [(hd sample_stored)\<lparr>payload := JObj [(''b'', JNum 2), (''a'', JNum 1)]\<rparr>]"
proof (rule checksum_ignores_member_order)
  have "reordered (e\<lparr>payload := JObj [x, y]\<rparr>) (e\<lparr>payload := JObj [y, x]\<rparr>)" if "fst x \<noteq> fst y" for e x y
    unfolding reordered_def using that by (intro exI [of _ "[x, y]"] exI [of _ "[y, x]"]) simp
  then show "list_all2 reordered [(hd sample_stored)\<lparr>payload := JObj [(''a'', JNum 1), (''b'', JNum 2)]\<rparr>]
      [(hd sample_stored)\<lparr>payload := JObj [(''b'', JNum 2), (''a'', JNum 1)]\<rparr>]"
    by simp
qed

section \<open>Event codec\<close>



text \<open>
  A stored event of an older schema version reaches the current one through exactly the
  upcasters from its version on, each applied once and in order; when one of them is not registered,
  or the stored version is newer than the registered one, decoding fails.
\<close>

theorem decode_upcasts:
  assumes "jsget reg (etype stored) = Some entry"
  shows "((\<forall>i < length fs. jsget (upcasters entry) (schemaVersion stored + int i) = Some (fs ! i)) \<and>
      entryVersion entry = schemaVersion stored + int (length fs) \<longrightarrow>
      (decode reg stored = Inr event \<longleftrightarrow>
        (\<exists>p. upcast_chain fs (payload stored) = Inr p \<and> decodeUnknown entry p = Inr event)))
    \<and> (schemaVersion stored \<le> v \<and> v < entryVersion entry \<and> jsget (upcasters entry) v = None \<longrightarrow>
      decode reg stored \<noteq> Inr event)
    \<and> (entryVersion entry < schemaVersion stored \<longrightarrow> decode reg stored \<noteq> Inr event)"
proof (intro conjI impI; (elim conjE)?)
  assume fs: "\<forall>i < length fs. jsget (upcasters entry) (schemaVersion stored + int i) = Some (fs ! i)"
    and ver: "entryVersion entry = schemaVersion stored + int (length fs)"
  have "upcast_loop (upcasters entry) (schemaVersion stored) (entryVersion entry) (payload stored) = Inr p
      \<longleftrightarrow> upcast_chain fs (payload stored) = Inr p" for p
    unfolding ver by (rule upcast_loop_chain) (use fs in blast)
  then show "decode reg stored = Inr event \<longleftrightarrow>
      (\<exists>p. upcast_chain fs (payload stored) = Inr p \<and> decodeUnknown entry p = Inr event)"
    using assms ver by (simp add: decode_def split: sum.splits) force
next
  assume "schemaVersion stored \<le> v" and "v < entryVersion entry" and "jsget (upcasters entry) v = None"
  from upcast_loop_missing [OF this, of "payload stored"] assms show "decode reg stored \<noteq> Inr event"
    by (auto simp: decode_def)
qed (use assms in \<open>simp add: decode_def\<close>)

theorem decode_upcasts_witness:
  "decode counter_registry \<lparr>etype = ''Added'', schemaVersion = 1, payload = JNum 5\<rparr> = Inr 5"
  using decode_upcasts [of counter_registry "\<lparr>etype = ''Added'', schemaVersion = 1, payload = JNum 5\<rparr>" counter_entry
        "[\<lambda>p. Inr (case p of JNum n \<Rightarrow> JObj [(''n'', JNum n)] | _ \<Rightarrow> p)]" 5]
  by (simp add: counter_registry_def counter_entry_def)

section \<open>Event-sourced aggregates\<close>

text \<open>
  C6. Snapshots are only an optimisation: loading an aggregate, with snapshots switched on or off
  and whatever valid snapshot is stored, gives the state and version that folding its whole stream
  from the initial state gives, or that fold's decoding error, and changes nothing.
\<close>

theorem load_is_fold:
  assumes "store_inv (es w)" and "snapshots_consistent ag reg w"
  shows "load_aggregate (world_runtime ag reg tg every) (\<lambda>y w. w) ident w =
    (case stream_state ag reg (stream_name ag ident) (world_feed w) of
       Inl e \<Rightarrow> Inl (DecodeErr e)
     | Inr sv \<Rightarrow> Inr sv, w)"
  by (rule load_world [OF assms])

theorem load_is_fold_witness:
  "load_aggregate (world_runtime counter counter_registry counter_tag (Some 2)) (\<lambda>y w. w) ''a'' sample_snapshot_world =
     (Inr (12, 2), sample_snapshot_world)"
  by (subst load_is_fold) (simp_all add: sample_snapshot_world_ok counter_state_sample_snapshot)

text \<open>
  C7. A successful command took effect at one point of the history, whatever other fibers appended
  while it ran: the events it reports were decided on the state of everything committed before that
  point, exactly their encodings follow there, and the state and version it reports are those of the
  history up to and including them. Valid snapshots stay valid.
\<close>

theorem execute_linearizable:
  assumes "store_inv (es w)" and "snapshots_consistent ag reg w" and "appending_env ag reg env"
    and "codec_lawful tg reg"
    and "execute (world_runtime ag reg tg every) env now uuid ident command md w = (Inr res, w')"
    and "resEvents res \<noteq> []"
  shows "\<exists>before s v toAppend post.
    stream_state ag reg (stream_name ag ident) before = Inr (s, v)
    \<and> decide ag s command = Inr (resEvents res)
    \<and> world_feed w' = before @ storeEvents (int (length before)) (stream_name ag ident) v toAppend @ post
    \<and> stream_state ag reg (stream_name ag ident)
        (before @ storeEvents (int (length before)) (stream_name ag ident) v toAppend)
        = Inr (resState res, resVersion res)
    \<and> store_inv (es w') \<and> snapshots_consistent ag reg w'"
  using aggregates.execute_success [OF runs_on_world_runtime assms(1), of ag reg tg every env now uuid ident command md res w'] assms
  by (simp add: appending_env_iff snapshots_consistent_iff)

theorem execute_linearizable_witness:
  "\<exists>before s v toAppend post.
    stream_state counter counter_registry ''counter-a'' before = Inr (s, v) \<and> decide counter s 4 = Inr [4]
    \<and> world_feed (snd sample_execution) = before @ storeEvents (int (length before)) ''counter-a'' v toAppend @ post
    \<and> stream_state counter counter_registry ''counter-a''
        (before @ storeEvents (int (length before)) ''counter-a'' v toAppend) = Inr (16, 3)"
  using execute_linearizable [OF store_inv_sample sample_world_consistent sample_env_ok codec_lawful_counter sample_execution_result]
  unfolding counter_stream_name by simp blast

text \<open>
  A command that fails, for whatever reason, wrote nothing: the world it leaves is one that the
  other fibers' steps alone produce.
\<close>

theorem failed_command_writes_nothing:
  assumes "store_inv (es w)" and "snapshots_consistent ag reg w" and "appending_env ag reg env"
    and "codec_lawful tg reg"
    and "execute (world_runtime ag reg tg every) env now uuid ident command md w = (Inl e, w')"
  shows "w' \<in> {w, env AfterSnapshotLoad w, env AfterLoad w, env AfterLoad (env AfterSnapshotLoad w)}"
  using aggregates.execute_failure [OF runs_on_world_runtime assms(1), of ag reg tg every env now uuid ident command md e w'] assms
  by (simp add: appending_env_iff snapshots_consistent_iff)

theorem failed_command_writes_nothing_witness:
  "snd (execute (world_runtime counter counter_registry counter_tag None) (\<lambda>y w. w) ''now'' show_nat ''a'' (- 1) None sample_world)
     = sample_world"
  using failed_command_writes_nothing [OF store_inv_sample sample_world_consistent appending_env_id codec_lawful_counter
      sample_rejected] by (simp add: sample_rejected)

definition run_number ::
  "('w, 's, 'c, 'e, 'err) AggregateRuntime \<Rightarrow> (nat \<Rightarrow> yield_point \<Rightarrow> 'w \<Rightarrow> 'w) \<Rightarrow> (nat \<Rightarrow> string)
    \<Rightarrow> (nat \<Rightarrow> nat \<Rightarrow> string) \<Rightarrow> string \<Rightarrow> 'c \<Rightarrow> CommandMetadata option \<Rightarrow> nat \<Rightarrow> 'w
    \<Rightarrow> ('err ExecuteError, ('s, 'e) ExecuteResult) result \<times> 'w" where
  "run_number rt env now uuid ident command md k = execute rt (env k) (now k) (uuid k) ident command md"

text \<open>
  The retry is bounded and only for conflicts: \<open>executeWithRetry\<close> returns what one of at most
  \<open>retries + 1\<close> runs of \<open>execute\<close> returned, each run started in the world the previous one left, all
  earlier runs failed with a \<open>ConcurrencyConflict\<close>, and it stops early only on a result that is not
  such a conflict.
\<close>

theorem retry_bounded:
  "\<exists>j \<le> getOr 3 retries.
    executeWithRetry retries rt env now uuid ident command md w =
      run_number rt env now uuid ident command md j (attempt_world 0 (run_number rt env now uuid ident command md) w j)
    \<and> (\<forall>i < j. retryable is_conflict (fst (run_number rt env now uuid ident command md i
          (attempt_world 0 (run_number rt env now uuid ident command md) w i))))
    \<and> (j < getOr 3 retries \<longrightarrow> \<not> retryable is_conflict (fst (run_number rt env now uuid ident command md j
          (attempt_world 0 (run_number rt env now uuid ident command md) w j))))"
proof -
  have "executeWithRetry retries rt env now uuid ident command md w =
      retry (getOr 3 retries) is_conflict 0 (run_number rt env now uuid ident command md) w"
    by (simp add: executeWithRetry_def run_number_def [abs_def])
  then show ?thesis
    using retry_spec [of "getOr 3 retries" is_conflict 0 "run_number rt env now uuid ident command md" w] by simp
qed

theorem retry_bounded_witness:
  "executeWithRetry (Some 0) (world_runtime counter counter_registry counter_tag (Some 2)) (\<lambda>_. sample_env)
     (\<lambda>_. ''now'') (\<lambda>_. show_nat) ''a'' 4 None sample_world =
   (Inr \<lparr>resState = 16, resVersion = 3, resEvents = [4]\<rparr>, snd sample_execution)"
  using retry_bounded [of "Some 0" "world_runtime counter counter_registry counter_tag (Some 2)" "\<lambda>_. sample_env"
      "\<lambda>_. ''now''" "\<lambda>_. show_nat" "''a''" 4 None sample_world]
  by (simp add: run_number_def sample_execution_result)

section \<open>Read models\<close>

text \<open>
  C8. Catching up a projection terminates and is faithful. From a checkpoint at position \<open>k\<close>, with any positive batch size and while
  other fibers append between the first \<open>n\<close> rounds, the loop returns; the read model and the counts are those of handling
  all events after \<open>k\<close> in the feed it ends with, once each and in order, and the checkpoint ends at the head of that feed. When a
  handler or a decoding fails, that failure is returned, with the effects of the events before the failing one, and the checkpoint
  stands where a next run resumes: all events before it were handled, and the failing event is in the batch that starts there.
\<close>

theorem catchup_complete:
  assumes "store_inv (es w)" and "load_checkpoint (projName proj) (checks w) = int k"
    and "k \<le> length (world_feed w)" and "0 < getOr 100 bsize" and "only_appending env n"
  shows "\<exists>r w' v' added. catchup worldEventStore worldCheckpointStore proj bsize env w v = Some (r, w', v')
    \<and> world_feed w' = world_feed w @ added \<and> (n = 0 \<longrightarrow> added = [])
    \<and> (case handle_batch proj True (drop k (world_feed w')) (int k) no_stats v of
         (Inl e, u) \<Rightarrow> r = Inl e \<and> v' = u \<and> (\<exists>k'. load_checkpoint (projName proj) (checks w') = int k'
            \<and> resumes_at proj True (getOr 100 bsize) (world_feed w') k no_stats v e k')
       | (Inr (_, stats), u) \<Rightarrow> r = Inr stats \<and> v' = u
            \<and> load_checkpoint (projName proj) (checks w') = int (length (world_feed w')))"
proof -
  have "readmodels.at (projName proj) k w" using assms by (simp add: readmodels.at_def)
  from readmodels.catchup_settles [OF this assms(4) only_appending_appends [OF assms(5)], of True 0 no_stats v]
  show ?thesis
    unfolding catchup_def readmodels.outcome_def by (fastforce simp: readmodels.at_def split: sum.splits prod.splits)
qed

theorem catchup_complete_witness:
  "\<exists>w'. catchup worldEventStore worldCheckpointStore total (Some 1) (\<lambda>_ w. w) sample_world 0 =
     Some (Inr \<lparr>processed = 2, skipped = 0\<rparr>, w', 12) \<and> load_checkpoint ''total'' (checks w') = 2"
proof -
  have "only_appending (\<lambda>_ w. w :: int memory_world) 0" by (simp add: only_appending_def)
  from catchup_complete [OF store_inv_sample _ _ _ this, of total 0 "Some 1" 0] show ?thesis
    by (auto simp: load_checkpoint_def handle_total_sample) (simp_all add: sample_world_eq total_def)
qed

text \<open>
  A rebuild forgets the past: whatever the checkpoint and the read model were, after a
  successful reset the rebuild ends with the read model that handling the whole feed, from the state
  the reset left and with the \<open>live\<close> flag off, gives, and with the checkpoint at the head.
\<close>

theorem rebuild_from_scratch:
  assumes "store_inv (es w)" and "reset v = (Inr (), v0)" and "0 < getOr 100 bsize"
    and "handle_batch proj False (world_feed w) 0 no_stats v0 = (Inr (pos, stats), u)"
  shows "\<exists>w'. rebuild worldEventStore worldCheckpointStore proj reset bsize (\<lambda>_ w. w) w v = Some (Inr stats, w', u)
    \<and> world_feed w' = world_feed w \<and> load_checkpoint (projName proj) (checks w') = int (length (world_feed w))"
proof -
  let ?w = "w\<lparr>checks := save_checkpoint (projName proj) 0 (checks w)\<rparr>"
  have at0: "readmodels.at (projName proj) 0 ?w" using assms(1) by (simp add: readmodels.at_def checkpoints.load_save)
  have quiet: "readmodels.only_appends (\<lambda>_ w. w) 0" by (simp add: readmodels.only_appends_def)
  obtain r w' v' where "catchupWith worldEventStore worldCheckpointStore proj False (getOr 100 bsize) (\<lambda>_ w. w) 0 no_stats ?w v0 =
      Some (r, w', v')" and "world_feed w' = world_feed w" and "readmodels.outcome proj False (getOr 100 bsize) 0 no_stats v0 r w' v'"
    using readmodels.catchup_settles [OF at0 assms(3) quiet, of False 0 no_stats v0] by auto
  then show ?thesis using assms(2,4) by (auto simp: rebuild_def worldCheckpointStore_def readmodels.at_def readmodels.outcome_def)
qed

theorem rebuild_from_scratch_witness:
  "\<exists>w'. rebuild worldEventStore worldCheckpointStore total (\<lambda>v. (Inr (), 0)) None (\<lambda>_ w. w) sample_world 99 =
     Some (Inr \<lparr>processed = 2, skipped = 0\<rparr>, w', 12)"
  using rebuild_from_scratch [OF store_inv_sample _ _ handle_total_sample, of "\<lambda>v. (Inr (), 0)" 99 None] by auto

text \<open>
  Erased events are inert: in a reachable world, a projection whose registry does not know the
  tombstone type passes over the events of an erased stream, counts them as skipped and leaves its
  read model alone, and while the stored snapshots are valid the erased aggregate, if it had events,
  cannot be loaded any more.
\<close>

theorem erased_stream_is_inert:
  assumes "reachable w" and "jsget (erased (es w)) (stream_name ag ident) = Some rec"
    and "\<not> has_type (projRegistry proj) ERASED_EVENT_TYPE" and "\<not> has_type reg ERASED_EVENT_TYPE"
    and "stream_in (world_feed w) (stream_name ag ident) \<noteq> []" and "snapshots_consistent ag reg w"
  shows "(\<exists>pos'. handle_batch proj live (stream_in (world_feed w) (stream_name ag ident)) pos stats v =
      (Inr (pos', stats\<lparr>skipped := skipped stats + length (stream_in (world_feed w) (stream_name ag ident))\<rparr>), v))
    \<and> (\<exists>e. fst (load_aggregate (world_runtime ag reg tg every) (\<lambda>y w. w) ident w) = Inl (DecodeErr e))"
proof -
  let ?sn = "stream_name ag ident"
  have ok: "store_inv (es w)" "only_tombstones (es w)" using reachable_ok [OF assms(1)] by (auto simp: store_ok_def)
  have types: "\<forall>e \<in> set (stream_in (world_feed w) ?sn). etype e = ERASED_EVENT_TYPE"
    using ok(2) assms(2) unfolding only_tombstones_def by (metis entomb_simps(4))
  then have "\<forall>e \<in> set (stream_in (world_feed w) ?sn). \<not> has_type (projRegistry proj) (etype e)" using assms(3) by simp
  from handle_batch_unknown [OF this] have "\<exists>pos'. handle_batch proj live (stream_in (world_feed w) ?sn) pos stats v =
      (Inr (pos', stats\<lparr>skipped := skipped stats + length (stream_in (world_feed w) ?sn)\<rparr>), v)" by blast
  moreover obtain x xs where xs: "stream_in (world_feed w) ?sn = x # xs" using assms(5) by (cases "stream_in (world_feed w) ?sn") auto
  then have "decode reg x = Inl (decode_error x ''unknown event type'')"
    using types assms(4) by (intro decode_unknown) simp
  with xs have "\<exists>e. stream_state ag reg ?sn (world_feed w) = Inl e" by (simp add: stream_state_def)
  then have "\<exists>e. fst (load_aggregate (world_runtime ag reg tg every) (\<lambda>y w. w) ident w) = Inl (DecodeErr e)"
    using load_world [OF ok(1) assms(6)] by auto
  ultimately show ?thesis by blast
qed

theorem erased_stream_is_inert_witness:
  "\<exists>e. fst (load_aggregate (world_runtime counter counter_registry counter_tag (Some 2)) (\<lambda>y w. w) ''a'' sample_erased_world)
     = Inl (DecodeErr e)"
proof -
  have "jsget (erased (es sample_erased_world)) (stream_name counter ''a'') =
      Some \<lparr>erasedVersion = 2, erasedAt = ''now'', erasedReason = ''gdpr''\<rparr>"
    by (simp add: es_sample_erased store_simps sample_erasure_def streamOf_sample)
  moreover have "\<not> has_type counter_registry ERASED_EVENT_TYPE"
    by (simp add: has_type_def counter_registry_def ERASED_EVENT_TYPE_def)
  moreover have "stream_in (world_feed sample_erased_world) (stream_name counter ''a'') \<noteq> []"
    by (simp add: es_sample_erased store_simps sample_erasure_def stream_in_entomb_stream sample_world_es
        sample_stored_def storeEvents_def)
  moreover have "snapshots_consistent counter counter_registry sample_erased_world"
    using eraseStream_world_Inr(3) [OF erase_sample]
    by (simp add: snapshots_consistent_def load_snapshot_def remove_snapshot_def)
  ultimately show ?thesis
    using erased_stream_is_inert [OF reachable_sample_erased, of counter "''a''" _ total counter_registry]
    by (simp add: total_def)
qed

text \<open>
  C9. The snapshot of a running command can undo an erasure. Let a command succeed with at least as many events as the snapshot
  period, and let another fiber, with a valid request for the version the command reached, erase the stream between the
  command's append and the save of its snapshot. Then the stream is erased, yet the snapshot store holds the state
  built from the erased events, and loading the aggregate still returns it.
\<close>

theorem snapshot_survives_erasure:
  assumes "store_inv (es w)" and "\<And>y v. y \<noteq> AfterAppend \<Longrightarrow> store_inv (es v) \<Longrightarrow> store_inv (es (env y v))"
    and "env AfterAppend = (\<lambda>v. snd (eraseStream_world request instant v))"
    and "execute (world_runtime ag reg tg (Some every)) env now uuid ident command md w = (Inr res, w')"
    and "resEvents res \<noteq> []" and "every \<le> int (length (resEvents res))"
    and "prepareStreamErasure request = Inr request" and "reqStream request = stream_name ag ident"
    and "reqVersion request = resVersion res"
  shows "jsget (erased (es w')) (stream_name ag ident) =
      Some \<lparr>erasedVersion = resVersion res, erasedAt = instant, erasedReason = reqReason request\<rparr>
    \<and> load_snapshot (stream_name ag ident) (snaps w') = Some \<lparr>snapState = resState res, snapVersion = resVersion res\<rparr>
    \<and> fst (load_aggregate (world_runtime ag reg tg (Some every)) (\<lambda>y v. v) ident w') = Inr (resState res, resVersion res)"
proof -
  let ?rt = "world_runtime ag reg tg (Some every)" and ?sn = "stream_name ag ident"
  have rt: "snapshotting ?rt = Some worldSnapshotStore" "snapshotEvery ?rt = Some every" "aggregate ?rt = ag" "store ?rt = worldEventStore"
    by (simp_all add: snapshotting_def world_runtime_def)
  obtain w2 where inv: "store_inv (es w2)" and live: "jsget (erased (es w2)) ?sn = None"
    and version: "resVersion res = int (length (stream_in (world_feed w2) ?sn))"
    and saved: "snap_save worldSnapshotStore ?sn \<lparr>snapState = resState res, snapVersion = resVersion res\<rparr>
      (snd (eraseStream_world request instant w2)) = (Inr (), w')"
    using aggregates.due_snapshot_saved [OF runs_on_world_runtime rt(1,2) assms(1) _ assms(4,5,6)] assms(2,3) rt(3)
    by auto
  have len: "reqVersion request = int (length (streamOf (es w2) ?sn))"
    using version assms(9) store_invD(2) [OF inv] by simp
  have erased: "es w' = entombed request instant (es w2)"
    and snap: "load_snapshot ?sn (snaps w') = Some \<lparr>snapState = resState res, snapVersion = resVersion res\<rparr>"
    using saved erase_state_first [OF inv, of request instant] len live assms(7,8)
    by (auto simp: worldSnapshotStore_def es_eraseStream_world snapshots.load_save)
  have inv': "store_inv (es w')" using erased store_inv_entombed [OF inv] by simp
  have "length (stream_in (world_feed w') ?sn) = nat (resVersion res)"
    using erased version by (simp add: store_simps stream_in_entomb_stream)
  then have "read_op worldEventStore ?sn (Some (resVersion res + 1)) w' = Inr []"
    using aggregates.read_suffix [OF inv', of ?sn "nat (resVersion res)"] version by simp
  then have "fst (load_aggregate ?rt (\<lambda>y v. v) ident w') = Inr (resState res, resVersion res)"
    using rt snap by (simp add: load_aggregate_def loadFrom_def worldSnapshotStore_def Let_def)
  then show ?thesis
    using snap erased len assms(8,9) by (simp add: store_simps)
qed

theorem snapshot_survives_erasure_witness:
  "\<exists>w'. execute (world_runtime counter counter_registry counter_tag (Some 1)) erasing_env ''now'' show_nat ''a'' 4 None sample_world =
      (Inr \<lparr>resState = 16, resVersion = 3, resEvents = [4]\<rparr>, w')
    \<and> jsget (erased (es w')) ''counter-a'' \<noteq> None
    \<and> fst (load_aggregate (world_runtime counter counter_registry counter_tag (Some 1)) (\<lambda>y w. w) ''a'' w') = Inr (16, 3)"
proof -
  let ?request = "\<lparr>reqStream = ''counter-a'', reqVersion = 3, reqReason = ''gdpr''\<rparr>"
  have "\<exists>w'. execute (world_runtime counter counter_registry counter_tag (Some 1)) erasing_env ''now'' show_nat ''a'' 4 None sample_world =
      (Inr \<lparr>resState = 16, resVersion = 3, resEvents = [4]\<rparr>, w')"
    by (simp add: execute_def loadFrom_def snapshotting_def world_services erasing_env_def sample_world_eq
        sample_stored_def sample_events emptyStore_def stamp_def snapshot_if_due_def Let_def)
  then obtain w' where run: "execute (world_runtime counter counter_registry counter_tag (Some 1)) erasing_env ''now'' show_nat ''a'' 4
      None sample_world = (Inr \<lparr>resState = 16, resVersion = 3, resEvents = [4]\<rparr>, w')" by blast
  have request: "prepareStreamErasure ?request = Inr ?request"
    by (simp add: prepareStreamErasure_def trim_def js_space_def is_safe_integer_def)
  have env: "erasing_env AfterAppend = (\<lambda>v. snd (eraseStream_world ?request ''now'' v))"
    "y \<noteq> AfterAppend \<Longrightarrow> store_inv (es v) \<Longrightarrow> store_inv (es (erasing_env y v))" for y v
    by (simp_all add: erasing_env_def fun_eq_iff)
  from snapshot_survives_erasure [OF store_inv_sample env(2) env(1) run _ _ request] run
  show ?thesis by (simp add: counter_stream_name)
qed

section \<open>The outbox and its relay\<close>

text \<open>
  C10. Whatever calls concurrent writers and relays make on the in-memory outbox, in whatever order,
  it stays well-formed: one entry per message id, live claims only on pending entries, each under a
  token that was handed out before.
\<close>

theorem outbox_stays_ok: "outbox_ok (run_ops ops emptyOutbox)"
  by (rule outbox_ok_run_ops [OF outbox_ok_empty])

text \<open>
  Within a lease an entry is delivered by one relay: \<open>claim\<close> takes exactly what \<open>pending\<close> shows,
  and as long as the others only enqueue, claim, settle under their own tokens and replay other entries,
  every later \<open>claim\<close> before the lease lapses leaves the claimed entry alone and the claim in place.
\<close>

theorem claim_exclusive:
  assumes "outbox_ok st" and "claim limit lease now st = (c, st1)" and "0 \<le> limit" and "e \<in> set (claimedEntries c)"
    and "\<forall>op \<in> set ops. honours \<lparr>claimToken = token c, claimLeaseUntil = leaseUntil c\<rparr> (msgId (entryMessage e)) op"
    and "now' < leaseUntil c"
  shows "claimedEntries c = pending limit now st
    \<and> msgId (entryMessage e) \<notin>
        (\<lambda>e. msgId (entryMessage e)) ` set (claimedEntries (fst (claim limit' lease' now' (run_ops ops st1))))
    \<and> holder (run_ops ops st1) (msgId (entryMessage e)) = Some (token c)"
proof -
  let ?i = "msgId (entryMessage e)" and ?c = "\<lparr>claimToken = token c, claimLeaseUntil = leaseUntil c\<rparr>"
  note f = claim_fields [OF assms(2)]
  have "jsget (claims st1) ?i = Some ?c" using assms(4) by (auto simp: f)
  from honours_run [OF outbox_ok_claim [OF assms(1,2)] this assms(5)]
  have held: "jsget (claims (run_ops ops st1)) ?i = Some ?c" by simp
  obtain c' st2 where r: "claim limit' lease' now' (run_ops ops st1) = (c', st2)" by force
  have "?i \<notin> (\<lambda>e. msgId (entryMessage e)) ` set (claimedEntries c')"
    using claim_excludes [OF held] assms(6) by (fastforce simp: claim_fields(1) [OF r])
  then show ?thesis
    using held selected_pending [OF assms(3)] by (simp add: r f(1) holder_def)
qed

theorem claim_exclusive_witness:
  "''m1'' \<notin> (\<lambda>e. msgId (entryMessage e)) ` set (claimedEntries (fst (claim 32 30000 29999
      (run_ops [MarkPublished [''m1''] (Some (claim_token 7)), Claim 1 60000 10000] sample_claimed))))"
  using claim_exclusive [OF sample_outbox_ok sample_claim, of "sample_entry ''m1''"
      "[MarkPublished [''m1''] (Some (claim_token 7)), Claim 1 60000 10000]" 29999 32 30000]
  by (simp add: sample_entry_def sample_message_def)

text \<open>
  A relay whose lease was recovered is fenced out: once another relay has claimed the entry, a
  settlement with the first relay's token, of any kind, reports failure and changes nothing.
\<close>

theorem stale_settlement_fenced:
  assumes "outbox_ok st" and "claim limit lease now st = (c, st1)" and "claimedEntries c \<noteq> []"
    and "claim limit' lease' now' (run_ops ops st1) = (c', st2)" and "e \<in> set (claimedEntries c')"
  shows "markPublished [msgId (entryMessage e)] (Some (token c)) st2 = (False, st2)
    \<and> markFailed (msgId (entryMessage e)) err n retryAt (Some (token c)) st2 = (False, st2)
    \<and> markDead (msgId (entryMessage e)) err (Some (token c)) st2 = (False, st2)"
proof -
  have "nextToken st < nextToken st1" using assms(3) by (simp add: claim_fields [OF assms(2)])
  also have "\<dots> \<le> nextToken (run_ops ops st1)" by (rule nextToken_run_ops)
  finally have "token c \<noteq> token c'"
    by (simp add: claim_fields(2) [OF assms(2)] claim_fields(2) [OF assms(4)])
  moreover have "holder st2 (msgId (entryMessage e)) = Some (token c')"
    using assms(5) by (simp add: holder_def claim_fields [OF assms(4)])
  ultimately show ?thesis by (simp add: fenced)
qed

theorem stale_settlement_fenced_witness:
  "markPublished [''m1''] (Some (claim_token 0)) (snd (claim 32 30000 30000 sample_claimed)) =
     (False, snd (claim 32 30000 30000 sample_claimed))"
proof -
  obtain c st' where r: "claim 32 30000 30000 sample_claimed = (c, st')" by force
  have "sample_entry ''m1'' \<in> set (claimedEntries c)"
    by (simp add: claim_fields(1) [OF r] selected_def sample_claimed_eq sample_outbox_eq deliverable_def
        sample_entry_def sample_message_def due_def leaseLapsed_def)
  from stale_settlement_fenced [OF sample_outbox_ok sample_claim, of 32 30000 30000 "[]" c st', OF _ _ this] r show ?thesis
    by (simp add: run_ops_def sample_entry_def sample_message_def)
qed

text \<open>
  Draining delivers everything: with no interference and a transport that fails only with typed
  errors, \<open>drain\<close> returns; every entry that was claimable at its start ends published when one of its
  attempts within the budget succeeds and dead, with the full attempt count, otherwise; entries that
  were not pending are untouched.
\<close>

theorem drain_settles:
  assumes "outbox_ok st" and "\<forall>i. quiet (env i)" and "0 < getOr 32 batch" and "\<forall>i j. i \<le> j \<longrightarrow> now i \<le> now j"
  shows "\<exists>st'. drain memOutbox env now limit batch lease st = Some (Some (), st') \<and> outbox_ok st' \<and>
    (\<forall>i e. jsget (entries st) i = Some e \<longrightarrow>
      (if deliverable st (now 0) e
       then \<exists>e' r. jsget (entries st') i = Some e' \<and> settled_as (env r) (getOr 5 limit) e e'
       else entryStatus e \<noteq> Pending \<longrightarrow> jsget (entries st') i = Some e))"
proof -
  from outbox.drain_loop_quiet [where limit = limit and lease = "getOr 30000 lease" and i = 0 and env = env and now = now,
      OF assms(1) _ assms(3)] assms(2,4) obtain st' where
    run: "drain_loop memOutbox env now limit (getOr 32 batch) (getOr 30000 lease) 0 st = Some (Some (), st')" and
    ok: "outbox_ok st'" and drained: "outbox.drained env (getOr 5 limit) st st'" and
    all: "\<forall>j. mem_claimable st (now 0) j \<longrightarrow> jsget (entries st') j \<noteq> jsget (entries st) j" by blast
  have "\<exists>e' r. jsget (entries st') i = Some e' \<and> settled_as (env r) (getOr 5 limit) e e'"
    if "jsget (entries st) i = Some e" and "deliverable st (now 0) e" for i e
  proof -
    from that have "mem_claimable st (now 0) i" and pend: "entryStatus e = Pending"
      by (simp_all add: mem_claimable_def deliverable_def)
    with all have "jsget (entries st') i \<noteq> jsget (entries st) i" by blast
    from outbox.drained_settled [OF drained that(1) pend this] show ?thesis by blast
  qed
  moreover have "jsget (entries st') i = Some e" if "jsget (entries st) i = Some e" and "entryStatus e \<noteq> Pending" for i e
    using drained that unfolding outbox.drained_def by (metis option.inject)
  ultimately show ?thesis using run ok by (simp add: drain_def)
qed

theorem drain_settles_witness:
  "\<exists>st'. drain memOutbox (\<lambda>_. sample_relay_env) (\<lambda>_. 0) None None None sample_outbox = Some (Some (), st') \<and>
     map_option entryStatus (jsget (entries st') ''m1'') = Some Published"
proof -
  let ?env = "sample_relay_env :: OutboxState relay_env" and ?e = "sample_entry ''m1''"
  have "jsget (entries sample_outbox) ''m1'' = Some ?e" and "deliverable sample_outbox 0 ?e"
    by (simp_all add: sample_outbox_eq deliverable_def sample_entry_def due_def leaseLapsed_def)
  then obtain st' e' where run: "drain memOutbox (\<lambda>_. ?env) (\<lambda>_. 0) None None None sample_outbox = Some (Some (), st')"
    and e': "jsget (entries st') ''m1'' = Some e'" and "settled_as ?env 5 ?e e'"
    using drain_settles [OF sample_outbox_ok, of "\<lambda>_. ?env" None "\<lambda>_. 0" None None] quiet_sample_relay_env
    by (fastforce split: if_splits)
  moreover have "\<exists>k. entryAttempts ?e \<le> k \<and> k < 5 \<and> answer ?env ?e k = PublishOk"
    by (intro exI [of _ 1]) (simp add: sample_entry_def sample_relay_env_def)
  ultimately have "entryStatus e' = Published" by (simp add: settled_as_def)
  with run e' show ?thesis by simp
qed

text \<open>
  What a relay reports is true under interference: whatever other writers and relays do to the
  outbox while it publishes, when \<open>publishEntry\<close> returns \<open>true\<close> the entry is published or dead and no
  claim on it is left.
\<close>

theorem publish_report_is_true:
  assumes "outbox_ok st" and "\<forall>k st. outbox_ok st \<longrightarrow> outbox_ok (publishing env k st) \<and> outbox_ok (settling env k st)"
    and "publishEntry memOutbox env limit entry tok st = (Some True, st')"
  shows "holder st' (msgId (entryMessage entry)) = None \<and>
    (\<exists>e. jsget (entries st') (msgId (entryMessage entry)) = Some e \<and> entryStatus e \<noteq> Pending)"
proof (cases "getOr 5 limit \<le> entryAttempts entry")
  case True
  with assms(3) outbox.settle_reports(2) [OF assms(1)] show ?thesis
    by (auto simp: publishEntry_def Let_def split: prod.splits)
next
  case False
  with assms(3) have "publish_loop memOutbox env (getOr 5 limit) entry tok (entryAttempts entry) st = (Some True, st')"
    by (simp add: publishEntry_def Let_def)
  from outbox.publish_loop_reports [OF this assms(1)] assms(2) show ?thesis by blast
qed

theorem publish_report_is_true_witness:
  "\<exists>st'. publishEntry memOutbox sample_relay_env None (sample_entry ''m1'') (claim_token 0) sample_claimed = (Some True, st')
     \<and> holder st' ''m1'' = None"
proof -
  obtain st' where run: "publishEntry memOutbox sample_relay_env None (sample_entry ''m1'') (claim_token 0) sample_claimed
      = (Some True, st')"
    using outbox.publishEntry_quiet [OF sample_claimed_ok, of "sample_entry ''m1''" "claim_token 0" sample_relay_env None]
    by (auto simp: holder_def sample_claimed_eq sample_outbox_eq sample_entry_def sample_message_def quiet_sample_relay_env)
  have "\<forall>k st. outbox_ok st \<longrightarrow> outbox_ok (publishing sample_relay_env k st) \<and> outbox_ok (settling sample_relay_env k st)"
    by (simp add: sample_relay_env_def)
  from publish_report_is_true [OF sample_claimed_ok this run] run show ?thesis
    by (auto simp: sample_entry_def sample_message_def)
qed

text \<open>
  Replaying an id that is not dead is not ignored: \<open>replay\<close> leaves such an entry as it is but
  drops the live claim on it, so that another relay can claim it, and deliver it again, although the
  first relay's lease has not lapsed, and the first relay's settlement is refused.
\<close>

theorem replay_drops_claim:
  assumes "outbox_ok st" and "holder st ident = Some tok" and "jsget (entries st) ident = Some e" and "due e now"
  shows "jsget (entries (replay [ident] st)) ident = Some e \<and> mem_claimable (replay [ident] st) now ident
    \<and> markPublished [ident] (Some tok) (replay [ident] st) = (False, replay [ident] st)"
proof -
  obtain c where c: "jsget (claims st) ident = Some c" using assms(2) by (auto simp: holder_def)
  have pend: "entryStatus e = Pending" using outbox_ok_claimD [OF assms(1) c] assms(3) by auto
  have "msgId (entryMessage e) = ident" by (rule outbox_ok_keyD [OF assms(1,3)])
  then have "mem_claimable (replay [ident] st) now ident"
    using pend assms(3,4) by (simp add: mem_claimable_def jsget_replay deliverable_def leaseLapsed_def del: replay.simps)
  moreover have "markPublished [ident] (Some tok) (replay [ident] st) = (False, replay [ident] st)"
    by (rule markPublished_fenced) (simp add: holder_def jsget_replay assms(3) del: replay.simps)
  ultimately show ?thesis using pend assms(3) by (simp add: jsget_replay del: replay.simps)
qed

theorem replay_drops_claim_witness:
  "mem_claimable sample_claimed 1 ''m1'' = False \<and> mem_claimable (replay [''m1''] sample_claimed) 1 ''m1''"
proof -
  have "holder sample_claimed ''m1'' = Some (claim_token 0)" and "jsget (entries sample_claimed) ''m1'' = Some (sample_entry ''m1'')"
    and "due (sample_entry ''m1'') 1" and "\<not> mem_claimable sample_claimed 1 ''m1''"
    by (simp_all add: holder_def sample_claimed_eq sample_outbox_eq due_def mem_claimable_def deliverable_def leaseLapsed_def
        sample_entry_def sample_message_def)
  with replay_drops_claim [OF sample_claimed_ok] show ?thesis by blast
qed

text \<open>
  Processing is effectively once: when the deliveries of messages to consumers, repeated and
  reordered in any way, each go through \<open>dedupe\<close> and the handlers succeed, the world ends as if every
  distinct message had been handled once per consumer, in the order of the first deliveries. Consumer ids must not contain
  the character NUL, which separates the parts of an inbox key.
\<close>

theorem dedupe_effectively_once:
  assumes "\<forall>(c, m) \<in> set ds. CHR 0x00 \<notin> set c" and "\<forall>c m w. \<exists>a w'. effect c m w = (Inr a, w')"
  shows "\<exists>once. distinct once \<and> set once = set ds \<and>
    snd (deliver_all effect ds ([], w)) = foldl (\<lambda>w (c, m). snd (effect c m w)) w once"
proof (intro exI conjI)
  let ?once = "fresh (\<lambda>(c, m). seen c m []) ds"
  show "distinct ?once" by (rule fresh_distinct)
  show "set ?once = set ds" by (auto simp: fresh_set seen_def)
  show "snd (deliver_all effect ds ([], w)) = foldl (\<lambda>w (c, m). snd (effect c m w)) w ?once"
    using assms by (intro deliver_all_fresh) blast+
qed

theorem dedupe_effectively_once_witness:
  "\<exists>once. distinct once \<and> set once = {(''c'', ''m1''), (''c'', ''m2'')} \<and>
    snd (deliver_all (\<lambda>c m w. (Inr () :: (unit, unit) result, m # w)) [(''c'', ''m1''), (''c'', ''m2''), (''c'', ''m1'')] ([], []))
      = foldl (\<lambda>w (c, m). m # w) [] once"
  using dedupe_effectively_once [of "[(''c'', ''m1''), (''c'', ''m2''), (''c'', ''m1'')]"
      "\<lambda>c m w. (Inr () :: (unit, unit) result, m # w)" "[]"]
  by (simp add: insert_commute)

text \<open>
  The retry delay is bounded: for a non-negative base and a jitter draw within \<open>1 \<plusminus> spread\<close>, the
  delay after attempt \<open>n\<close> lies within that spread around \<open>base * 2^(n - 1)\<close> capped at 24 hours; without jitter it is
  exactly this value and never decreases with the attempt. The cap is applied before the jitter, so a
  delay can exceed 24 hours.
\<close>

theorem backoff_bounded:
  assumes "0 \<le> getOr 100 base" and "spread = (case jitter of None \<Rightarrow> 1 / 5 | Some j \<Rightarrow> max 0 j)"
    and "1 - spread \<le> factor" and "factor \<le> 1 + spread"
  shows "min (getOr 100 base * 2 ^ (n - 1)) 86400000 * (1 - spread) \<le> backoffDelay n base jitter factor
    \<and> backoffDelay n base jitter factor \<le> min (getOr 100 base * 2 ^ (n - 1)) 86400000 * (1 + spread)
    \<and> (spread = 0 \<longrightarrow> backoffDelay n base jitter factor \<le> backoffDelay (Suc n) base jitter factor)
    \<and> backoffDelay 30 None None (6 / 5) > 86400000"
proof -
  let ?b = "min (getOr 100 base * 2 ^ (n - 1)) 86400000"
  have pos: "0 \<le> ?b" using assms(1) by simp
  have delay: "backoffDelay n base jitter factor = (if spread = 0 then ?b else ?b * factor)"
    using assms(2) by (simp add: backoffDelay_def Let_def)
  have "?b * (1 - spread) \<le> ?b * factor" and "?b * factor \<le> ?b * (1 + spread)"
    using assms(3,4) pos by (simp_all add: mult_left_mono)
  moreover have "getOr 100 base * 2 ^ (n - 1) \<le> getOr 100 base * 2 ^ (Suc n - 1)"
    using assms(1) by (intro mult_left_mono) (simp_all add: power_increasing)
  then have "spread = 0 \<longrightarrow> backoffDelay n base jitter factor \<le> backoffDelay (Suc n) base jitter factor"
    using assms(2) by (simp add: backoffDelay_def Let_def min.coboundedI1 min.coboundedI2)
  ultimately show ?thesis using delay by (simp add: backoffDelay_def)
qed

theorem backoff_bounded_witness:
  "80 \<le> backoffDelay 1 None None (11 / 10) \<and> backoffDelay 1 None None (11 / 10) \<le> 120"
  using backoff_bounded [of None "1 / 5" None "11 / 10" 1] by simp

section \<open>Authorization\<close>

text \<open>
  C11. Decisions follow the policy as written: for every policy that \<open>make\<close> accepts and whose grants
  avoid the names of \<open>Object.prototype\<close>, a check returns without throwing and answers yes exactly when the
  permission is declared and some role held in the scope gives it, directly, by a wildcard or by
  inheritance, either unconditionally or under a condition that holds; \<open>allowed\<close> lists exactly those
  permissions, in the order of the declaration.
\<close>

theorem decisions_follow_policy:
  assumes "names_own def conditions" and "make_policy def conditions = Some (Inr (Inr policy))"
  shows "can policy who p opts = Inr (may def conditions who p opts)
    \<and> allowedPermissions policy who opts = Inr (filter (\<lambda>q. may def conditions who q opts) (all_permissions def))"
proof -
  have acc: "accepted_policy policy" using assms by (rule accepted_policyI)
  have "policy_permits policy = may def conditions"
    by (simp add: policy_permits_def make_policy_definition [OF assms(2)])
  moreover have "permissions policy = all_permissions def" by (rule make_policy_permissions [OF assms(2)])
  ultimately show ?thesis using policy.can_permits [OF acc] policy.allowed_permits [OF acc] by simp
qed

theorem decisions_follow_policy_witness:
  "can invoice_resolved alice ''invoice:approve'' acme_options = Inr (may invoice_policy invoice_conditions alice ''invoice:approve'' acme_options)
    \<and> can invoice_resolved alice ''invoice:approve'' acme_options = Inr True
    \<and> can invoice_resolved alice ''invoice:approve'' noOptions = Inr False"
proof (intro conjI)
  show "can invoice_resolved alice ''invoice:approve'' acme_options = Inr (may invoice_policy invoice_conditions alice ''invoice:approve'' acme_options)"
    using decisions_follow_policy [OF invoice_names_own invoice_policy_made, of alice "''invoice:approve''" acme_options] by (rule conjunct1)
  show "can invoice_resolved alice ''invoice:approve'' acme_options = Inr True" by code_simp
  show "can invoice_resolved alice ''invoice:approve'' noOptions = Inr False" by code_simp
qed

text \<open>
  Making a policy always ends, and its verdict is meaningful: within the recursion bound the cycle
  search and the resolution return for every definition; a definition with an issue is refused with all
  its issues; one without is accepted, and then no role inherits from itself through any chain.
\<close>

theorem make_policy_total:
  assumes "names_own def conditions"
  shows "(\<exists>issues. issues \<noteq> [] \<and> validate def conditions = Some issues
        \<and> make_policy def conditions = Some (Inr (Inl (InvalidPolicy issues))))
    \<or> (\<exists>policy. validate def conditions = Some [] \<and> make_policy def conditions = Some (Inr (Inr policy))
        \<and> acyclic (inherits_from def))"
proof (cases "validate def conditions = Some []")
  case True
  from build_correct [OF True assms] obtain policy where "build def conditions = Some (Inr policy)" by blast
  with True show ?thesis using valid_acyclic_rel [OF True] by (auto simp: make_policy_def)
next
  case False
  with validate_total [of def conditions] show ?thesis by (auto simp: make_policy_def)
qed

theorem make_policy_total_witness:
  "make_policy invoice_policy invoice_conditions = Some (Inr (Inr invoice_resolved)) \<and> acyclic (inherits_from invoice_policy)"
  using make_policy_total [OF invoice_names_own] invoice_policy_made by auto

text \<open>
  C12. Validation looks names up with \<open>in\<close>, which also finds the members of \<open>Object.prototype\<close>. A grant
  under the condition \<open>toString\<close>, which nobody declared, is accepted and then grants unconditionally
  to every holder of the role; a grant of \<open>constructor:*\<close> passes validation and makes
  \<open>make\<close> throw instead of failing with \<open>InvalidPolicy\<close>.
\<close>

theorem inherited_names_escape_validation:
  "validate open_policy [] = Some [] \<and>
   (\<exists>policy. make_policy open_policy [] = Some (Inr (Inr policy)) \<and>
     (\<forall>who opts. can policy who ''invoice:read'' opts = Inr (''viewer'' \<in> set (rolesIn who (optScope opts))))) \<and>
   validate crashing_policy [] = Some [] \<and>
   make_policy crashing_policy [] = Some (Inl ''TypeError: map is not a function'')"
proof -
  let ?p = "\<lparr>policyDefinition = open_policy, policyConditions = [],
     permissions = [''invoice:read''], resolvedRoles = [(''viewer'', [(''invoice:read'', Some [''toString''])])]\<rparr>"
  have role: "isRole ?p r \<longleftrightarrow> r = ''viewer'' \<or> r \<in> set prototype_keys" for r
    by (auto simp: isRole_def open_policy_def js_in_def)
  have loop: "decide_loop ?p ''invoice:read'' ctx rs unmet =
      Inr (if ''viewer'' \<in> set rs then Inr (''viewer'', Some ''toString'') else Inl unmet)" for ctx rs unmet
    by (induction rs arbitrary: unmet) (auto simp: resolved_entry_def call_condition_def)
  have "can ?p who ''invoice:read'' opts = Inr (''viewer'' \<in> set (rolesIn who (optScope opts)))" for who opts
    using role [of "''viewer''"]
    by (auto simp: can_def decide_policy_def Let_def loop filter_empty_conv)
  moreover have "validate open_policy [] = Some []" and "validate crashing_policy [] = Some []" by code_simp+
  ultimately show ?thesis using open_policy_made crashing_policy_made by blast
qed

text \<open>
  The guard is complete mediation: with an accepted policy, \<open>require\<close> runs the effect exactly when a
  principal is attached who may do it, with that principal still attached; otherwise the effect does not
  run, and the refusal is \<open>Unauthenticated\<close> for a caller nobody identified and \<open>PermissionDenied\<close> for the others.
\<close>

theorem guard_mediates:
  assumes "accepted_policy policy"
  shows "require_permission policy p opts effect None = Refused (Unauthenticated (Some p) (Some ''no principal attached''))
    \<and> (policy_permits policy who p opts \<longleftrightarrow> require_permission policy p opts effect (Some who) = Ran (effect (Some who)))
    \<and> (\<not> policy_permits policy who p opts \<longleftrightarrow> (\<exists>why. require_permission policy p opts effect (Some who) =
        Refused (if isAnonymous who then Unauthenticated (Some p) (Some why)
                 else PermissionDenied p (principalId who) (optScope opts) (Some why))))"
proof -
  let ?run = "require_permission policy p opts effect (Some who)"
  have none: "require_permission policy p opts effect None = Refused (Unauthenticated (Some p) (Some ''no principal attached''))"
    by (simp add: require_permission_def check_permission_def)
  have yes: "?run = Ran (effect (Some who)) \<longleftrightarrow> policy_permits policy who p opts"
    using policy.require_permits(1) [OF assms, of p opts effect who "effect (Some who)"] by simp
  show ?thesis
  proof (cases "policy_permits policy who p opts")
    case True
    with none yes show ?thesis by simp
  next
    case False
    with none yes policy.require_permits(2) [OF assms False, of effect] show ?thesis by blast
  qed
qed

theorem guard_mediates_witness:
  "require_permission invoice_resolved ''invoice:approve'' noOptions id None
     = Refused (Unauthenticated (Some ''invoice:approve'') (Some ''no principal attached''))
   \<and> (\<exists>why. require_permission invoice_resolved ''invoice:approve'' noOptions id (Some alice)
        = Refused (PermissionDenied ''invoice:approve'' ''alice'' None (Some why)))"
proof -
  have "can invoice_resolved alice ''invoice:approve'' noOptions = Inr False" by code_simp
  then have no: "\<not> policy_permits invoice_resolved alice ''invoice:approve'' noOptions"
    using policy.can_permits [OF invoice_accepted] by simp
  have "\<not> isAnonymous alice" "principalId alice = ''alice''" "optScope noOptions = None" by code_simp+
  with guard_mediates [OF invoice_accepted, of "''invoice:approve''" noOptions id alice] no show ?thesis by simp
qed

text \<open>
  The authorizer of the buses fails closed: with an accepted policy it never throws, and it lets a
  message through exactly when its rule is public, or a principal is known who is permitted what the
  rule asks of this payload, or the message has no rule and unmapped messages were allowed
  explicitly. Every refusal carries the tag and the actor of the message.
\<close>

theorem authorizer_fails_closed:
  assumes "accepted_policy (rulesPolicy rs)"
  shows "\<exists>x. authorize rs current request = Inr x \<and>
    (case x of Inr _ \<Rightarrow> message_admitted rs current request
     | Inl u \<Rightarrow> \<not> message_admitted rs current request \<and> unauthorizedTag u = requestTag request
         \<and> unauthorizedActor u = requestActor request)"
  by (rule authorize_admits [OF assms])

theorem authorizer_fails_closed_witness:
  "authorize invoice_rules (Some alice) (approve_request ''alice'') = Inr (Inr ())
   \<and> message_admitted invoice_rules (Some alice) (approve_request ''alice'')
   \<and> (\<exists>u. authorize invoice_rules None (approve_request ''alice'') = Inr (Inl u)
        \<and> \<not> message_admitted invoice_rules None (approve_request ''alice''))"
proof -
  have r: "accepted_policy (rulesPolicy invoice_rules)"
    using invoice_accepted by (simp add: invoice_rules_def make_rules_def add_rule_def add_public_def add_rules_def)
  have yes: "authorize invoice_rules (Some alice) (approve_request ''alice'') = Inr (Inr ())" by code_simp
  have no: "authorize invoice_rules None (approve_request ''alice'')
      = Inr (Inl (Unauthorized ''Approve'' ''unauthenticated: no principal attached'' (Some ''alice'')))" by code_simp
  show ?thesis
    using authorizer_fails_closed [OF r, of "Some alice" "approve_request ''alice''"]
      authorizer_fails_closed [OF r, of None "approve_request ''alice''"] yes no by auto
qed

section \<open>Command and query buses\<close>

text \<open>
  C13. However dispatches of keyed commands interleave, between the answer of \<open>begin\<close>, the end of their handlers and the last
  call on the in-memory store, and however their handlers end: at most one dispatch at a time has claimed a key and not settled, every
  claim in the store is of a dispatch that has not settled yet, so that none outlives its dispatch, and a completed record never
  changes again and is never claimed again. The interleaved parts are those of \<open>idempotent\<close>, which does nothing else.
\<close>

theorem one_dispatch_per_key:
  assumes "idem_steps sha256Hex no_dispatches s"
  shows "(\<forall>i j a b. holds_claim s i a \<and> holds_claim s j b \<and> compositeKey a = compositeKey b \<longrightarrow> i = j)
    \<and> (\<forall>k h. jsget (idemRecords s) k = Some (ClaimedRecord h) \<longrightarrow> (\<exists>i a. holds_claim s i a \<and> compositeKey a = k))
    \<and> (\<forall>k h r s'. jsget (idemRecords s) k = Some (CompletedRecord h r) \<and> idem_steps sha256Hex s s' \<longrightarrow>
         jsget (idemRecords s') k = Some (CompletedRecord h r) \<and> \<not> (\<exists>i a. holds_claim s' i a \<and> compositeKey a = k))
    \<and> (\<forall>d run rs v. idempotent sha256Hex memIdempotencyStore (kdDefinition d) (kdKey d) (kdActor d) (kdPayload d) run (rs, v) =
         (case idem_begin sha256Hex d rs of
            (Inl e, rs1) \<Rightarrow> (e, (rs1, v))
          | (Inr ctx, rs1) \<Rightarrow>
              (case run (rs1, v) of
                 (x, (rs2, v2)) \<Rightarrow> (case idem_settle ctx (idem_outcome d x) rs2 of (e, rs3) \<Rightarrow> (e, (rs3, v2))))))"
proof -
  have inv: "idem_inv s" by (rule idem_inv_steps [OF assms]) simp
  have kept: "jsget (idemRecords s') k = Some (CompletedRecord h r)"
    if "jsget (idemRecords s) k = Some (CompletedRecord h r)" "idem_steps sha256Hex s s'" for k h r s'
    using completed_steps [OF that(2) inv that(1)] .
  have free: "\<not> (\<exists>i a. holds_claim s' i a \<and> compositeKey a = k)"
    if "jsget (idemRecords s) k = Some (CompletedRecord h r)" "idem_steps sha256Hex s s'" for k h r s'
    using idem_inv_steps [OF that(2) inv] kept [OF that] by (force simp: idem_inv_def)
  show ?thesis
  proof (intro conjI)
    show "\<forall>i j a b. holds_claim s i a \<and> holds_claim s j b \<and> compositeKey a = compositeKey b \<longrightarrow> i = j"
      "\<forall>k h. jsget (idemRecords s) k = Some (ClaimedRecord h) \<longrightarrow> (\<exists>i a. holds_claim s i a \<and> compositeKey a = k)"
      using inv unfolding idem_inv_def by blast+
  next
    show "\<forall>k h r s'. jsget (idemRecords s) k = Some (CompletedRecord h r) \<and> idem_steps sha256Hex s s' \<longrightarrow>
        jsget (idemRecords s') k = Some (CompletedRecord h r) \<and> \<not> (\<exists>i a. holds_claim s' i a \<and> compositeKey a = k)"
      using kept free by blast
  next
    show "\<forall>d run rs v. idempotent sha256Hex memIdempotencyStore (kdDefinition d) (kdKey d) (kdActor d) (kdPayload d) run (rs, v) =
         (case idem_begin sha256Hex d rs of
            (Inl e, rs1) \<Rightarrow> (e, (rs1, v))
          | (Inr ctx, rs1) \<Rightarrow>
              (case run (rs1, v) of
                 (x, (rs2, v2)) \<Rightarrow> (case idem_settle ctx (idem_outcome d x) rs2 of (e, rs3) \<Rightarrow> (e, (rs3, v2)))))"
      by (intro allI) (rule idempotent_cut)
  qed
qed

theorem one_dispatch_per_key_witness:
  "\<exists>s :: (int, int, string) idem_state. idem_steps id no_dispatches s
     \<and> map snd (dispatches s) = [Executing pay_claim, Settled (Failure (Fails (IdempotencyInFlight ''Pay'' ''k1'')))]
     \<and> holds_claim s 0 pay_claim \<and> \<not> holds_claim s 1 pay_claim"
proof -
  let ?empty = "no_dispatches :: (int, int, string) idem_state"
  let ?rs = "[(compositeKey pay_claim, ClaimedRecord (payloadHash pay_claim))]"
  let ?s1 = "\<lparr>idemRecords = [], dispatches = [(pay_dispatch, Starting)]\<rparr> :: (int, int, string) idem_state"
  let ?s2 = "\<lparr>idemRecords = ?rs, dispatches = [(pay_dispatch, Executing pay_claim)]\<rparr> :: (int, int, string) idem_state"
  let ?s3 = "\<lparr>idemRecords = ?rs, dispatches = [(pay_dispatch, Executing pay_claim), (pay_dispatch, Starting)]\<rparr> :: (int, int, string) idem_state"
  let ?s4 = "\<lparr>idemRecords = ?rs, dispatches = [(pay_dispatch, Executing pay_claim),
    (pay_dispatch, Settled (Failure (Fails (IdempotencyInFlight ''Pay'' ''k1''))))]\<rparr> :: (int, int, string) idem_state"
  have begun: "idem_begin id pay_dispatch [] = (Inr pay_claim :: ((string DispatchError, int) exit, IdempotencyContext) result, ?rs)"
    "idem_begin id pay_dispatch ?rs = (Inl (Failure (Fails (IdempotencyInFlight ''Pay'' ''k1'')))
      :: ((string DispatchError, int) exit, IdempotencyContext) result, ?rs)"
    by (simp_all add: idem_begin_def pay_dispatch_def pay_message_def pay_claim_def begin_mem_def Let_def)
  have "idem_step id ?empty ?s1" using idem_step.arrives [of id ?empty pay_dispatch] by (simp add: no_dispatches_def)
  moreover have "idem_step id ?s1 ?s2" using idem_step.begins [of 0 ?s1 pay_dispatch id] begun(1) by simp
  moreover have "idem_step id ?s2 ?s3" using idem_step.arrives [of id ?s2 pay_dispatch] by simp
  moreover have "idem_step id ?s3 ?s4" using idem_step.begins [of 1 ?s3 pay_dispatch id] begun(2) by simp
  ultimately have reach: "idem_steps id ?empty ?s4" by (meson idem_stay idem_move)
  moreover have held: "holds_claim ?s4 0 pay_claim" by (simp add: holds_claim_def)
  moreover have "\<not> holds_claim ?s4 1 pay_claim" using one_dispatch_per_key [OF reach] held by fastforce
  ultimately show ?thesis by (intro exI [of _ ?s4]) simp
qed

text \<open>
  A replay returns the recorded result: after a dispatch with an idempotency key has succeeded over the in-memory
  store, the same key, actor and payload give the same result in every later world that still holds the record, without
  running the handler and without any change, whatever the handler would do; a payload with another hash is refused as
  a mismatch, also without any change.
\<close>

theorem replay_returns_recorded:
  assumes "encodePayload def p = Some ep" and "\<forall>s e. encodeSuccess def s = Some e \<longrightarrow> decodeSuccess def e = Inr s"
    and "idempotent sha256Hex memIdempotencyStore def key who p run w = (Success s, w')"
    and "mem_record_at w2 (idempotency_context sha256Hex def key who ep) = mem_record_at w' (idempotency_context sha256Hex def key who ep)"
    and "encodePayload def p' = Some ep'" and "sha256Hex (payload_text ep') \<noteq> sha256Hex (payload_text ep)"
  shows "idempotent sha256Hex memIdempotencyStore def key who p run' w2 = (Success s, w2)
    \<and> idempotent sha256Hex memIdempotencyStore def key who p' run' w2 = (Failure (Fails (IdempotencyMismatch (msgTag def) key)), w2)"
proof -
  obtain r where r: "mem_record_at w2 (idempotency_context sha256Hex def key who ep) =
      Some (CompletedRecord (sha256Hex (payload_text ep)) r)" "decodeSuccess def r = Inr s"
    using mem_idempotency.success_recorded [OF assms(1-3)] assms(4) by auto
  with mem_idempotency.other_payload_scope [of w2 sha256Hex def key who ep ep']
  have "mem_record_at w2 (idempotency_context sha256Hex def key who ep') = Some (CompletedRecord (sha256Hex (payload_text ep)) r)"
    by simp
  from mem_idempotency.replayed [OF assms(5) this r(2), where run = run'] mem_idempotency.replayed [OF assms(1) r, where run = run']
    assms(6)
  show ?thesis by simp
qed

theorem replay_returns_recorded_witness:
  "\<exists>w'. idempotent id memIdempotencyStore pay_message ''k1'' (Some ''alice'') 5 (\<lambda>(rs, n). (Success (n + 5), (rs, n + 5))) ([], 10)
      = (Success 15 :: (unit DispatchError, int) exit, w')
    \<and> idempotent id memIdempotencyStore pay_message ''k1'' (Some ''alice'') 5 (\<lambda>(rs, n). (Success (n + 5), (rs, n + 5))) w'
      = (Success 15 :: (unit DispatchError, int) exit, w')"
proof -
  let ?run = "\<lambda>(rs, n). (Success (n + 5) :: (unit DispatchError, int) exit, (rs, n + 5))"
  obtain w' where first: "idempotent id memIdempotencyStore pay_message ''k1'' (Some ''alice'') 5 ?run ([], 10) = (Success 15, w')"
    by (simp add: idempotent_def pay_message_def Let_def memIdempotencyStore_def begin_mem_def)
  have "payload_text (JNum 6) \<noteq> payload_text (JNum 5)" by code_simp
  then show ?thesis
    using replay_returns_recorded [where sha256Hex = id and def = pay_message and p = 5 and ep = "JNum 5" and p' = 6
        and ep' = "JNum 6" and run = ?run and run' = ?run, OF _ _ first refl] first
    by (auto simp: pay_message_def)
qed

text \<open>
  C14. The buses mediate every effect: a dispatch over an authorizer built from message rules and an accepted policy changes
  the world, or succeeds, only when a handler of that kind is registered, the input decodes and the rules admit the
  message for the acting principal; otherwise it fails and leaves everything, the idempotency records included, as it was.
\<close>

theorem dispatch_mediates:
  assumes "busAuthorize b = authorize rs current" and "accepted_policy (rulesPolicy rs)"
    and "dispatch sha256Hex b def input opts parent i c w = (x, w')" and "w' \<noteq> w \<or> (\<exists>s. x = Success s)"
  shows "\<exists>reg p. jsget (busRegistry b) (msgTag def) = Some reg \<and> msgKind (regDefinition reg) = msgKind def
    \<and> decodePayload def input = Inr p
    \<and> message_admitted rs current \<lparr>requestTag = msgTag def, requestKind = msgKind def, requestPayload = p,
        requestActor = (case optActor opts of None \<Rightarrow> ctxActor parent | Some a \<Rightarrow> Some a)\<rparr>"
proof -
  have "dispatchable b def input opts parent" using dispatch_needs [OF assms(3)] assms(4) by blast
  then obtain reg p where rp: "jsget (busRegistry b) (msgTag def) = Some reg" "msgKind (regDefinition reg) = msgKind def"
    "decodePayload def input = Inr p"
    "authorize rs current \<lparr>requestTag = msgTag def, requestKind = msgKind def, requestPayload = p,
        requestActor = (case optActor opts of None \<Rightarrow> ctxActor parent | Some a \<Rightarrow> Some a)\<rparr> = Inr (Inr ())"
    by (auto simp: dispatchable_def assms(1))
  let ?request = "\<lparr>requestTag = msgTag def, requestKind = msgKind def, requestPayload = p,
        requestActor = (case optActor opts of None \<Rightarrow> ctxActor parent | Some a \<Rightarrow> Some a)\<rparr>"
  from authorize_admits [OF assms(2), of current ?request] rp(4) have "message_admitted rs current ?request" by simp
  with rp(1-3) show ?thesis by blast
qed

theorem dispatch_mediates_witness:
  "fst (dispatch id approve_bus approve_message (JStr ''alice'') no_dispatch_options root_correlation ''m1'' ''c1'' (0::nat)) = Success 1
   \<and> message_admitted invoice_rules (Some alice) \<lparr>requestTag = ''Approve'', requestKind = CommandKind, requestPayload = ''alice'', requestActor = None\<rparr>"
proof -
  have ok: "dispatch id approve_bus approve_message (JStr ''alice'') no_dispatch_options root_correlation ''m1'' ''c1'' (0::nat) = (Success 1, 1)"
    by code_simp
  show ?thesis
    using dispatch_mediates [of approve_bus invoice_rules "Some alice", OF _ _ ok] invoice_rules_accepted ok
    by (auto simp: approve_bus_def makeQueryBus_def approve_message_def no_dispatch_options_def root_correlation_def)
qed

text \<open>
  Idempotency records of an anonymous caller and of a caller whose id is empty are the same record, although the
  interface describes an anonymous dispatch as a scope of its own; all other actors are kept apart.
\<close>

theorem anonymous_is_the_empty_actor:
  assumes "CHR 0x00 \<notin> set (idemTag a)" and "CHR 0x00 \<notin> set (idemTag b)"
    and "CHR 0x00 \<notin> set (getOr [] (idemActor a))" and "CHR 0x00 \<notin> set (getOr [] (idemActor b))"
  shows "compositeKey a = compositeKey b \<longleftrightarrow>
      idemTag a = idemTag b \<and> idemKey a = idemKey b \<and>
      (idemActor a = idemActor b \<or> idemActor a \<in> {None, Some []} \<and> idemActor b \<in> {None, Some []})"
  unfolding compositeKey_iff [OF assms] by (cases "idemActor a"; cases "idemActor b") auto

section \<open>Rate limiting\<close>

text \<open>
  C15. The budget holds: over the in-memory store, with at most as many keys in use as it keeps and a clock that never goes
  back, no key is let through more often than its points within any sliding window, at whatever times and in whatever
  order the keys are charged.
\<close>

theorem rate_budget_holds:
  assumes "finite K" and "int (card K) \<le> maxKeys opts" and "snd ` set cs \<subseteq> K" and "sorted (map fst cs)"
  shows "int (length (filter (\<lambda>h. s - windowMillis (rules k) < h \<and> h \<le> s)
      (allowed_times k (fst (run_consumes opts rules cs emptyRates))))) \<le> max 0 (points (rules k))"
proof -
  let ?now = "case cs of [] \<Rightarrow> 0 | c # _ \<Rightarrow> fst c"
  have "sorted (?now # map fst cs)" using assms(4) by (cases cs) auto
  from run_budget [OF empty_rates_ok(4) [OF assms(1,2)] empty_rates_ok(2) empty_rates_ok(3) assms(3) this, where k = k and s = s]
  show ?thesis by (simp add: in_window_def)
qed

theorem rate_budget_holds_witness:
  "let log = fst (run_consumes no_store_options (\<lambda>_. two_per_second) [(0, ''a''), (10, ''a''), (20, ''a''), (1500, ''a'')] emptyRates) in
   log = [(0, ''a'', True), (10, ''a'', True), (20, ''a'', False), (1500, ''a'', True)]
   \<and> length (filter (\<lambda>h. 20 - 1000 < h \<and> h \<le> 20) (allowed_times ''a'' log)) \<le> 2"
proof -
  let ?cs = "[(0, ''a''), (10, ''a''), (20, ''a''), (1500, ''a'')]"
  have log: "fst (run_consumes no_store_options (\<lambda>_. two_per_second) ?cs emptyRates) =
      [(0, ''a'', True), (10, ''a'', True), (20, ''a'', False), (1500, ''a'', True)]" by code_simp
  have "int (length (filter (\<lambda>h. 20 - windowMillis two_per_second < h \<and> h \<le> 20)
      (allowed_times ''a'' (fst (run_consumes no_store_options (\<lambda>_. two_per_second) ?cs emptyRates))))) \<le> max 0 (points two_per_second)"
    by (rule rate_budget_holds [of "{''a''}"]) (simp_all add: no_store_options_def maxKeys_def)
  with log show ?thesis by (simp add: two_per_second_def Let_def)
qed

text \<open>
  Retry-After is honest: when a key is refused, every further attempt on it before the announced time has passed is
  refused as well, whatever else is charged meanwhile; and a refusal always announces a positive wait that is no longer than
  the time until the budget is restored.
\<close>

theorem retry_after_is_honest:
  assumes "finite K" and "int (card K) \<le> maxKeys opts" and "snd ` set past \<subseteq> K" and "k \<in> K"
    and "sorted (map fst past @ [t])" and "mem_consume opts k (rules k) t (snd (run_consumes opts rules past emptyRates)) = (d, st)"
    and "\<not> isAllowed d" and "snd ` set cs \<subseteq> K" and "\<forall>c \<in> set cs. fst c < t + retryAfterMillis d"
  shows "0 < retryAfterMillis d \<and> retryAfterMillis d \<le> resetMillis d \<and> (t', k, True) \<notin> set (fst (run_consumes opts rules cs st))"
proof -
  let ?now = "case past of [] \<Rightarrow> t | c # _ \<Rightarrow> fst c" and ?st = "snd (run_consumes opts rules past emptyRates)"
  have "sorted (?now # map fst past)" using assms(5) by (cases past) (auto simp: sorted_append)
  from run_ok_run [OF run_ok_empty [OF assms(1,2)] assms(3) this]
  have ok: "run_ok opts K rules (last (?now # map fst past)) ?st" .
  have "last (?now # map fst past) \<le> t" using assms(5) by (cases past) (auto simp: sorted_append last_map)
  with refused_until [OF ok assms(4) _ assms(6-9)] have "(t', k, True) \<notin> set (fst (run_consumes opts rules cs st))" by blast
  moreover have "decision_ok (rules k) d" using consume_decision_ok [of "rules k" opts k t ?st] assms(6) by simp
  ultimately show ?thesis using assms(7) by (simp add: decision_ok_def)
qed

theorem retry_after_is_honest_witness:
  "\<exists>d st. mem_consume no_store_options ''a'' two_per_second 20
        (snd (run_consumes no_store_options (\<lambda>_. two_per_second) [(0, ''a''), (10, ''a'')] emptyRates)) = (d, st)
     \<and> retryAfterMillis d = 500
     \<and> (\<forall>t'. (t', ''a'', True) \<notin> set (fst (run_consumes no_store_options (\<lambda>_. two_per_second) [(100, ''a''), (519, ''a'')] st)))"
proof -
  let ?st = "snd (run_consumes no_store_options (\<lambda>_. two_per_second) [(0, ''a''), (10, ''a'')] emptyRates)"
  obtain d st where d: "mem_consume no_store_options ''a'' two_per_second 20 ?st = (d, st)" by force
  have "retryAfterMillis (fst (mem_consume no_store_options ''a'' two_per_second 20 ?st)) = 500"
    and "\<not> isAllowed (fst (mem_consume no_store_options ''a'' two_per_second 20 ?st))" by code_simp+
  with d have r: "retryAfterMillis d = 500" "\<not> isAllowed d" by simp_all
  have "(t', ''a'', True) \<notin> set (fst (run_consumes no_store_options (\<lambda>_. two_per_second) [(100, ''a''), (519, ''a'')] st))" for t'
    using retry_after_is_honest [of "{''a''}" no_store_options "[(0, ''a''), (10, ''a'')]" "''a''" 20 "\<lambda>_. two_per_second" d st
        "[(100, ''a''), (519, ''a'')]" t', OF _ _ _ _ _ d r(2)] r(1)
    by (simp add: no_store_options_def maxKeys_def)
  with d r show ?thesis by blast
qed

text \<open>
  The in-memory store stays small and consistent: after any calls, of any keys under any rules at any times, it holds at
  most \<open>maxKeys\<close> entries, one per key, and \<open>peek\<close> then answers for every key, rule and time what \<open>consume\<close> would answer.
\<close>

theorem rate_store_bounded:
  assumes "0 \<le> t"
  shows "let st = foldl (\<lambda>st (k, rule, now). snd (mem_consume opts k rule now st)) emptyRates calls in
    int (length (rateEntries st)) \<le> maxKeys opts \<and> distinct (jskeys (rateEntries st))
    \<and> isAllowed (mem_peek k rule t st) = isAllowed (fst (mem_consume opts k rule t st))"
proof -
  have "rate_inv opts (foldl (\<lambda>st (k, rule, now). snd (mem_consume opts k rule now st)) st calls)" if "rate_inv opts st" for st
    using that by (induction calls arbitrary: st) (auto simp: mem_consume_inv)
  from this [OF empty_rates_ok(1)] peek_predicts [OF _ assms] show ?thesis by (simp add: rate_inv_def Let_def)
qed

theorem rate_store_bounded_witness:
  "let st = foldl (\<lambda>st (k, rule, now). snd (mem_consume one_key_options k rule now st)) emptyRates
     [(''a'', two_per_second, 0), (''b'', two_per_second, 1)] in
   jskeys (rateEntries st) = [''b''] \<and> int (length (rateEntries st)) \<le> maxKeys one_key_options"
proof -
  have "jskeys (rateEntries (foldl (\<lambda>st (k, rule, now). snd (mem_consume one_key_options k rule now st)) emptyRates
     [(''a'', two_per_second, 0), (''b'', two_per_second, 1)])) = [''b'']" by code_simp
  then show ?thesis
    using rate_store_bounded [of 0 one_key_options "[(''a'', two_per_second, 0), (''b'', two_per_second, 1)]"]
    by (simp add: Let_def)
qed

text \<open>
  The middleware stands between the budget and the handler: for a request of a group with one key over the in-memory store,
  the handler's answer comes back exactly when \<open>peek\<close> lets the key through; otherwise the answer is a 429 whose
  \<open>Retry-After\<close> covers the wait the store asked for. A group with \<open>consumeWhen\<close> charges exactly the answers its predicate
  selects, and charges nothing when it refuses; the other groups charge every request.
\<close>

theorem rate_middleware_mediates:
  assumes "rate_inv so st" and "0 \<le> now" and "reqMethod request \<noteq> ''OPTIONS''" and "\<not> isProbe request"
    and "find (\<lambda>g. groupMatch g request) (groups opts) = Some grp" and "keysOf grp request = [k]"
    and "rlStore opts = memRateStore so" and "\<forall>w. app request w = (res, w)"
    and "rateLimit opts render cid app request (now, st) = (r, out, w')"
    and "key = groupLabel grp @ '':'' @ k" and "charged = snd (mem_consume so key (groupRule grp) now st)"
  shows "if isAllowed (mem_peek key (groupRule grp) now st)
    then r = res \<and> out \<noteq> None \<and>
      w' = (now, case consumeWhen grp of None \<Rightarrow> charged
        | Some cond \<Rightarrow> if cond (case res of Inl e \<Rightarrow> render e | Inr response \<Rightarrow> response) then charged else st)
    else (\<exists>response secs. r = Inr response \<and> statusCode response = 429 \<and>
        jsget (respHeaders response) ''retry-after'' = Some (show_int secs) \<and> 1 \<le> secs \<and>
        retryAfterMillis (if consumeWhen grp = None then fst (mem_consume so key (groupRule grp) now st)
                          else mem_peek key (groupRule grp) now st) \<le> 1000 * secs)
      \<and> w' = (now, if consumeWhen grp = None then charged else st)"
proof -
  let ?asked = "if consumeWhen grp = None then fst (mem_consume so key (groupRule grp) now st) else mem_peek key (groupRule grp) now st"
  let ?out = "\<lparr>outDecision = combine (groupRule grp) [?asked], counted = True\<rparr>"
  have same: "isAllowed ?asked = isAllowed (mem_peek key (groupRule grp) now st)" using peek_predicts [OF assms(1,2)] by simp
  have all: "isAllowed (outDecision ?out) = isAllowed ?asked" by (simp add: combine_allowed)
  have "retryAfterMillis ?asked \<le> retryAfterMillis (outDecision ?out)" by (simp add: combine_retry)
  also have "\<dots> \<le> 1000 * ceil_seconds (retryAfterMillis (outDecision ?out))" by (rule ceil_seconds_covers)
  also have "\<dots> \<le> 1000 * retry_after_seconds ?out" by (simp add: retry_after_seconds_def)
  finally have covers: "retryAfterMillis ?asked \<le> 1000 * retry_after_seconds ?out" .
  have run: "rateLimit opts render cid app request (now, st) =
     (if \<not> isAllowed (outDecision ?out)
      then (Inr (deny_response cid ?out), None, (now, if consumeWhen grp = None then charged else st))
      else case consumeWhen grp of None \<Rightarrow> (res, Some ?out, (now, charged))
        | Some cond \<Rightarrow> (let (out', w3) = charge opts grp [key] cond (case res of Inl e \<Rightarrow> render e | Inr response \<Rightarrow> response) ?out (now, st)
            in (res, Some out', w3)))"
    using assms(3-8,10,11)
    by (cases "consumeWhen grp") (simp_all add: rateLimit_def Let_def forKeys_single)
  show ?thesis
  proof (cases "isAllowed (mem_peek key (groupRule grp) now st)")
    case True
    with run same all assms(9) show ?thesis
      by (cases "consumeWhen grp") (auto simp: charge_def Let_def forKeys_single assms(7,11) split: prod.splits if_splits)
  next
    case False
    have "1 \<le> retry_after_seconds ?out" by (simp add: retry_after_seconds_def)
    with False run same all assms(9) covers deny_response_429 [of cid ?out] show ?thesis by auto
  qed
qed

theorem rate_middleware_mediates_witness:
  "\<exists>out. rateLimit login_options (\<lambda>e. e) None (\<lambda>request w. (Inr login_ok :: (HttpResponse, HttpResponse) result, w)) login_request (5, emptyRates)
     = (Inr login_ok, out, (5, emptyRates))"
proof -
  obtain r out w' where run: "rateLimit login_options (\<lambda>e. e) None (\<lambda>request w. (Inr login_ok :: (HttpResponse, HttpResponse) result, w))
      login_request (5, emptyRates) = (r, out, w')" by (metis prod_cases3)
  have peek: "isAllowed (mem_peek ''login:ann'' two_per_second 5 emptyRates)" by code_simp
  have "isProbe login_request = False" "keysOf login_group login_request = [''ann'']" "groupLabel login_group @ '':'' @ ''ann'' = ''login:ann''"
    by code_simp+
  with rate_middleware_mediates [OF empty_rates_ok(1) _ _ _ _ _ _ _ run refl refl, where grp = login_group and k = "''ann''"] peek run
  show ?thesis
    by (simp add: login_options_def login_group_def login_request_def login_ok_def)
qed

section \<open>Cron schedules\<close>

text \<open>
  C16. A field means the union of its parts: every list of parts within the range of the field parses to the sorted list, without
  duplicates, of the values its parts denote (a star or a range with a step denotes every step-th value from its start), with one
  exception, which is a slip of the code. A single value with a step, such as \<open>0/10\<close>, denotes by the documentation every step-th
  value from there to the end of the range of the field; it is parsed to that one value.
\<close>

theorem cron_field_exact:
  assumes "ps \<noteq> []" and "\<forall>p \<in> set ps. part_ok lo hi p"
  shows "((\<forall>p \<in> set ps. \<not> stepped_single p) \<longrightarrow>
        parseField (join '','' (map print_part ps)) nm lo hi = Inr (sorted_list_of_set (\<Union>p \<in> set ps. denotes lo hi p)))
    \<and> (\<forall>n s. part_ok lo hi (Single n (Some s)) \<longrightarrow>
        parseField (print_part (Single n (Some s))) nm lo hi = Inr [n]
        \<and> denotes lo hi (Single n (Some s)) = {v. \<exists>k. v = n + k * s \<and> v \<le> hi})"
proof -
  have "(\<Union>p \<in> set ps. part_values lo hi p) = (\<Union>p \<in> set ps. denotes lo hi p)" if "\<forall>p \<in> set ps. \<not> stepped_single p"
    using that part_values_denoted by (intro SUP_cong) auto
  moreover have "parseField (print_part (Single n (Some s))) nm lo hi = Inr [n]" if "part_ok lo hi (Single n (Some s))" for n s
    using parseField_part_values [of "[Single n (Some s)]" lo hi nm] that by (simp add: join_def)
  ultimately show ?thesis
    using parseField_part_values [OF assms, of nm] by (simp add: denotes_def)
qed

theorem cron_field_exact_witness:
  "parseField ''1-5/2,9,*/30'' ''minute'' 0 59 = Inr [0, 1, 3, 5, 9, 30]
   \<and> parseField ''0/10'' ''minute'' 0 59 = Inr [0] \<and> 50 \<in> denotes 0 59 (Single 0 (Some 10))"
proof -
  let ?ps = "[Span 1 5 (Some 2), Single 9 None, Every (Some 30)]"
  have printed: "join '','' (map print_part ?ps) = ''1-5/2,9,*/30''" "print_part (Single 0 (Some 10)) = ''0/10''" by code_simp+
  have "(\<exists>k. v = 1 + k * 2 \<and> v \<le> 5) \<longleftrightarrow> v \<in> {1, 3, 5}" "(\<exists>k. v = k * 30 \<and> v \<le> 59) \<longleftrightarrow> v \<in> {0, 30}" for v :: nat
    by (auto; presburger)+
  then have sets: "denotes 0 59 (Span 1 5 (Some 2)) = {1, 3, 5}" "denotes 0 59 (Every (Some 30)) = {0, 30}"
    by (simp_all add: denotes_def set_eq_iff)
  have single: "denotes 0 59 (Single 9 None) = {9}" by (auto simp: denotes_def intro: exI [of _ 0])
  have "(\<Union>p \<in> set ?ps. denotes 0 59 p) = {0, 1, 3, 5, 9, 30}" using sets single by auto
  moreover have "50 \<in> {v. \<exists>k. v = 0 + k * 10 \<and> v \<le> (59 :: nat)}" by (simp add: exI [of _ 5])
  moreover have "parseField ''0/10'' ''minute'' 0 59 = Inr [0]"
  proof -
    have "\<forall>p \<in> set ?ps. part_ok 0 59 p" "part_ok 0 59 (Single 0 (Some 10))" by (simp_all add: part_ok_def)
    then show ?thesis unfolding printed(2) [symmetric] using cron_field_exact [of ?ps 0 59 "''minute''"] by blast
  qed
  ultimately show ?thesis
    using printed cron_field_exact [of ?ps 0 59 "''minute''"] by (simp add: part_ok_def)
qed

text \<open>
  C17. The next fire time is the next one: in a zone at a fixed offset from UTC, from the fourth day of 1970 on, \<open>nextRun\<close> of a parsed
  expression returns the earliest whole minute after the given instant at which the schedule asks for a fire, when one falls within the
  400 local days it looks at, and otherwise nothing: a schedule that fires less often, such as 29 February, has no next run.
\<close>

theorem next_run_is_next:
  assumes "fixed_zone formatter off" and "parseCron expression = Inr cron" and "3 * ms_per_day \<le> after"
  shows "case nextRun after cron formatter of
      Some t \<Rightarrow> after < t \<and> (t + off) div ms_per_day \<le> (after + off) div ms_per_day + 400
        \<and> cron_fires formatter off cron t \<and> (\<forall>u. after < u \<and> u < t \<longrightarrow> \<not> cron_fires formatter off cron u)
    | None \<Rightarrow> \<forall>u. after < u \<and> (u + off) div ms_per_day \<le> (after + off) div ms_per_day + 400 \<longrightarrow> \<not> cron_fires formatter off cron u"
  using fixed_zone.next_run_days [OF assms(1) parseCron_wf [OF assms(2)] assms(3)]
  by (cases "nextRun after cron formatter") simp_all

theorem next_run_is_next_witness:
  "parseCron ''30 9 * * *'' = Inr morning \<and> nextRun 1735689600000 morning utc_formatter = Some 1735723800000
   \<and> cron_fires utc_formatter 0 morning 1735723800000"
proof -
  have p: "parseCron ''30 9 * * *'' = Inr morning" by code_simp
  have n: "nextRun 1735689600000 morning utc_formatter = Some 1735723800000" by code_simp
  from next_run_is_next [OF utc.fixed_zone_axioms p, of 1735689600000] n p show ?thesis by (simp add: ms_per_day_def)
qed

text \<open>
  The rule that reads a day of week 7 as Sunday is applied to every field: minute 7 and hour 7 are read as 0, and day 7 of the month and
  July are refused.
\<close>

theorem seven_is_misread:
  assumes "split_spaces (trim expression) = [a, b, c, d, e]"
  shows "(a = ''7'' \<longrightarrow> (\<forall>cron. parseCron expression = Inr cron \<longrightarrow> minutes cron = [0]))
    \<and> (b = ''7'' \<longrightarrow> (\<forall>cron. parseCron expression = Inr cron \<longrightarrow> hours cron = [0]))
    \<and> (c = ''7'' \<or> d = ''7'' \<longrightarrow> (\<exists>why. parseCron expression = Inl why))"
  by (rule parseCron_sevens [OF assms])

end
